(* ===== verification/Needle_Prelude.thy ===== *)
theory Needle_Prelude
  imports Main "HOL-Library.List_Lexorder" "HOL-Library.Char_ord" "HOL-Library.Sublist"
begin

text \<open>
  What every component of the model shares.

  \<^item> \<open>Result<T>\<close> of \<open>include/needle/model/result.h\<close> is the sum type \<open>string + 'a\<close>: \<open>Inl\<close>
    carries the error message of \<open>Result::failure\<close>, \<open>Inr\<close> the value of \<open>Result::success\<close>.
    \<open>Maybe<T>\<close> is \<open>'a option\<close>.
  \<^item> \<open>std::string\<close> is \<open>string\<close>, a list of bytes; \<open><\<close> on it is the lexicographic order on
    unsigned bytes, the order of \<open>std::string::operator<\<close>.
  \<^item> \<open>std::map\<close> is an association list with strictly increasing keys (\<open>omap_ok\<close>), because the
    code iterates over maps and their iteration order is observable.
  \<^item> The \<open><cctype>\<close> predicates are those of the C locale.
\<close>

named_theorems omap_simps \<open>lookup equations of ordered maps and of the stores built on them\<close>

section \<open>Results\<close>

type_synonym 'a result = "string + 'a"

abbreviation failure :: "string \<Rightarrow> 'a result" where
  "failure e \<equiv> Inl e"

abbreviation success :: "'a \<Rightarrow> 'a result" where
  "success x \<equiv> Inr x"

definition is_ok :: "'a result \<Rightarrow> bool" where
  "is_ok r = (case r of Inl _ \<Rightarrow> False | Inr _ \<Rightarrow> True)"

lemma is_ok_simps [simp]: "is_ok (Inl e) = False" "is_ok (Inr x) = True"
  by (simp_all add: is_ok_def)

lemma is_ok_iff: "is_ok r \<longleftrightarrow> (\<exists>x. r = Inr x)"
  by (cases r) auto

section \<open>Characters\<close>

definition byte :: "char \<Rightarrow> nat" where
  "byte c = of_char c"

definition is_space :: "char \<Rightarrow> bool" where
  "is_space c = (byte c = 32 \<or> (9 \<le> byte c \<and> byte c \<le> 13))"

definition is_digit :: "char \<Rightarrow> bool" where
  "is_digit c = (48 \<le> byte c \<and> byte c \<le> 57)"

definition is_upper :: "char \<Rightarrow> bool" where
  "is_upper c = (65 \<le> byte c \<and> byte c \<le> 90)"

definition is_lower :: "char \<Rightarrow> bool" where
  "is_lower c = (97 \<le> byte c \<and> byte c \<le> 122)"

definition is_alpha :: "char \<Rightarrow> bool" where
  "is_alpha c = (is_upper c \<or> is_lower c)"

definition is_alnum :: "char \<Rightarrow> bool" where
  "is_alnum c = (is_alpha c \<or> is_digit c)"

definition to_lower_char :: "char \<Rightarrow> char" where
  "to_lower_char c = (if is_upper c then char_of (byte c + 32) else c)"

definition to_lower :: "string \<Rightarrow> string" where
  "to_lower s = map to_lower_char s"

lemmas char_class_defs =
  byte_def is_space_def is_digit_def is_upper_def is_lower_def is_alpha_def is_alnum_def

abbreviation newline :: char where "newline \<equiv> CHR 0x0A"
abbreviation tab :: char where "tab \<equiv> CHR 0x09"
abbreviation dquote :: char where "dquote \<equiv> CHR 0x22"
abbreviation squote :: char where "squote \<equiv> CHR 0x27"
abbreviation backslash :: char where "backslash \<equiv> CHR 0x5C"

lemma byte_less: "byte c < 256"
proof -
  have "byte c = byte c mod 256" by (simp add: byte_def)
  then show ?thesis by (metis mod_less_divisor zero_less_numeral)
qed

lemma byte_inject [simp]: "byte c = byte d \<longleftrightarrow> c = d"
  by (simp add: byte_def of_char_eq_iff)

lemma byte_char_of: "n < 256 \<Longrightarrow> byte (char_of n) = n"
  by (simp add: byte_def)

lemma is_lower_to_lower: "is_upper c \<Longrightarrow> byte (to_lower_char c) = byte c + 32"
  by (simp add: to_lower_char_def is_upper_def byte_char_of)

lemma to_lower_char_idem [simp]: "to_lower_char (to_lower_char c) = to_lower_char c"
proof (cases "is_upper c")
  case True
  then have "byte (to_lower_char c) = byte c + 32" by (rule is_lower_to_lower)
  with True have "\<not> is_upper (to_lower_char c)" by (simp add: is_upper_def)
  then show ?thesis by (simp add: to_lower_char_def [of "to_lower_char c"])
qed (simp add: to_lower_char_def)

lemma to_lower_idem [simp]: "to_lower (to_lower s) = to_lower s"
  by (simp add: to_lower_def)

lemma length_to_lower [simp]: "length (to_lower s) = length s"
  by (simp add: to_lower_def)

lemma to_lower_empty_iff [simp]: "to_lower s = [] \<longleftrightarrow> s = []"
  by (simp add: to_lower_def)

section \<open>Strings\<close>

text \<open>
  \<open>s.substr(pos, n)\<close>. The code calls it only with \<open>pos \<le> s.size()\<close>, where it does not throw.
\<close>

definition substr :: "string \<Rightarrow> nat \<Rightarrow> nat \<Rightarrow> string" where
  "substr s pos n = take n (drop pos s)"

text \<open>\<open>s.rfind(p, 0) == 0\<close> and \<open>s.substr(0, p.size()) == p\<close>.\<close>

definition starts_with :: "string \<Rightarrow> string \<Rightarrow> bool" where
  "starts_with p s = (take (length p) s = p)"

lemma starts_with_iff_prefix: "starts_with p s \<longleftrightarrow> prefix p s"
  by (metis append_eq_conv_conj append_take_drop_id prefixE prefixI starts_with_def)

lemma starts_with_append [simp]: "starts_with p (p @ s)"
  by (simp add: starts_with_def)

text \<open>\<open>s.find(c)\<close> and \<open>s.find(pat)\<close>, \<open>None\<close> for \<open>npos\<close>.\<close>

fun find_char :: "char \<Rightarrow> string \<Rightarrow> nat option" where
  "find_char c [] = None"
| "find_char c (x # xs) = (if x = c then Some 0 else map_option Suc (find_char c xs))"

fun find_sub :: "string \<Rightarrow> string \<Rightarrow> nat option" where
  "find_sub pat [] = (if pat = [] then Some 0 else None)"
| "find_sub pat (x # xs) =
     (if starts_with pat (x # xs) then Some 0 else map_option Suc (find_sub pat xs))"

lemma find_char_Some:
  "find_char c s = Some n \<Longrightarrow> n < length s \<and> s ! n = c \<and> c \<notin> set (take n s)"
  by (induction s arbitrary: n) (auto split: if_splits)

lemma find_char_None: "find_char c s = None \<longleftrightarrow> c \<notin> set s"
  by (induction s) auto

lemma find_sub_Some: "find_sub pat s = Some n \<Longrightarrow> starts_with pat (drop n s) \<and> n \<le> length s"
  by (induction s arbitrary: n) (auto simp: starts_with_def split: if_splits)

lemma find_sub_bound: "find_sub pat s = Some n \<Longrightarrow> n + length pat \<le> length s"
proof -
  assume "find_sub pat s = Some n"
  then have n: "take (length pat) (drop n s) = pat" "n \<le> length s"
    using find_sub_Some [of pat s n] by (auto simp: starts_with_def)
  then have "length pat = min (length s - n) (length pat)" by (metis length_drop length_take min.commute)
  with n show ?thesis by linarith
qed

text \<open>\<open>std::to_string\<close> on unsigned and signed integers.\<close>

fun show_nat :: "nat \<Rightarrow> string" where
  "show_nat n = (if n < 10 then [char_of (48 + n)]
                 else show_nat (n div 10) @ [char_of (48 + n mod 10)])"

declare show_nat.simps [simp del]

definition show_int :: "int \<Rightarrow> string" where
  "show_int i = (if i < 0 then CHR ''-'' # show_nat (nat (- i)) else show_nat (nat i))"

lemma show_nat_nonempty [simp]: "show_nat n \<noteq> []"
  by (subst show_nat.simps) simp

lemma show_nat_digits: "\<forall>c \<in> set (show_nat n). is_digit c"
proof (induction n rule: show_nat.induct)
  case (1 n)
  have last: "is_digit (char_of (48 + k))" if "k < 10" for k :: nat
    using that by (simp add: is_digit_def byte_char_of)
  show ?case
  proof (cases "n < 10")
    case True
    then show ?thesis by (subst show_nat.simps) (simp add: last)
  next
    case False
    then have "\<forall>c \<in> set (show_nat (n div 10)). is_digit c" by (rule "1.IH")
    moreover have "is_digit (char_of (48 + n mod 10))" by (rule last) simp
    ultimately show ?thesis using False by (subst show_nat.simps) auto
  qed
qed

text \<open>A list of strings with separators in between, as the code's \<open>if (i > 0) out += sep\<close> loops build it.\<close>

fun join :: "string \<Rightarrow> string list \<Rightarrow> string" where
  "join sep [] = []"
| "join sep [x] = x"
| "join sep (x # y # ys) = x @ sep @ join sep (y # ys)"

text \<open>The \<open>trim\<close> loops: white space removed on both sides.\<close>

definition trim :: "string \<Rightarrow> string" where
  "trim s = rev (dropWhile is_space (rev (dropWhile is_space s)))"

definition rtrim :: "(char \<Rightarrow> bool) \<Rightarrow> string \<Rightarrow> string" where
  "rtrim p s = rev (dropWhile p (rev s))"

lemma rtrim_last: "rtrim p s \<noteq> [] \<Longrightarrow> \<not> p (last (rtrim p s))"
  by (simp add: rtrim_def last_rev hd_dropWhile)

lemma rtrim_id: "s \<noteq> [] \<Longrightarrow> \<not> p (last s) \<Longrightarrow> rtrim p s = s"
  by (cases s rule: rev_cases) (auto simp: rtrim_def)

section \<open>Ordered maps\<close>

type_synonym ('k, 'v) omap = "('k \<times> 'v) list"

definition omap_ok :: "('k::linorder, 'v) omap \<Rightarrow> bool" where
  "omap_ok m = sorted_wrt (<) (map fst m)"

fun omap_set :: "'k::linorder \<Rightarrow> 'v \<Rightarrow> ('k, 'v) omap \<Rightarrow> ('k, 'v) omap" where
  "omap_set k v [] = [(k, v)]"
| "omap_set k v ((k', v') # m) =
     (if k < k' then (k, v) # (k', v') # m
      else if k = k' then (k, v) # m
      else (k', v') # omap_set k v m)"

definition omap_erase :: "'k \<Rightarrow> ('k, 'v) omap \<Rightarrow> ('k, 'v) omap" where
  "omap_erase k m = filter (\<lambda>kv. fst kv \<noteq> k) m"

lemma map_of_omap_set [simp, omap_simps]: "map_of (omap_set k v m) = (map_of m)(k \<mapsto> v)"
  by (induction m) (auto simp: fun_eq_iff)

lemma set_omap_set: "fst ` set (omap_set k v m) = insert k (fst ` set m)"
  by (metis dom_fun_upd dom_map_of_conv_image_fst map_of_omap_set option.distinct(1))

lemma omap_set_not_Nil [simp]: "omap_set k v m \<noteq> []"
  by (cases m) (auto split: if_splits)

lemma omap_ok_Nil [simp]: "omap_ok []"
  by (simp add: omap_ok_def)

lemma omap_ok_Cons: "omap_ok ((k, v) # m) \<longleftrightarrow> (\<forall>k' \<in> fst ` set m. k < k') \<and> omap_ok m"
  by (simp add: omap_ok_def)

lemma omap_ok_set [simp, intro]: "omap_ok m \<Longrightarrow> omap_ok (omap_set k v m)"
proof (induction m)
  case (Cons kv m)
  obtain k' v' where kv: "kv = (k', v')" by fastforce
  from Cons show ?case
    by (auto simp: kv omap_ok_Cons set_omap_set)
qed (simp add: omap_ok_def)

lemma omap_ok_erase [simp, intro]: "omap_ok m \<Longrightarrow> omap_ok (omap_erase k m)"
  by (induction m) (auto simp: omap_ok_def omap_erase_def)

lemma map_of_omap_erase [simp, omap_simps]: "map_of (omap_erase k m) = (map_of m)(k := None)"
  by (induction m) (auto simp: omap_erase_def fun_eq_iff)

lemma omap_ok_distinct: "omap_ok m \<Longrightarrow> distinct (map fst m)"
  by (simp add: omap_ok_def strict_sorted_iff)

lemma omap_set_same: "omap_ok m \<Longrightarrow> map_of m k = Some v \<Longrightarrow> omap_set k v m = m"
proof (induction m)
  case (Cons kv m)
  obtain k' v' where kv: "kv = (k', v')" by fastforce
  from Cons.prems have "k = k' \<or> k \<in> fst ` set m"
    by (auto simp: kv split: if_splits dest: map_of_SomeD intro: image_eqI [rotated])
  with Cons show ?case
    by (auto simp: kv omap_ok_Cons split: if_splits)
qed simp

lemma omap_ext: "omap_ok m \<Longrightarrow> omap_ok n \<Longrightarrow> map_of m = map_of n \<Longrightarrow> m = n"
proof -
  assume ok: "omap_ok m" "omap_ok n" and eq: "map_of m = map_of n"
  have "fst ` set m = fst ` set n" using eq by (metis dom_map_of_conv_image_fst)
  then have "map fst m = map fst n"
    using ok by (intro sorted_distinct_set_unique) (auto simp: omap_ok_def strict_sorted_iff)
  moreover have rebuild: "map (\<lambda>k. (k, the (map_of xs k))) (map fst xs) = xs"
    if "distinct (map fst xs)" for xs :: "('a \<times> 'b) list"
    using that by (auto intro!: map_idI simp: o_def)
  ultimately show "m = n"
    using ok eq by (metis omap_ok_distinct)
qed

section \<open>The interface of a keyed store\<close>

text \<open>
  \<open>AttributeMap\<close>, \<open>Context\<close>, the retry counters and the in-memory checkpoint store are all maps
  behind a \<open>set\<close>/\<open>get\<close> interface; \<open>Context::set\<close> normalises the value it stores (it truncates it).
  The loops of the clients are folds of \<open>put\<close>: the last value written for a key wins, and the
  default-filling loops (\<open>if (!has(k)) set(k, v)\<close>) keep the first one.
\<close>

locale keyed_store =
  fixes lookup :: "'m \<Rightarrow> 'k \<Rightarrow> 'v option"
    and put :: "'k \<Rightarrow> 'v \<Rightarrow> 'm \<Rightarrow> 'm"
    and norm :: "'v \<Rightarrow> 'v"
  assumes lookup_put: "lookup (put k v m) = (lookup m)(k \<mapsto> norm v)"
begin

lemma lookup_put_same: "lookup (put k v m) k = Some (norm v)"
  by (simp add: lookup_put)

lemma lookup_put_other: "k' \<noteq> k \<Longrightarrow> lookup (put k v m) k' = lookup m k'"
  by (simp add: lookup_put)

lemma lookup_put_all:
  "lookup (fold (\<lambda>kv. put (fst kv) (snd kv)) kvs m) k =
     (case map_of (rev kvs) k of Some v \<Rightarrow> Some (norm v) | None \<Rightarrow> lookup m k)"
  by (induction kvs rule: rev_induct) (auto simp: lookup_put)

lemma lookup_put_all_distinct:
  assumes "distinct (map fst kvs)"
  shows "lookup (fold (\<lambda>kv. put (fst kv) (snd kv)) kvs m) k =
     (case map_of kvs k of Some v \<Rightarrow> Some (norm v) | None \<Rightarrow> lookup m k)"
  using assms
proof (induction kvs arbitrary: m)
  case (Cons kv kvs)
  then have "map_of kvs (fst kv) = None" by (simp add: map_of_eq_None_iff)
  with Cons show ?case
    by (cases kv) (auto simp: lookup_put split: option.splits)
qed simp

lemma lookup_fill:
  "lookup (fold (\<lambda>kv m. if lookup m (fst kv) = None then put (fst kv) (snd kv) m else m) kvs m) k =
     (case lookup m k of Some v \<Rightarrow> Some v | None \<Rightarrow> map_option norm (map_of kvs k))"
  by (induction kvs arbitrary: m) (auto simp: lookup_put split: option.splits)

end

text \<open>A store with a well-formedness invariant, which every write keeps.\<close>

locale sized_store = keyed_store +
  fixes ok :: "'m \<Rightarrow> bool"
  assumes ok_put: "ok m \<Longrightarrow> ok (put k v m)"
begin

lemma ok_put_all: "ok m \<Longrightarrow> ok (fold (\<lambda>kv. put (fst kv) (snd kv)) kvs m)"
  by (induction kvs arbitrary: m) (auto intro: ok_put)

lemma ok_fill:
  "ok m \<Longrightarrow> ok (fold (\<lambda>kv m. if lookup m (fst kv) = None then put (fst kv) (snd kv) m else m) kvs m)"
  by (induction kvs arbitrary: m) (auto intro: ok_put)

end

end
