(* ===== verification/Attribute_Map.thy ===== *)
theory Attribute_Map
  imports Needle_Prelude
begin

text \<open>
  \<open>src/model/attribute_map.cpp\<close>: the string map behind node, edge and graph attributes, with its
  typed readers.
  The private field \<open>attrs_\<close> (a \<open>std::map\<close>) is the ordered map itself. \<open>int\<close> is 32 bits wide:
  the products of \<open>get_duration_ms\<close> wrap around (\<open>wrap32\<close>; the C++ standard leaves that overflow
  undefined). \<open>get_double\<close> and the delay computation are floating-point code and not modelled.
\<close>

type_synonym attr_map = "(string, string) omap"

section \<open>The map\<close>

definition attr_set :: "string \<Rightarrow> string \<Rightarrow> attr_map \<Rightarrow> attr_map" where
  "attr_set k v m = omap_set k v m"

definition attr_get_or :: "attr_map \<Rightarrow> string \<Rightarrow> string \<Rightarrow> string" where
  "attr_get_or m k d = (case map_of m k of Some v \<Rightarrow> v | None \<Rightarrow> d)"

abbreviation attr_get :: "attr_map \<Rightarrow> string \<Rightarrow> string" where
  "attr_get m k \<equiv> attr_get_or m k []"

definition attr_has :: "attr_map \<Rightarrow> string \<Rightarrow> bool" where
  "attr_has m k = (map_of m k \<noteq> None)"

interpretation attrs: sized_store map_of attr_set "\<lambda>v. v" omap_ok
  by unfold_locales (auto simp: attr_set_def)

lemma map_of_attr_set [simp, omap_simps]: "map_of (attr_set k v m) = (map_of m)(k \<mapsto> v)"
  by (simp add: attr_set_def)

lemma attr_get_set [omap_simps]: "attr_get_or (attr_set k v m) k' d = (if k' = k then v else attr_get_or m k' d)"
  by (simp add: attr_get_or_def)

lemma attr_has_set [omap_simps]: "attr_has (attr_set k v m) k' \<longleftrightarrow> k' = k \<or> attr_has m k'"
  by (simp add: attr_has_def)

lemma attr_get_absent: "\<not> attr_has m k \<Longrightarrow> attr_get_or m k d = d"
  by (simp add: attr_has_def attr_get_or_def)

text \<open>The two loops of the clients: write all pairs, and write those whose key is absent.\<close>

definition attr_set_all :: "(string \<times> string) list \<Rightarrow> attr_map \<Rightarrow> attr_map" where
  "attr_set_all kvs m = fold (\<lambda>kv. attr_set (fst kv) (snd kv)) kvs m"

definition attr_fill :: "(string \<times> string) list \<Rightarrow> attr_map \<Rightarrow> attr_map" where
  "attr_fill kvs m =
     fold (\<lambda>kv m. if \<not> attr_has m (fst kv) then attr_set (fst kv) (snd kv) m else m) kvs m"

lemma attr_set_all_Nil [simp]: "attr_set_all [] m = m"
  by (simp add: attr_set_all_def)

lemma map_of_attr_set_all:
  "map_of (attr_set_all kvs m) k =
     (case map_of (rev kvs) k of Some v \<Rightarrow> Some v | None \<Rightarrow> map_of m k)"
  by (simp add: attr_set_all_def attrs.lookup_put_all)

lemma attr_fill_fold:
  "attr_fill kvs m =
     fold (\<lambda>kv m. if map_of m (fst kv) = None then attr_set (fst kv) (snd kv) m else m) kvs m"
  by (simp add: attr_fill_def attr_has_def)

lemma map_of_attr_fill:
  "map_of (attr_fill kvs m) k =
     (case map_of m k of Some v \<Rightarrow> Some v | None \<Rightarrow> map_of kvs k)"
  by (simp add: attr_fill_fold attrs.lookup_fill option.map_ident split: option.splits)

lemma omap_ok_attr_set [simp, intro]: "omap_ok m \<Longrightarrow> omap_ok (attr_set k v m)"
  by (rule attrs.ok_put)

lemma omap_ok_attr_set_all [simp, intro]: "omap_ok m \<Longrightarrow> omap_ok (attr_set_all kvs m)"
  by (simp add: attr_set_all_def attrs.ok_put_all)

lemma omap_ok_attr_fill [simp, intro]: "omap_ok m \<Longrightarrow> omap_ok (attr_fill kvs m)"
  by (simp add: attr_fill_fold attrs.ok_fill)

section \<open>Integers\<close>

definition int_min :: int where "int_min = - (2 ^ 31)"
definition int_max :: int where "int_max = 2 ^ 31 - 1"

definition in_int :: "int \<Rightarrow> bool" where
  "in_int i = (int_min \<le> i \<and> i \<le> int_max)"

definition wrap32 :: "int \<Rightarrow> int" where
  "wrap32 i = (i + 2 ^ 31) mod 2 ^ 32 - 2 ^ 31"

lemmas int_range_defs = in_int_def int_min_def int_max_def

lemma wrap32_id: "in_int i \<Longrightarrow> wrap32 i = i"
  by (simp add: wrap32_def int_range_defs)

lemma in_int_wrap32 [simp]: "in_int (wrap32 i)"
proof -
  have "0 \<le> (i + 2 ^ 31) mod 2 ^ 32" "(i + 2 ^ 31) mod 2 ^ 32 < 2 ^ 32" by simp_all
  then show ?thesis unfolding wrap32_def int_range_defs by auto
qed

text \<open>
  \<open>std::stoi(s, &pos)\<close>: white space, an optional sign, decimal digits; \<open>None\<close> is its exception
  (no digits, or a value outside \<open>int\<close>), \<open>pos\<close> the number of characters it consumed.
\<close>

definition digits_value :: "string \<Rightarrow> int" where
  "digits_value ds = foldl (\<lambda>a c. a * 10 + (int (byte c) - 48)) 0 ds"

fun sign_split :: "string \<Rightarrow> bool \<times> nat \<times> string" where
  "sign_split [] = (False, 0, [])"
| "sign_split (c # cs) =
     (if c = CHR ''-'' then (True, 1, cs)
      else if c = CHR ''+'' then (False, 1, cs)
      else (False, 0, c # cs))"

definition stoi :: "string \<Rightarrow> (int \<times> nat) option" where
  "stoi s =
     (let ws = takeWhile is_space s;
          (neg, n, body) = sign_split (dropWhile is_space s);
          ds = takeWhile is_digit body;
          v = (if neg then - digits_value ds else digits_value ds)
      in if ds = [] then None
         else if in_int v then Some (v, length ws + n + length ds)
         else None)"

definition attr_get_int :: "attr_map \<Rightarrow> string \<Rightarrow> int option" where
  "attr_get_int m k =
     (case map_of m k of
        None \<Rightarrow> None
      | Some s \<Rightarrow>
          (case stoi s of
             None \<Rightarrow> None
           | Some (v, pos) \<Rightarrow> if pos = length s then Some v else None))"

definition attr_get_bool :: "attr_map \<Rightarrow> string \<Rightarrow> bool option" where
  "attr_get_bool m k =
     (case map_of m k of
        None \<Rightarrow> None
      | Some s \<Rightarrow>
          if s = ''true'' \<or> s = ''1'' \<or> s = ''yes'' then Some True
          else if s = ''false'' \<or> s = ''0'' \<or> s = ''no'' then Some False
          else None)"

definition attr_get_duration_ms :: "attr_map \<Rightarrow> string \<Rightarrow> int option" where
  "attr_get_duration_ms m k =
     (case map_of m k of
        None \<Rightarrow> None
      | Some s \<Rightarrow>
          if s = [] then None
          else
          (case stoi s of
             None \<Rightarrow> None
           | Some (v, pos) \<Rightarrow>
               if pos = length s then Some v
               else
               (let suffix = drop pos s
                in if suffix = ''ms'' then Some v
                   else if suffix = ''s'' then Some (wrap32 (v * 1000))
                   else if suffix = ''m'' then Some (wrap32 (wrap32 (v * 60) * 1000))
                   else None)))"

lemma attr_get_int_range: "attr_get_int m k = Some v \<Longrightarrow> in_int v"
  by (auto simp: attr_get_int_def stoi_def Let_def split: option.splits prod.splits if_splits)

subsection \<open>Printing and reading integers\<close>

lemma digits_value_append1: "digits_value (ds @ [c]) = digits_value ds * 10 + (int (byte c) - 48)"
  by (simp add: digits_value_def)

lemma digits_value_show_nat: "digits_value (show_nat n) = int n"
proof (induction n rule: show_nat.induct)
  case (1 n)
  have digit: "int (byte (char_of (48 + k))) = 48 + int k" if "k < 10" for k :: nat
    using that by (simp add: byte_char_of)
  show ?case
  proof (cases "n < 10")
    case True
    then show ?thesis
      by (subst show_nat.simps) (simp add: digits_value_def digit)
  next
    case False
    then have "digits_value (show_nat (n div 10)) = int (n div 10)" by (rule "1.IH")
    with False have "digits_value (show_nat n) = int (n div 10) * 10 + int (n mod 10)"
      by (subst show_nat.simps) (simp add: digits_value_append1 digit)
    also have "\<dots> = int (n div 10 * 10 + n mod 10)" by (simp only: of_nat_add of_nat_mult of_nat_numeral)
    finally show ?thesis by simp
  qed
qed

lemma digit_not_space: "is_digit c \<Longrightarrow> \<not> is_space c"
  by (simp add: is_digit_def is_space_def)

lemma sign_not_space [simp]: "\<not> is_space (CHR ''-'')" "\<not> is_digit (CHR ''-'')" "\<not> is_digit (CHR ''+'')"
  by (simp_all add: char_class_defs)

lemma takeWhile_digits_show:
  assumes "rest = [] \<or> \<not> is_digit (hd rest)"
  shows "takeWhile is_digit (show_nat n @ rest) = show_nat n"
proof -
  have "takeWhile is_digit (show_nat n @ rest) = show_nat n @ takeWhile is_digit rest"
    using show_nat_digits by (intro takeWhile_append2) auto
  moreover have "takeWhile is_digit rest = []"
    using assms by (cases rest) auto
  ultimately show ?thesis by simp
qed

lemma show_nat_Cons:
  obtains d ds where "show_nat n = d # ds" "is_digit d"
  using show_nat_digits [of n] show_nat_nonempty [of n] by (cases "show_nat n") auto

lemma sign_split_show_nat: "sign_split (show_nat n @ rest) = (False, 0, show_nat n @ rest)"
proof -
  obtain d ds where d: "show_nat n = d # ds" "is_digit d" by (rule show_nat_Cons)
  then have "d \<noteq> CHR ''-''" "d \<noteq> CHR ''+''" by (auto simp: char_class_defs)
  with d show ?thesis by simp
qed

lemma stoi_show_int:
  assumes "in_int v" and rest: "rest = [] \<or> \<not> is_digit (hd rest)"
  shows "stoi (show_int v @ rest) = Some (v, length (show_int v))"
proof (cases "v < 0")
  case True
  then have "show_int v = CHR ''-'' # show_nat (nat (- v))" by (simp add: show_int_def)
  with True assms show ?thesis
    by (simp add: stoi_def takeWhile_digits_show digits_value_show_nat)
next
  case False
  obtain d ds where d: "show_nat (nat v) = d # ds" "is_digit d" by (rule show_nat_Cons)
  then have sp: "takeWhile is_space (show_nat (nat v) @ rest) = []"
    "dropWhile is_space (show_nat (nat v) @ rest) = show_nat (nat v) @ rest"
    by (simp_all add: digit_not_space)
  from False assms show ?thesis
    by (simp add: show_int_def stoi_def sp sign_split_show_nat takeWhile_digits_show
        digits_value_show_nat Let_def)
qed

lemma show_int_nonempty [simp]: "show_int v \<noteq> []"
  by (simp add: show_int_def)

lemma duration_suffix:
  assumes "in_int v" and "suf \<noteq> []" and "\<not> is_digit (hd suf)"
    and "map_of m k = Some (show_int v @ suf)"
  shows "attr_get_duration_ms m k =
    (if suf = ''ms'' then Some v else if suf = ''s'' then Some (wrap32 (v * 1000))
     else if suf = ''m'' then Some (wrap32 (wrap32 (v * 60) * 1000)) else None)"
  using stoi_show_int [OF assms(1), of suf] assms(2-4)
  by (simp add: attr_get_duration_ms_def Let_def)

lemma wrap32_mult: "wrap32 (wrap32 a * b) = wrap32 (a * b)"
proof -
  have "wrap32 a mod 2 ^ 32 = a mod 2 ^ 32"
    unfolding wrap32_def by (metis add_diff_cancel_right' mod_diff_left_eq)
  then have "(wrap32 a * b + 2 ^ 31) mod 2 ^ 32 = (a * b + 2 ^ 31) mod 2 ^ 32"
    by (metis mod_add_left_eq mod_mult_left_eq)
  then show ?thesis by (simp add: wrap32_def)
qed

lemma wrap32_eq_iff: "wrap32 i = i \<longleftrightarrow> in_int i"
  using in_int_wrap32 [of i] wrap32_id [of i] by metis

section \<open>Properties\<close>

text \<open>an integer attribute written as \<open>std::to_string\<close> prints it is read back unchanged by
  \<open>get_int\<close>, and reading any other attribute is not affected by the write.\<close>

theorem attr_get_int_roundtrip:
  assumes "in_int v"
  shows "attr_get_int (attr_set k (show_int v) m) k = Some v \<and>
    (\<forall>k'. k' \<noteq> k \<longrightarrow> attr_get_int (attr_set k (show_int v) m) k' = attr_get_int m k')"
  using stoi_show_int [OF assms, of "[]"] by (simp add: attr_get_int_def)

theorem attr_get_int_roundtrip_witness:
  "attr_get_int (attr_set ''weight'' (show_int (-17)) []) ''weight'' = Some (-17)"
proof -
  have "in_int (-17)" by (simp add: int_range_defs)
  from attr_get_int_roundtrip [OF this] show ?thesis by blast
qed

text \<open>Fact: \<open>get_duration_ms\<close> returns the number of milliseconds of an \<open><n>m\<close> attribute exactly when
  \<open>n * 60000\<close> fits a 32-bit \<open>int\<close>; for a larger \<open>n\<close> the product has overflowed and the value is wrong.\<close>

theorem duration_minutes_exact_iff:
  assumes "in_int v"
  shows "attr_get_duration_ms (attr_set k (show_int v @ ''m'') m) k = Some (v * 60000) \<longleftrightarrow>
    in_int (v * 60000)"
proof -
  have "attr_get_duration_ms (attr_set k (show_int v @ ''m'') m) k = Some (wrap32 (v * 60 * 1000))"
    using duration_suffix [OF assms, of "''m''" "attr_set k (show_int v @ ''m'') m" k]
    by (simp add: wrap32_mult char_class_defs)
  then show ?thesis by (simp add: wrap32_eq_iff mult.commute [of v])
qed

theorem duration_minutes_exact_iff_witness:
  "attr_get_duration_ms (attr_set ''timeout'' (show_int 90 @ ''m'') []) ''timeout'' = Some 5400000 \<and>
   attr_get_duration_ms (attr_set ''timeout'' (show_int 40000 @ ''m'') []) ''timeout'' \<noteq> Some 2400000000"
proof -
  have "in_int 90" "in_int 40000" by (simp_all add: int_range_defs)
  note 1 = duration_minutes_exact_iff [OF this(1), of "''timeout''" "[]"]
    and 2 = duration_minutes_exact_iff [OF this(2), of "''timeout''" "[]"]
  have "in_int (90 * 60000)" "\<not> in_int (40000 * 60000)" by (simp_all add: int_range_defs)
  with 1 2 show ?thesis by simp
qed

end
