(* ===== verification/Needle_Context.thy ===== *)
theory Needle_Context
  imports Attribute_Map
begin

text \<open>
  \<open>include/needle/util/utf8.h\<close>, \<open>src/model/context.cpp\<close> and \<open>src/model/outcome.cpp\<close>: the
  UTF-8 boundary helpers, the execution context (a string map whose \<open>set\<close> truncates large values)
  and the outcome of a stage. The static member \<open>Context::max_value_size_\<close> is the argument \<open>lim\<close>
  of the writing operations (0 means unlimited).
\<close>

section \<open>UTF-8 boundaries\<close>

text \<open>\<open>(c & 0xC0) == 0x80\<close>: the two top bits are 10.\<close>

definition is_continuation_byte :: "char \<Rightarrow> bool" where
  "is_continuation_byte c = (byte c div 64 = 2)"

text \<open>\<open>s[i]\<close> of a \<open>std::string\<close> is \<open>'\0'\<close> at \<open>i = s.size()\<close>.\<close>

definition char_at :: "string \<Rightarrow> nat \<Rightarrow> char" where
  "char_at s i = (if i < length s then s ! i else CHR 0x00)"

fun back_to_boundary :: "string \<Rightarrow> nat \<Rightarrow> nat" where
  "back_to_boundary s 0 = 0"
| "back_to_boundary s (Suc i) =
     (if is_continuation_byte (char_at s (Suc i)) then back_to_boundary s i else Suc i)"

definition boundary_before :: "string \<Rightarrow> nat \<Rightarrow> nat" where
  "boundary_before s i = back_to_boundary s (if length s < i then length s else i)"

function boundary_after :: "string \<Rightarrow> nat \<Rightarrow> nat" where
  "boundary_after s i =
     (if i < length s \<and> is_continuation_byte (s ! i) then boundary_after s (Suc i) else i)"
  by pat_completeness auto
termination
  by (relation "measure (\<lambda>(s, i). length s - i)") auto

declare boundary_after.simps [simp del]

definition truncate_front :: "string \<Rightarrow> nat \<Rightarrow> string" where
  "truncate_front s n = (if length s \<le> n then s else take (boundary_before s n) s)"

definition truncate_back :: "string \<Rightarrow> nat \<Rightarrow> string" where
  "truncate_back s n =
     (if length s \<le> n then s else drop (boundary_after s (length s - n)) s)"

text \<open>Index \<open>i\<close> is a character boundary: the byte there does not continue a sequence.\<close>

definition is_boundary :: "string \<Rightarrow> nat \<Rightarrow> bool" where
  "is_boundary s i = (i = 0 \<or> \<not> is_continuation_byte (char_at s i))"

lemma back_to_boundary_le: "back_to_boundary s i \<le> i"
  by (induction s i rule: back_to_boundary.induct) auto

lemma back_to_boundary_is_boundary: "is_boundary s (back_to_boundary s i)"
  by (induction s i rule: back_to_boundary.induct) (auto simp: is_boundary_def)

lemma back_to_boundary_skipped:
  "back_to_boundary s i < j \<Longrightarrow> j \<le> i \<Longrightarrow> is_continuation_byte (char_at s j)"
  by (induction s i rule: back_to_boundary.induct)
    (auto simp: le_Suc_eq split: if_splits)

lemma boundary_before_le: "boundary_before s i \<le> i" "boundary_before s i \<le> length s"
  using back_to_boundary_le [of s "if length s < i then length s else i"]
  by (auto simp: boundary_before_def split: if_splits)

lemma boundary_after_bounds:
  "i \<le> length s \<Longrightarrow> i \<le> boundary_after s i \<and> boundary_after s i \<le> length s"
proof (induction s i rule: boundary_after.induct)
  case (1 s i)
  then show ?case by (auto simp: boundary_after.simps [of s i])
qed

lemma boundary_after_boundary:
  "i \<le> length s \<Longrightarrow> \<not> is_continuation_byte (char_at s (boundary_after s i))"
proof (induction s i rule: boundary_after.induct)
  case (1 s i)
  have zero: "\<not> is_continuation_byte (CHR 0x00)"
    by (simp add: is_continuation_byte_def byte_def)
  show ?case
  proof (cases "i < length s \<and> is_continuation_byte (s ! i)")
    case True
    with 1 show ?thesis by (subst boundary_after.simps) simp
  next
    case False
    with zero show ?thesis by (subst boundary_after.simps) (auto simp: char_at_def)
  qed
qed

lemma truncate_front_length: "length (truncate_front s n) \<le> n"
  using boundary_before_le(1) [of s n] by (simp add: truncate_front_def)

subsection \<open>Well-formed UTF-8\<close>

text \<open>
  The specification the helpers are measured against: a string is a sequence of characters, each a
  lead byte that determines how many continuation bytes follow. \<open>seq_len\<close> is the length of a
  character by its lead byte, 0 for a byte that cannot start one.
\<close>

definition seq_len :: "char \<Rightarrow> nat" where
  "seq_len c =
     (if byte c < 128 then 1
      else if byte c < 192 then 0
      else if byte c < 224 then 2
      else if byte c < 240 then 3
      else if byte c < 248 then 4 else 0)"

function utf8_valid :: "string \<Rightarrow> bool" where
  "utf8_valid [] = True"
| "utf8_valid (c # cs) =
     (0 < seq_len c \<and> seq_len c \<le> Suc (length cs) \<and>
      (\<forall>d \<in> set (take (seq_len c - 1) cs). is_continuation_byte d) \<and>
      utf8_valid (drop (seq_len c - 1) cs))"
  by pat_completeness auto
termination
  by (relation "measure length") auto

lemma seq_len_le: "seq_len c \<le> 4"
  by (simp add: seq_len_def)

lemma lead_not_continuation: "0 < seq_len c \<Longrightarrow> \<not> is_continuation_byte c"
  by (auto simp: seq_len_def is_continuation_byte_def split: if_splits)

lemma utf8_cut:
  "utf8_valid s \<Longrightarrow> i \<le> length s \<Longrightarrow> i = length s \<or> is_boundary s i \<Longrightarrow>
   utf8_valid (take i s) \<and> utf8_valid (drop i s)"
proof (induction s arbitrary: i rule: utf8_valid.induct)
  case (2 c cs)
  define n where "n = seq_len c - 1"
  from "2.prems"(1) have lead: "0 < seq_len c" "n \<le> length cs"
    and cont: "\<forall>d \<in> set (take n cs). is_continuation_byte d"
    and rest: "utf8_valid (drop n cs)"
    by (auto simp: n_def)
  show ?case
  proof (cases "i = 0")
    case False
    then obtain j where i: "i = Suc j" by (cases i) auto
    with "2.prems"(2) have j: "j \<le> length cs" by simp
    show ?thesis
    proof (cases "j < n")
      case True
      with lead(2) have "j < length cs" "cs ! j \<in> set (take n cs)"
        by (auto simp: in_set_conv_nth)
      with cont "2.prems"(3) i have False by (auto simp: is_boundary_def char_at_def)
      then show ?thesis ..
    next
      case False
      define k where "k = j - n"
      with False have jk: "j = n + k" by simp
      have bd: "k = length (drop n cs) \<or> is_boundary (drop n cs) k"
        using "2.prems"(3) i jk j lead(2)
        by (auto simp: is_boundary_def char_at_def split: if_splits)
      have "utf8_valid (take k (drop n cs)) \<and> utf8_valid (drop k (drop n cs))"
        using "2.IH" [of k] rest bd j jk by (simp add: n_def)
      moreover have "take n (take j cs) = take n cs" "drop n (take j cs) = take k (drop n cs)"
        by (simp_all add: jk min_def take_drop add.commute)
      ultimately show ?thesis
        using lead cont jk by (simp add: i n_def [symmetric] add.commute min_def)
          (auto simp: n_def)
    qed
  qed (use "2.prems" in simp)
qed simp

lemma utf8_next_boundary:
  assumes "utf8_valid (drop b s)" and "b < length s"
  shows "\<exists>e. b < e \<and> e \<le> b + 4 \<and> e \<le> length s \<and> (e < length s \<longrightarrow> is_boundary s e)"
proof -
  obtain c cs where cs: "drop b s = c # cs"
    using assms(2) by (cases "drop b s") auto
  define e where "e = b + seq_len c"
  have c: "0 < seq_len c" "seq_len c \<le> Suc (length cs)" "utf8_valid (drop (seq_len c - 1) cs)"
    using assms(1) cs by auto
  have len: "length s = b + Suc (length cs)"
    using assms(2) arg_cong [OF cs, of length] by simp
  have "is_boundary s e" if "e < length s"
  proof -
    have drop_e: "drop e s = drop (seq_len c - 1) cs"
      using c(1) cs unfolding e_def
      by (metis add.commute drop_Suc_Cons drop_drop Suc_pred' One_nat_def)
    have "drop e s \<noteq> []" using that by simp
    then obtain d ds where "drop e s = d # ds" by (meson neq_Nil_conv)
    with drop_e have d: "drop (seq_len c - 1) cs = d # ds" by simp
    with c(3) have "\<not> is_continuation_byte d" using lead_not_continuation by auto
    moreover have "s ! e = d" using d drop_e that by (metis nth_via_drop)
    ultimately show ?thesis using that by (simp add: is_boundary_def char_at_def)
  qed
  moreover have "b < e" "e \<le> b + 4" "e \<le> length s"
    using c seq_len_le [of c] len by (simp_all add: e_def)
  ultimately show ?thesis by blast
qed

text \<open>Fact: \<open>utf8::truncate_front\<close> on well-formed UTF-8 returns a well-formed prefix of at most
  \<open>max_bytes\<close> bytes, and gives up at most three bytes of the budget.\<close>

theorem truncate_front_utf8:
  assumes "utf8_valid s"
  shows "utf8_valid (truncate_front s n) \<and> prefix (truncate_front s n) s \<and>
    length (truncate_front s n) \<le> n \<and>
    (truncate_front s n = s \<or> n \<le> length (truncate_front s n) + 3)"
proof (cases "length s \<le> n")
  case True
  with assms show ?thesis by (simp add: truncate_front_def)
next
  case False
  define b where "b = boundary_before s n"
  have b: "b = back_to_boundary s n" using False by (simp add: b_def boundary_before_def)
  have le: "b \<le> n" "is_boundary s b"
    by (simp_all add: b back_to_boundary_le back_to_boundary_is_boundary)
  with False have cut: "utf8_valid (take b s)" "utf8_valid (drop b s)"
    using utf8_cut [OF assms, of b] by auto
  have "n \<le> b + 3"
  proof (rule ccontr)
    assume "\<not> n \<le> b + 3"
    have "b < length s" using False le by simp
    then obtain e where e: "b < e" "e \<le> b + 4" "e \<le> length s" "e < length s \<longrightarrow> is_boundary s e"
      using utf8_next_boundary [OF cut(2)] by blast
    with \<open>\<not> n \<le> b + 3\<close> False have "e \<le> n" "is_boundary s e" by auto
    moreover from this e have "is_continuation_byte (char_at s e)"
      by (intro back_to_boundary_skipped [of s n e]) (auto simp: b [symmetric])
    ultimately show False using e by (simp add: is_boundary_def)
  qed
  with False le cut show ?thesis
    by (simp add: truncate_front_def b_def [symmetric] take_is_prefix)
qed

theorem truncate_front_utf8_witness:
  "truncate_front [CHR ''a'', CHR 0xE2, CHR 0x80, CHR 0xA6] 3 = ''a'' \<and>
   utf8_valid (truncate_front [CHR ''a'', CHR 0xE2, CHR 0x80, CHR 0xA6] 3)"
proof -
  have "utf8_valid [CHR ''a'', CHR 0xE2, CHR 0x80, CHR 0xA6]" by code_simp
  note spec = truncate_front_utf8 [OF this, of 3]
  have "boundary_before [CHR ''a'', CHR 0xE2, CHR 0x80, CHR 0xA6] 3 = 1" by code_simp
  then have "truncate_front [CHR ''a'', CHR 0xE2, CHR 0x80, CHR 0xA6] 3 = ''a''"
    by (simp add: truncate_front_def)
  with spec show ?thesis by simp
qed

section \<open>Outcomes\<close>

datatype stage_status = SUCCESS | PARTIAL_SUCCESS | FAILURE | RETRY | SKIP

fun status_to_string :: "stage_status \<Rightarrow> string" where
  "status_to_string SUCCESS = ''SUCCESS''"
| "status_to_string PARTIAL_SUCCESS = ''PARTIAL_SUCCESS''"
| "status_to_string FAILURE = ''FAILURE''"
| "status_to_string RETRY = ''RETRY''"
| "status_to_string SKIP = ''SKIP''"

definition stage_status_from_string :: "string \<Rightarrow> stage_status" where
  "stage_status_from_string s =
     (if s = ''SUCCESS'' then SUCCESS
      else if s = ''PARTIAL_SUCCESS'' then PARTIAL_SUCCESS
      else if s = ''RETRY'' then RETRY
      else if s = ''SKIP'' then SKIP
      else FAILURE)"

lemma stage_status_roundtrip [simp]: "stage_status_from_string (status_to_string s) = s"
  by (cases s) (simp_all add: stage_status_from_string_def)

record outcome =
  status :: stage_status
  preferred_label :: string
  suggested_next :: "string list"
  context_updates :: "(string, string) omap"
  out_text :: string
  retry_after_ms :: int

definition new_outcome :: "stage_status \<Rightarrow> outcome" where
  "new_outcome st = \<lparr>status = st, preferred_label = [], suggested_next = [],
     context_updates = [], out_text = [], retry_after_ms = 0\<rparr>"

lemma new_outcome_simps [simp]:
  "status (new_outcome st) = st" "preferred_label (new_outcome st) = []"
  "suggested_next (new_outcome st) = []" "context_updates (new_outcome st) = []"
  "out_text (new_outcome st) = []" "retry_after_ms (new_outcome st) = 0"
  by (simp_all add: new_outcome_def)

section \<open>The execution context\<close>

type_synonym ctxt = "(string, string) omap"

definition truncation_marker :: "nat \<Rightarrow> string" where
  "truncation_marker lim = [newline, newline] @ ''[truncated at '' @ show_nat (lim div 1024) @ '' KB]''"

text \<open>The value \<open>Context::set\<close> stores.\<close>

definition clip_value :: "nat \<Rightarrow> string \<Rightarrow> string" where
  "clip_value lim v =
     (if 0 < lim \<and> lim < length v then truncate_front v lim @ truncation_marker lim else v)"

definition ctx_set :: "nat \<Rightarrow> string \<Rightarrow> string \<Rightarrow> ctxt \<Rightarrow> ctxt" where
  "ctx_set lim k v c = omap_set k (clip_value lim v) c"

definition ctx_get :: "ctxt \<Rightarrow> string \<Rightarrow> string" where
  "ctx_get c k = (case map_of c k of Some v \<Rightarrow> v | None \<Rightarrow> [])"

definition ctx_has :: "ctxt \<Rightarrow> string \<Rightarrow> bool" where
  "ctx_has c k = (map_of c k \<noteq> None)"

definition apply_updates :: "nat \<Rightarrow> (string, string) omap \<Rightarrow> ctxt \<Rightarrow> ctxt" where
  "apply_updates lim updates c = fold (\<lambda>kv. ctx_set lim (fst kv) (snd kv)) updates c"

text \<open>One context store for every size limit.\<close>

interpretation ctx: sized_store map_of "ctx_set lim" "clip_value lim" omap_ok for lim
  by unfold_locales (auto simp: ctx_set_def)

lemma map_of_ctx_set [simp, omap_simps]:
  "map_of (ctx_set lim k v c) = (map_of c)(k \<mapsto> clip_value lim v)"
  by (simp add: ctx_set_def)

lemma ctx_get_set [omap_simps]:
  "ctx_get (ctx_set lim k v c) k' = (if k' = k then clip_value lim v else ctx_get c k')"
  by (simp add: ctx_get_def)

lemma ctx_has_set [omap_simps]: "ctx_has (ctx_set lim k v c) k' \<longleftrightarrow> k' = k \<or> ctx_has c k'"
  by (simp add: ctx_has_def)

lemma omap_ok_ctx_set [simp, intro]: "omap_ok c \<Longrightarrow> omap_ok (ctx_set lim k v c)"
  by (rule ctx.ok_put)

lemma apply_updates_Nil [simp]: "apply_updates lim [] c = c"
  by (simp add: apply_updates_def)

lemma omap_ok_apply_updates [simp, intro]: "omap_ok c \<Longrightarrow> omap_ok (apply_updates lim u c)"
  by (simp add: apply_updates_def ctx.ok_put_all)

lemma map_of_apply_updates:
  "omap_ok u \<Longrightarrow> map_of (apply_updates lim u c) k =
     (case map_of u k of Some v \<Rightarrow> Some (clip_value lim v) | None \<Rightarrow> map_of c k)"
  by (simp add: apply_updates_def ctx.lookup_put_all_distinct omap_ok_distinct)

lemma clip_value_short: "length v \<le> lim \<Longrightarrow> clip_value lim v = v"
  by (simp add: clip_value_def)

lemma clip_value_zero [simp]: "clip_value 0 v = v"
  by (simp add: clip_value_def)

end
