(* ===== verification/Graph_Model.thy ===== *)
theory Graph_Model
  imports Needle_Context
begin

text \<open>
  \<open>include/needle/model/graph.h\<close>, \<open>src/model/graph.cpp\<close> and \<open>src/model/fidelity.cpp\<close>: nodes, edges
  and the graph with its queries, and the resolution of a stage's fidelity mode. Pointers to nodes
  and edges (\<open>nullptr\<close> when there is none) are options of the records they point to; the graph of a
  run is not modified while such a pointer is held.
\<close>

section \<open>Nodes, edges, graphs\<close>

datatype node_type =
  START | EXIT | CODERGEN | CONDITIONAL | PARALLEL | FAN_IN | WAIT_HUMAN | TOOL | MANAGER_LOOP | LLMKIT

record node =
  node_id :: string
  ntype :: node_type
  nattrs :: attr_map

record edge =
  efrom :: string
  eto :: string
  eattrs :: attr_map

record graph =
  gname :: string
  gnodes :: "node list"
  gedges :: "edge list"
  gattrs :: attr_map

definition node_label :: "node \<Rightarrow> string" where
  "node_label n = attr_get_or (nattrs n) ''label'' (node_id n)"

definition node_prompt :: "node \<Rightarrow> string" where
  "node_prompt n = attr_get (nattrs n) ''prompt''"

definition goal_gate :: "node \<Rightarrow> bool" where
  "goal_gate n = (attr_get_bool (nattrs n) ''goal_gate'' = Some True)"

fun type_handler :: "node_type \<Rightarrow> string" where
  "type_handler START = ''start''"
| "type_handler EXIT = ''exit''"
| "type_handler CODERGEN = ''codergen''"
| "type_handler CONDITIONAL = ''conditional''"
| "type_handler PARALLEL = ''parallel''"
| "type_handler FAN_IN = ''fan_in''"
| "type_handler WAIT_HUMAN = ''wait_human''"
| "type_handler TOOL = ''tool''"
| "type_handler MANAGER_LOOP = ''manager_loop''"
| "type_handler LLMKIT = ''llmkit''"

definition handler_type :: "node \<Rightarrow> string" where
  "handler_type n =
     (let h = attr_get (nattrs n) ''handler'' in if h \<noteq> [] then h else type_handler (ntype n))"

definition edge_label :: "edge \<Rightarrow> string" where
  "edge_label e = attr_get (eattrs e) ''label''"

definition edge_condition :: "edge \<Rightarrow> string" where
  "edge_condition e = attr_get (eattrs e) ''condition''"

definition edge_weight :: "edge \<Rightarrow> int" where
  "edge_weight e = (case attr_get_int (eattrs e) ''weight'' of Some w \<Rightarrow> w | None \<Rightarrow> 0)"

definition edge_fidelity :: "edge \<Rightarrow> string" where
  "edge_fidelity e = attr_get (eattrs e) ''fidelity''"

definition find_node :: "graph \<Rightarrow> string \<Rightarrow> node option" where
  "find_node g i = find (\<lambda>n. node_id n = i) (gnodes g)"

definition start_node :: "graph \<Rightarrow> node option" where
  "start_node g = find (\<lambda>n. ntype n = START) (gnodes g)"

definition exit_node :: "graph \<Rightarrow> node option" where
  "exit_node g = find (\<lambda>n. ntype n = EXIT) (gnodes g)"

definition outgoing_edges :: "graph \<Rightarrow> string \<Rightarrow> edge list" where
  "outgoing_edges g i = filter (\<lambda>e. efrom e = i) (gedges g)"

definition incoming_edges :: "graph \<Rightarrow> string \<Rightarrow> edge list" where
  "incoming_edges g i = filter (\<lambda>e. eto e = i) (gedges g)"

lemma find_Some_mem: "find P xs = Some x \<Longrightarrow> x \<in> set xs \<and> P x"
  by (auto simp: find_Some_iff)

lemma find_node_Some: "find_node g i = Some n \<Longrightarrow> n \<in> set (gnodes g) \<and> node_id n = i"
  by (auto simp: find_node_def dest: find_Some_mem)

lemma find_node_None: "find_node g i = None \<longleftrightarrow> i \<notin> node_id ` set (gnodes g)"
  by (auto simp: find_node_def find_None_iff)

lemma find_node_unique:
  assumes "distinct (map node_id (gnodes g))" and "n \<in> set (gnodes g)"
  shows "find_node g (node_id n) = Some n"
proof -
  obtain m where m: "find_node g (node_id n) = Some m"
    using assms(2) by (cases "find_node g (node_id n)") (auto simp: find_node_None)
  then have "m \<in> set (gnodes g)" "node_id m = node_id n" by (auto dest: find_node_Some)
  with assms have "m = n" by (auto simp: distinct_map inj_on_def)
  with m show ?thesis by simp
qed

lemma start_node_Some: "start_node g = Some n \<Longrightarrow> n \<in> set (gnodes g) \<and> ntype n = START"
  by (auto simp: start_node_def dest: find_Some_mem)

lemma exit_node_Some: "exit_node g = Some n \<Longrightarrow> n \<in> set (gnodes g) \<and> ntype n = EXIT"
  by (auto simp: exit_node_def dest: find_Some_mem)

lemma outgoing_edges_mem [simp]: "e \<in> set (outgoing_edges g i) \<longleftrightarrow> e \<in> set (gedges g) \<and> efrom e = i"
  by (auto simp: outgoing_edges_def)

lemma incoming_edges_mem [simp]: "e \<in> set (incoming_edges g i) \<longleftrightarrow> e \<in> set (gedges g) \<and> eto e = i"
  by (auto simp: incoming_edges_def)

text \<open>The targets of a node's outgoing edges, in edge order.\<close>

definition succs :: "graph \<Rightarrow> string \<Rightarrow> string list" where
  "succs g i = map eto (outgoing_edges g i)"

lemma set_succs: "set (succs g i) = {eto e | e. e \<in> set (gedges g) \<and> efrom e = i}"
  by (auto simp: succs_def)

text \<open>Every edge end names a node of the graph: what \<open>GraphBuilder\<close> guarantees.\<close>

definition edges_closed :: "graph \<Rightarrow> bool" where
  "edges_closed g =
     (\<forall>e \<in> set (gedges g). find_node g (efrom e) \<noteq> None \<and> find_node g (eto e) \<noteq> None)"

section \<open>Fidelity\<close>

datatype fidelity_mode = TRUNCATE | COMPACT | SUMMARY_LOW | SUMMARY_MEDIUM | SUMMARY_HIGH | FULL

definition fidelity_from_string :: "string \<Rightarrow> fidelity_mode" where
  "fidelity_from_string s =
     (if s = ''truncate'' then TRUNCATE
      else if s = ''compact'' then COMPACT
      else if s = ''summary:low'' \<or> s = ''summary_low'' then SUMMARY_LOW
      else if s = ''summary:medium'' \<or> s = ''summary_medium'' then SUMMARY_MEDIUM
      else if s = ''summary:high'' \<or> s = ''summary_high'' then SUMMARY_HIGH
      else if s = ''full'' then FULL
      else COMPACT)"

fun fidelity_to_string :: "fidelity_mode \<Rightarrow> string" where
  "fidelity_to_string TRUNCATE = ''truncate''"
| "fidelity_to_string COMPACT = ''compact''"
| "fidelity_to_string SUMMARY_LOW = ''summary:low''"
| "fidelity_to_string SUMMARY_MEDIUM = ''summary:medium''"
| "fidelity_to_string SUMMARY_HIGH = ''summary:high''"
| "fidelity_to_string FULL = ''full''"

lemma fidelity_roundtrip [simp]: "fidelity_from_string (fidelity_to_string m) = m"
  by (cases m) (simp_all add: fidelity_from_string_def)

definition resolve_fidelity :: "edge option \<Rightarrow> node \<Rightarrow> graph \<Rightarrow> fidelity_mode" where
  "resolve_fidelity eo n g =
     (let ef = (case eo of Some e \<Rightarrow> edge_fidelity e | None \<Rightarrow> []) in
      if ef \<noteq> [] then fidelity_from_string ef
      else let nf = attr_get (nattrs n) ''fidelity'' in
      if nf \<noteq> [] then fidelity_from_string nf
      else let gf = attr_get (gattrs g) ''default_fidelity'' in
      if gf \<noteq> [] then fidelity_from_string gf
      else let gf' = attr_get (gattrs g) ''fidelity'' in
      if gf' \<noteq> [] then fidelity_from_string gf'
      else COMPACT)"

end
