(* ===== verification/Condition.thy ===== *)
theory Condition
  imports Needle_Context
begin

text \<open>
  Edge conditions: \<open>include/needle/model/condition.h\<close> (clauses and their evaluation against an
  outcome and the context) and \<open>src/parser/condition_parser.cpp\<close>. The lexer's \<open>(input, pos)\<close> is the
  list of the characters from \<open>pos\<close> on; positions in messages are recovered from its length.
\<close>

section \<open>Clauses and their evaluation\<close>

record clause =
  variable :: string
  op :: string
  cvalue :: string

type_synonym condition = "clause list"

definition clause_actual :: "outcome \<Rightarrow> ctxt \<Rightarrow> string \<Rightarrow> string" where
  "clause_actual out c v =
     (if v = ''outcome'' then status_to_string (status out)
      else if v = ''preferred_label'' then preferred_label out
      else if take 8 v = ''context.'' then ctx_get c (drop 8 v)
      else [])"

fun evaluate :: "condition \<Rightarrow> outcome \<Rightarrow> ctxt \<Rightarrow> bool" where
  "evaluate [] out c = True"
| "evaluate (cl # cls) out c =
     (let actual = clause_actual out c (variable cl);
          same = (to_lower actual = to_lower (cvalue cl));
          holds = (if op cl = ''!='' then \<not> same else same)
      in if \<not> holds then False else evaluate cls out c)"

lemma evaluate_iff:
  "evaluate cls out c \<longleftrightarrow>
   (\<forall>cl \<in> set cls. (to_lower (clause_actual out c (variable cl)) = to_lower (cvalue cl))
      = (op cl \<noteq> ''!=''))"
  by (induction cls) (auto simp: Let_def)

section \<open>The lexer\<close>

definition skip_ws :: "string \<Rightarrow> string" where
  "skip_ws s = dropWhile is_space s"

definition is_var_char :: "char \<Rightarrow> bool" where
  "is_var_char c = (is_alnum c \<or> c = CHR ''_'' \<or> c = CHR ''.'')"

definition is_value_char :: "char \<Rightarrow> bool" where
  "is_value_char c = (is_alnum c \<or> c = CHR ''_'' \<or> c = CHR ''.'' \<or> c = CHR ''-'')"

definition read_variable :: "string \<Rightarrow> string \<times> string" where
  "read_variable s = (takeWhile is_var_char (skip_ws s), dropWhile is_var_char (skip_ws s))"

definition read_operator :: "string \<Rightarrow> string \<times> string" where
  "read_operator s =
     (let s = skip_ws s in
      if take 2 s = ''!='' then (''!='', drop 2 s)
      else if take 1 s = ''='' then (''='', drop 1 s)
      else ([], s))"

fun read_quoted :: "string \<Rightarrow> string \<times> string" where
  "read_quoted [] = ([], [])"
| "read_quoted [c] = (if c = dquote then ([], []) else ([c], []))"
| "read_quoted (c # d # s) =
     (if c = dquote then ([], d # s)
      else if c = backslash then (let (r, s') = read_quoted s in (d # r, s'))
      else (let (r, s') = read_quoted (d # s) in (c # r, s')))"

definition read_value :: "string \<Rightarrow> string \<times> string" where
  "read_value s =
     (let s = skip_ws s in
      if take 1 s = [dquote] then read_quoted (drop 1 s)
      else (takeWhile is_value_char s, dropWhile is_value_char s))"

definition match_and :: "string \<Rightarrow> bool \<times> string" where
  "match_and s = (let s = skip_ws s in if take 2 s = ''&&'' then (True, drop 2 s) else (False, s))"

section \<open>\<open>ConditionParser::parse\<close>\<close>

lemma length_skip_ws: "length (skip_ws s) \<le> length s"
  by (simp add: skip_ws_def length_dropWhile_le)

lemma length_read_variable:
  assumes "read_variable s = (v, s')" and "v \<noteq> []"
  shows "length s' < length s"
proof -
  have "length v + length s' = length (skip_ws s)"
    using assms(1) unfolding read_variable_def
    by (metis length_append prod.inject takeWhile_dropWhile_id)
  moreover have "0 < length v" using assms(2) by simp
  ultimately show ?thesis using length_skip_ws [of s] by linarith
qed

lemma length_read_operator: "read_operator s = (v, s') \<Longrightarrow> length s' \<le> length s"
  using length_skip_ws [of s] by (auto simp: read_operator_def Let_def split: if_splits)

lemma length_read_quoted: "length (snd (read_quoted s)) \<le> length s"
  by (induction s rule: read_quoted.induct) (auto split: prod.splits)

lemma length_read_value: "read_value s = (v, s') \<Longrightarrow> length s' \<le> length s"
  using length_skip_ws [of s] length_read_quoted [of "drop 1 (skip_ws s)"]
    length_dropWhile_le [of is_value_char "skip_ws s"]
  by (auto simp: read_value_def Let_def split: if_splits)

lemma length_match_and: "match_and s = (b, s') \<Longrightarrow> length s' \<le> length s"
  using length_skip_ws [of s] by (auto simp: match_and_def Let_def split: if_splits)

text \<open>The \<open>while (true)\<close> loop; \<open>n\<close> is \<open>input.size()\<close>, \<open>acc\<close> the clauses pushed so far.\<close>

function parse_clauses :: "nat \<Rightarrow> string \<Rightarrow> condition \<Rightarrow> condition result" where
  "parse_clauses n s acc =
     (let s = skip_ws s in
      if s = [] then success acc
      else let (v, s1) = read_variable s in
      if v = [] then failure (''expected variable name at position '' @ show_nat (n - length s1))
      else let (q, s2) = read_operator s1 in
      if q = [] then failure (''expected '' @ [squote] @ ''='' @ [squote] @ '' or '' @ [squote] @ ''!=''
        @ [squote] @ '' after '' @ [squote] @ v @ [squote])
      else let (x, s3) = read_value s2 in
      if x = [] then failure (''expected value after '' @ [squote] @ v @ q @ [squote])
      else let acc = acc @ [\<lparr>variable = v, op = q, cvalue = x\<rparr>];
               s4 = skip_ws s3 in
      if s4 = [] then success acc
      else let (b, s5) = match_and s4 in
      if \<not> b then failure (''expected '' @ [squote] @ ''&&'' @ [squote]
        @ '' or end of input at position '' @ show_nat (n - length s5))
      else parse_clauses n s5 acc)"
  by pat_completeness auto
termination
proof (relation "measure (\<lambda>(n, s, acc). length s)", goal_cases)
  case (2 n s acc sa xa v s1 xb q s2 xc x s3 acca s4 xd b s5)
  then show ?case
    using length_read_variable [of sa v s1] length_read_operator [of s1 q s2]
      length_read_value [of s2 x s3] length_skip_ws [of s] length_skip_ws [of s3]
      length_match_and [of s4 b s5]
    by simp
qed simp

definition parse_condition :: "string \<Rightarrow> condition result" where
  "parse_condition e =
     (if e = [] \<or> (\<forall>c \<in> set e. is_space c) then success [] else parse_clauses (length e) e [])"

declare parse_clauses.simps [simp del]

section \<open>Well-formed clauses and the round trip\<close>

definition clause_wf :: "clause \<Rightarrow> bool" where
  "clause_wf cl = (variable cl \<noteq> [] \<and> (\<forall>c \<in> set (variable cl). is_var_char c) \<and>
     (op cl = ''='' \<or> op cl = ''!='') \<and> cvalue cl \<noteq> [])"

lemma read_operator_ops: "read_operator s = (q, s') \<Longrightarrow> q = [] \<or> q = ''='' \<or> q = ''!=''"
  by (auto simp: read_operator_def Let_def split: if_splits)

lemma read_variable_chars: "read_variable s = (v, s') \<Longrightarrow> \<forall>c \<in> set v. is_var_char c"
  by (auto simp: read_variable_def dest: set_takeWhileD)

lemma parse_clauses_wf:
  "parse_clauses n s acc = Inr cls \<Longrightarrow> \<forall>cl \<in> set acc. clause_wf cl \<Longrightarrow> \<forall>cl \<in> set cls. clause_wf cl"
proof (induction n s acc arbitrary: cls rule: parse_clauses.induct)
  case (1 n s acc)
  obtain v s1 where 1: "read_variable (skip_ws s) = (v, s1)" by fastforce
  obtain q s2 where 2: "read_operator s1 = (q, s2)" by fastforce
  obtain x s3 where 3: "read_value s2 = (x, s3)" by fastforce
  obtain b s5 where 4: "match_and (skip_ws s3) = (b, s5)" by fastforce
  let ?acc = "acc @ [\<lparr>variable = v, op = q, cvalue = x\<rparr>]"
  note eq = "1.prems"(1) [unfolded parse_clauses.simps [of n s], simplified Let_def 1 2 3 4 split_conv]
  have wf: "\<forall>cl \<in> set ?acc. clause_wf cl" if "v \<noteq> []" "q \<noteq> []" "x \<noteq> []"
    using that "1.prems"(2) read_operator_ops [OF 2] read_variable_chars [OF 1]
    by (auto simp: clause_wf_def)
  show ?case
  proof (cases "skip_ws s = [] \<or> v = [] \<or> q = [] \<or> x = []")
    case True
    with eq "1.prems"(2) show ?thesis by (auto split: if_splits)
  next
    case False
    with wf have acc: "\<forall>cl \<in> set ?acc. clause_wf cl" by blast
    show ?thesis
    proof (cases "skip_ws s3 = []")
      case True
      with eq False acc show ?thesis by auto
    next
      case more: False
      with eq False have b: b and run: "parse_clauses n s5 ?acc = Inr cls"
        by (auto split: if_splits)
      from False more b show ?thesis
        by (intro "1.IH" [OF refl _ 1 [symmetric] refl _ 2 [symmetric] refl _ 3 [symmetric] refl _
              refl refl _ 4 [symmetric] refl _ run acc]) auto
    qed
  qed
qed

text \<open>A canonical concrete syntax: every value quoted, its quotes and backslashes escaped.\<close>

fun escape_value :: "string \<Rightarrow> string" where
  "escape_value [] = []"
| "escape_value (c # s) =
     (if c = dquote \<or> c = backslash then backslash # c # escape_value s else c # escape_value s)"

definition show_clause :: "clause \<Rightarrow> string" where
  "show_clause cl = variable cl @ op cl @ dquote # escape_value (cvalue cl) @ [dquote]"

definition show_condition :: "condition \<Rightarrow> string" where
  "show_condition cls = join '' && '' (map show_clause cls)"

lemma read_quoted_escape: "read_quoted (escape_value v @ dquote # rest) = (v, rest)"
proof (induction v)
  case Nil
  then show ?case by (cases rest) auto
next
  case (Cons c v)
  obtain d t where dt: "escape_value v @ dquote # rest = d # t"
    by (metis append_is_Nil_conv list.exhaust list.distinct(1))
  show ?case
  proof (cases "c = dquote \<or> c = backslash")
    case True
    with Cons show ?thesis by (cases "c = dquote") auto
  next
    case False
    with Cons dt show ?thesis by auto
  qed
qed

lemma skip_ws_id: "s = [] \<or> \<not> is_space (hd s) \<Longrightarrow> skip_ws s = s"
  by (cases s) (auto simp: skip_ws_def)

lemma var_char_not_space: "is_var_char c \<Longrightarrow> \<not> is_space c"
  by (auto simp: is_var_char_def char_class_defs)

lemma op_not_var_char: "\<not> is_var_char (CHR ''='')" "\<not> is_var_char (CHR ''!'')"
  by (code_simp+)

lemma var_chars_unfold:
  assumes "\<forall>c \<in> set v. is_var_char c" and "\<not> is_var_char d"
  shows "takeWhile is_var_char (v @ d # s) = v" "dropWhile is_var_char (v @ d # s) = d # s"
  using assms by (simp_all add: takeWhile_append dropWhile_append)

lemma op_not_space [simp]: "skip_ws (CHR ''='' # s) = CHR ''='' # s" "skip_ws (CHR ''!'' # s) = CHR ''!'' # s"
  "skip_ws (dquote # s) = dquote # s" "skip_ws (CHR ''&'' # s) = CHR ''&'' # s"
  by (rule skip_ws_id; code_simp)+

lemma parse_one_clause:
  assumes "clause_wf cl"
  shows "parse_clauses n (skip_ws (show_clause cl @ rest)) acc =
    (let acc = acc @ [cl]; s4 = skip_ws rest in
      if s4 = [] then success acc
      else let (b, s5) = match_and s4 in
      if \<not> b then failure (''expected '' @ [squote] @ ''&&'' @ [squote]
        @ '' or end of input at position '' @ show_nat (n - length s5))
      else parse_clauses n s5 acc)"
proof -
  obtain q t where q: "op cl = q # t" "q = CHR ''='' \<and> t = [] \<or> q = CHR ''!'' \<and> t = ''=''"
    using assms by (auto simp: clause_wf_def)
  let ?tail = "t @ dquote # escape_value (cvalue cl) @ dquote # rest"
  have src: "show_clause cl @ rest = variable cl @ q # ?tail" by (simp add: show_clause_def q)
  have v: "variable cl \<noteq> []" "\<forall>c \<in> set (variable cl). is_var_char c" "cvalue cl \<noteq> []"
    using assms by (auto simp: clause_wf_def)
  then have "\<not> is_space (hd (variable cl))" by (simp add: var_char_not_space)
  with v have ws: "skip_ws (variable cl @ q # ?tail) = variable cl @ q # ?tail"
    by (intro skip_ws_id) simp
  have "\<not> is_var_char q" using q(2) op_not_var_char by auto
  with v have 1: "read_variable (variable cl @ q # ?tail) = (variable cl, q # ?tail)"
    by (simp add: read_variable_def ws var_chars_unfold)
  have 2: "read_operator (q # ?tail) = (op cl, dquote # escape_value (cvalue cl) @ dquote # rest)"
    using q by (auto simp: read_operator_def)
  have 3: "read_value (dquote # escape_value (cvalue cl) @ dquote # rest) = (cvalue cl, rest)"
    by (simp add: read_value_def read_quoted_escape)
  have cl: "\<lparr>variable = variable cl, op = q # t, cvalue = cvalue cl\<rparr> = cl" by (simp flip: q(1))
  show ?thesis
    unfolding src ws
    by (subst parse_clauses.simps) (simp add: ws 1 2 3 cl v q(1) Let_def)
qed

lemma show_clause_Cons: "clause_wf cl \<Longrightarrow> \<exists>c s. show_clause cl = c # s \<and> \<not> is_space c"
  by (cases "variable cl") (auto simp: show_clause_def clause_wf_def var_char_not_space)

lemma parse_clauses_show:
  "\<forall>cl \<in> set cls. clause_wf cl \<Longrightarrow> cls \<noteq> [] \<Longrightarrow> parse_clauses n (show_condition cls) acc = Inr (acc @ cls)"
proof (induction cls arbitrary: acc)
  case (Cons cl cls)
  then have wf: "clause_wf cl" by simp
  obtain c s where cs: "show_clause cl = c # s" "\<not> is_space c" using show_clause_Cons [OF wf] by blast
  then have ws: "skip_ws (show_clause cl @ r) = show_clause cl @ r" for r by (simp add: skip_ws_id)
  note one = parse_one_clause [OF wf, unfolded ws]
  show ?case
  proof (cases cls)
    case Nil
    then show ?thesis using one [of n Nil acc] by (simp add: show_condition_def skip_ws_def)
  next
    case (Cons cl' cls')
    have rest: "show_condition (cl # cls) = show_clause cl @ '' && '' @ show_condition cls"
      using Cons by (simp add: show_condition_def)
    have sp: "is_space (CHR '' '')" "\<not> is_space (CHR ''&'')" by code_simp+
    have "clause_wf cl'" using Cons.prems Cons by simp
    from show_clause_Cons [OF this] obtain d u where "show_clause cl' = d # u" "\<not> is_space d" by blast
    then have nb: "skip_ws (CHR '' '' # show_condition cls) = show_condition cls"
      "skip_ws (show_condition cls) = show_condition cls"
      using Cons sp by (cases cls'; auto simp: show_condition_def skip_ws_def)+
    have "parse_clauses n (CHR '' '' # show_condition cls) (acc @ [cl])
        = parse_clauses n (show_condition cls) (acc @ [cl])"
      unfolding parse_clauses.simps [of n "CHR '' '' # show_condition cls"]
        parse_clauses.simps [of n "show_condition cls"] nb by (rule refl)
    then show ?thesis
      unfolding rest one using Cons.IH Cons.prems Cons
      by (simp add: match_and_def skip_ws_def sp)
  qed
qed simp

text \<open>Fact: whatever \<open>ConditionParser::parse\<close> accepts is a list of well-formed clauses (a variable name,
  \<open>=\<close> or \<open>!=\<close>, a non-empty value), and every list of well-formed clauses is reached: printing it
  with its values quoted and escaped and parsing the text gives the list back.\<close>

theorem condition_roundtrip:
  "(parse_condition e = Inr cls \<longrightarrow> (\<forall>cl \<in> set cls. clause_wf cl)) \<and>
   ((\<forall>cl \<in> set cls. clause_wf cl) \<longrightarrow> parse_condition (show_condition cls) = Inr cls)"
proof (intro conjI impI)
  assume "parse_condition e = Inr cls"
  then show "\<forall>cl \<in> set cls. clause_wf cl"
    using parse_clauses_wf [of _ e "[]"] by (auto simp: parse_condition_def split: if_splits)
next
  assume wf: "\<forall>cl \<in> set cls. clause_wf cl"
  show "parse_condition (show_condition cls) = Inr cls"
  proof (cases cls)
    case Nil
    then show ?thesis by (simp add: parse_condition_def show_condition_def)
  next
    case (Cons cl cls')
    with wf have "clause_wf cl" by simp
    from show_clause_Cons [OF this] obtain c s where "show_clause cl = c # s" "\<not> is_space c" by blast
    with Cons have "\<exists>s'. show_condition cls = c # s'" by (cases cls') (auto simp: show_condition_def)
    with \<open>\<not> is_space c\<close> have "\<not> (show_condition cls = [] \<or> (\<forall>c \<in> set (show_condition cls). is_space c))"
      by auto
    with wf Cons show ?thesis using parse_clauses_show [of cls _ "[]"] by (simp add: parse_condition_def)
  qed
qed

theorem condition_roundtrip_witness:
  "parse_condition (show_condition [\<lparr>variable = ''outcome'', op = ''='', cvalue = ''SUCCESS''\<rparr>,
      \<lparr>variable = ''context.k'', op = ''!='', cvalue = [CHR ''a'', dquote]\<rparr>]) =
   Inr [\<lparr>variable = ''outcome'', op = ''='', cvalue = ''SUCCESS''\<rparr>,
      \<lparr>variable = ''context.k'', op = ''!='', cvalue = [CHR ''a'', dquote]\<rparr>]"
proof -
  let ?cls = "[\<lparr>variable = ''outcome'', op = ''='', cvalue = ''SUCCESS''\<rparr>,
      \<lparr>variable = ''context.k'', op = ''!='', cvalue = [CHR ''a'', dquote]\<rparr>]"
  have "\<forall>cl \<in> set ?cls. clause_wf cl" by code_simp
  then show ?thesis using condition_roundtrip [of "[]" ?cls] by simp
qed

end
