(* ===== verification/Edge_Selector.thy ===== *)
theory Edge_Selector
  imports Graph_Model Condition
begin

text \<open>
  \<open>src/engine/edge_selector.cpp\<close>: the choice of the edge a finished stage is left by. Candidates are
  the outgoing edges in the order the graph lists them.
\<close>

section \<open>The five steps\<close>

fun filter_edges ::
  "edge list \<Rightarrow> outcome \<Rightarrow> ctxt \<Rightarrow> edge list \<Rightarrow> edge list \<Rightarrow> edge list \<times> edge list" where
  "filter_edges [] out c unconditional matched = (unconditional, matched)"
| "filter_edges (e # es) out c unconditional matched =
     (let cond_str = edge_condition e in
      if cond_str = [] then filter_edges es out c (unconditional @ [e]) matched
      else case parse_condition cond_str of
        Inl _ \<Rightarrow> filter_edges es out c unconditional matched
      | Inr expr \<Rightarrow>
          if expr = [] then filter_edges es out c (unconditional @ [e]) matched
          else if evaluate expr out c then filter_edges es out c unconditional (matched @ [e])
          else filter_edges es out c unconditional matched)"

definition filter_by_condition :: "edge list \<Rightarrow> outcome \<Rightarrow> ctxt \<Rightarrow> edge list" where
  "filter_by_condition es out c =
     (let (unconditional, matched) = filter_edges es out c [] [] in
      if matched \<noteq> [] then matched else unconditional)"

definition match_preferred_label :: "edge list \<Rightarrow> outcome \<Rightarrow> edge option" where
  "match_preferred_label es out =
     (if preferred_label out = [] then None
      else find (\<lambda>e. edge_label e = preferred_label out) es)"

fun match_suggested :: "edge list \<Rightarrow> string list \<Rightarrow> edge option" where
  "match_suggested es [] = None"
| "match_suggested es (i # is) =
     (case find (\<lambda>e. eto e = i) es of Some e \<Rightarrow> Some e | None \<Rightarrow> match_suggested es is)"

definition match_suggested_next :: "edge list \<Rightarrow> outcome \<Rightarrow> edge option" where
  "match_suggested_next es out = match_suggested es (suggested_next out)"

text \<open>The first loop of \<open>pick_highest_weight\<close>: the running maximum and \<open>all_same\<close>.\<close>

fun weight_scan :: "edge list \<Rightarrow> int \<Rightarrow> bool \<Rightarrow> int \<times> bool" where
  "weight_scan [] max_weight all_same = (max_weight, all_same)"
| "weight_scan (e # es) max_weight all_same =
     weight_scan es (if edge_weight e > max_weight then edge_weight e else max_weight)
       (if edge_weight e \<noteq> max_weight then False else all_same)"

definition pick_highest_weight :: "edge list \<Rightarrow> edge option" where
  "pick_highest_weight es =
     (case es of [] \<Rightarrow> None
      | e0 # rest \<Rightarrow>
          let (max_weight, all_same) = weight_scan rest (edge_weight e0) True in
          if all_same then None
          else let tied = filter (\<lambda>e. edge_weight e = max_weight) es in
          if length tied > 1 then None
          else (case tied of winner # _ \<Rightarrow> Some winner | [] \<Rightarrow> None))"

definition pick_lexical :: "edge list \<Rightarrow> edge option" where
  "pick_lexical es =
     (case es of [] \<Rightarrow> None
      | e0 # rest \<Rightarrow> Some (fold (\<lambda>e best. if eto e < eto best then e else best) rest e0))"

definition select_edge :: "edge list \<Rightarrow> outcome \<Rightarrow> ctxt \<Rightarrow> edge result" where
  "select_edge candidates out c =
     (if candidates = [] then failure ''no candidate edges''
      else let filtered = filter_by_condition candidates out c in
      if filtered = [] then failure ''no edges match conditions''
      else if length filtered = 1 then success (hd filtered)
      else case match_preferred_label filtered out of
        Some e \<Rightarrow> success e
      | None \<Rightarrow> case match_suggested_next filtered out of
        Some e \<Rightarrow> success e
      | None \<Rightarrow> case pick_highest_weight filtered of
        Some e \<Rightarrow> success e
      | None \<Rightarrow> case pick_lexical filtered of
        Some e \<Rightarrow> success e
      | None \<Rightarrow> failure [])"

text \<open>
  The last branch stands for the null pointer \<open>pick_lexical\<close> returns on an empty list, which the
  emptiness test above excludes (\<open>select_edge_total\<close>).
\<close>

section \<open>What each step chooses\<close>

text \<open>The edges whose (non-blank) condition holds, and those that carry no condition.\<close>

definition condition_holds :: "edge \<Rightarrow> outcome \<Rightarrow> ctxt \<Rightarrow> bool" where
  "condition_holds e out c =
     (case parse_condition (edge_condition e) of
        Inl _ \<Rightarrow> False | Inr expr \<Rightarrow> expr \<noteq> [] \<and> evaluate expr out c)"

definition no_condition :: "edge \<Rightarrow> bool" where
  "no_condition e = (parse_condition (edge_condition e) = Inr [])"

lemma filter_edges_eq:
  "filter_edges es out c us ms =
     (us @ filter no_condition es, ms @ filter (\<lambda>e. condition_holds e out c) es)"
  by (induction es arbitrary: us ms)
    (auto simp: Let_def no_condition_def condition_holds_def parse_condition_def split: sum.splits)

lemma filter_by_condition_eq:
  "filter_by_condition es out c =
     (if \<exists>e \<in> set es. condition_holds e out c then filter (\<lambda>e. condition_holds e out c) es
      else filter no_condition es)"
  by (auto simp: filter_by_condition_def filter_edges_eq filter_empty_conv)

lemma filter_by_condition_subset: "set (filter_by_condition es out c) \<subseteq> set es"
  by (auto simp: filter_by_condition_eq)

lemma match_suggested_None: "match_suggested es is = None \<longleftrightarrow> (\<forall>e \<in> set es. eto e \<notin> set is)"
proof (induction "is")
  case (Cons i "is")
  show ?case
  proof (cases "find (\<lambda>e. eto e = i) es")
    case (Some e)
    then show ?thesis using find_Some_mem [OF Some] by auto
  next
    case None
    then have "\<forall>e \<in> set es. eto e \<noteq> i" by (simp add: find_None_iff)
    with None Cons show ?thesis by auto
  qed
qed simp

lemma match_suggested_Some:
  "match_suggested es is = Some e \<Longrightarrow>
   e \<in> set es \<and> (\<exists>pre post. is = pre @ eto e # post \<and> (\<forall>e' \<in> set es. eto e' \<notin> set pre))"
proof (induction "is")
  case (Cons i "is")
  show ?case
  proof (cases "find (\<lambda>e. eto e = i) es")
    case None
    with Cons obtain pre post where
      e: "e \<in> set es" "is = pre @ eto e # post" "\<forall>e' \<in> set es. eto e' \<notin> set pre" by auto
    with None have "i # is = (i # pre) @ eto e # post" "\<forall>e' \<in> set es. eto e' \<notin> set (i # pre)"
      by (auto simp: find_None_iff)
    with e(1) show ?thesis by blast
  next
    case (Some e')
    with Cons.prems have "e' = e" by simp
    with Some have "e \<in> set es" "eto e = i" by (auto dest: find_Some_mem)
    then have "i # is = [] @ eto e # is" by simp
    with \<open>e \<in> set es\<close> show ?thesis by (metis empty_iff list.set(1))
  qed
qed simp

lemma weight_scan_max: "weight_scan es m a = (m', a') \<Longrightarrow>
   m \<le> m' \<and> (\<forall>e \<in> set es. edge_weight e \<le> m') \<and> (m' = m \<or> m' \<in> edge_weight ` set es)
   \<and> (a' \<longleftrightarrow> a \<and> (\<forall>e \<in> set es. edge_weight e = m))"
  by (induction es m a arbitrary: m' a' rule: weight_scan.induct) (fastforce split: if_splits)+

text \<open>The edges of maximal weight.\<close>

definition heaviest :: "edge list \<Rightarrow> edge list" where
  "heaviest es = filter (\<lambda>e. \<forall>e' \<in> set es. edge_weight e' \<le> edge_weight e) es"

lemma pick_highest_weight_eq:
  assumes "1 < length es"
  shows "pick_highest_weight es = (if length (heaviest es) = 1 then Some (hd (heaviest es)) else None)"
proof -
  obtain e0 rest where es: "es = e0 # rest" using assms by (cases es) auto
  obtain m a where ma: "weight_scan rest (edge_weight e0) True = (m, a)" by fastforce
  have top: "\<forall>x \<in> set es. edge_weight x \<le> m" and hit: "\<exists>x \<in> set es. edge_weight x = m"
    and same: "a \<longleftrightarrow> (\<forall>x \<in> set es. edge_weight x = edge_weight e0)"
    using weight_scan_max [OF ma] by (auto simp: es)
  have "(\<forall>e' \<in> set es. edge_weight e' \<le> edge_weight e) = (edge_weight e = m)" if "e \<in> set es" for e
    using top hit that by (metis antisym)
  then have tied: "heaviest es = filter (\<lambda>e. edge_weight e = m) es"
    unfolding heaviest_def by (rule filter_cong [OF refl])
  have pick: "pick_highest_weight es =
      (if a \<or> length (heaviest es) > 1 then None
       else (case heaviest es of winner # _ \<Rightarrow> Some winner | [] \<Rightarrow> None))"
    unfolding tied by (simp add: pick_highest_weight_def es ma del: filter.simps)
  have "heaviest es \<noteq> []" using hit by (auto simp: tied filter_empty_conv)
  moreover have "a \<Longrightarrow> length (heaviest es) > 1"
    using same hit assms by (auto simp: tied)
  ultimately show ?thesis
    unfolding pick by (cases "heaviest es") (auto simp: Suc_le_eq)
qed

lemma lexical_fold:
  "fold (\<lambda>e best. if eto e < eto best then e else best) es b \<in> insert b (set es) \<and>
   (\<forall>e \<in> insert b (set es). eto (fold (\<lambda>e best. if eto e < eto best then e else best) es b) \<le> eto e)"
proof (induction es arbitrary: b)
  case (Cons e es)
  show ?case
    using Cons [of "if eto e < eto b then e else b"] by (auto split: if_splits)
qed simp

lemma pick_lexical_Some:
  "pick_lexical es = Some e \<Longrightarrow> e \<in> set es \<and> (\<forall>e' \<in> set es. eto e \<le> eto e')"
  using lexical_fold [of "tl es" "hd es"] by (cases es) (auto simp: pick_lexical_def)

lemma pick_lexical_None [simp]: "pick_lexical es = None \<longleftrightarrow> es = []"
  by (cases es) (auto simp: pick_lexical_def)

lemma select_edge_cases:
  assumes "select_edge es out c = Inr e"
  defines "E \<equiv> filter_by_condition es out c"
  shows "es \<noteq> [] \<and> E \<noteq> [] \<and> (E = [e] \<or> 1 < length E \<and>
    (match_preferred_label E out = Some e \<or> match_preferred_label E out = None \<and>
     (match_suggested_next E out = Some e \<or> match_suggested_next E out = None \<and>
      (pick_highest_weight E = Some e \<or> pick_highest_weight E = None \<and> pick_lexical E = Some e))))"
proof -
  have one: "E = [hd E] \<longleftrightarrow> length E = 1" by (cases E) auto
  have "1 < length E" if "E \<noteq> []" "length E \<noteq> 1"
    using that by (cases E) auto
  then show ?thesis
    using assms(1) one unfolding select_edge_def E_def [symmetric]
    by (auto simp: Let_def split: if_splits option.splits)
qed

lemma preferred_label_Some:
  "match_preferred_label es out = Some e \<Longrightarrow> e \<in> set es \<and> edge_label e = preferred_label out"
  by (auto simp: match_preferred_label_def split: if_splits dest: find_Some_mem)

lemma preferred_label_None: "match_preferred_label es out = None \<longleftrightarrow>
  preferred_label out = [] \<or> (\<forall>e \<in> set es. edge_label e \<noteq> preferred_label out)"
  by (auto simp: match_preferred_label_def find_None_iff)

lemma pick_highest_mem: "1 < length es \<Longrightarrow> pick_highest_weight es = Some e \<Longrightarrow>
  e \<in> set es \<and> (\<forall>e' \<in> set es. edge_weight e' \<le> edge_weight e)"
proof -
  assume "1 < length es" "pick_highest_weight es = Some e"
  then have "e \<in> set (heaviest es)"
    by (auto simp: pick_highest_weight_eq length_Suc_conv split: if_splits)
  then show ?thesis by (simp add: heaviest_def)
qed

lemma select_edge_mem: "select_edge es out c = Inr e \<Longrightarrow> e \<in> set (filter_by_condition es out c)"
  using select_edge_cases [of es out c e] preferred_label_Some pick_highest_mem pick_lexical_Some
    match_suggested_Some [of "filter_by_condition es out c" "suggested_next out" e]
  unfolding match_suggested_next_def by fastforce

lemma select_edge_ok_iff:
  "is_ok (select_edge es out c) \<longleftrightarrow> (\<exists>e \<in> set es. condition_holds e out c \<or> no_condition e)"
proof -
  have "is_ok (select_edge es out c) \<longleftrightarrow> filter_by_condition es out c \<noteq> []"
    by (auto simp: select_edge_def filter_by_condition_eq Let_def split: option.splits if_splits)
  then show ?thesis by (auto simp: filter_by_condition_eq filter_empty_conv)
qed

section \<open>Properties\<close>

text \<open>Fact: \<open>EdgeSelector::select\<close> succeeds exactly when some candidate's condition holds or some candidate
  has no condition; the edge it returns is one of the candidates, its condition holds if any
  candidate's does, and it carries no condition otherwise.\<close>

theorem select_edge_sound:
  "(is_ok (select_edge es out c) \<longleftrightarrow> (\<exists>e \<in> set es. condition_holds e out c \<or> no_condition e)) \<and>
   (\<forall>e. select_edge es out c = Inr e \<longrightarrow> e \<in> set es \<and>
      (if \<exists>e' \<in> set es. condition_holds e' out c then condition_holds e out c else no_condition e))"
proof (intro conjI allI impI select_edge_ok_iff)
  fix e assume "select_edge es out c = Inr e"
  then have "e \<in> set (filter_by_condition es out c)" by (rule select_edge_mem)
  then show "e \<in> set es" "if \<exists>e' \<in> set es. condition_holds e' out c then condition_holds e out c
      else no_condition e"
    by (auto simp: filter_by_condition_eq split: if_splits)
qed

text \<open>Fact: the priority of the selection. Among the eligible edges the preferred label of the outcome
  decides if one carries it; else the first suggested id that is the target of one; else the unique
  edge of maximal weight; else the edge with the least target name.\<close>

theorem select_edge_priority:
  assumes "select_edge es out c = Inr e"
  defines "E \<equiv> filter_by_condition es out c"
  shows "if preferred_label out \<noteq> [] \<and> (\<exists>x \<in> set E. edge_label x = preferred_label out)
         then edge_label e = preferred_label out
         else if \<exists>x \<in> set E. eto x \<in> set (suggested_next out)
         then (\<exists>pre post. suggested_next out = pre @ eto e # post \<and> (\<forall>x \<in> set E. eto x \<notin> set pre))
         else if length (heaviest E) = 1 then heaviest E = [e]
         else (\<forall>x \<in> set E. eto e \<le> eto x)"
proof -
  note cases = select_edge_cases [OF assms(1), folded E_def]
  have len1: "E = [e] \<Longrightarrow> heaviest E = [e]" by (simp add: heaviest_def)
  show ?thesis
  proof (cases "E = [e]")
    case True
    have "\<exists>pre post. suggested_next out = pre @ eto e # post \<and> eto e \<notin> set pre"
      if "eto e \<in> set (suggested_next out)"
      using split_list_first [OF that] by blast
    with True len1 show ?thesis by simp
  next
    case False
    with cases have long: "1 < length E" by simp
    consider (label) "match_preferred_label E out = Some e"
      | (suggested) "match_preferred_label E out = None" "match_suggested_next E out = Some e"
      | (weight) "match_preferred_label E out = None" "match_suggested_next E out = None"
          "pick_highest_weight E = Some e"
      | (lexical) "match_preferred_label E out = None" "match_suggested_next E out = None"
          "pick_highest_weight E = None" "pick_lexical E = Some e"
      using cases False by auto
    then show ?thesis
    proof cases
      case label
      then have "preferred_label out \<noteq> []" by (auto simp: match_preferred_label_def split: if_splits)
      with preferred_label_Some [OF label] show ?thesis by auto
    next
      case suggested
      then have "e \<in> set E \<and> (\<exists>pre post. suggested_next out = pre @ eto e # post \<and> (\<forall>x \<in> set E. eto x \<notin> set pre))"
        unfolding match_suggested_next_def by (intro match_suggested_Some) simp
      moreover from this have "\<exists>x \<in> set E. eto x \<in> set (suggested_next out)" by force
      moreover have "\<not> (preferred_label out \<noteq> [] \<and> (\<exists>x \<in> set E. edge_label x = preferred_label out))"
        using suggested(1) by (auto simp: preferred_label_None)
      ultimately show ?thesis by (simp only: if_False if_True simp_thms)
    next
      case weight
      then have "heaviest E = [e]" using long
        by (auto simp: pick_highest_weight_eq length_Suc_conv split: if_splits)
      with weight(1,2) show ?thesis
        by (auto simp: preferred_label_None match_suggested_next_def match_suggested_None)
    next
      case lexical
      then have "length (heaviest E) \<noteq> 1" using long
        by (auto simp: pick_highest_weight_eq split: if_splits)
      with lexical pick_lexical_Some [of E e] show ?thesis
        by (auto simp: preferred_label_None match_suggested_next_def match_suggested_None)
    qed
  qed
qed

definition edge_to :: "string \<Rightarrow> string \<Rightarrow> edge" where
  "edge_to i w = \<lparr>efrom = ''n'', eto = i, eattrs = [(''weight'', w)]\<rparr>"

lemma edge_to_simps [simp]: "eto (edge_to i w) = i" "edge_condition (edge_to i w) = []"
  "edge_label (edge_to i w) = []"
  by (simp_all add: edge_to_def edge_condition_def edge_label_def attr_get_or_def)

lemma edge_to_weight: "edge_weight (edge_to i ''5'') = 5" "edge_weight (edge_to i ''0'') = 0"
  by (simp_all add: edge_to_def edge_weight_def, code_simp+)

lemma no_condition_edge_to [simp]: "no_condition (edge_to i w)" "\<not> condition_holds (edge_to i w) out c"
  by (simp_all add: no_condition_def condition_holds_def parse_condition_def)

theorem select_edge_sound_witness:
  "\<exists>e \<in> {edge_to ''b'' ''0'', edge_to ''a'' ''5''}.
     select_edge [edge_to ''b'' ''0'', edge_to ''a'' ''5''] (new_outcome SUCCESS) [] = Inr e \<and> no_condition e"
  using select_edge_sound [of "[edge_to ''b'' ''0'', edge_to ''a'' ''5'']" "new_outcome SUCCESS" "[]"]
  by (auto simp: is_ok_iff)

theorem select_edge_priority_witness:
  "select_edge [edge_to ''b'' ''0'', edge_to ''a'' ''0'', edge_to ''c'' ''5''] (new_outcome SUCCESS) []
     = Inr (edge_to ''c'' ''5'') \<and>
   length (heaviest [edge_to ''b'' ''0'', edge_to ''a'' ''0'', edge_to ''c'' ''5'']) = 1"
proof -
  let ?es = "[edge_to ''b'' ''0'', edge_to ''a'' ''0'', edge_to ''c'' ''5'']"
  have E: "filter_by_condition ?es (new_outcome SUCCESS) [] = ?es" by (simp add: filter_by_condition_eq)
  have h: "heaviest ?es = [edge_to ''c'' ''5'']" by (simp add: heaviest_def edge_to_weight)
  have "\<exists>e. select_edge ?es (new_outcome SUCCESS) [] = Inr e"
    using select_edge_ok_iff [of ?es "new_outcome SUCCESS" "[]"] by (auto simp: is_ok_iff)
  then obtain e where e: "select_edge ?es (new_outcome SUCCESS) [] = Inr e" by blast
  from select_edge_priority [OF e] e h show ?thesis by (auto simp: E)
qed

text \<open>Fact: the weight tie. When several eligible edges share the maximal weight, \<open>pick_highest_weight\<close>
  gives up and \<open>pick_lexical\<close> looks at every eligible edge, so a lighter edge with a smaller target
  name is taken before both heavier ones.\<close>

theorem weight_tie_takes_lighter_edge:
  "select_edge [edge_to ''a'' ''0'', edge_to ''b'' ''5'', edge_to ''c'' ''5''] (new_outcome SUCCESS) []
     = Inr (edge_to ''a'' ''0'')"
proof -
  let ?es = "[edge_to ''a'' ''0'', edge_to ''b'' ''5'', edge_to ''c'' ''5'']"
  have E: "filter_by_condition ?es (new_outcome SUCCESS) [] = ?es" by (simp add: filter_by_condition_eq)
  have h: "heaviest ?es = [edge_to ''b'' ''5'', edge_to ''c'' ''5'']"
    by (simp add: heaviest_def edge_to_weight)
  have le: "\<not> ''b'' < ''a''" "\<not> ''c'' < ''a''" by code_simp+
  show ?thesis
    unfolding select_edge_def E
    by (simp add: match_preferred_label_def match_suggested_next_def pick_highest_weight_eq h
        pick_lexical_def le)
qed

end
