(* ===== verification/Dot_Lexer.thy ===== *)
theory Dot_Lexer
  imports Needle_Prelude
begin

text \<open>
  \<open>src/parser/dot_lexer.cpp\<close>, and the escaping of \<open>src/util/graph_serializer.cpp\<close> it undoes. The
  lexer's state is the source from \<open>pos_\<close> on together with \<open>(line_, col_)\<close>; the one-token buffer
  (\<open>peeked_\<close>) belongs to the parser's state. Line and column are natural numbers: the C++ \<open>int\<close>s
  overflow only on sources of more than 2 GB.
\<close>

section \<open>Tokens\<close>

datatype token_type =
  DIGRAPH | GRAPH | SUBGRAPH | STRICT | NODE | EDGE
| LBRACE | RBRACE | LBRACKET | RBRACKET | SEMICOLON | COMMA | EQUALS | ARROW
| IDENTIFIER | QUOTED_STRING | HTML_STRING | NUMBER
| END_OF_FILE | ERROR

record token =
  tok_type :: token_type
  tok_value :: string
  tok_line :: nat
  tok_col :: nat

datatype pos = Pos (line: nat) (col: nat)

type_synonym lexer = "string \<times> pos"

definition mk_token :: "token_type \<Rightarrow> string \<Rightarrow> pos \<Rightarrow> token" where
  "mk_token t v p = \<lparr>tok_type = t, tok_value = v, tok_line = line p, tok_col = col p\<rparr>"

lemma mk_token_simps [simp]: "tok_type (mk_token t v p) = t" "tok_value (mk_token t v p) = v"
  by (simp_all add: mk_token_def)

definition MAX_IDENTIFIER_LENGTH :: nat where "MAX_IDENTIFIER_LENGTH = 1024"
definition MAX_STRING_LENGTH :: nat where "MAX_STRING_LENGTH = 1048576"

text \<open>The effect of \<open>advance()\<close> on the position.\<close>

definition step_pos :: "char \<Rightarrow> pos \<Rightarrow> pos" where
  "step_pos c p = (if c = newline then Pos (line p + 1) 1 else Pos (line p) (col p + 1))"

section \<open>White space and comments\<close>

fun skip_line :: "string \<Rightarrow> pos \<Rightarrow> lexer" where
  "skip_line [] p = ([], p)"
| "skip_line (c # s) p = (if c = newline then (c # s, p) else skip_line s (step_pos c p))"

fun skip_block :: "string \<Rightarrow> pos \<Rightarrow> lexer" where
  "skip_block [] p = ([], p)"
| "skip_block (c # s) p =
     (if c = CHR ''*'' \<and> take 1 s = ''/'' then (drop 1 s, step_pos (CHR ''/'') (step_pos c p))
      else skip_block s (step_pos c p))"

lemma skip_line_length: "length (fst (skip_line s p)) \<le> length s"
proof (induction s p rule: skip_line.induct)
  case (2 c s p)
  then show ?case by (cases "c = newline") auto
qed simp

lemma skip_block_length: "length (fst (skip_block s p)) \<le> length s"
proof (induction s p rule: skip_block.induct)
  case (2 c s p)
  then show ?case by (cases "c = CHR ''*'' \<and> take 1 s = ''/''") auto
qed simp

function skip_blanks :: "string \<Rightarrow> pos \<Rightarrow> lexer" where
  "skip_blanks [] p = ([], p)"
| "skip_blanks (c # s) p =
     (if is_space c then skip_blanks s (step_pos c p)
      else if c = CHR ''/'' \<and> take 1 s = ''/'' then
        (let (s', p') = skip_line (drop 1 s) (step_pos (CHR ''/'') (step_pos c p)) in skip_blanks s' p')
      else if c = CHR ''/'' \<and> take 1 s = ''*'' then
        (let (s', p') = skip_block (drop 1 s) (step_pos (CHR ''*'') (step_pos c p)) in skip_blanks s' p')
      else if c = CHR ''#'' then (let (s', p') = skip_line s (step_pos c p) in skip_blanks s' p')
      else (c # s, p))"
  by pat_completeness auto
termination
proof (relation "measure (length \<circ> fst)", goal_cases)
  case (3 c s p a s' p')
  then show ?case
    using skip_line_length [of "drop 1 s" "step_pos (CHR ''/'') (step_pos c p)"] by (cases a) auto
next
  case (4 c s p a s' p')
  then show ?case
    using skip_block_length [of "drop 1 s" "step_pos (CHR ''*'') (step_pos c p)"] by (cases a) auto
next
  case (5 c s p a s' p')
  then show ?case using skip_line_length [of s "step_pos c p"] by (cases a) auto
qed simp_all

declare skip_blanks.simps(2) [simp del]

section \<open>The readers\<close>

text \<open>
  Each reader gets the characters collected so far and returns them, or the message of an
  \<open>ERROR\<close> token, with the state after the last \<open>advance()\<close>.
\<close>

definition is_ident_char :: "char \<Rightarrow> bool" where
  "is_ident_char c = (is_alnum c \<or> c = CHR ''_'')"

fun read_identifier :: "string \<Rightarrow> string \<Rightarrow> pos \<Rightarrow> string result \<times> lexer" where
  "read_identifier v [] p = (success v, [], p)"
| "read_identifier v (c # s) p =
     (if is_ident_char c then
        if length v \<ge> MAX_IDENTIFIER_LENGTH then (failure ''identifier too long'', c # s, p)
        else read_identifier (v @ [c]) s (step_pos c p)
      else (success v, c # s, p))"

definition keyword_type :: "string \<Rightarrow> token_type" where
  "keyword_type v =
     (let lower = to_lower v in
      if lower = ''digraph'' then DIGRAPH
      else if lower = ''graph'' then GRAPH
      else if lower = ''subgraph'' then SUBGRAPH
      else if lower = ''strict'' then STRICT
      else if lower = ''node'' then NODE
      else if lower = ''edge'' then EDGE
      else IDENTIFIER)"

definition unescape :: "char \<Rightarrow> string" where
  "unescape e =
     (if e = dquote then [dquote]
      else if e = squote then [squote]
      else if e = backslash then [backslash]
      else if e = CHR ''n'' then [newline]
      else if e = CHR ''t'' then [tab]
      else [backslash, e])"

fun read_quoted_string :: "char \<Rightarrow> string \<Rightarrow> string \<Rightarrow> pos \<Rightarrow> string result \<times> lexer" where
  "read_quoted_string quote v [] p = (failure ''unterminated string'', [], p)"
| "read_quoted_string quote v (c # s) p =
     (let p = step_pos c p in
      if c = backslash then
        (case s of
           [] \<Rightarrow> (failure ''unterminated string'', [], p)
         | e # s' \<Rightarrow>
             let v = v @ unescape e; p = step_pos e p in
             if length v > MAX_STRING_LENGTH then (failure ''string too long'', s', p)
             else read_quoted_string quote v s' p)
      else if c = quote then (success v, s, p)
      else let v = v @ [c] in
        if length v > MAX_STRING_LENGTH then (failure ''string too long'', s, p)
        else read_quoted_string quote v s p)"

declare read_quoted_string.simps(2) [simp del]

text \<open>The loop runs while \<open>depth > 0\<close>.\<close>

fun read_html_string :: "nat \<Rightarrow> string \<Rightarrow> string \<Rightarrow> pos \<Rightarrow> string result \<times> lexer" where
  "read_html_string depth v s p =
     (if depth = 0 then (success v, s, p)
      else case s of
        [] \<Rightarrow> (failure ''unterminated HTML string'', [], p)
      | c # s' \<Rightarrow>
          let depth' = (if c = CHR ''<'' then depth + 1 else if c = CHR ''>'' then depth - 1 else depth);
              v' = (if c = CHR ''>'' \<and> depth' = 0 then v else v @ [c]);
              p' = step_pos c p
          in if length v' > MAX_STRING_LENGTH then (failure ''HTML string too long'', s', p')
             else read_html_string depth' v' s' p')"

declare read_html_string.simps [simp del]

fun read_digits :: "string \<Rightarrow> string \<Rightarrow> pos \<Rightarrow> string \<times> lexer" where
  "read_digits v [] p = (v, [], p)"
| "read_digits v (c # s) p =
     (if is_digit c then read_digits (v @ [c]) s (step_pos c p) else (v, c # s, p))"

definition read_number :: "string \<Rightarrow> pos \<Rightarrow> string \<times> lexer" where
  "read_number s p =
     (let (v, s, p) = (if take 1 s = ''-'' then (''-'', drop 1 s, step_pos (CHR ''-'') p) else ([], s, p));
          (v, s, p) = read_digits v s p
      in if take 1 s = ''.'' then read_digits (v @ ''.'') (drop 1 s) (step_pos (CHR ''.'') p)
         else (v, s, p))"

section \<open>\<open>DotLexer::next_token\<close>\<close>

fun symbol_token :: "char \<Rightarrow> token_type option" where
  "symbol_token c =
     (if c = CHR ''{'' then Some LBRACE
      else if c = CHR ''}'' then Some RBRACE
      else if c = CHR ''['' then Some LBRACKET
      else if c = CHR '']'' then Some RBRACKET
      else if c = CHR '';'' then Some SEMICOLON
      else if c = CHR '','' then Some COMMA
      else if c = CHR ''='' then Some EQUALS
      else None)"

definition error_or :: "(string \<Rightarrow> token_type) \<Rightarrow> pos \<Rightarrow> string result \<times> lexer \<Rightarrow> token \<times> lexer" where
  "error_or ty start r =
     (case r of
        (Inl e, lx) \<Rightarrow> (mk_token ERROR e start, lx)
      | (Inr v, lx) \<Rightarrow> (mk_token (ty v) v start, lx))"

fun next_is_digit :: "string \<Rightarrow> bool" where
  "next_is_digit (d # _) = is_digit d"
| "next_is_digit [] = False"

definition read_token :: "string \<Rightarrow> pos \<Rightarrow> token \<times> lexer" where
  "read_token s0 p =
     (case s0 of
        [] \<Rightarrow> (mk_token END_OF_FILE [] p, [], p)
      | c # s \<Rightarrow>
         (case symbol_token c of
            Some t \<Rightarrow> (mk_token t [c] p, s, step_pos c p)
          | None \<Rightarrow>
              if c = CHR ''-'' \<and> take 1 s = ''>'' then
                (mk_token ARROW ''->'' p, drop 1 s, step_pos (CHR ''>'') (step_pos c p))
              else if c = dquote \<or> c = squote then
                error_or (\<lambda>_. QUOTED_STRING) p (read_quoted_string c [] s (step_pos c p))
              else if c = CHR ''<'' then
                error_or (\<lambda>_. HTML_STRING) p (read_html_string 1 [] s (step_pos c p))
              else if is_digit c \<or> (c = CHR ''-'' \<and> next_is_digit s) \<or> (c = CHR ''.'' \<and> next_is_digit s) then
                (let (v, lx) = read_number s0 p in (mk_token NUMBER v p, lx))
              else if is_alpha c \<or> c = CHR ''_'' then
                error_or keyword_type p (read_identifier [] s0 p)
              else (mk_token ERROR [c] p, s, step_pos c p)))"

definition next_token :: "lexer \<Rightarrow> token \<times> lexer" where
  "next_token lx = (let (s, p) = skip_blanks (fst lx) (snd lx) in read_token s p)"

section \<open>Progress: a token other than the end consumes input\<close>

lemma skip_blanks_length: "length (fst (skip_blanks s p)) \<le> length s"
proof (induction s p rule: skip_blanks.induct)
  case (2 c s p)
  obtain s1 p1 where 1: "skip_line (drop 1 s) (step_pos (CHR ''/'') (step_pos c p)) = (s1, p1)"
    by (rule prod.exhaust)
  obtain s2 p2 where 2: "skip_block (drop 1 s) (step_pos (CHR ''*'') (step_pos c p)) = (s2, p2)"
    by (rule prod.exhaust)
  obtain s3 p3 where 3: "skip_line s (step_pos c p) = (s3, p3)"
    by (rule prod.exhaust)
  have le: "length s1 \<le> length s" "length s2 \<le> length s" "length s3 \<le> length s"
    using skip_line_length [of "drop 1 s" "step_pos (CHR ''/'') (step_pos c p)"]
      skip_block_length [of "drop 1 s" "step_pos (CHR ''*'') (step_pos c p)"]
      skip_line_length [of s "step_pos c p"] 1 2 3 by simp_all
  show ?case
  proof (cases "is_space c")
    case True
    with "2.IH"(1) show ?thesis by (simp add: skip_blanks.simps(2))
  next
    case ns: False
    consider "c = CHR ''/'' \<and> take 1 s = ''/''" | "c = CHR ''/'' \<and> take 1 s = ''*''"
      | "c = CHR ''#''" | "\<not> (c = CHR ''/'' \<and> (take 1 s = ''/'' \<or> take 1 s = ''*''))" "c \<noteq> CHR ''#''"
      by blast
    then show ?thesis
    proof cases
      case 1
      then show ?thesis
        using "2.IH"(2) [OF ns _ \<open>skip_line (drop 1 s) _ = _\<close> [symmetric] refl] le(1) ns
          \<open>skip_line (drop 1 s) _ = _\<close> by (simp add: skip_blanks.simps(2))
    next
      case 2
      then show ?thesis
        using "2.IH"(3) [OF ns _ _ \<open>skip_block (drop 1 s) _ = _\<close> [symmetric] refl] le(2) ns
          \<open>skip_block (drop 1 s) _ = _\<close> by (simp add: skip_blanks.simps(2))
    next
      case 3
      then show ?thesis
        using "2.IH"(4) [OF ns _ _ _ \<open>skip_line s _ = _\<close> [symmetric] refl] le(3) ns
          \<open>skip_line s _ = _\<close> by (simp add: skip_blanks.simps(2))
    next
      case 4
      with ns show ?thesis by (auto simp: skip_blanks.simps(2))
    qed
  qed
qed simp

lemma read_identifier_length: "length (fst (snd (read_identifier v s p))) \<le> length s"
  by (induction v s p rule: read_identifier.induct) auto

lemma read_identifier_consumes:
  "is_ident_char c \<Longrightarrow> length (fst (snd (read_identifier [] (c # s) p))) \<le> length s"
  using read_identifier_length [of "[c]" s "step_pos c p"] by (simp add: MAX_IDENTIFIER_LENGTH_def)

lemma read_quoted_string_length: "length (fst (snd (read_quoted_string q v s p))) \<le> length s"
proof (induction s arbitrary: q v p rule: length_induct)
  case (1 s)
  have IH: "length t < length s \<Longrightarrow> length (fst (snd (read_quoted_string q w t r))) \<le> m"
    if "length t \<le> m" for q w t r m
    using 1 that by (meson order_trans)
  show ?case
  proof (cases s)
    case (Cons c t)
    have "length (fst (snd (read_quoted_string q v (c # t) p))) \<le> length s"
      unfolding read_quoted_string.simps(2) Let_def by (cases t) (auto simp: Cons IH)
    with Cons show ?thesis by simp
  qed simp
qed

lemma read_html_string_length: "length (fst (snd (read_html_string d v s p))) \<le> length s"
proof (induction d v s p rule: read_html_string.induct)
  case (1 d v s p)
  show ?case
  proof (cases "d = 0 \<or> s = []")
    case True
    then show ?thesis by (auto simp: read_html_string.simps [of d])
  next
    case False
    then obtain c s' where s: "s = c # s'" by (cases s) auto
    from False 1 [OF _ s refl refl refl] show ?thesis
      by (simp add: read_html_string.simps [of d] s Let_def le_SucI)
  qed
qed

lemma read_digits_length: "length (fst (snd (read_digits v s p))) \<le> length s"
  by (induction v s p rule: read_digits.induct) auto

lemma read_number_consumes:
  assumes "is_digit c \<or> c = CHR ''-'' \<or> c = CHR ''.''"
  shows "length (fst (snd (read_number (c # s) p))) \<le> length s"
proof -
  have tail: "length (fst (snd (if take 1 s1 = ''.'' then read_digits w (drop 1 s1) q else (v, s1, p1)))) \<le> n"
    if "length s1 \<le> n" for s1 w q v p1 n
    using read_digits_length [of w "drop 1 s1" q] that by auto
  have d: "length s1 \<le> length t" if "read_digits v t q = (w, s1, p1)" for v t q w s1 p1
    using read_digits_length [of v t q] that by simp
  show ?thesis
  proof (cases "c = CHR ''-''")
    case True
    obtain w s1 p1 where r: "read_digits ''-'' s (step_pos (CHR ''-'') p) = (w, s1, p1)"
      by (metis prod.exhaust)
    with True tail [OF d [OF r]] show ?thesis by (simp add: read_number_def)
  next
    case minus: False
    show ?thesis
    proof (cases "is_digit c")
      case True
      obtain w s1 p1 where r: "read_digits [c] s (step_pos c p) = (w, s1, p1)"
        by (metis prod.exhaust)
      with True minus tail [OF d [OF r]] show ?thesis by (simp add: read_number_def)
    next
      case False
      with assms minus have "c = CHR ''.''" by simp
      moreover have "\<not> is_digit (CHR ''.'')" by code_simp
      ultimately show ?thesis
        using read_digits_length [of "''.''" s] by (simp add: read_number_def)
    qed
  qed
qed

lemma error_or_fst: "snd (error_or ty p r) = snd r"
  by (cases r; cases "fst r") (auto simp: error_or_def)

lemma number_token_snd: "snd (let (v, lx) = r in (f v, lx)) = snd r"
  by (cases r) simp

lemma symbol_token_not_word:
  "symbol_token c = None \<longleftrightarrow> c \<notin> set ''{}[];,=''"
  by auto

lemma alpha_is_ident_char: "is_alpha c \<or> c = CHR ''_'' \<Longrightarrow> is_ident_char c"
  by (auto simp: is_ident_char_def is_alnum_def)

lemma read_token_consumes: "length (fst (snd (read_token (c # s) p))) \<le> length s"
proof (cases "symbol_token c")
  case None
  have ifI: "length (fst (snd (if b then x else y))) \<le> length s"
    if "b \<Longrightarrow> length (fst (snd x)) \<le> length s" "\<not> b \<Longrightarrow> length (fst (snd y)) \<le> length s"
    for b and x y :: "token \<times> lexer"
    using that by auto
  show ?thesis
    unfolding read_token_def list.case None option.case
  proof (intro ifI, goal_cases)
    case 4
    then show ?case unfolding number_token_snd by (intro read_number_consumes) blast
  next
    case 5
    then show ?case unfolding error_or_fst by (intro read_identifier_consumes alpha_is_ident_char)
  qed (simp_all add: error_or_fst read_quoted_string_length read_html_string_length)
next
  case (Some t)
  then show ?thesis by (simp add: read_token_def del: symbol_token.simps)
qed

theorem next_token_consumes:
  assumes "next_token lx = (t, lx')" and "tok_type t \<noteq> END_OF_FILE"
  shows "length (fst lx') < length (fst lx)"
proof -
  obtain s p where sp: "skip_blanks (fst lx) (snd lx) = (s, p)" by (rule prod.exhaust)
  then have le: "length s \<le> length (fst lx)" using skip_blanks_length by (metis fst_conv)
  have r: "read_token s p = (t, lx')" using assms(1) by (simp add: next_token_def sp)
  show ?thesis
  proof (cases s)
    case Nil
    with r assms(2) show ?thesis by (auto simp: read_token_def)
  next
    case (Cons c u)
    then show ?thesis using read_token_consumes [of c u p] r le by simp
  qed
qed

section \<open>Recognising a token whatever the position\<close>

text \<open>From the source \<open>s\<close>, the next token has type \<open>t\<close> and value \<open>v\<close> and leaves \<open>s'\<close>.\<close>

definition lexes :: "string \<Rightarrow> token_type \<Rightarrow> string \<Rightarrow> string \<Rightarrow> bool" where
  "lexes s t v s' = (\<forall>p. \<exists>q p'. next_token (s, p) = (mk_token t v q, s', p'))"

lemma lexesD: "lexes s t v s' \<Longrightarrow> next_token (s, p) = (tok, lx) \<Longrightarrow>
  tok_type tok = t \<and> tok_value tok = v \<and> fst lx = s'"
  unfolding lexes_def by (metis Pair_inject fst_conv mk_token_simps)

lemma lexes_blank: "is_space c \<Longrightarrow> lexes s t v s' \<Longrightarrow> lexes (c # s) t v s'"
  by (simp add: lexes_def next_token_def skip_blanks.simps(2))

lemma lexes_blanks: "\<forall>c \<in> set w. is_space c \<Longrightarrow> lexes s t v s' \<Longrightarrow> lexes (w @ s) t v s'"
  by (induction w) (auto intro: lexes_blank)

lemma lexes_end: "lexes [] END_OF_FILE [] []"
  by (auto simp: lexes_def next_token_def read_token_def)

lemma skip_blanks_none:
  "\<not> is_space c \<Longrightarrow> c \<noteq> CHR ''/'' \<Longrightarrow> c \<noteq> CHR ''#'' \<Longrightarrow> skip_blanks (c # s) p = (c # s, p)"
  by (simp add: skip_blanks.simps(2))

lemma lexesI:
  assumes "\<not> is_space c" "c \<noteq> CHR ''/''" "c \<noteq> CHR ''#''"
    and "\<And>p. \<exists>q p'. read_token (c # s) p = (mk_token t v q, s', p')"
  shows "lexes (c # s) t v s'"
  using assms by (simp add: lexes_def next_token_def skip_blanks_none)

lemma symbol_plain: "symbol_token c = Some t \<Longrightarrow> \<not> is_space c \<and> c \<noteq> CHR ''/'' \<and> c \<noteq> CHR ''#''"
proof -
  assume "symbol_token c = Some t"
  then have "c \<in> set ''{}[];,=''" using symbol_token_not_word [of c] by auto
  moreover have "\<forall>c \<in> set ''{}[];,=''. \<not> is_space c \<and> c \<noteq> CHR ''/'' \<and> c \<noteq> CHR ''#''" by code_simp
  ultimately show ?thesis by blast
qed

lemma lexes_symbol: "symbol_token c = Some t \<Longrightarrow> lexes (c # s) t [c] s"
  using symbol_plain [of c t]
  by (intro lexesI) (auto simp: read_token_def simp del: symbol_token.simps)

lemma lexes_arrow: "lexes (CHR ''-'' # CHR ''>'' # s) ARROW ''->'' s"
  by (rule lexesI, code_simp, simp, simp) (auto simp: read_token_def)

text \<open>\<open>dot_escape\<close> of \<open>src/util/graph_serializer.cpp\<close>.\<close>

fun dot_escape :: "string \<Rightarrow> string" where
  "dot_escape [] = []"
| "dot_escape (c # s) =
     (if c = dquote then [backslash, dquote]
      else if c = backslash then [backslash, backslash]
      else if c = newline then [backslash, CHR ''n'']
      else [c]) @ dot_escape s"

lemma unescape_simps [simp]: "unescape dquote = [dquote]" "unescape backslash = [backslash]"
  "unescape (CHR ''n'') = [newline]"
  by (simp_all add: unescape_def)

lemma read_quoted_dot_escape:
  "length w + length v \<le> MAX_STRING_LENGTH \<Longrightarrow>
   \<exists>p'. read_quoted_string dquote w (dot_escape v @ dquote # s) p = (Inr (w @ v), s, p')"
proof (induction v arbitrary: w p)
  case Nil
  then show ?case by (simp add: read_quoted_string.simps(2))
next
  case (Cons c v)
  then have len: "length (w @ [c]) + length v \<le> MAX_STRING_LENGTH" by simp
  then have short: "\<not> MAX_STRING_LENGTH < Suc (length w)" by simp
  from Cons.IH [OF len] obtain p1 where
    one: "\<And>p. \<exists>p'. read_quoted_string dquote (w @ [c]) (dot_escape v @ dquote # s) p = (Inr (w @ c # v), s, p')"
    using Cons.IH [OF len] by auto
  show ?case
    using one by (cases "c = dquote \<or> c = backslash \<or> c = newline")
      (auto simp: read_quoted_string.simps(2) Let_def short)
qed

lemma dquote_not_space [simp]: "\<not> is_space dquote"
  by code_simp

lemma lexes_quoted:
  assumes "length v \<le> MAX_STRING_LENGTH"
  shows "lexes (dquote # dot_escape v @ dquote # s) QUOTED_STRING v s"
proof (rule lexesI)
  fix p
  from assms obtain p' where
    "read_quoted_string dquote [] (dot_escape v @ dquote # s) (step_pos dquote p) = (Inr v, s, p')"
    using read_quoted_dot_escape [of "[]" v s "step_pos dquote p"] by auto
  then show "\<exists>q p'. read_token (dquote # dot_escape v @ dquote # s) p = (mk_token QUOTED_STRING v q, s, p')"
    by (auto simp: read_token_def error_or_def)
qed simp_all

lemma read_identifier_word:
  "\<forall>c \<in> set w. is_ident_char c \<Longrightarrow> length v + length w \<le> MAX_IDENTIFIER_LENGTH \<Longrightarrow>
   s = [] \<or> \<not> is_ident_char (hd s) \<Longrightarrow> \<exists>p'. read_identifier v (w @ s) p = (Inr (v @ w), s, p')"
proof (induction w arbitrary: v p)
  case Nil
  then show ?case by (cases s) auto
next
  case (Cons a w)
  from Cons.IH [of "v @ [a]" "step_pos a p"] Cons.prems show ?case by auto
qed

lemma lexes_word:
  assumes "is_alpha c \<or> c = CHR ''_''" "\<forall>c \<in> set w. is_ident_char c"
    "Suc (length w) \<le> MAX_IDENTIFIER_LENGTH" "s = [] \<or> \<not> is_ident_char (hd s)"
  shows "lexes (c # w @ s) (keyword_type (c # w)) (c # w) s"
proof (rule lexesI)
  fix p
  have "\<exists>p'. read_identifier [] ((c # w) @ s) p = (Inr ([] @ c # w), s, p')"
    using assms by (intro read_identifier_word) (auto simp: alpha_is_ident_char)
  then obtain p' where r: "read_identifier [] (c # w @ s) p = (Inr (c # w), s, p')" by auto
  have byte: "65 \<le> byte c" "byte c \<noteq> 91" "byte c \<noteq> 93" "byte c \<le> 122"
    using assms(1) by (auto simp: char_class_defs)
  then have "symbol_token c = None" "c \<notin> {CHR ''-'', CHR ''<'', CHR ''.'', dquote, squote}" "\<not> is_digit c"
    unfolding symbol_token_not_word by (auto simp: byte_def is_digit_def)
  with assms(1) r have "read_token (c # w @ s) p = (mk_token (keyword_type (c # w)) (c # w) p, s, p')"
    by (simp add: read_token_def error_or_def del: symbol_token.simps read_identifier.simps)
  then show "\<exists>q p'. read_token (c # w @ s) p = (mk_token (keyword_type (c # w)) (c # w) q, s, p')"
    by blast
qed (use assms(1) in \<open>auto simp: char_class_defs\<close>)

text \<open>Fact: the escaping of the graph serializer and the lexer's quoted strings are inverse: an escaped
  string between double quotes is one \<open>QUOTED_STRING\<close> token whose value is the original string,
  wherever it stands and whatever follows it, up to the lexer's limit of 1 MB.\<close>

theorem quoted_string_roundtrip:
  assumes "length v \<le> MAX_STRING_LENGTH"
  shows "\<exists>p'. next_token (dquote # dot_escape v @ dquote # rest, p) = (mk_token QUOTED_STRING v p, rest, p')"
proof -
  obtain p' where
    "read_quoted_string dquote [] (dot_escape v @ dquote # rest) (step_pos dquote p) = (Inr v, rest, p')"
    using read_quoted_dot_escape [of "[]" v rest "step_pos dquote p"] assms by auto
  then show ?thesis
    by (auto simp: next_token_def skip_blanks_none read_token_def error_or_def)
qed

theorem quoted_string_roundtrip_witness:
  "\<exists>p'. next_token (dquote # dot_escape [CHR ''a'', dquote, newline] @ dquote # ''];'', Pos 1 1)
     = (mk_token QUOTED_STRING [CHR ''a'', dquote, newline] (Pos 1 1), ''];'', p')"
  by (rule quoted_string_roundtrip) (simp add: MAX_STRING_LENGTH_def)

end
