(* ===== verification/Dot_Parser.thy ===== *)
theory Dot_Parser
  imports Dot_Lexer
begin

text \<open>
  \<open>include/needle/parser/dot_ast.h\<close> and \<open>src/parser/dot_parser.cpp\<close>: the recursive-descent parser.
  Its state is the current token, the lexer and the lexer's one-token buffer. The out-parameters
  \<open>nodes\<close>, \<open>edges\<close>, \<open>defaults\<close>, \<open>subgraphs\<close> of \<open>parse_stmt_list_into\<close> are one record. The mutual
  recursion over statements, statement lists and subgraphs takes fuel; \<open>None\<close> is running out of it,
  and \<open>parse_dot_total\<close> shows that the fuel \<open>parse_dot\<close> gives always suffices.
\<close>

section \<open>The abstract syntax tree\<close>

type_synonym ast_attr = "string \<times> string"

record ast_node =
  an_id :: string
  an_attrs :: "ast_attr list"

record ast_edge =
  node_chain :: "string list"
  ae_attrs :: "ast_attr list"

record ast_default =
  target :: string
  ad_attrs :: "ast_attr list"

datatype ast_subgraph = AstSubgraph
  (sub_id: string) (sub_nodes: "ast_node list") (sub_edges: "ast_edge list")
  (sub_defaults: "ast_default list") (sub_subgraphs: "ast_subgraph list")

record stmts =
  nodes :: "ast_node list"
  edges :: "ast_edge list"
  defaults :: "ast_default list"
  subgraphs :: "ast_subgraph list"

record ast_graph =
  strict :: bool
  ag_id :: string
  body :: stmts

definition no_stmts :: stmts where
  "no_stmts = \<lparr>nodes = [], edges = [], defaults = [], subgraphs = []\<rparr>"

definition subgraph_of :: "string \<Rightarrow> stmts \<Rightarrow> ast_subgraph" where
  "subgraph_of i b = AstSubgraph i (nodes b) (edges b) (defaults b) (subgraphs b)"

section \<open>The parser's state\<close>

record pstate =
  cur :: token
  plex :: lexer
  peeked :: "token option"

definition lexer_next :: "pstate \<Rightarrow> token \<times> pstate" where
  "lexer_next st =
     (case peeked st of
        Some t \<Rightarrow> (t, st\<lparr>peeked := None\<rparr>)
      | None \<Rightarrow> (let (t, lx) = next_token (plex st) in (t, st\<lparr>plex := lx\<rparr>)))"

definition lexer_peek :: "pstate \<Rightarrow> token \<times> pstate" where
  "lexer_peek st =
     (case peeked st of
        Some t \<Rightarrow> (t, st)
      | None \<Rightarrow> (let (t, lx) = next_token (plex st) in (t, st\<lparr>plex := lx, peeked := Some t\<rparr>)))"

text \<open>\<open>current_ = lexer_.next_token()\<close>.\<close>

definition advance :: "pstate \<Rightarrow> pstate" where
  "advance st = (let (t, st) = lexer_next st in st\<lparr>cur := t\<rparr>)"

definition init_parser :: "string \<Rightarrow> pstate" where
  "init_parser source =
     (let (t, lx) = next_token (source, Pos 1 1) in \<lparr>cur = t, plex = lx, peeked = None\<rparr>)"

abbreviation cur_type :: "pstate \<Rightarrow> token_type" where
  "cur_type st \<equiv> tok_type (cur st)"

fun type_code :: "token_type \<Rightarrow> nat" where
  "type_code DIGRAPH = 0" | "type_code GRAPH = 1" | "type_code SUBGRAPH = 2"
| "type_code STRICT = 3" | "type_code NODE = 4" | "type_code EDGE = 5"
| "type_code LBRACE = 6" | "type_code RBRACE = 7" | "type_code LBRACKET = 8"
| "type_code RBRACKET = 9" | "type_code SEMICOLON = 10" | "type_code COMMA = 11"
| "type_code EQUALS = 12" | "type_code ARROW = 13" | "type_code IDENTIFIER = 14"
| "type_code QUOTED_STRING = 15" | "type_code HTML_STRING = 16" | "type_code NUMBER = 17"
| "type_code END_OF_FILE = 18" | "type_code ERROR = 19"

definition at_pos :: "token \<Rightarrow> string" where
  "at_pos t = '' at line '' @ show_nat (tok_line t) @ '', column '' @ show_nat (tok_col t)"

text \<open>\<open>expect\<close>: the message it stores in \<open>error_\<close>, or the state after the token.\<close>

definition expect :: "token_type \<Rightarrow> pstate \<Rightarrow> pstate result" where
  "expect ty st =
     (if cur_type st \<noteq> ty then
        failure (''expected token type '' @ show_nat (type_code ty) @ '' but got ''
          @ show_nat (type_code (cur_type st)) @ '' ('' @ [squote] @ tok_value (cur st) @ [squote] @ '')''
          @ at_pos (cur st))
      else success (advance st))"

definition match_token :: "token_type \<Rightarrow> pstate \<Rightarrow> pstate" where
  "match_token ty st = (if cur_type st = ty then advance st else st)"

section \<open>Progress\<close>

text \<open>What is left to read: every \<open>advance\<close> past a token that is not the end decreases it.\<close>

definition tok_size :: "token \<Rightarrow> nat" where
  "tok_size t = (if tok_type t = END_OF_FILE then 0 else 1)"

definition psize :: "pstate \<Rightarrow> nat" where
  "psize st = tok_size (cur st) + (case peeked st of Some t \<Rightarrow> tok_size t | None \<Rightarrow> 0) + length (fst (plex st))"

lemma next_token_size:
  assumes "next_token lx = (t, lx')"
  shows "tok_size t + length (fst lx') \<le> length (fst lx)"
proof (cases "tok_type t = END_OF_FILE")
  case True
  obtain s p where sp: "skip_blanks (fst lx) (snd lx) = (s, p)" by (rule prod.exhaust)
  have r: "read_token s p = (t, lx')" using assms by (simp add: next_token_def sp)
  have "length (fst lx') \<le> length s"
    using r read_token_consumes [of "hd s" "tl s" p] by (cases s) (auto simp: read_token_def)
  then show ?thesis
    using True skip_blanks_length [of "fst lx" "snd lx"] sp by (simp add: tok_size_def)
next
  case False
  obtain s p where sp: "skip_blanks (fst lx) (snd lx) = (s, p)" by (rule prod.exhaust)
  have r: "read_token s p = (t, lx')" using assms by (simp add: next_token_def sp)
  then have "length (fst lx') < length s"
    using False read_token_consumes [of "hd s" "tl s" p] by (cases s) (auto simp: read_token_def)
  then show ?thesis
    using False skip_blanks_length [of "fst lx" "snd lx"] sp by (simp add: tok_size_def)
qed

lemma psize_advance: "cur_type st \<noteq> END_OF_FILE \<Longrightarrow> psize (advance st) < psize st"
  using next_token_size [of "plex st"]
  by (cases "next_token (plex st)")
    (fastforce simp: advance_def lexer_next_def psize_def tok_size_def split: option.splits)

lemma psize_advance_le: "psize (advance st) \<le> psize st"
  using next_token_size [of "plex st"]
  by (cases "next_token (plex st)")
    (fastforce simp: advance_def lexer_next_def psize_def tok_size_def split: option.splits)

lemma psize_peek: "lexer_peek st = (t, st') \<Longrightarrow> psize st' \<le> psize st \<and> cur st' = cur st"
  using next_token_size [of "plex st"]
  by (cases "next_token (plex st)")
    (auto simp: lexer_peek_def psize_def split: option.splits)

lemma psize_expect: "expect ty st = Inr st' \<Longrightarrow> ty \<noteq> END_OF_FILE \<Longrightarrow> psize st' < psize st"
  by (auto simp: expect_def psize_advance split: if_splits)

lemma psize_match: "psize (match_token ty st) \<le> psize st"
  by (simp add: match_token_def psize_advance_le)

section \<open>Attribute lists\<close>

function parse_attrs :: "ast_attr list \<Rightarrow> pstate \<Rightarrow> (ast_attr list \<times> pstate) result" where
  "parse_attrs attrs st =
     (if cur_type st = RBRACKET \<or> cur_type st = END_OF_FILE then
        (case expect RBRACKET st of Inl e \<Rightarrow> failure e | Inr st \<Rightarrow> success (attrs, st))
      else if cur_type st \<noteq> IDENTIFIER \<and> cur_type st \<noteq> QUOTED_STRING then
        failure (''expected attribute key'' @ at_pos (cur st))
      else
        let key = tok_value (cur st); st = advance st in
        case expect EQUALS st of
          Inl e \<Rightarrow> failure e
        | Inr st \<Rightarrow>
            if cur_type st = IDENTIFIER \<or> cur_type st = QUOTED_STRING \<or> cur_type st = HTML_STRING
              \<or> cur_type st = NUMBER then
              let v = tok_value (cur st); st = advance st;
                  st = (if cur_type st = COMMA \<or> cur_type st = SEMICOLON then advance st else st)
              in parse_attrs (attrs @ [(key, v)]) st
            else failure (''expected attribute value'' @ at_pos (cur st)))"
  by pat_completeness auto
termination
proof (relation "measure (psize \<circ> snd)", goal_cases)
  case (2 attrs st key st1 st2 v st3 st4)
  have "psize st1 < psize st" using 2(1,4) psize_advance [of st] by simp
  moreover have "psize st2 < psize st1" using 2(5) psize_expect [of EQUALS st1 st2] by simp
  moreover have "psize st3 \<le> psize st2" "psize st4 \<le> psize st3"
    using 2(8,9) by (simp_all add: psize_advance_le)
  ultimately show ?case by simp
qed simp

declare parse_attrs.simps [simp del]

definition parse_attr_list :: "pstate \<Rightarrow> (ast_attr list \<times> pstate) result" where
  "parse_attr_list st =
     (case expect LBRACKET st of Inl e \<Rightarrow> failure e | Inr st \<Rightarrow> parse_attrs [] st)"

definition parse_default_attrs :: "string \<Rightarrow> pstate \<Rightarrow> (ast_default \<times> pstate) result" where
  "parse_default_attrs tgt st =
     (case parse_attr_list st of
        Inl e \<Rightarrow> failure e
      | Inr (attrs, st) \<Rightarrow> success (\<lparr>target = tgt, ad_attrs = attrs\<rparr>, st))"

section \<open>Node and edge statements\<close>

definition parse_node_stmt :: "string \<Rightarrow> pstate \<Rightarrow> (ast_node \<times> pstate) result" where
  "parse_node_stmt first_id st =
     (if cur_type st = LBRACKET then
        (case parse_attr_list st of
           Inl e \<Rightarrow> failure e
         | Inr (attrs, st) \<Rightarrow> success (\<lparr>an_id = first_id, an_attrs = attrs\<rparr>, st))
      else success (\<lparr>an_id = first_id, an_attrs = []\<rparr>, st))"

abbreviation is_node_id :: "token_type \<Rightarrow> bool" where
  "is_node_id t \<equiv> t = IDENTIFIER \<or> t = QUOTED_STRING \<or> t = NUMBER"

function parse_chain :: "string list \<Rightarrow> pstate \<Rightarrow> (string list \<times> pstate) result" where
  "parse_chain chain st =
     (if cur_type st = ARROW then
        let st = advance st in
        if \<not> is_node_id (cur_type st) then
          failure (''expected node identifier after '' @ [squote] @ ''->'' @ [squote] @ at_pos (cur st))
        else parse_chain (chain @ [tok_value (cur st)]) (advance st)
      else success (chain, st))"
  by pat_completeness auto
termination
proof (relation "measure (psize \<circ> snd)", goal_cases)
  case (2 chain st st1)
  then have "psize st1 < psize st" using psize_advance [of st] by simp
  then show ?case using psize_advance_le [of st1] by simp
qed simp

declare parse_chain.simps [simp del]

definition parse_edge_stmt :: "string \<Rightarrow> pstate \<Rightarrow> (ast_edge \<times> pstate) result" where
  "parse_edge_stmt first_id st =
     (case parse_chain [first_id] st of
        Inl e \<Rightarrow> failure e
      | Inr (chain, st) \<Rightarrow>
          if cur_type st = LBRACKET then
            (case parse_attr_list st of
               Inl e \<Rightarrow> failure e
             | Inr (attrs, st) \<Rightarrow> success (\<lparr>node_chain = chain, ae_attrs = attrs\<rparr>, st))
          else success (\<lparr>node_chain = chain, ae_attrs = []\<rparr>, st))"

section \<open>Statements, statement lists and subgraphs\<close>

fun parse_stmt_list_into :: "nat \<Rightarrow> stmts \<Rightarrow> pstate \<Rightarrow> (stmts \<times> pstate) result option"
  and parse_stmt_into :: "nat \<Rightarrow> stmts \<Rightarrow> pstate \<Rightarrow> (stmts \<times> pstate) result option"
  and parse_subgraph :: "nat \<Rightarrow> pstate \<Rightarrow> (ast_subgraph \<times> pstate) result option" where
  "parse_stmt_list_into 0 b st = None"
| "parse_stmt_list_into (Suc n) b st =
     (if cur_type st = RBRACE \<or> cur_type st = END_OF_FILE then Some (success (b, st))
      else case parse_stmt_into n b st of
        None \<Rightarrow> None
      | Some (Inl e) \<Rightarrow> Some (failure e)
      | Some (Inr (b, st)) \<Rightarrow> parse_stmt_list_into n b (match_token SEMICOLON st))"
| "parse_stmt_into n b st =
     (let (is_default, st) =
        (if cur_type st = NODE \<or> cur_type st = EDGE \<or> cur_type st = GRAPH then
           (let (t, st) = lexer_peek st in (tok_type t = LBRACKET, st))
         else (False, st))
      in if is_default then
        let tgt = (if cur_type st = NODE then ''node''
                   else if cur_type st = EDGE then ''edge'' else ''graph'') in
        case parse_default_attrs tgt (advance st) of
          Inl e \<Rightarrow> Some (failure e)
        | Inr (d, st) \<Rightarrow> Some (success (b\<lparr>defaults := defaults b @ [d]\<rparr>, st))
      else if cur_type st = SUBGRAPH \<or> cur_type st = LBRACE then
        (case n of
           0 \<Rightarrow> None
         | Suc m \<Rightarrow>
             case parse_subgraph m st of
               None \<Rightarrow> None
             | Some (Inl e) \<Rightarrow> Some (failure e)
             | Some (Inr (sub, st)) \<Rightarrow> Some (success (b\<lparr>subgraphs := subgraphs b @ [sub]\<rparr>, st)))
      else if \<not> is_node_id (cur_type st) then
        Some (failure (''unexpected token '' @ [squote] @ tok_value (cur st) @ [squote] @ at_pos (cur st)))
      else
        let first_id = tok_value (cur st); st = advance st in
        if cur_type st = ARROW then
          (case parse_edge_stmt first_id st of
             Inl e \<Rightarrow> Some (failure e)
           | Inr (edge, st) \<Rightarrow> Some (success (b\<lparr>edges := edges b @ [edge]\<rparr>, st)))
        else
          (case parse_node_stmt first_id st of
             Inl e \<Rightarrow> Some (failure e)
           | Inr (node, st) \<Rightarrow> Some (success (b\<lparr>nodes := nodes b @ [node]\<rparr>, st))))"
| "parse_subgraph n st =
     (let (i, st) =
        (if cur_type st = SUBGRAPH then
           (let st = advance st in
            if cur_type st = IDENTIFIER \<or> cur_type st = QUOTED_STRING
            then (tok_value (cur st), advance st) else ([], st))
         else ([], st))
      in case expect LBRACE st of
        Inl e \<Rightarrow> Some (failure e)
      | Inr st \<Rightarrow>
          case parse_stmt_list_into n no_stmts st of
            None \<Rightarrow> None
          | Some (Inl e) \<Rightarrow> Some (failure e)
          | Some (Inr (b, st)) \<Rightarrow>
              case expect RBRACE st of
                Inl e \<Rightarrow> Some (failure e)
              | Inr st \<Rightarrow> Some (success (subgraph_of i b, st)))"


declare parse_stmt_list_into.simps [simp del] parse_stmt_into.simps [simp del] parse_subgraph.simps [simp del]

definition parse_graph :: "nat \<Rightarrow> pstate \<Rightarrow> ast_graph result option" where
  "parse_graph fuel st =
     (let (is_strict, st) = (if cur_type st = STRICT then (True, advance st) else (False, st)) in
      if cur_type st \<noteq> DIGRAPH \<and> cur_type st \<noteq> GRAPH then
        Some (failure (''expected '' @ [squote] @ ''digraph'' @ [squote] @ '' or '' @ [squote] @ ''graph''
          @ [squote] @ at_pos (cur st)))
      else
        let st = advance st;
            (i, st) = (if cur_type st = IDENTIFIER \<or> cur_type st = QUOTED_STRING
                       then (tok_value (cur st), advance st) else ([], st))
        in case expect LBRACE st of
          Inl e \<Rightarrow> Some (failure e)
        | Inr st \<Rightarrow>
            case parse_stmt_list_into fuel no_stmts st of
              None \<Rightarrow> None
            | Some (Inl e) \<Rightarrow> Some (failure e)
            | Some (Inr (b, st)) \<Rightarrow>
                case expect RBRACE st of
                  Inl e \<Rightarrow> Some (failure e)
                | Inr st \<Rightarrow> Some (success \<lparr>strict = is_strict, ag_id = i, body = b\<rparr>))"

text \<open>\<open>DotParser(source).parse()\<close>. Two steps of fuel per character of the source suffice.\<close>

definition parse_dot :: "string \<Rightarrow> ast_graph result option" where
  "parse_dot source = parse_graph (2 * length source + 1) (init_parser source)"

section \<open>The parser always returns\<close>

lemma psize_parse_attrs: "parse_attrs attrs st = Inr (attrs', st') \<Longrightarrow> psize st' \<le> psize st"
proof (induction attrs st rule: parse_attrs.induct)
  case (1 attrs st)
  show ?case
  proof (cases "cur_type st = RBRACKET \<or> cur_type st = END_OF_FILE")
    case True
    with "1.prems" show ?thesis
      by (auto simp: parse_attrs.simps [of attrs st] split: sum.splits dest!: psize_expect)
  next
    case False
    with "1.prems" have key: "\<not> (cur_type st \<noteq> IDENTIFIER \<and> cur_type st \<noteq> QUOTED_STRING)"
      by (auto simp: parse_attrs.simps [of attrs st] split: if_splits)
    obtain st2 where eq: "expect EQUALS (advance st) = Inr st2"
      using "1.prems" False key by (auto simp: parse_attrs.simps [of attrs st] Let_def split: sum.splits)
    let ?st3 = "advance st2"
    let ?st4 = "if cur_type ?st3 = COMMA \<or> cur_type ?st3 = SEMICOLON then advance ?st3 else ?st3"
    have val: "cur_type st2 = IDENTIFIER \<or> cur_type st2 = QUOTED_STRING \<or> cur_type st2 = HTML_STRING
        \<or> cur_type st2 = NUMBER"
      using "1.prems" False key eq
      by (auto simp: parse_attrs.simps [of attrs st] Let_def split: if_splits)
    then have run: "parse_attrs (attrs @ [(tok_value (cur st), tok_value (cur st2))]) ?st4 = Inr (attrs', st')"
      using "1.prems" False key eq by (simp add: parse_attrs.simps [of attrs st] Let_def)
    have "psize st' \<le> psize ?st4"
      by (rule "1.IH" [OF False key refl refl eq val refl refl refl run])
    also have "psize ?st4 \<le> psize ?st3" by (simp add: psize_advance_le)
    also have "psize ?st3 \<le> psize st2" by (rule psize_advance_le)
    also have "psize st2 \<le> psize (advance st)" using psize_expect [OF eq] by simp
    also have "\<dots> \<le> psize st" by (rule psize_advance_le)
    finally show ?thesis .
  qed
qed

lemma psize_parse_attr_list: "parse_attr_list st = Inr (attrs, st') \<Longrightarrow> psize st' < psize st"
  by (auto simp: parse_attr_list_def split: sum.splits dest!: psize_expect psize_parse_attrs)

lemma psize_parse_chain: "parse_chain c st = Inr (c', st') \<Longrightarrow> psize st' \<le> psize st"
proof (induction c st rule: parse_chain.induct)
  case (1 c st)
  show ?case
  proof (cases "cur_type st = ARROW")
    case True
    with "1.prems" have id: "\<not> \<not> is_node_id (cur_type (advance st))"
      and run: "parse_chain (c @ [tok_value (cur (advance st))]) (advance (advance st)) = Inr (c', st')"
      by (auto simp: parse_chain.simps [of c st] Let_def split: if_splits)
    from "1.IH" [OF True refl id run] show ?thesis
      using psize_advance_le [of st] psize_advance_le [of "advance st"] by linarith
  next
    case False
    with "1.prems" show ?thesis by (simp add: parse_chain.simps)
  qed
qed

lemma psize_parse_edge: "parse_edge_stmt i st = Inr (e, st') \<Longrightarrow> psize st' \<le> psize st"
  by (fastforce simp: parse_edge_stmt_def split: sum.splits prod.splits if_splits
      dest: psize_parse_chain psize_parse_attr_list)

lemma psize_parse_node: "parse_node_stmt i st = Inr (e, st') \<Longrightarrow> psize st' \<le> psize st"
  by (fastforce simp: parse_node_stmt_def split: sum.splits prod.splits if_splits dest: psize_parse_attr_list)

lemma psize_parse_default: "parse_default_attrs t st = Inr (e, st') \<Longrightarrow> psize st' < psize st"
  by (auto simp: parse_default_attrs_def split: sum.splits dest: psize_parse_attr_list)

text \<open>The outcome of a parser run with enough fuel: it returns, and has read something.\<close>

definition returns_smaller :: "nat \<Rightarrow> ('a \<times> pstate) result option \<Rightarrow> bool" where
  "returns_smaller n r =
     (case r of None \<Rightarrow> False | Some (Inl e) \<Rightarrow> True | Some (Inr (x, st)) \<Rightarrow> psize st \<le> n)"

lemma returns_smaller_simps [simp]:
  "\<not> returns_smaller n None" "returns_smaller n (Some (Inl e))"
  "returns_smaller n (Some (Inr (x, st))) \<longleftrightarrow> psize st \<le> n"
  by (simp_all add: returns_smaller_def)

lemma stmt_cases:
  assumes "returns_smaller n r"
  obtains e where "r = Some (Inl e)" | x st where "r = Some (Inr (x, st))" "psize st \<le> n"
  using assms by (cases r) (auto simp: returns_smaller_def split: sum.splits)

lemma parse_returns:
  "2 * psize st + 1 \<le> n \<Longrightarrow> returns_smaller (psize st) (parse_stmt_list_into n b st)"
  "2 * psize st \<le> n \<Longrightarrow> cur_type st \<noteq> END_OF_FILE \<Longrightarrow>
     returns_smaller (psize st - 1) (parse_stmt_into n b st)"
  "2 * psize st \<le> n + 1 \<Longrightarrow> cur_type st \<noteq> END_OF_FILE \<Longrightarrow>
     returns_smaller (psize st - 1) (parse_subgraph n st)"
proof (induction n b st and n b st and n st
    rule: parse_stmt_list_into_parse_stmt_into_parse_subgraph.induct)
  case (2 n b st)
  show ?case
  proof (cases "cur_type st = RBRACE \<or> cur_type st = END_OF_FILE")
    case True
    then show ?thesis by (auto simp: parse_stmt_list_into.simps)
  next
    case False
    with 2 have "returns_smaller (psize st - 1) (parse_stmt_into n b st)" by simp
    then show ?thesis
    proof (cases rule: stmt_cases)
      case (1 e)
      with False show ?thesis by (simp add: parse_stmt_list_into.simps)
    next
      case (2 x st1)
      let ?st2 = "match_token SEMICOLON st1"
      have pos: "0 < psize st" using False by (simp add: psize_def tok_size_def)
      with 2(2) psize_match [of SEMICOLON st1] have sz: "psize ?st2 \<le> psize st - 1" by linarith
      with "2.prems" pos have "2 * psize ?st2 + 1 \<le> n" by linarith
      from "2.IH"(2) [OF False 2(1) refl refl this] sz
      show ?thesis using False 2(1)
        by (cases rule: stmt_cases) (auto simp: parse_stmt_list_into.simps)
    qed
  qed
next
  case (3 n b st)
  obtain d st1 where pre: "(if cur_type st = NODE \<or> cur_type st = EDGE \<or> cur_type st = GRAPH then
      (let (t, st) = lexer_peek st in (tok_type t = LBRACKET, st)) else (False, st)) = (d, st1)"
    by (rule prod.exhaust)
  have st1: "psize st1 \<le> psize st" "cur st1 = cur st"
    using pre psize_peek [of st] by (auto split: if_splits prod.splits)
  have pos: "0 < psize st" using "3.prems" by (simp add: psize_def tok_size_def)
  have adv: "psize (advance st1) \<le> psize st - 1" "psize (advance st1) < psize st"
    using psize_advance [of st1] st1 "3.prems"(2) by simp_all
  note unf = parse_stmt_into.simps [of n b st, unfolded pre, unfolded Let_def split_conv]
  show ?case
  proof (cases d)
    case True
    define tgt where "tgt = (if cur_type st1 = NODE then ''node'' else if cur_type st1 = EDGE then ''edge'' else ''graph'')"
    note run = unf [folded tgt_def] True
    show ?thesis
    proof (cases "parse_default_attrs tgt (advance st1)")
      case (Inl e)
      with run show ?thesis by simp
    next
      case (Inr r)
      obtain x st2 where r: "r = (x, st2)" by (rule prod.exhaust)
      with Inr psize_parse_default [of tgt "advance st1" x st2] adv run show ?thesis by simp
    qed
  next
    case nd: False
    show ?thesis
    proof (cases "cur_type st1 = SUBGRAPH \<or> cur_type st1 = LBRACE")
      case True
      from "3.prems" pos obtain m where m: "n = Suc m" by (cases n) auto
      have "returns_smaller (psize st1 - 1) (parse_subgraph m st1)"
        using "3.prems" st1 m by (intro "3.IH" [OF refl pre [symmetric] nd True m]) auto
      then show ?thesis
        using nd True m st1(1) by (cases rule: stmt_cases) (auto simp: unf [unfolded m])
    next
      case False
      have edge: "psize st' \<le> psize st - 1" if "parse_edge_stmt i (advance st1) = Inr (e, st')" for i e st'
        using psize_parse_edge [OF that] adv by simp
      have node: "psize st' \<le> psize st - 1" if "parse_node_stmt i (advance st1) = Inr (e, st')" for i e st'
        using psize_parse_node [OF that] adv by simp
      show ?thesis
        using nd False edge node by (auto simp: unf split: sum.split prod.split)
    qed
  qed
next
  case (4 n st)
  let ?head = "if cur_type st = SUBGRAPH then
       (let st = advance st in
        if cur_type st = IDENTIFIER \<or> cur_type st = QUOTED_STRING
        then (tok_value (cur st), advance st) else ([], st)) else ([], st)"
  obtain i st1 where pre: "?head = (i, st1)" by (rule prod.exhaust)
  have st1: "psize st1 \<le> psize st"
    using pre psize_advance_le [of st] psize_advance_le [of "advance st"]
    by (auto simp: Let_def split: if_splits)
  note unf = parse_subgraph.simps [of n st, unfolded pre, unfolded Let_def split_conv]
  show ?case
  proof (cases "expect LBRACE st1")
    case (Inl e)
    then show ?thesis by (simp add: unf)
  next
    case (Inr st2)
    then have st2: "psize st2 < psize st1" by (auto dest: psize_expect)
    then have "returns_smaller (psize st2) (parse_stmt_list_into n no_stmts st2)"
      using "4.prems" st1 by (intro "4.IH" [OF pre [symmetric] refl Inr]) auto
    then show ?thesis
    proof (cases rule: stmt_cases)
      case (1 e)
      with Inr show ?thesis by (simp add: unf)
    next
      case (2 b st3)
      with Inr st1 st2 show ?thesis by (cases "expect RBRACE st3") (auto simp: unf dest!: psize_expect)
    qed
  qed
qed simp

definition parse_body :: "nat \<Rightarrow> bool \<Rightarrow> string \<Rightarrow> pstate \<Rightarrow> ast_graph result option" where
  "parse_body fuel is_strict i st =
     (case expect LBRACE st of
        Inl e \<Rightarrow> Some (failure e)
      | Inr st \<Rightarrow>
          case parse_stmt_list_into fuel no_stmts st of
            None \<Rightarrow> None
          | Some (Inl e) \<Rightarrow> Some (failure e)
          | Some (Inr (b, st)) \<Rightarrow>
              case expect RBRACE st of
                Inl e \<Rightarrow> Some (failure e)
              | Inr st \<Rightarrow> Some (success \<lparr>strict = is_strict, ag_id = i, body = b\<rparr>))"

lemma parse_body_returns: "2 * psize st + 1 \<le> n \<Longrightarrow> \<exists>r. parse_body n s i st = Some r"
proof (cases "expect LBRACE st")
  case (Inr st1)
  assume "2 * psize st + 1 \<le> n"
  with psize_expect [OF Inr] have "2 * psize st1 + 1 \<le> n" by simp
  from parse_returns(1) [OF this, of no_stmts] show ?thesis
    by (cases rule: stmt_cases) (simp_all add: parse_body_def Inr split: sum.split)
qed (simp add: parse_body_def)

lemma psize_init: "psize (init_parser source) \<le> length source"
proof -
  obtain t lx where t: "next_token (source, Pos 1 1) = (t, lx)" by (rule prod.exhaust)
  have "init_parser source = \<lparr>cur = t, plex = lx, peeked = None\<rparr>"
    unfolding init_parser_def t by simp
  with next_token_size [OF t] show ?thesis by (simp add: psize_def)
qed

text \<open>C16: \<open>DotParser::parse\<close> returns on every source, with a syntax tree or with an error message: the
  fuel is never exhausted, so the three mutually recursive loops of the parser terminate.\<close>

theorem parse_dot_total: "\<exists>r. parse_dot source = Some r"
proof -
  let ?n = "2 * length source + 1"
  have body: "\<exists>r. parse_body ?n s i st = Some r" if "psize st \<le> length source" for s i st
    using that by (intro parse_body_returns) simp
  have adv: "psize (advance st) \<le> length source" if "psize st \<le> length source" for st
    using that psize_advance_le [of st] by simp
  show ?thesis
    unfolding parse_dot_def parse_graph_def Let_def parse_body_def [symmetric]
    by (simp add: body [simplified] adv psize_init)
qed

end
