(* ===== verification/Graph_Builder.thy ===== *)
theory Graph_Builder
  imports Graph_Model Dot_Parser
begin

text \<open>
  \<open>src/parser/graph_builder.cpp\<close>: from the syntax tree to the graph. \<open>node_attrs\<close> is the
  \<open>std::map\<close> from sanitised ids to attribute maps, in key order; \<open>node_attrs[id]\<close> creates an
  empty entry, which \<open>update_node\<close> does.
\<close>

section \<open>Building\<close>

type_synonym node_table = "(string, attr_map) omap"

definition sanitize_node_id :: "string \<Rightarrow> string" where
  "sanitize_node_id i = filter (\<lambda>c. is_alnum c \<or> c = CHR ''_'' \<or> c = CHR ''.'' \<or> c = CHR ''-'') i"

definition resolve_node_type :: "attr_map \<Rightarrow> node_type" where
  "resolve_node_type attrs =
     (if attr_get attrs ''handler'' = ''llmkit'' then LLMKIT
      else let lower_shape = to_lower (attr_get attrs ''shape'') in
      if lower_shape = ''mdiamond'' then START
      else if lower_shape = ''msquare'' then EXIT
      else if lower_shape = ''diamond'' then CONDITIONAL
      else if lower_shape = ''component'' then PARALLEL
      else if lower_shape = ''trapezium'' then FAN_IN
      else if lower_shape = ''hexagon'' then WAIT_HUMAN
      else if lower_shape = ''parallelogram'' then TOOL
      else if lower_shape = ''house'' then MANAGER_LOOP
      else if lower_shape = ''box'' then CODERGEN
      else CODERGEN)"

definition node_entry :: "node_table \<Rightarrow> string \<Rightarrow> attr_map" where
  "node_entry t i = (case map_of t i of Some a \<Rightarrow> a | None \<Rightarrow> [])"

definition update_node :: "string \<Rightarrow> (attr_map \<Rightarrow> attr_map) \<Rightarrow> node_table \<Rightarrow> node_table" where
  "update_node i f t = omap_set i (f (node_entry t i)) t"

text \<open>The attributes of the default statements for \<open>tgt\<close>, in source order.\<close>

definition default_attrs :: "string \<Rightarrow> ast_default list \<Rightarrow> ast_attr list" where
  "default_attrs tgt ds = concat (map ad_attrs (filter (\<lambda>d. target d = tgt) ds))"

definition apply_default_attrs :: "ast_default list \<Rightarrow> attr_map \<Rightarrow> attr_map" where
  "apply_default_attrs ds graph_attrs =
     fold (\<lambda>d m. if target d = ''graph'' then attr_set_all (ad_attrs d) m else m) ds graph_attrs"

definition collect_node_defaults :: "ast_default list \<Rightarrow> (string, string) omap" where
  "collect_node_defaults ds =
     fold (\<lambda>d m. if target d = ''node'' then fold (\<lambda>kv. omap_set (fst kv) (snd kv)) (ad_attrs d) m else m) ds []"

fun expand_chain :: "string list \<Rightarrow> ast_attr list \<Rightarrow> edge list" where
  "expand_chain (i # j # is) attrs =
     \<lparr>efrom = sanitize_node_id i, eto = sanitize_node_id j, eattrs = attr_set_all attrs []\<rparr>
     # expand_chain (j # is) attrs"
| "expand_chain _ attrs = []"

definition expand_edge_chains :: "ast_edge \<Rightarrow> edge list \<Rightarrow> edge list" where
  "expand_edge_chains e out = out @ expand_chain (node_chain e) (ae_attrs e)"

definition add_node :: "(string, string) omap \<Rightarrow> ast_node \<Rightarrow> node_table \<Rightarrow> node_table" where
  "add_node node_defaults n t =
     update_node (sanitize_node_id (an_id n)) (\<lambda>attrs. attr_fill node_defaults (attr_set_all (an_attrs n) attrs)) t"

definition add_edge ::
  "(string, string) omap \<Rightarrow> ast_edge \<Rightarrow> node_table \<times> edge list \<Rightarrow> node_table \<times> edge list" where
  "add_edge node_defaults e te =
     (fold (\<lambda>i t. update_node (sanitize_node_id i) (attr_fill node_defaults) t) (node_chain e) (fst te),
      expand_edge_chains e (snd te))"

definition add_sub_node :: "ast_attr list \<Rightarrow> ast_node \<Rightarrow> node_table \<Rightarrow> node_table" where
  "add_sub_node node_default_attrs n t =
     update_node (sanitize_node_id (an_id n))
       (\<lambda>attrs. attr_set_all (an_attrs n) (attr_fill node_default_attrs attrs)) t"

definition add_sub_edge :: "ast_attr list \<Rightarrow> ast_edge \<Rightarrow> node_table \<times> edge list \<Rightarrow> node_table \<times> edge list" where
  "add_sub_edge node_default_attrs e te =
     (fold (\<lambda>i t. let san_id = sanitize_node_id i in
          if map_of t san_id = None then update_node san_id (attr_set_all node_default_attrs) t else t)
        (node_chain e) (fst te),
      expand_edge_chains e (snd te))"

fun expand_subgraphs ::
  "ast_subgraph \<Rightarrow> ast_default list \<Rightarrow> node_table \<times> edge list \<Rightarrow> node_table \<times> edge list" where
  "expand_subgraphs (AstSubgraph i ns es ds subs) parent_defaults te =
     (let node_default_attrs = default_attrs ''node'' parent_defaults @ default_attrs ''node'' ds;
          te = (fold (add_sub_node node_default_attrs) ns (fst te), snd te);
          te = fold (add_sub_edge node_default_attrs) es te;
          combined_defaults = parent_defaults @ ds
      in fold (\<lambda>nested. expand_subgraphs nested combined_defaults) subs te)"

definition build_tables :: "stmts \<Rightarrow> node_table \<times> edge list" where
  "build_tables b =
     (let node_defaults = collect_node_defaults (defaults b);
          t = fold (add_node node_defaults) (nodes b) [];
          te = fold (add_edge node_defaults) (edges b) (t, [])
      in fold (\<lambda>sub. expand_subgraphs sub (defaults b)) (subgraphs b) te)"

definition make_node :: "string \<times> attr_map \<Rightarrow> node" where
  "make_node kv = \<lparr>node_id = fst kv, ntype = resolve_node_type (snd kv), nattrs = snd kv\<rparr>"

definition build_graph :: "ast_graph \<Rightarrow> graph" where
  "build_graph ast =
     (let (t, es) = build_tables (body ast) in
      \<lparr>gname = ag_id ast, gnodes = map make_node t, gedges = es,
       gattrs = apply_default_attrs (defaults (body ast)) []\<rparr>)"

section \<open>The invariant of the tables\<close>

definition id_ok :: "string \<Rightarrow> bool" where
  "id_ok i = (\<forall>c \<in> set i. is_alnum c \<or> c = CHR ''_'' \<or> c = CHR ''.'' \<or> c = CHR ''-'')"

lemma id_ok_sanitize [simp]: "id_ok (sanitize_node_id i)"
  by (simp add: id_ok_def sanitize_node_id_def)

lemma sanitize_id_ok: "id_ok i \<Longrightarrow> sanitize_node_id i = i"
  by (auto simp: id_ok_def sanitize_node_id_def filter_id_conv)

definition table_ok :: "node_table \<Rightarrow> bool" where
  "table_ok t = (omap_ok t \<and> (\<forall>(i, a) \<in> set t. id_ok i \<and> omap_ok a))"

definition edge_in :: "node_table \<Rightarrow> edge \<Rightarrow> bool" where
  "edge_in t e = (efrom e \<in> dom (map_of t) \<and> eto e \<in> dom (map_of t) \<and> omap_ok (eattrs e))"

definition tables_ok :: "node_table \<times> edge list \<Rightarrow> bool" where
  "tables_ok te = (table_ok (fst te) \<and> (\<forall>e \<in> set (snd te). edge_in (fst te) e))"

lemma dom_update_node [simp]: "dom (map_of (update_node i f t)) = insert i (dom (map_of t))"
  by (simp add: update_node_def)

lemma dom_fold_update:
  "dom (map_of (fold (\<lambda>x. update_node (g x) (f x)) xs t)) = g ` set xs \<union> dom (map_of t)"
  by (induction xs arbitrary: t) auto

lemma map_of_update_node:
  "map_of (update_node i f t) j = (if j = i then Some (f (node_entry t i)) else map_of t j)"
  by (simp add: update_node_def)

lemma node_entry_ok: "table_ok t \<Longrightarrow> omap_ok (node_entry t i)"
  by (auto simp: table_ok_def node_entry_def split: option.splits dest!: map_of_SomeD)

lemma set_omap_set_subset: "set (omap_set k v m) \<subseteq> insert (k, v) (set m)"
  by (induction m) (auto split: if_splits)

lemma table_ok_update:
  assumes "table_ok t" "id_ok i" "\<And>a. omap_ok a \<Longrightarrow> omap_ok (f a)"
  shows "table_ok (update_node i f t)"
  using assms node_entry_ok [OF assms(1), of i] set_omap_set_subset [of i "f (node_entry t i)" t]
  by (auto simp: table_ok_def update_node_def)

lemma edge_in_mono: "dom (map_of t) \<subseteq> dom (map_of t') \<Longrightarrow> edge_in t e \<Longrightarrow> edge_in t' e"
  by (auto simp: edge_in_def)

lemma expand_chain_ends:
  "e \<in> set (expand_chain is attrs) \<Longrightarrow>
   efrom e \<in> sanitize_node_id ` set is \<and> eto e \<in> sanitize_node_id ` set is \<and> omap_ok (eattrs e)"
  by (induction "is" attrs rule: expand_chain.induct) auto

lemma tables_ok_nodes:
  assumes "tables_ok te" "table_ok t'" "dom (map_of (fst te)) \<subseteq> dom (map_of t')"
  shows "tables_ok (t', snd te)"
  using assms edge_in_mono by (auto simp: tables_ok_def)

lemma tables_ok_edges:
  assumes "tables_ok te" "table_ok t'" "dom (map_of (fst te)) \<union> sanitize_node_id ` set (node_chain e) \<subseteq> dom (map_of t')"
  shows "tables_ok (t', expand_edge_chains e (snd te))"
proof -
  have "edge_in t' d" if "d \<in> set (expand_chain (node_chain e) (ae_attrs e))" for d
    using expand_chain_ends [OF that] assms(3) by (auto simp: edge_in_def)
  moreover have "tables_ok (t', snd te)" using assms by (intro tables_ok_nodes) auto
  ultimately show ?thesis by (auto simp: tables_ok_def expand_edge_chains_def)
qed

lemma tables_ok_add_node: "tables_ok te \<Longrightarrow> tables_ok (add_node ds n (fst te), snd te)"
  by (intro tables_ok_nodes) (auto simp: add_node_def tables_ok_def intro!: table_ok_update)

lemma tables_ok_add_sub_node: "tables_ok te \<Longrightarrow> tables_ok (add_sub_node ds n (fst te), snd te)"
  by (intro tables_ok_nodes) (auto simp: add_sub_node_def tables_ok_def intro!: table_ok_update)

lemma table_ok_fold:
  assumes "table_ok t" "\<And>x t. table_ok t \<Longrightarrow> table_ok (f x t)"
  shows "table_ok (fold f xs t)"
  using assms by (induction xs arbitrary: t) auto

lemma tables_ok_add_edge: "tables_ok te \<Longrightarrow> tables_ok (add_edge ds e te)"
  unfolding add_edge_def
  by (intro tables_ok_edges)
    (auto simp: dom_fold_update tables_ok_def intro!: table_ok_fold table_ok_update)

lemma dom_fold_new: "dom (map_of (fold (\<lambda>i t. let san_id = sanitize_node_id i in
    if map_of t san_id = None then update_node san_id f t else t) is t))
  = dom (map_of t) \<union> sanitize_node_id ` set is"
  by (induction "is" arbitrary: t) (auto simp: Let_def)

lemma tables_ok_add_sub_edge: "tables_ok te \<Longrightarrow> tables_ok (add_sub_edge ds e te)"
  unfolding add_sub_edge_def
proof (rule tables_ok_edges)
  assume "tables_ok te"
  then show "table_ok (fold (\<lambda>i t. let san_id = sanitize_node_id i in
      if map_of t san_id = None then update_node san_id (attr_set_all ds) t else t) (node_chain e) (fst te))"
    by (intro table_ok_fold) (auto simp: tables_ok_def Let_def intro!: table_ok_update)
qed (simp_all only: dom_fold_new Un_commute order_refl)

lemma tables_ok_fold: "tables_ok te \<Longrightarrow> (\<And>x te. x \<in> set xs \<Longrightarrow> tables_ok te \<Longrightarrow> tables_ok (f x te)) \<Longrightarrow>
  tables_ok (fold f xs te)"
  by (induction xs arbitrary: te) auto

lemma fold_pair_fst: "(fold f xs t, es) = fold (\<lambda>x te. (f x (fst te), snd te)) xs (t, es)"
  by (induction xs arbitrary: t) auto

lemma tables_ok_subgraph: "tables_ok te \<Longrightarrow> tables_ok (expand_subgraphs sub ds te)"
proof (induction sub arbitrary: ds te)
  case (AstSubgraph i ns es ds' subs)
  let ?d = "default_attrs ''node'' ds @ default_attrs ''node'' ds'"
  have "tables_ok (fold (add_sub_node ?d) ns (fst te), snd te)"
    unfolding fold_pair_fst using AstSubgraph.prems by (intro tables_ok_fold tables_ok_add_sub_node) simp
  then have "tables_ok (fold (add_sub_edge ?d) es (fold (add_sub_node ?d) ns (fst te), snd te))"
    by (rule tables_ok_fold) (rule tables_ok_add_sub_edge)
  then show ?case
    unfolding expand_subgraphs.simps Let_def
    by (rule tables_ok_fold) (rule AstSubgraph.IH)
qed

lemma tables_ok_build: "tables_ok (build_tables b)"
proof -
  let ?d = "collect_node_defaults (defaults b)"
  have "tables_ok ([], [])" by (simp add: tables_ok_def table_ok_def)
  then have "tables_ok (fold (add_node ?d) (nodes b) [], [])"
    unfolding fold_pair_fst by (rule tables_ok_fold) (rule tables_ok_add_node)
  then have "tables_ok (fold (add_edge ?d) (edges b) (fold (add_node ?d) (nodes b) [], []))"
    by (rule tables_ok_fold) (rule tables_ok_add_edge)
  then show ?thesis unfolding build_tables_def Let_def by (rule tables_ok_fold) (rule tables_ok_subgraph)
qed

section \<open>Properties\<close>

lemma built_graph_wf:
  "sorted_wrt (<) (map node_id (gnodes (build_graph ast))) \<and> edges_closed (build_graph ast) \<and>
   (\<forall>n \<in> set (gnodes (build_graph ast)).
      id_ok (node_id n) \<and> omap_ok (nattrs n) \<and> ntype n = resolve_node_type (nattrs n)) \<and>
   (\<forall>e \<in> set (gedges (build_graph ast)). omap_ok (eattrs e))"
proof -
  obtain t es where b: "build_tables (body ast) = (t, es)" by (rule prod.exhaust)
  then have ok: "table_ok t" "\<forall>e \<in> set es. edge_in t e"
    using tables_ok_build [of "body ast"] by (auto simp: tables_ok_def)
  have ids: "map node_id (gnodes (build_graph ast)) = map fst t"
    by (simp add: build_graph_def b make_node_def)
  have "find_node (build_graph ast) i \<noteq> None" if "i \<in> dom (map_of t)" for i
    using that by (auto simp: find_node_None build_graph_def b make_node_def image_comp comp_def
        dom_map_of_conv_image_fst)
  with ok have "edges_closed (build_graph ast)"
    by (auto simp: edges_closed_def build_graph_def b edge_in_def)
  moreover have "sorted_wrt (<) (map node_id (gnodes (build_graph ast)))"
    unfolding ids using ok(1) by (simp add: table_ok_def omap_ok_def)
  ultimately show ?thesis
    using ok by (auto simp: build_graph_def b table_ok_def edge_in_def make_node_def)
qed

lemma build_graph_closed: "edges_closed (build_graph ast)"
  using built_graph_wf [of ast] by blast

text \<open>C17: every graph \<open>GraphBuilder::build\<close> makes is well formed: node ids are distinct (in increasing
  order) and contain only identifier characters, attribute maps are maps, the type of each node is the
  one its attributes resolve to, and both ends of every edge are nodes of the graph.\<close>

theorem build_graph_wf:
  "sorted_wrt (<) (map node_id (gnodes (build_graph ast))) \<and> edges_closed (build_graph ast) \<and>
   list_all (\<lambda>n. id_ok (node_id n) \<and> omap_ok (nattrs n) \<and> ntype n = resolve_node_type (nattrs n))
     (gnodes (build_graph ast)) \<and>
   list_all (\<lambda>e. omap_ok (eattrs e)) (gedges (build_graph ast))"
  unfolding list_all_iff by (rule built_graph_wf)

lemma build_distinct: "distinct (map node_id (gnodes (build_graph ast)))"
  using built_graph_wf [of ast] by (simp add: strict_sorted_iff)

section \<open>Where an attribute comes from\<close>

definition own_attrs :: "ast_node list \<Rightarrow> string \<Rightarrow> ast_attr list" where
  "own_attrs ns i = concat (map an_attrs (filter (\<lambda>n. sanitize_node_id (an_id n) = i) ns))"

text \<open>The last value a list of attributes gives to a key.\<close>

definition last_value :: "ast_attr list \<Rightarrow> string \<Rightarrow> string option" where
  "last_value as k = map_of (rev as) k"

lemma last_value_append:
  "last_value (as @ bs) k = (case last_value bs k of Some v \<Rightarrow> Some v | None \<Rightarrow> last_value as k)"
  unfolding last_value_def by (simp add: map_add_def)

lemma last_value_Nil [simp]: "last_value [] k = None"
  by (simp add: last_value_def)

lemma map_of_attr_set_all': "map_of (attr_set_all as m) k =
    (case last_value as k of Some v \<Rightarrow> Some v | None \<Rightarrow> map_of m k)"
  by (simp add: map_of_attr_set_all last_value_def)

lemma collect_fold:
  "map_of (fold (\<lambda>d m. if target d = ''node'' then fold (\<lambda>kv. omap_set (fst kv) (snd kv)) (ad_attrs d) m else m) ds m) k
   = (case last_value (default_attrs ''node'' ds) k of Some v \<Rightarrow> Some v | None \<Rightarrow> map_of m k)"
proof (induction ds arbitrary: m)
  case (Cons d ds)
  have "map_of (fold (\<lambda>kv. omap_set (fst kv) (snd kv)) (ad_attrs d) m) k
      = (case last_value (ad_attrs d) k of Some v \<Rightarrow> Some v | None \<Rightarrow> map_of m k)"
    using map_of_attr_set_all' [of "ad_attrs d" m k] by (simp add: attr_set_all_def attr_set_def [abs_def])
  with Cons show ?case
    by (simp add: default_attrs_def last_value_append split: option.splits)
qed (simp add: default_attrs_def)

lemma collect_node_defaults_value:
  "map_of (collect_node_defaults ds) k = last_value (default_attrs ''node'' ds) k"
  by (simp add: collect_node_defaults_def collect_fold split: option.split)

definition entry_value :: "node_table \<Rightarrow> string \<Rightarrow> string \<Rightarrow> string option" where
  "entry_value t i k = map_of (node_entry t i) k"

lemma entry_update:
  "entry_value (update_node i f t) j k = (if j = i then map_of (f (node_entry t i)) k else entry_value t j k)"
  by (simp add: entry_value_def node_entry_def map_of_update_node)

lemma entry_add_nodes:
  "entry_value (fold (add_node D) ns t) i k =
    (if \<exists>n \<in> set ns. sanitize_node_id (an_id n) = i
     then case last_value (own_attrs ns i) k of Some v \<Rightarrow> Some v
       | None \<Rightarrow> (case entry_value t i k of Some v \<Rightarrow> Some v | None \<Rightarrow> map_of D k)
     else entry_value t i k)"
proof (induction ns arbitrary: t)
  case (Cons n ns)
  have step: "entry_value (add_node D n t) i k =
    (if sanitize_node_id (an_id n) = i
     then case last_value (an_attrs n) k of Some v \<Rightarrow> Some v
       | None \<Rightarrow> (case entry_value t i k of Some v \<Rightarrow> Some v | None \<Rightarrow> map_of D k)
     else entry_value t i k)"
    by (simp add: add_node_def entry_update map_of_attr_fill map_of_attr_set_all' flip: entry_value_def
        split: option.split)
  have own: "own_attrs (n # ns) i =
      (if sanitize_node_id (an_id n) = i then an_attrs n @ own_attrs ns i else own_attrs ns i)"
    by (simp add: own_attrs_def)
  have none: "own_attrs ns i = []" if "\<forall>n \<in> set ns. sanitize_node_id (an_id n) \<noteq> i"
    using that by (auto simp: own_attrs_def filter_empty_conv)
  show ?case
    using Cons [of "add_node D n t"] none
    by (simp add: step own last_value_append split: option.split)
qed simp

lemma entry_fill_chain:
  "entry_value (fold (\<lambda>i. update_node (sanitize_node_id i) (attr_fill D)) is t) i k =
    (if i \<in> sanitize_node_id ` set is
     then case entry_value t i k of Some v \<Rightarrow> Some v | None \<Rightarrow> map_of D k
     else entry_value t i k)"
proof (induction "is" arbitrary: t)
  case (Cons j "is")
  have "entry_value (update_node (sanitize_node_id j) (attr_fill D) t) i k =
    (if i = sanitize_node_id j then case entry_value t i k of Some v \<Rightarrow> Some v | None \<Rightarrow> map_of D k
     else entry_value t i k)"
    by (simp add: entry_update map_of_attr_fill flip: entry_value_def)
  with Cons show ?case by (auto split: option.split)
qed simp

definition chain_ids :: "ast_edge list \<Rightarrow> string set" where
  "chain_ids es = (\<Union>e \<in> set es. sanitize_node_id ` set (node_chain e))"

lemma entry_add_edges:
  "entry_value (fst (fold (add_edge D) es te)) i k =
    (if i \<in> chain_ids es
     then case entry_value (fst te) i k of Some v \<Rightarrow> Some v | None \<Rightarrow> map_of D k
     else entry_value (fst te) i k)"
proof (induction es arbitrary: te)
  case (Cons e es)
  from Cons [of "add_edge D e te"] show ?case
    by (auto simp: chain_ids_def add_edge_def entry_fill_chain split: option.split)
qed (simp add: chain_ids_def)

lemma dom_add_nodes: "dom (map_of (fold (add_node D) ns t)) =
    (\<lambda>n. sanitize_node_id (an_id n)) ` set ns \<union> dom (map_of t)"
  unfolding add_node_def by (rule dom_fold_update)

lemma dom_add_edges: "dom (map_of (fst (fold (add_edge D) es te))) = chain_ids es \<union> dom (map_of (fst te))"
proof (induction es arbitrary: te)
  case (Cons e es)
  then show ?case by (auto simp: chain_ids_def add_edge_def dom_fold_update)
qed (simp add: chain_ids_def)

text \<open>Fact: in a graph without subgraphs a node's attribute has the last value a statement of that node
  gives it, and otherwise the last value of a top-level \<open>node\<close> default; this holds for declared nodes and
  for nodes only edges mention, wherever the default statement stands.\<close>

theorem build_node_attribute:
  assumes "subgraphs (body ast) = []" and "n \<in> set (gnodes (build_graph ast))"
  shows "map_of (nattrs n) k =
    (case last_value (own_attrs (nodes (body ast)) (node_id n)) k of
       Some v \<Rightarrow> Some v
     | None \<Rightarrow> last_value (default_attrs ''node'' (defaults (body ast))) k)"
proof -
  obtain t es where b: "build_tables (body ast) = (t, es)" by (rule prod.exhaust)
  let ?D = "collect_node_defaults (defaults (body ast))"
  let ?t0 = "fold (add_node ?D) (nodes (body ast)) []"
  let ?own = "own_attrs (nodes (body ast)) (node_id n)"
  have t: "t = fst (fold (add_edge ?D) (edges (body ast)) (?t0, []))"
    using b assms(1) by (simp add: build_tables_def Let_def)
  from assms(2) have mem: "(node_id n, nattrs n) \<in> set t"
    by (auto simp: build_graph_def b make_node_def)
  moreover have "omap_ok t" using tables_ok_build [of "body ast"] b by (simp add: tables_ok_def table_ok_def)
  ultimately have entry: "map_of t (node_id n) = Some (nattrs n)"
    by (simp add: omap_ok_distinct)
  then have attrs: "map_of (nattrs n) k = entry_value t (node_id n) k"
    by (simp add: entry_value_def node_entry_def)
  have "node_id n \<in> dom (map_of t)" using entry by auto
  then have mention: "node_id n \<in> chain_ids (edges (body ast)) \<or>
      (\<exists>m \<in> set (nodes (body ast)). sanitize_node_id (an_id m) = node_id n)"
    by (auto simp: t dom_add_edges dom_add_nodes)
  have empty: "entry_value [] i k = None" for i by (simp add: entry_value_def node_entry_def)
  have none: "?own = []" if "\<forall>m \<in> set (nodes (body ast)). sanitize_node_id (an_id m) \<noteq> node_id n"
    using that by (auto simp: own_attrs_def filter_empty_conv)
  show ?thesis
    using mention none unfolding attrs t entry_add_edges fst_conv entry_add_nodes empty
    by (auto simp: collect_node_defaults_value split: option.split)
qed

theorem build_node_attribute_witness:
  "let ast = \<lparr>strict = False, ag_id = ''p'', body = \<lparr>nodes = [\<lparr>an_id = ''a'', an_attrs = [(''timeout'', ''5m'')]\<rparr>],
       edges = [\<lparr>node_chain = [''a'', ''b''], ae_attrs = []\<rparr>],
       defaults = [\<lparr>target = ''node'', ad_attrs = [(''timeout'', ''90m'')]\<rparr>], subgraphs = []\<rparr>\<rparr> in
   \<exists>n \<in> set (gnodes (build_graph ast)). node_id n = ''b'' \<and> map_of (nattrs n) ''timeout'' = Some ''90m''"
proof -
  let ?ast = "\<lparr>strict = False, ag_id = ''p'', body = \<lparr>nodes = [\<lparr>an_id = ''a'', an_attrs = [(''timeout'', ''5m'')]\<rparr>],
       edges = [\<lparr>node_chain = [''a'', ''b''], ae_attrs = []\<rparr>],
       defaults = [\<lparr>target = ''node'', ad_attrs = [(''timeout'', ''90m'')]\<rparr>], subgraphs = []\<rparr>\<rparr>"
  have "map node_id (gnodes (build_graph ?ast)) = [''a'', ''b'']" by code_simp
  then have "''b'' \<in> node_id ` set (gnodes (build_graph ?ast))" by (metis list.set_intros set_map)
  then obtain n where n: "n \<in> set (gnodes (build_graph ?ast))" "node_id n = ''b''" by auto
  have ab: "sanitize_node_id ''a'' \<noteq> ''b''" by code_simp
  from build_node_attribute [OF _ n(1), of "''timeout''"] have "map_of (nattrs n) ''timeout'' = Some ''90m''"
    by (simp add: n(2) own_attrs_def ab default_attrs_def last_value_def)
  with n show ?thesis by (auto simp: Let_def)
qed

section \<open>Two facts about defaults\<close>

lemma expand_subgraphs_node_defaults:
  "default_attrs ''node'' ds = default_attrs ''node'' ds' \<Longrightarrow>
   expand_subgraphs sub ds te = expand_subgraphs sub ds' te"
proof (induction sub arbitrary: ds ds' te)
  case (AstSubgraph i ns es ds0 subs)
  have eq: "default_attrs ''node'' (ds @ ds0) = default_attrs ''node'' (ds' @ ds0)"
    using AstSubgraph.prems by (simp add: default_attrs_def)
  have "fold (\<lambda>nested. expand_subgraphs nested (ds @ ds0)) subs te
      = fold (\<lambda>nested. expand_subgraphs nested (ds' @ ds0)) subs te" for te
    by (rule fold_cong [OF refl refl]) (rule ext, rule AstSubgraph.IH [OF _ eq])
  with AstSubgraph.prems show ?case by (simp add: Let_def)
qed

lemma default_attrs_filter: "default_attrs t (filter (\<lambda>d. target d \<noteq> u) ds) = (if t = u then [] else default_attrs t ds)"
  by (induction ds) (auto simp: default_attrs_def)

lemma fold_filter_other:
  "t \<noteq> u \<Longrightarrow> fold (\<lambda>d m. if target d = t then f d m else m) (filter (\<lambda>d. target d \<noteq> u) ds) m
   = fold (\<lambda>d m. if target d = t then f d m else m) ds m"
  by (induction ds arbitrary: m) auto

text \<open>Fact: top-level \<open>edge [...]\<close> default statements have no effect: removing them all does not change
  the graph \<open>GraphBuilder::build\<close> returns.\<close>

theorem build_ignores_edge_defaults:
  "build_graph (ast\<lparr>body := (body ast)\<lparr>defaults := filter (\<lambda>d. target d \<noteq> ''edge'') (defaults (body ast))\<rparr>\<rparr>)
   = build_graph ast"
proof -
  let ?ds = "defaults (body ast)"
  let ?ds' = "filter (\<lambda>d. target d \<noteq> ''edge'') ?ds"
  have 1: "collect_node_defaults ?ds' = collect_node_defaults ?ds"
    unfolding collect_node_defaults_def by (rule fold_filter_other) simp
  have 2: "apply_default_attrs ?ds' [] = apply_default_attrs ?ds []"
    unfolding apply_default_attrs_def by (rule fold_filter_other) simp
  have 3: "expand_subgraphs sub ?ds' = expand_subgraphs sub ?ds" for sub
    by (rule ext, rule expand_subgraphs_node_defaults) (simp add: default_attrs_filter)
  show ?thesis by (simp add: build_graph_def build_tables_def 1 2 3 Let_def)
qed

text \<open>Fact: inside a subgraph the enclosing \<open>node\<close> default wins over the subgraph's own for a node the
  subgraph declares, while for a node only an edge mentions the subgraph's own default wins.\<close>

theorem subgraph_default_precedence:
  "let sub = AstSubgraph ''s'' [\<lparr>an_id = ''a'', an_attrs = []\<rparr>] [\<lparr>node_chain = [''b''], ae_attrs = []\<rparr>]
       [\<lparr>target = ''node'', ad_attrs = [(''k'', inner)]\<rparr>] [];
     t = fst (build_tables \<lparr>nodes = [], edges = [], defaults = [\<lparr>target = ''node'', ad_attrs = [(''k'', outer)]\<rparr>],
       subgraphs = [sub]\<rparr>)
   in entry_value t ''a'' ''k'' = Some outer \<and> entry_value t ''b'' ''k'' = Some inner"
proof -
  have "sanitize_node_id ''a'' = ''a''" "sanitize_node_id ''b'' = ''b''" by code_simp+
  moreover have "\<not> ''b'' < ''a''" by code_simp
  ultimately show ?thesis
    by (simp add: build_tables_def default_attrs_def add_sub_node_def add_sub_edge_def entry_update
        map_of_update_node map_of_attr_fill map_of_attr_set_all' last_value_def node_entry_def Let_def)
qed

end
