(* ===== verification/Variable_Expansion.thy ===== *)
theory Variable_Expansion
  imports Graph_Model
begin

text \<open>
  \<open>src/engine/variable_expansion_transform.cpp\<close>: the expansion of \<open>{{key}}\<close> placeholders and of
  \<open>$goal\<close>, \<open>$var.*\<close>, \<open>$context.*\<close> references in node attributes. The scanners' index is the rest of the
  input. \<open>resolve_variable\<close> calls itself only from the \<open>goal\<close> branch and never with \<open>goal\<close>, so its inner
  calls are \<open>resolve_plain\<close>. The denylist of attribute names is empty in the code.
\<close>

section \<open>Placeholders\<close>

function expand_placeholders :: "string \<Rightarrow> ctxt \<Rightarrow> string" where
  "expand_placeholders s c =
     (case s of
        [] \<Rightarrow> []
      | x # r \<Rightarrow>
          if take 3 s = [backslash, CHR ''{'', CHR ''{''] then ''{{'' @ expand_placeholders (drop 3 s) c
          else if take 2 s = ''{{'' then
            (case find_sub ''}}'' (drop 2 s) of
               Some k \<Rightarrow>
                 let key = trim (take k (drop 2 s)); full_key = ''needle.'' @ key in
                 (if key \<noteq> [] \<and> ctx_has c full_key then ctx_get c full_key else take (k + 4) s)
                   @ expand_placeholders (drop (k + 4) s) c
             | None \<Rightarrow> x # expand_placeholders r c)
          else x # expand_placeholders r c)"
  by pat_completeness auto
termination by (relation "measure (length \<circ> fst)") auto

declare expand_placeholders.simps [simp del]

section \<open>References\<close>

definition var_ident_char :: "char \<Rightarrow> bool" where
  "var_ident_char c = (is_alnum c \<or> c = CHR ''_'' \<or> c = CHR ''.'')"

definition is_terminal_punct :: "char \<Rightarrow> bool" where
  "is_terminal_punct c = (c = CHR ''.'' \<or> c = CHR '','' \<or> c = CHR '';'' \<or> c = CHR '':'' \<or> c = CHR '')''
     \<or> c = CHR '']'' \<or> c = CHR ''}'')"

definition extract_identifier :: "string \<Rightarrow> string" where
  "extract_identifier s =
     (let w = takeWhile var_ident_char s; i = rtrim is_terminal_punct w
      in if i = [] then w else i)"

text \<open>The characters a \<open>$name\<close> reference may start with.\<close>

fun starts_name :: "string \<Rightarrow> bool" where
  "starts_name [] = False"
| "starts_name (c # s) = (is_alpha c \<or> c = CHR ''_'')"

definition resolve_plain :: "string \<Rightarrow> ctxt \<Rightarrow> graph \<Rightarrow> string" where
  "resolve_plain var c g =
     (if length var > 4 \<and> take 4 var = ''var.'' then
        if var = ''var.repo_dir'' \<and> ctx_has c ''needle.branch.cwd'' then ctx_get c ''needle.branch.cwd''
        else if ctx_has c var then ctx_get c var
        else []
      else if length var > 8 \<and> take 8 var = ''context.'' then
        let key = drop 8 var in if ctx_has c key then ctx_get c key else []
      else if ctx_has c var then ctx_get c var
      else let graph_val = attr_get (gattrs g) var in
      if graph_val \<noteq> [] then graph_val else [])"

text \<open>The loop over the goal string.\<close>

lemma extract_identifier_length: "length (extract_identifier s) \<le> length s"
proof -
  have "length (rtrim p w) \<le> length w" for p and w :: string
    using length_dropWhile_le [of p "rev w"] by (simp add: rtrim_def)
  moreover have "length (takeWhile var_ident_char s) \<le> length s" by (rule length_takeWhile_le)
  ultimately show ?thesis by (auto simp: extract_identifier_def Let_def intro: order_trans)
qed

function expand_goal :: "string \<Rightarrow> ctxt \<Rightarrow> graph \<Rightarrow> string" where
  "expand_goal s c g =
     (case s of
        [] \<Rightarrow> []
      | x # r \<Rightarrow>
          let inner = (if x = CHR ''$'' \<and> starts_name r then extract_identifier r else []);
              resolved = (if inner \<noteq> [] \<and> inner \<noteq> ''goal'' then resolve_plain inner c g else [])
          in if resolved \<noteq> [] then resolved @ expand_goal (drop (length inner) r) c g
             else x # expand_goal r c g)"
  by pat_completeness auto
termination by (relation "measure (length \<circ> fst)") auto

declare expand_goal.simps [simp del]

definition resolve_variable :: "string \<Rightarrow> ctxt \<Rightarrow> graph \<Rightarrow> node \<Rightarrow> string" where
  "resolve_variable var c g n =
     (if var = ''goal'' then
        let goal = attr_get (nattrs n) ''goal'';
            goal = (if goal = [] then attr_get (gattrs g) ''goal'' else goal)
        in if CHR ''$'' \<in> set goal then expand_goal goal c g else goal
      else resolve_plain var c g)"

definition is_late_bound :: "string \<Rightarrow> bool" where
  "is_late_bound var =
     (if length var > 6 \<and> take 6 var = ''human.'' then True
      else if length var > 8 \<and> take 8 var = ''context.'' then
        (if starts_with ''context.config.'' var then False else True)
      else False)"

definition is_template_ref :: "string \<Rightarrow> bool" where
  "is_template_ref var =
     (var = ''goal'' \<or> (length var > 4 \<and> take 4 var = ''var.'')
      \<or> (length var > 8 \<and> take 8 var = ''context.'') \<or> (length var > 6 \<and> take 6 var = ''human.''))"

section \<open>\<open>expand_variables\<close>\<close>

type_synonym unresolved = "(string \<times> string) list"

text \<open>The text a reference is replaced by, and what the collector records for it.\<close>

definition expand_ref :: "string \<Rightarrow> string \<Rightarrow> ctxt \<Rightarrow> graph \<Rightarrow> node \<Rightarrow> string \<times> unresolved" where
  "expand_ref literal var c g n =
     (if \<not> is_template_ref var then (literal, [])
      else let resolved = resolve_variable var c g n in
      if resolved \<noteq> [] then (resolved, [])
      else (literal, if \<not> is_late_bound var then [(node_id n, var)] else []))"

function expand_variables :: "string \<Rightarrow> ctxt \<Rightarrow> graph \<Rightarrow> node \<Rightarrow> string \<times> unresolved" where
  "expand_variables s c g n =
     (case s of
        [] \<Rightarrow> ([], [])
      | x # r \<Rightarrow>
          let braced = (if x = CHR ''$'' \<and> take 1 r = ''{'' then find_char (CHR ''}'') (drop 1 r) else None) in
          case braced of
            Some k \<Rightarrow>
              let (t, u) = expand_ref (take (k + 3) s) (take k (drop 1 r)) c g n;
                  (t', u') = expand_variables (drop (k + 3) s) c g n
              in (t @ t', u @ u')
          | None \<Rightarrow>
              let var = (if x = CHR ''$'' \<and> starts_name r then extract_identifier r else []) in
              if var \<noteq> [] then
                let (t, u) = expand_ref (CHR ''$'' # var) var c g n;
                    (t', u') = expand_variables (drop (length var) r) c g n
                in (t @ t', u @ u')
              else let (t', u') = expand_variables r c g n in (x # t', u'))"
  by pat_completeness auto
termination by (relation "measure (length \<circ> fst)") auto

declare expand_variables.simps [simp del]

section \<open>\<open>VariableExpansionTransform::apply\<close>\<close>

definition expand_attr :: "ctxt \<Rightarrow> graph \<Rightarrow> string \<Rightarrow> node \<times> unresolved \<Rightarrow> node \<times> unresolved" where
  "expand_attr c g key nu =
     (let (n, u) = nu; val = attr_get (nattrs n) key in
      if val = [] then (n, u)
      else let (expanded, u') = expand_variables (expand_placeholders val c) c g n in
        (if expanded \<noteq> val then n\<lparr>nattrs := attr_set key expanded (nattrs n)\<rparr> else n, u @ u'))"

definition expand_node :: "ctxt \<Rightarrow> graph \<Rightarrow> node \<Rightarrow> node \<times> unresolved" where
  "expand_node c g n = fold (expand_attr c g) (map fst (nattrs n)) (n, [])"

definition apply_variable_expansion :: "ctxt \<Rightarrow> graph \<Rightarrow> graph \<times> unresolved" where
  "apply_variable_expansion c g =
     (g\<lparr>gnodes := map (\<lambda>n. fst (expand_node c g n)) (gnodes g)\<rparr>,
      concat (map (\<lambda>n. snd (expand_node c g n)) (gnodes g)))"

section \<open>Properties\<close>

lemma extract_identifier_prefix: "\<exists>rest. r = extract_identifier r @ rest"
proof -
  have strip: "\<exists>u. w = rtrim p w @ u" for p and w :: string
    by (metis rev_append rev_rev_ident rtrim_def takeWhile_dropWhile_id)
  obtain u where "takeWhile var_ident_char r = rtrim is_terminal_punct (takeWhile var_ident_char r) @ u"
    using strip by blast
  then have "r = rtrim is_terminal_punct (takeWhile var_ident_char r) @ u @ dropWhile var_ident_char r"
    by (metis append.assoc takeWhile_dropWhile_id)
  then show ?thesis
    unfolding extract_identifier_def Let_def by (metis takeWhile_dropWhile_id)
qed

lemma extract_identifier_take: "extract_identifier r @ drop (length (extract_identifier r)) r = r"
  using extract_identifier_prefix [of r] by (metis append_eq_conv_conj)

text \<open>Fact: where no template reference (\<open>$goal\<close>, \<open>$var.*\<close>, \<open>$context.*\<close>, \<open>$human.*\<close>) resolves, the expansion
  leaves every text unchanged, whatever dollar signs and braces it contains; and everything it reports as
  unresolved is a template reference of that node that is not bound later.\<close>

theorem expand_variables_literal:
  "((\<forall>var. is_template_ref var \<longrightarrow> resolve_variable var c g n = []) \<longrightarrow> fst (expand_variables s c g n) = s) \<and>
   (\<forall>(i, var) \<in> set (snd (expand_variables s c g n)).
      i = node_id n \<and> is_template_ref var \<and> \<not> is_late_bound var \<and> resolve_variable var c g n = [])"
proof (induction s rule: length_induct)
  case (1 s)
  let ?good = "\<lambda>u. \<forall>(i, var) \<in> set u. i = node_id n \<and> is_template_ref var \<and> \<not> is_late_bound var
      \<and> resolve_variable var c g n = []"
  let ?closed = "\<forall>var. is_template_ref var \<longrightarrow> resolve_variable var c g n = []"
  have ref: "(?closed \<longrightarrow> fst (expand_ref l v c g n) = l) \<and> ?good (snd (expand_ref l v c g n))" for l v
    by (auto simp: expand_ref_def Let_def)
  have join: "(?closed \<longrightarrow> fst (case a of (t, u) \<Rightarrow> case b of (t', u') \<Rightarrow> (t @ t', u @ u')) = l @ l') \<and>
      ?good (snd (case a of (t, u) \<Rightarrow> case b of (t', u') \<Rightarrow> (t @ t', u @ u')))"
    if "(?closed \<longrightarrow> fst a = l) \<and> ?good (snd a)" "(?closed \<longrightarrow> fst b = l') \<and> ?good (snd b)" for a b l l'
    using that by (cases a; cases b) auto
  show ?case
  proof (cases s)
    case Nil
    then show ?thesis by (simp add: expand_variables.simps)
  next
    case (Cons x r)
    have ih: "(?closed \<longrightarrow> fst (expand_variables t c g n) = t) \<and> ?good (snd (expand_variables t c g n))"
      if "length t \<le> length r" for t
    proof -
      have "length t < length s" using that Cons by simp
      with 1 show ?thesis by blast
    qed
    define braced where "braced = (if x = CHR ''$'' \<and> take 1 r = ''{'' then find_char (CHR ''}'') (drop 1 r) else None)"
    define var where "var = (if x = CHR ''$'' \<and> starts_name r then extract_identifier r else [])"
    note unf = expand_variables.simps [of s c g n, unfolded Cons list.case Let_def, folded braced_def var_def]
    show ?thesis
    proof (cases braced)
      case (Some k)
      let ?t = "drop (k + 3) (x # r)"
      have "length ?t \<le> length r" by simp
      from join [OF ref [of "take (k + 3) (x # r)" "take k (drop 1 r)"] ih [OF this]]
      show ?thesis unfolding Cons unf Some option.case append_take_drop_id .
    next
      case None
      show ?thesis
      proof (cases "var = []")
        case True
        then have nn: "\<not> var \<noteq> []" by simp
        from ih [of r] show ?thesis
          unfolding Cons unf None option.case if_not_P [OF nn]
          by (cases "expand_variables r c g n") auto
      next
        case False
        then have x: "x = CHR ''$''" and v: "var = extract_identifier r"
          by (auto simp: var_def split: if_splits)
        have "length (drop (length var) r) \<le> length r" by simp
        from join [OF ref [of "CHR ''$'' # var" var] ih [OF this]]
        show ?thesis
          unfolding Cons unf None option.case if_P [OF False]
          by (simp add: x v extract_identifier_take)
      qed
    qed
  qed
qed

theorem expand_variables_literal_witness:
  "fst (expand_variables ''let $state = ${var.x} + $var.y'' [] \<lparr>gname = [], gnodes = [], gedges = [], gattrs = []\<rparr>
     \<lparr>node_id = ''a'', ntype = CODERGEN, nattrs = []\<rparr>) = ''let $state = ${var.x} + $var.y''"
proof -
  have "resolve_variable var [] \<lparr>gname = [], gnodes = [], gedges = [], gattrs = []\<rparr>
     \<lparr>node_id = ''a'', ntype = CODERGEN, nattrs = []\<rparr> = []" for var
    by (simp add: resolve_variable_def resolve_plain_def ctx_has_def attr_get_or_def)
  then show ?thesis using expand_variables_literal by blast
qed

text \<open>Fact: a braced template reference is replaced by its value and the value is not scanned again; what
  follows is expanded as if it stood alone, and text before it without a dollar sign is copied.\<close>

theorem expand_braced_reference:
  assumes "CHR ''$'' \<notin> set pre" and "CHR ''}'' \<notin> set var" and "is_template_ref var"
    and "resolve_variable var c g n \<noteq> []"
  shows "expand_variables (pre @ ''${'' @ var @ ''}'' @ rest) c g n =
    (pre @ resolve_variable var c g n @ fst (expand_variables rest c g n), snd (expand_variables rest c g n))"
  using assms(1)
proof (induction pre)
  case Nil
  have fc: "find_char (CHR ''}'') (var @ CHR ''}'' # rest) = Some (length var)"
    using assms(2) by (induction var) auto
  have rest: "drop (length var + 3) (CHR ''$'' # CHR ''{'' # var @ CHR ''}'' # rest) = rest"
    by (simp add: numeral_3_eq_3)
  show ?case
    using assms(3,4)
    by (subst expand_variables.simps) (simp add: Let_def fc expand_ref_def rest split: prod.split)
next
  case (Cons x pre)
  then have "x \<noteq> CHR ''$''" by auto
  with Cons show ?case by (subst expand_variables.simps) (simp add: Let_def)
qed

theorem expand_braced_reference_witness:
  "expand_variables (''cd '' @ ''${'' @ ''var.d'' @ ''}'' @ '';'') [(''var.d'', ''$goal'')]
     \<lparr>gname = [], gnodes = [], gedges = [], gattrs = []\<rparr> \<lparr>node_id = ''a'', ntype = CODERGEN, nattrs = []\<rparr>
   = (''cd $goal;'', [])"
proof -
  let ?g = "\<lparr>gname = [], gnodes = [], gedges = [], gattrs = []\<rparr>"
  let ?n = "\<lparr>node_id = ''a'', ntype = CODERGEN, nattrs = []\<rparr>"
  have r: "resolve_variable ''var.d'' [(''var.d'', ''$goal'')] ?g ?n = ''$goal''"
    by (simp add: resolve_variable_def resolve_plain_def ctx_has_def ctx_get_def)
  have t: "is_template_ref ''var.d''" by (simp add: is_template_ref_def)
  have e: "expand_variables '';'' c ?g ?n = ('';'', [])" for c
    by (simp add: expand_variables.simps [of "'';''"] expand_variables.simps [of "[]"])
  from expand_braced_reference [of "''cd ''" "''var.d''" "[(''var.d'', ''$goal'')]" ?g ?n "'';''"] r t e
  show ?thesis by simp
qed

lemma expand_variables_no_dollar: "CHR ''$'' \<notin> set s \<Longrightarrow> expand_variables s c g n = (s, [])"
proof (induction s)
  case (Cons x s)
  then have "x \<noteq> CHR ''$''" by auto
  with Cons show ?case by (subst expand_variables.simps) (simp add: Let_def)
qed (simp add: expand_variables.simps)

lemma expand_placeholders_no_brace: "\<not> sublist ''{{'' s \<Longrightarrow> expand_placeholders s c = s"
proof (induction s)
  case (Cons x s)
  have "\<not> sublist ''{{'' s" using Cons.prems by (meson sublist_Cons_right)
  moreover have "take 3 (x # s) \<noteq> [backslash, CHR ''{'', CHR ''{'']"
  proof
    assume "take 3 (x # s) = [backslash, CHR ''{'', CHR ''{'']"
    then have "x # s = [backslash] @ ''{{'' @ drop 3 (x # s)" by (metis append_Cons append_Nil append_take_drop_id)
    with Cons.prems show False by (metis sublist_appendI)
  qed
  moreover have "take 2 (x # s) \<noteq> ''{{''"
    using Cons.prems by (metis append_Nil append_take_drop_id sublist_appendI)
  ultimately show ?case using Cons.IH by (subst expand_placeholders.simps) auto
qed (simp add: expand_placeholders.simps)

lemma expand_attr_shape:
  fixes c :: ctxt and g :: graph and u :: unresolved
  assumes "omap_ok (nattrs n)" and "key \<in> fst ` set (nattrs n)"
  defines "n' \<equiv> fst (expand_attr c g key (n, u))"
  shows "node_id n' = node_id n \<and> ntype n' = ntype n \<and> omap_ok (nattrs n') \<and>
    fst ` set (nattrs n') = fst ` set (nattrs n) \<and>
    (\<forall>k v. map_of (nattrs n) k = Some v \<longrightarrow> CHR ''$'' \<notin> set v \<longrightarrow> \<not> sublist ''{{'' v \<longrightarrow>
       map_of (nattrs n') k = Some v)"
proof -
  obtain v where v: "map_of (nattrs n) key = Some v" using assms(2) by (metis map_of_eq_None_iff not_None_eq)
  then have get: "attr_get (nattrs n) key = v" by (simp add: attr_get_or_def)
  obtain w u' where w: "expand_variables (expand_placeholders v c) c g n = (w, u')" by (rule prod.exhaust)
  have n': "n' = (if v \<noteq> [] \<and> w \<noteq> v then n\<lparr>nattrs := attr_set key w (nattrs n)\<rparr> else n)"
    by (simp add: n'_def expand_attr_def get w)
  have "w = v" if "CHR ''$'' \<notin> set v" "\<not> sublist ''{{'' v"
    using w that by (simp add: expand_placeholders_no_brace expand_variables_no_dollar)
  then show ?thesis
    using assms(1,2) v by (auto simp: n' attr_set_def set_omap_set)
qed

lemma expand_node_shape:
  assumes "omap_ok (nattrs n)"
  shows "node_id (fst (expand_node c g n)) = node_id n \<and> ntype (fst (expand_node c g n)) = ntype n \<and>
    fst ` set (nattrs (fst (expand_node c g n))) = fst ` set (nattrs n) \<and>
    (\<forall>k v. map_of (nattrs n) k = Some v \<longrightarrow> CHR ''$'' \<notin> set v \<longrightarrow> \<not> sublist ''{{'' v \<longrightarrow>
       map_of (nattrs (fst (expand_node c g n))) k = Some v)"
proof -
  have "node_id (fst r) = node_id n \<and> ntype (fst r) = ntype n \<and> omap_ok (nattrs (fst r)) \<and>
    fst ` set (nattrs (fst r)) = fst ` set (nattrs n) \<and>
    (\<forall>k v. map_of (nattrs n) k = Some v \<longrightarrow> CHR ''$'' \<notin> set v \<longrightarrow> \<not> sublist ''{{'' v \<longrightarrow>
       map_of (nattrs (fst r)) k = Some v)"
    if "set keys \<subseteq> fst ` set (nattrs n)" and r: "r = fold (expand_attr c g) keys (n, [])" for keys r
    using that
  proof (induction keys arbitrary: r rule: rev_induct)
    case (snoc key keys)
    define q where "q = fold (expand_attr c g) keys (n, [])"
    have q: "node_id (fst q) = node_id n \<and> ntype (fst q) = ntype n \<and> omap_ok (nattrs (fst q)) \<and>
      fst ` set (nattrs (fst q)) = fst ` set (nattrs n) \<and>
      (\<forall>k v. map_of (nattrs n) k = Some v \<longrightarrow> CHR ''$'' \<notin> set v \<longrightarrow> \<not> sublist ''{{'' v \<longrightarrow>
         map_of (nattrs (fst q)) k = Some v)"
      using snoc.IH [OF _ q_def] snoc.prems by simp
    have r: "r = expand_attr c g key (fst q, snd q)" using snoc.prems by (simp add: q_def)
    have "key \<in> fst ` set (nattrs (fst q))" using q snoc.prems(1) by simp
    from expand_attr_shape [of "fst q" key c g "snd q", OF _ this] q show ?case
      unfolding r by simp
  qed (use assms in simp)
  from this [of "map fst (nattrs n)"] show ?thesis by (simp add: expand_node_def)
qed

text \<open>Fact: the transform keeps the graph's shape: node ids and types, the names of the attributes, the edges
  and the graph attributes are those it was given, and an attribute that contains neither a dollar sign
  nor a double brace keeps its value.\<close>

theorem variable_expansion_shape:
  fixes c :: ctxt and g :: graph
  assumes "\<forall>n \<in> set (gnodes g). omap_ok (nattrs n)"
  defines "g' \<equiv> fst (apply_variable_expansion c g)"
  shows "map (\<lambda>n. (node_id n, ntype n, fst ` set (nattrs n))) (gnodes g')
      = map (\<lambda>n. (node_id n, ntype n, fst ` set (nattrs n))) (gnodes g) \<and>
    gedges g' = gedges g \<and> gattrs g' = gattrs g \<and>
    (\<forall>i < length (gnodes g). \<forall>k v. map_of (nattrs (gnodes g ! i)) k = Some v \<longrightarrow>
       CHR ''$'' \<notin> set v \<longrightarrow> \<not> sublist ''{{'' v \<longrightarrow> map_of (nattrs (gnodes g' ! i)) k = Some v)"
  using assms(1) expand_node_shape by (auto simp: g'_def apply_variable_expansion_def)

theorem variable_expansion_shape_witness:
  "gedges (fst (apply_variable_expansion [] \<lparr>gname = ''g'', gnodes = [\<lparr>node_id = ''a'', ntype = START, nattrs = [(''k'', ''v'')]\<rparr>],
     gedges = [], gattrs = []\<rparr>)) = []"
proof -
  let ?g = "\<lparr>gname = ''g'', gnodes = [\<lparr>node_id = ''a'', ntype = START, nattrs = [(''k'', ''v'')]\<rparr>],
     gedges = [], gattrs = []\<rparr>"
  have "\<forall>n \<in> set (gnodes ?g). omap_ok (nattrs n)" by (simp add: omap_ok_def)
  from variable_expansion_shape [OF this, of "[]"] show ?thesis by simp
qed

end
