(* ===== verification/Retry.thy ===== *)
theory Retry
  imports Attribute_Map
begin

text \<open>
  \<open>src/model/retry_policy.cpp\<close> and \<open>src/engine/retry_controller.cpp\<close>: how often a stage may be
  retried, and the counters. The multiplier of a policy and \<open>delay_for_attempt\<close> are floating-point
  code that only decides how long to sleep, and are not modelled.
\<close>

section \<open>Policies\<close>

datatype retry_preset = STANDARD | AGGRESSIVE | LINEAR | PATIENT

record retry_policy =
  max_retries :: int
  base_delay_ms :: int
  max_delay_ms :: int
  jitter :: bool

fun policy_from_preset :: "retry_preset \<Rightarrow> retry_policy" where
  "policy_from_preset STANDARD = \<lparr>max_retries = 5, base_delay_ms = 200, max_delay_ms = 30000, jitter = True\<rparr>"
| "policy_from_preset AGGRESSIVE = \<lparr>max_retries = 10, base_delay_ms = 100, max_delay_ms = 30000, jitter = True\<rparr>"
| "policy_from_preset LINEAR = \<lparr>max_retries = 5, base_delay_ms = 1000, max_delay_ms = 30000, jitter = False\<rparr>"
| "policy_from_preset PATIENT = \<lparr>max_retries = 3, base_delay_ms = 5000, max_delay_ms = 60000, jitter = True\<rparr>"

definition default_policy :: retry_policy where
  "default_policy = policy_from_preset STANDARD"

definition preset_of :: "string \<Rightarrow> retry_preset" where
  "preset_of s =
     (if s = ''aggressive'' then AGGRESSIVE
      else if s = ''linear'' then LINEAR
      else if s = ''patient'' then PATIENT
      else STANDARD)"

definition or_else :: "'a \<Rightarrow> 'a option \<Rightarrow> 'a" where
  "or_else d m = (case m of Some v \<Rightarrow> v | None \<Rightarrow> d)"

definition policy_from_attributes :: "attr_map \<Rightarrow> retry_policy" where
  "policy_from_attributes attrs =
     (let preset_str = attr_get attrs ''retry_preset'' in
      if preset_str \<noteq> [] then policy_from_preset (preset_of preset_str)
      else \<lparr>max_retries = or_else (max_retries default_policy) (attr_get_int attrs ''max_retries''),
            base_delay_ms = or_else (base_delay_ms default_policy) (attr_get_duration_ms attrs ''base_delay''),
            max_delay_ms = or_else (max_delay_ms default_policy) (attr_get_duration_ms attrs ''max_delay''),
            jitter = or_else (jitter default_policy) (attr_get_bool attrs ''retry_jitter'')\<rparr>)"

section \<open>The controller\<close>

type_synonym retry_controller = "(string, int) omap"

definition attempts :: "retry_controller \<Rightarrow> string \<Rightarrow> int" where
  "attempts rc i = (case map_of rc i of Some n \<Rightarrow> n | None \<Rightarrow> 0)"

definition should_retry :: "retry_controller \<Rightarrow> string \<Rightarrow> retry_policy \<Rightarrow> bool" where
  "should_retry rc i p = (attempts rc i < max_retries p)"

definition record_attempt :: "string \<Rightarrow> retry_controller \<Rightarrow> retry_controller" where
  "record_attempt i rc = omap_set i (attempts rc i + 1) rc"

interpretation retry_counters: sized_store "\<lambda>rc i. Some (attempts rc i)" "\<lambda>i n rc. omap_set i n rc" "\<lambda>n. n" omap_ok
  by unfold_locales (auto simp: attempts_def fun_eq_iff)

lemma attempts_record [omap_simps]:
  "attempts (record_attempt i rc) j = (if j = i then attempts rc i + 1 else attempts rc j)"
  by (simp add: attempts_def record_attempt_def)

lemma omap_ok_record [simp, intro]: "omap_ok rc \<Longrightarrow> omap_ok (record_attempt i rc)"
  unfolding record_attempt_def by (rule retry_counters.ok_put)

lemma attempts_Nil [simp]: "attempts [] i = 0"
  by (simp add: attempts_def)

text \<open>A loop that asks, records and tries again: how often it is allowed to.\<close>

fun retry_run :: "nat \<Rightarrow> string \<Rightarrow> retry_policy \<Rightarrow> retry_controller \<Rightarrow> nat \<times> retry_controller" where
  "retry_run 0 i p rc = (0, rc)"
| "retry_run (Suc n) i p rc =
     (if should_retry rc i p then (let (k, rc') = retry_run n i p (record_attempt i rc) in (Suc k, rc'))
      else (0, rc))"

lemma retry_run_count:
  "retry_run n i p rc = (k, rc') \<Longrightarrow>
   k = min n (nat (max_retries p - attempts rc i)) \<and> attempts rc' i = attempts rc i + int k \<and>
   (\<forall>j. j \<noteq> i \<longrightarrow> attempts rc' j = attempts rc j)"
proof (induction n arbitrary: rc k rc')
  case (Suc n)
  show ?case
  proof (cases "should_retry rc i p")
    case True
    obtain k1 where k1: "retry_run n i p (record_attempt i rc) = (k1, rc')" "k = Suc k1"
      using Suc.prems True by (auto split: prod.splits)
    from Suc.IH [OF k1(1)] True k1(2) show ?thesis
      by (auto simp: attempts_record should_retry_def min_def)
  next
    case False
    with Suc.prems show ?thesis by (simp add: should_retry_def)
  qed
qed simp

text \<open>Fact: the retry budget. Starting from a fresh controller, a stage is retried exactly as often as its
  policy allows and no more, however often it asks; a preset overrides every individual attribute; and
  the counters of other stages do not change.\<close>

theorem retry_budget:
  "fst (retry_run n i (policy_from_attributes attrs) []) =
     min n (nat (max_retries (policy_from_attributes attrs))) \<and>
   max_retries (policy_from_attributes attrs) =
     (if attr_get attrs ''retry_preset'' \<noteq> []
      then max_retries (policy_from_preset (preset_of (attr_get attrs ''retry_preset'')))
      else case attr_get_int attrs ''max_retries'' of Some m \<Rightarrow> m | None \<Rightarrow> 5) \<and>
   (\<forall>j. attempts (snd (retry_run n i (policy_from_attributes attrs) [])) j =
      (if j = i then int (min n (nat (max_retries (policy_from_attributes attrs)))) else 0))"
proof -
  obtain k rc' where r: "retry_run n i (policy_from_attributes attrs) [] = (k, rc')" by (rule prod.exhaust)
  from retry_run_count [OF r] r show ?thesis
    by (auto simp: policy_from_attributes_def Let_def or_else_def default_policy_def split: option.split)
qed

end
