(* ===== verification/Checkpoint.thy ===== *)
theory Checkpoint
  imports Retry Graph_Model
begin

text \<open>
  \<open>src/engine/checkpoint_manager.cpp\<close> (the checkpoint, its JSON form and the two writers),
  \<open>Context::to_json/from_json\<close> of \<open>src/model/context.cpp\<close>, \<open>RetryController::to_json/from_json\<close> and
  \<open>src/engine/stage_advancer.cpp\<close>.

  A \<open>nlohmann::json\<close> value is the datatype \<open>json\<close>; its objects are \<open>std::map\<close>s, so ordered maps here,
  and its numbers integers. Where the library throws, the model has an error value; the text of
  \<open>e.what()\<close> is the parameter \<open>what\<close>. A file holds a document or, while it is written, no document.
\<close>

section \<open>JSON values\<close>

datatype json =
  JNull | JBool bool | JInt int | JStr string | JArr "json list" | JObj "(string \<times> json) list"

datatype json_error = Type_Error | Key_Missing | Bad_Iterator

fun obj_items :: "json \<Rightarrow> (string \<times> json) list" where
  "obj_items (JObj kvs) = kvs"
| "obj_items _ = []"

definition json_set :: "string \<Rightarrow> json \<Rightarrow> json \<Rightarrow> json" where
  "json_set k v j = JObj (omap_set k v (obj_items j))"

definition json_find :: "json \<Rightarrow> string \<Rightarrow> json option" where
  "json_find j k = map_of (obj_items j) k"

text \<open>\<open>for (it = j.begin(); ...) ... it.key()\<close>: only objects have keys; null and empty arrays have no items.\<close>

fun json_iter :: "json \<Rightarrow> json_error + (string \<times> json) list" where
  "json_iter (JObj kvs) = Inr kvs"
| "json_iter JNull = Inr []"
| "json_iter (JArr []) = Inr []"
| "json_iter _ = Inl Bad_Iterator"

fun json_string :: "json \<Rightarrow> json_error + string" where
  "json_string (JStr s) = Inr s"
| "json_string _ = Inl Type_Error"

fun json_int :: "json \<Rightarrow> json_error + int" where
  "json_int (JInt i) = Inr (wrap32 i)"
| "json_int (JBool b) = Inr (if b then 1 else 0)"
| "json_int _ = Inl Type_Error"

text \<open>\<open>j.value(key, std::string())\<close>.\<close>

fun json_value_string :: "json \<Rightarrow> string \<Rightarrow> json_error + string" where
  "json_value_string (JObj kvs) k = (case map_of kvs k of None \<Rightarrow> Inr [] | Some v \<Rightarrow> json_string v)"
| "json_value_string _ k = Inl Type_Error"

fun json_at :: "json \<Rightarrow> string \<Rightarrow> json_error + json" where
  "json_at (JObj kvs) k = (case map_of kvs k of None \<Rightarrow> Inl Key_Missing | Some v \<Rightarrow> Inr v)"
| "json_at _ k = Inl Type_Error"

definition bind_result :: "'e + 'a \<Rightarrow> ('a \<Rightarrow> 'e + 'b) \<Rightarrow> 'e + 'b" where
  "bind_result r f = (case r of Inl e \<Rightarrow> Inl e | Inr x \<Rightarrow> f x)"

lemma bind_result_simps [simp]: "bind_result (Inl e) f = Inl e" "bind_result (Inr x) f = f x"
  by (simp_all add: bind_result_def)

text \<open>The loops \<open>m[it.key()] = it.value().get<T>()\<close> over the items of an object.\<close>

fun fill_map :: "(json \<Rightarrow> json_error + 'v) \<Rightarrow> (string \<times> json) list \<Rightarrow> (string, 'v) omap \<Rightarrow>
    json_error + (string, 'v) omap" where
  "fill_map get [] m = Inr m"
| "fill_map get ((k, j) # kvs) m = bind_result (get j) (\<lambda>v. fill_map get kvs (omap_set k v m))"

definition map_to_json :: "('v \<Rightarrow> json) \<Rightarrow> (string, 'v) omap \<Rightarrow> json" where
  "map_to_json emb m = fold (\<lambda>kv. json_set (fst kv) (emb (snd kv))) m (JObj [])"

definition map_from_json :: "(json \<Rightarrow> json_error + 'v) \<Rightarrow> json \<Rightarrow> json_error + (string, 'v) omap" where
  "map_from_json get j = bind_result (json_iter j) (\<lambda>kvs. fill_map get kvs [])"

lemma fold_json_set: "fold (\<lambda>kv. json_set (fst kv) (emb (snd kv))) m (JObj o1) =
    JObj (fold (\<lambda>kv. omap_set (fst kv) (emb (snd kv))) m o1)"
  by (induction m arbitrary: o1) (auto simp: json_set_def)

lemma fold_omap_set_ok: "omap_ok o1 \<Longrightarrow> omap_ok (fold (\<lambda>kv. omap_set (fst kv) (f (snd kv))) m o1)"
  by (induction m arbitrary: o1) auto

lemma omap_rebuild:
  assumes "omap_ok m"
  shows "fold (\<lambda>kv. omap_set (fst kv) (f (snd kv))) m [] = map (\<lambda>(k, v). (k, f v)) m"
proof (rule omap_ext)
  have "distinct (map fst m)" using assms by (rule omap_ok_distinct)
  then have "map_of (fold (\<lambda>kv. omap_set (fst kv) (f (snd kv))) m o1) k =
      (case map_of m k of Some v \<Rightarrow> Some (f v) | None \<Rightarrow> map_of o1 k)" for o1 k
  proof (induction m arbitrary: o1)
    case (Cons kv m)
    then have "map_of m (fst kv) = None" by (simp add: map_of_eq_None_iff)
    with Cons show ?case by (cases kv) (auto split: option.splits)
  qed simp
  then show "map_of (fold (\<lambda>kv. omap_set (fst kv) (f (snd kv))) m []) = map_of (map (\<lambda>(k, v). (k, f v)) m)"
    by (auto simp: fun_eq_iff map_of_map split: option.split)
  have "map fst (map (\<lambda>(k, v). (k, f v)) m) = map fst m" by (induction m) auto
  then show "omap_ok (map (\<lambda>(k, v). (k, f v)) m)" using assms by (simp only: omap_ok_def)
qed (simp add: fold_omap_set_ok)

lemma fill_map_rebuild:
  assumes "\<And>v. v \<in> snd ` set m \<Longrightarrow> get (emb v) = Inr v"
  shows "fill_map get (map (\<lambda>(k, v). (k, emb v)) m) acc = Inr (fold (\<lambda>kv. omap_set (fst kv) (snd kv)) m acc)"
  using assms by (induction m arbitrary: acc) auto

lemma map_json_roundtrip:
  assumes "omap_ok m" and "\<And>v. v \<in> snd ` set m \<Longrightarrow> get (emb v) = Inr v"
  shows "map_from_json get (map_to_json emb m) = Inr m"
proof -
  have "map_to_json emb m = JObj (map (\<lambda>(k, v). (k, emb v)) m)"
    by (simp add: map_to_json_def fold_json_set omap_rebuild [OF assms(1)])
  moreover have "fold (\<lambda>kv. omap_set (fst kv) (snd kv)) m [] = m"
    using omap_rebuild [OF assms(1), of "\<lambda>v. v"] by simp
  ultimately show ?thesis by (simp add: map_from_json_def fill_map_rebuild [OF assms(2)])
qed

section \<open>The checkpoint and its JSON form\<close>

record checkpoint =
  timestamp :: string
  current_node :: string
  completed_nodes :: "string list"
  retry_counters :: "(string, int) omap"
  cp_context :: ctxt
  graph_file :: string
  graph_hash :: string
  completed_node_hashes :: "(string, string) omap"
  branch_worktrees :: "(string, string) omap"
  stylesheet_file :: string
  logs_root :: string
  dot_content_hash :: string

text \<open>A default-constructed \<open>Checkpoint\<close>.\<close>

definition empty_checkpoint :: checkpoint where
  "empty_checkpoint = \<lparr>timestamp = [], current_node = [], completed_nodes = [], retry_counters = [],
     cp_context = [], graph_file = [], graph_hash = [], completed_node_hashes = [], branch_worktrees = [],
     stylesheet_file = [], logs_root = [], dot_content_hash = []\<rparr>"

definition context_to_json :: "ctxt \<Rightarrow> json" where
  "context_to_json c = map_to_json JStr c"

definition context_from_json :: "json \<Rightarrow> json_error + ctxt" where
  "context_from_json j = map_from_json json_string j"

definition retry_to_json :: "retry_controller \<Rightarrow> json" where
  "retry_to_json rc = map_to_json JInt rc"

definition retry_from_json :: "json \<Rightarrow> json_error + retry_controller" where
  "retry_from_json j = map_from_json json_int j"

definition set_unless_empty :: "string \<Rightarrow> string \<Rightarrow> json \<Rightarrow> json" where
  "set_unless_empty k s j = (if s \<noteq> [] then json_set k (JStr s) j else j)"

definition checkpoint_to_json :: "checkpoint \<Rightarrow> json" where
  "checkpoint_to_json cp =
     set_unless_empty ''dot_content_hash'' (dot_content_hash cp)
    (set_unless_empty ''logs_root'' (logs_root cp)
    (set_unless_empty ''stylesheet_file'' (stylesheet_file cp)
    (json_set ''branch_worktrees'' (map_to_json JStr (branch_worktrees cp))
    (json_set ''completed_node_hashes'' (map_to_json JStr (completed_node_hashes cp))
    (json_set ''graph_hash'' (JStr (graph_hash cp))
    (json_set ''graph_file'' (JStr (graph_file cp))
    (json_set ''context'' (context_to_json (cp_context cp))
    (json_set ''retry_counters'' (map_to_json JInt (retry_counters cp))
    (json_set ''completed_nodes'' (JArr (map JStr (completed_nodes cp)))
    (json_set ''current_node'' (JStr (current_node cp))
    (json_set ''timestamp'' (JStr (timestamp cp)) JNull)))))))))))"

definition safe_str :: "json \<Rightarrow> string \<Rightarrow> string" where
  "safe_str j k = (case json_find j k of Some (JStr s) \<Rightarrow> s | _ \<Rightarrow> [])"

fun string_items :: "json list \<Rightarrow> string list" where
  "string_items [] = []"
| "string_items (JStr s # js) = s # string_items js"
| "string_items (_ # js) = string_items js"

definition optional_map :: "(json \<Rightarrow> json_error + 'v) \<Rightarrow> json \<Rightarrow> string \<Rightarrow> json_error + (string, 'v) omap" where
  "optional_map get j k = (case json_find j k of None \<Rightarrow> Inr [] | Some v \<Rightarrow> map_from_json get v)"

definition optional_string :: "json \<Rightarrow> string \<Rightarrow> json_error + string" where
  "optional_string j k = (case json_find j k of None \<Rightarrow> Inr [] | Some v \<Rightarrow> json_string v)"

definition checkpoint_from_json :: "(json_error \<Rightarrow> string) \<Rightarrow> json \<Rightarrow> checkpoint result" where
  "checkpoint_from_json what j =
     (case
        bind_result (optional_map json_int j ''retry_counters'') (\<lambda>rc.
        bind_result (bind_result (json_at j ''context'') context_from_json) (\<lambda>c.
        bind_result (json_value_string j ''graph_file'') (\<lambda>gf.
        bind_result (json_value_string j ''graph_hash'') (\<lambda>gh.
        bind_result (optional_map json_string j ''completed_node_hashes'') (\<lambda>cnh.
        bind_result (optional_map json_string j ''branch_worktrees'') (\<lambda>bwt.
        bind_result (optional_string j ''stylesheet_file'') (\<lambda>sf.
        bind_result (optional_string j ''logs_root'') (\<lambda>lr.
        bind_result (json_value_string j ''dot_content_hash'') (\<lambda>dch.
          Inr \<lparr>timestamp = safe_str j ''timestamp'', current_node = safe_str j ''current_node'',
            completed_nodes = (case json_find j ''completed_nodes'' of Some (JArr js) \<Rightarrow> string_items js | _ \<Rightarrow> []),
            retry_counters = rc, cp_context = c, graph_file = gf, graph_hash = gh,
            completed_node_hashes = cnh, branch_worktrees = bwt, stylesheet_file = sf, logs_root = lr,
            dot_content_hash = dch\<rparr>)))))))))
      of Inr cp \<Rightarrow> success cp
       | Inl e \<Rightarrow> failure (''failed to parse checkpoint: '' @ what e))"

definition checkpoint_ok :: "checkpoint \<Rightarrow> bool" where
  "checkpoint_ok cp = (omap_ok (retry_counters cp) \<and> omap_ok (cp_context cp) \<and>
     omap_ok (completed_node_hashes cp) \<and> omap_ok (branch_worktrees cp) \<and>
     (\<forall>v \<in> snd ` set (retry_counters cp). in_int v))"

lemma string_items_map [simp]: "string_items (map JStr ss) = ss"
  by (induction ss) auto

lemma string_map_roundtrip: "omap_ok m \<Longrightarrow> map_from_json json_string (map_to_json JStr m) = Inr m"
  by (rule map_json_roundtrip) auto

lemma int_map_roundtrip: "omap_ok m \<Longrightarrow> \<forall>v \<in> snd ` set m. in_int v \<Longrightarrow>
    map_from_json json_int (map_to_json JInt m) = Inr m"
  by (rule map_json_roundtrip) (auto simp: wrap32_id)

lemma json_find_set [simp]: "json_find (json_set k v j) k' = (if k' = k then Some v else json_find j k')"
  by (simp add: json_find_def json_set_def)

lemma json_find_unless [simp]:
  "json_find (set_unless_empty k s j) k' = (if k' = k \<and> s \<noteq> [] then Some (JStr s) else json_find j k')"
  by (simp add: set_unless_empty_def)

lemma json_find_JNull [simp]: "json_find JNull k = None"
  by (simp add: json_find_def)

definition is_obj :: "json \<Rightarrow> bool" where
  "is_obj j = (\<exists>kvs. j = JObj kvs)"

lemma is_obj_set [simp]: "is_obj (json_set k v j)" "is_obj j \<Longrightarrow> is_obj (set_unless_empty k s j)"
  by (auto simp: is_obj_def json_set_def set_unless_empty_def)

lemma obj_reads:
  "is_obj j \<Longrightarrow> json_at j k = (case json_find j k of None \<Rightarrow> Inl Key_Missing | Some v \<Rightarrow> Inr v)"
  "is_obj j \<Longrightarrow> json_value_string j k = optional_string j k"
  by (auto simp: is_obj_def json_find_def optional_string_def)

lemma checkpoint_reads_back:
  assumes "checkpoint_ok cp"
  shows "checkpoint_from_json what (checkpoint_to_json cp) = Inr cp"
proof -
  have obj: "is_obj (checkpoint_to_json cp)" by (simp add: checkpoint_to_json_def)
  have maps: "map_from_json json_int (map_to_json JInt (retry_counters cp)) = Inr (retry_counters cp)"
    "map_from_json json_string (map_to_json JStr (cp_context cp)) = Inr (cp_context cp)"
    "map_from_json json_string (map_to_json JStr (completed_node_hashes cp)) = Inr (completed_node_hashes cp)"
    "map_from_json json_string (map_to_json JStr (branch_worktrees cp)) = Inr (branch_worktrees cp)"
    using assms by (simp_all add: checkpoint_ok_def string_map_roundtrip int_map_roundtrip)
  show ?thesis
    unfolding checkpoint_from_json_def obj_reads [OF obj]
    by (simp add: checkpoint_to_json_def optional_map_def optional_string_def safe_str_def
        context_from_json_def context_to_json_def maps)
qed

text \<open>C18: a checkpoint survives its JSON form: reading back what \<open>to_json\<close> wrote gives the same checkpoint,
  every field and every map entry included (empty optional fields are left out and read as empty).\<close>

theorem checkpoint_json_roundtrip:
  assumes "checkpoint_ok cp"
  shows "checkpoint_from_json what (checkpoint_to_json cp) = Inr cp"
  using assms by (rule checkpoint_reads_back)

theorem checkpoint_json_roundtrip_witness:
  "checkpoint_from_json (\<lambda>_. []) (checkpoint_to_json \<lparr>timestamp = ''t'', current_node = ''a'', completed_nodes = [''a''],
     retry_counters = [(''a'', 2)], cp_context = [(''k'', ''v'')], graph_file = [], graph_hash = ''h'',
     completed_node_hashes = [], branch_worktrees = [], stylesheet_file = [], logs_root = ''r'', dot_content_hash = []\<rparr>)
   = Inr \<lparr>timestamp = ''t'', current_node = ''a'', completed_nodes = [''a''],
     retry_counters = [(''a'', 2)], cp_context = [(''k'', ''v'')], graph_file = [], graph_hash = ''h'',
     completed_node_hashes = [], branch_worktrees = [], stylesheet_file = [], logs_root = ''r'', dot_content_hash = []\<rparr>"
  by (rule checkpoint_json_roundtrip) (simp add: checkpoint_ok_def omap_ok_def int_range_defs)

section \<open>What can be read back is well formed\<close>

lemma fill_map_ok: "fill_map get kvs acc = Inr m \<Longrightarrow> omap_ok acc \<Longrightarrow> (\<And>j v. get j = Inr v \<Longrightarrow> P v) \<Longrightarrow>
    \<forall>v \<in> snd ` set acc. P v \<Longrightarrow> omap_ok m \<and> (\<forall>v \<in> snd ` set m. P v)"
proof (induction get kvs acc rule: fill_map.induct)
  case (2 get k j kvs acc)
  then obtain v where v: "get j = Inr v" "fill_map get kvs (omap_set k v acc) = Inr m"
    by (cases "get j") auto
  have sub: "set (omap_set k v acc) \<subseteq> insert (k, v) (set acc)"
    by (induction acc) (auto split: if_splits)
  have "\<forall>w \<in> snd ` set (omap_set k v acc). P w"
    using sub 2(5) 2(4) [OF v(1)] by auto
  with 2(1) [OF v(2) _ 2(4)] 2(3) show ?case by simp
qed simp

lemma map_from_json_ok:
  assumes "map_from_json get j = Inr m" and "\<And>j v. get j = Inr v \<Longrightarrow> P v"
  shows "omap_ok m \<and> (\<forall>v \<in> snd ` set m. P v)"
proof -
  obtain kvs where "fill_map get kvs [] = Inr m"
    using assms(1) by (cases "json_iter j") (auto simp: map_from_json_def)
  from fill_map_ok [where P = P, OF this _ assms(2)] show ?thesis by simp
qed

lemma json_int_in: "json_int j = Inr v \<Longrightarrow> in_int v"
  by (cases j) (auto simp: in_int_wrap32, auto simp: int_range_defs)

lemma optional_map_ok:
  assumes "optional_map get j k = Inr m" and "\<And>j v. get j = Inr v \<Longrightarrow> P v"
  shows "omap_ok m \<and> (\<forall>v \<in> snd ` set m. P v)"
  using assms(1) map_from_json_ok [where P = P, OF _ assms(2)]
  by (cases "json_find j k") (auto simp: optional_map_def)

lemma bind_result_Inr: "bind_result r f = Inr y \<longleftrightarrow> (\<exists>x. r = Inr x \<and> f x = Inr y)"
  by (cases r) auto

lemma checkpoint_from_json_ok: "checkpoint_from_json what j = Inr cp \<Longrightarrow> checkpoint_ok cp"
proof -
  assume "checkpoint_from_json what j = Inr cp"
  then have "optional_map json_int j ''retry_counters'' = Inr (retry_counters cp) \<and>
      (\<exists>c. json_at j ''context'' = Inr c \<and> context_from_json c = Inr (cp_context cp)) \<and>
      optional_map json_string j ''completed_node_hashes'' = Inr (completed_node_hashes cp) \<and>
      optional_map json_string j ''branch_worktrees'' = Inr (branch_worktrees cp)"
    unfolding checkpoint_from_json_def
    by (auto simp: bind_result_Inr split: sum.splits)
  then obtain c where r: "optional_map json_int j ''retry_counters'' = Inr (retry_counters cp)"
      "context_from_json c = Inr (cp_context cp)"
      "optional_map json_string j ''completed_node_hashes'' = Inr (completed_node_hashes cp)"
      "optional_map json_string j ''branch_worktrees'' = Inr (branch_worktrees cp)"
    by blast
  show ?thesis
    using optional_map_ok [where P = in_int, OF r(1) json_int_in]
      map_from_json_ok [where P = "\<lambda>_. True", OF r(2) [unfolded context_from_json_def]]
      optional_map_ok [where P = "\<lambda>_. True", OF r(3)] optional_map_ok [where P = "\<lambda>_. True", OF r(4)]
    by (simp add: checkpoint_ok_def)
qed

section \<open>The two writers\<close>

datatype doc_file = Partial | Doc json

type_synonym files = "string \<Rightarrow> doc_file option"

text \<open>Which of the file system calls of a save succeed.\<close>

record save_io =
  open_ok :: bool
  write_ok :: bool
  rename_ok :: bool

definition io_ok :: save_io where
  "io_ok = \<lparr>open_ok = True, write_ok = True, rename_ok = True\<rparr>"

definition tmp_of :: "string \<Rightarrow> string" where
  "tmp_of path = path @ ''.tmp''"

definition json_save :: "save_io \<Rightarrow> checkpoint \<Rightarrow> string \<Rightarrow> files \<Rightarrow> unit result \<times> files" where
  "json_save io cp path fs =
     (let tmp = tmp_of path in
      if \<not> open_ok io then (failure (''failed to open temp file: '' @ tmp), fs)
      else if \<not> write_ok io then (failure (''failed to write checkpoint to: '' @ tmp), fs(tmp \<mapsto> Partial))
      else
        let fs = fs(tmp \<mapsto> Doc (checkpoint_to_json cp));
            fs = fs(path := None)
        in if \<not> rename_ok io then (failure ''failed to rename checkpoint file'', fs(tmp := None))
           else (success (), fs(path := fs tmp, tmp := None)))"

text \<open>The states the files go through during a save whose calls succeed: a crash leaves one of them.\<close>

definition save_states :: "checkpoint \<Rightarrow> string \<Rightarrow> files \<Rightarrow> files list" where
  "save_states cp path fs =
     (let tmp = tmp_of path; doc = Doc (checkpoint_to_json cp) in
      [fs, fs(tmp \<mapsto> Partial), fs(tmp \<mapsto> doc), fs(tmp \<mapsto> doc, path := None),
       fs(path \<mapsto> doc, tmp := None)])"

definition json_load :: "(json_error \<Rightarrow> string) \<Rightarrow> string \<Rightarrow> string \<Rightarrow> files \<Rightarrow> checkpoint result" where
  "json_load what parse_error path fs =
     (case fs path of
        None \<Rightarrow> failure (''failed to open checkpoint file: '' @ path)
      | Some Partial \<Rightarrow> failure (''failed to parse checkpoint JSON: '' @ parse_error)
      | Some (Doc j) \<Rightarrow> checkpoint_from_json what j)"

type_synonym mem_store = "(string, json) omap"

definition mem_save :: "checkpoint \<Rightarrow> string \<Rightarrow> mem_store \<Rightarrow> mem_store" where
  "mem_save cp path m = omap_set path (checkpoint_to_json cp) m"

definition mem_load :: "(json_error \<Rightarrow> string) \<Rightarrow> string \<Rightarrow> mem_store \<Rightarrow> checkpoint result" where
  "mem_load what path m =
     (case map_of m path of
        None \<Rightarrow> failure (''checkpoint not found: '' @ path)
      | Some j \<Rightarrow> checkpoint_from_json what j)"

text \<open>What \<open>CheckpointWriter\<close> promises its users.\<close>

locale checkpoint_store =
  fixes save :: "checkpoint \<Rightarrow> string \<Rightarrow> 's \<Rightarrow> 's"
    and load :: "string \<Rightarrow> 's \<Rightarrow> checkpoint result"
  assumes load_save: "checkpoint_ok cp \<Longrightarrow> load path (save cp path s) = Inr cp"
    and load_other: "q \<noteq> path \<Longrightarrow> q \<noteq> tmp_of path \<Longrightarrow> load q (save cp path s) = load q s"
begin

lemma last_save_wins:
  assumes "checkpoint_ok cp"
  shows "load path (save cp path (fold (\<lambda>(c, p). save c p) earlier s)) = Inr cp"
  using assms by (rule load_save)

lemma kept_by_other_saves:
  assumes "checkpoint_ok cp" and "\<forall>(c, p) \<in> set later. path \<noteq> p \<and> path \<noteq> tmp_of p"
  shows "load path (fold (\<lambda>(c, p). save c p) later (save cp path s)) = Inr cp"
  using assms(2)
proof (induction later rule: rev_induct)
  case Nil
  show ?case using assms(1) by (simp add: load_save)
next
  case (snoc x later)
  then show ?case by (cases x) (simp add: load_other)
qed

end

interpretation mem_store: checkpoint_store mem_save "mem_load what" for what
  by unfold_locales (simp_all add: mem_save_def mem_load_def checkpoint_reads_back)

interpretation file_store: checkpoint_store "\<lambda>cp path fs. snd (json_save io_ok cp path fs)" "json_load what pe" for what pe
  by unfold_locales
    (simp_all add: json_save_def json_load_def io_ok_def tmp_of_def Let_def checkpoint_reads_back)

text \<open>Fact: both checkpoint writers give back the checkpoint last saved under a path, whatever is saved under
  other paths afterwards.\<close>

theorem writers_keep_checkpoint:
  assumes "checkpoint_ok cp" and "\<forall>(c, p) \<in> set later. path \<noteq> p \<and> path \<noteq> tmp_of p"
  shows "mem_load what path (fold (\<lambda>(c, p). mem_save c p) later (mem_save cp path m)) = Inr cp \<and>
    json_load what pe path (fold (\<lambda>(c, p) fs. snd (json_save io_ok c p fs)) later
      (snd (json_save io_ok cp path fs))) = Inr cp"
  using mem_store.kept_by_other_saves [OF assms] file_store.kept_by_other_saves [OF assms] by blast

text \<open>Fact: a crash during \<open>JsonCheckpointWriter::save\<close>. In every state it can leave, either the path still
  holds the old file, or it holds the new checkpoint, or it holds nothing and the complete new checkpoint is
  in the temporary file; in that last state, which is reached, \<open>load\<close> fails although both versions were
  complete. And a rename that fails leaves neither the old nor the new checkpoint.\<close>

theorem save_crash_states:
  assumes "checkpoint_ok cp"
  shows "(\<forall>fs' \<in> set (save_states cp path fs). fs' path = fs path \<or> json_load what pe path fs' = Inr cp \<or>
      (fs' path = None \<and> json_load what pe (tmp_of path) fs' = Inr cp)) \<and>
    (\<exists>fs' \<in> set (save_states cp path fs). \<not> is_ok (json_load what pe path fs')) \<and>
    (let r = json_save \<lparr>open_ok = True, write_ok = True, rename_ok = False\<rparr> cp path fs in
     \<not> is_ok (fst r) \<and> snd r path = None \<and> snd r (tmp_of path) = None)"
  using assms
  by (simp add: save_states_def json_load_def json_save_def tmp_of_def Let_def checkpoint_reads_back)

lemma empty_checkpoint_ok [simp]: "checkpoint_ok empty_checkpoint"
  by (simp add: checkpoint_ok_def empty_checkpoint_def)

theorem writers_keep_checkpoint_witness:
  "json_load (\<lambda>_. []) [] ''a'' (snd (json_save io_ok empty_checkpoint ''b''
     (snd (json_save io_ok empty_checkpoint ''a'' (\<lambda>_. None))))) = Inr empty_checkpoint"
proof -
  have "\<forall>(c, p) \<in> set [(empty_checkpoint, ''b'')]. ''a'' \<noteq> p \<and> ''a'' \<noteq> tmp_of p"
    by (simp add: tmp_of_def)
  from writers_keep_checkpoint [OF empty_checkpoint_ok this] show ?thesis by simp
qed

theorem save_crash_states_witness:
  "\<exists>fs' \<in> set (save_states empty_checkpoint ''cp'' (\<lambda>_. Some (Doc JNull))).
     \<not> is_ok (json_load (\<lambda>_. []) [] ''cp'' fs')"
  using save_crash_states [OF empty_checkpoint_ok] by blast

section \<open>\<open>StageAdvancer\<close>\<close>

definition checkpoint_path :: "string \<Rightarrow> string" where
  "checkpoint_path run_dir = run_dir @ ''/checkpoint.json''"

definition stage_status_path :: "string \<Rightarrow> string \<Rightarrow> string" where
  "stage_status_path run_dir i = run_dir @ ''/stages/'' @ i @ ''/status.json''"

definition mark_checkpoint :: "nat \<Rightarrow> string \<Rightarrow> bool \<Rightarrow> string \<Rightarrow> checkpoint \<Rightarrow> checkpoint" where
  "mark_checkpoint lim i ok out cp =
     (let cp = (if ok then
          cp\<lparr>completed_nodes := (if i \<in> set (completed_nodes cp) then completed_nodes cp else completed_nodes cp @ [i]),
             cp_context := ctx_set lim (''tool.'' @ i @ ''.output'') out
               (ctx_set lim (''codergen.'' @ i @ ''.output'') out
               (ctx_set lim ''needle.last_outcome.status'' ''SUCCESS'' (cp_context cp)))\<rparr>
        else
          cp\<lparr>completed_nodes := remove1 i (completed_nodes cp),
             cp_context := ctx_set lim ''needle.last_outcome.status'' ''FAILURE'' (cp_context cp)\<rparr>)
      in cp\<lparr>current_node := i\<rparr>)"

definition status_json :: "string \<Rightarrow> bool \<Rightarrow> string \<Rightarrow> json" where
  "status_json i ok out =
     json_set ''context_updates'' (JObj []) (json_set ''preferred_label'' (JStr [])
       (json_set ''output'' (JStr out) (json_set ''status'' (JStr (if ok then ''SUCCESS'' else ''FAILURE''))
         (json_set ''node_id'' (JStr i) JNull))))"

text \<open>\<open>status_ok\<close>: whether the status file could be opened; nothing is reported when it could not.\<close>

definition stage_mark ::
  "(json_error \<Rightarrow> string) \<Rightarrow> string \<Rightarrow> nat \<Rightarrow> save_io \<Rightarrow> bool \<Rightarrow> string \<Rightarrow> string \<Rightarrow> bool \<Rightarrow> string \<Rightarrow> files
    \<Rightarrow> unit result \<times> files" where
  "stage_mark what pe lim io status_ok run_dir i ok out fs =
     (case json_load what pe (checkpoint_path run_dir) fs of
        Inl e \<Rightarrow> (failure (''cannot load checkpoint: '' @ e), fs)
      | Inr cp \<Rightarrow>
          (case json_save io (mark_checkpoint lim i ok out cp) (checkpoint_path run_dir) fs of
             (Inl e, fs) \<Rightarrow> (failure e, fs)
           | (Inr _, fs) \<Rightarrow>
               (success (), if status_ok then fs(stage_status_path run_dir i \<mapsto> Doc (status_json i ok out)) else fs)))"

definition stage_advance ::
  "(json_error \<Rightarrow> string) \<Rightarrow> string \<Rightarrow> save_io \<Rightarrow> string \<Rightarrow> string \<Rightarrow> files \<Rightarrow> unit result \<times> files" where
  "stage_advance what pe io run_dir tgt fs =
     (if tgt = [] then (failure ''advance requires a target node id'', fs)
      else case json_load what pe (checkpoint_path run_dir) fs of
        Inl e \<Rightarrow> (failure (''cannot load checkpoint: '' @ e), fs)
      | Inr cp \<Rightarrow> json_save io (cp\<lparr>current_node := tgt\<rparr>) (checkpoint_path run_dir) fs)"

lemma status_path_other: "stage_status_path d i \<noteq> checkpoint_path d" "stage_status_path d i \<noteq> tmp_of (checkpoint_path d)"
  by (simp_all add: stage_status_path_def checkpoint_path_def tmp_of_def)

lemma json_load_ok: "json_load what pe p fs = Inr cp \<Longrightarrow> checkpoint_ok cp"
  by (auto simp: json_load_def split: option.splits doc_file.splits dest: checkpoint_from_json_ok)

lemma mark_checkpoint_ok: "checkpoint_ok cp \<Longrightarrow> checkpoint_ok (mark_checkpoint lim i ok out cp)"
  by (simp add: mark_checkpoint_def checkpoint_ok_def)

lemma mark_checkpoint_twice:
  assumes "checkpoint_ok cp" "distinct (completed_nodes cp)"
  shows "mark_checkpoint lim i ok out (mark_checkpoint lim i ok out cp) = mark_checkpoint lim i ok out cp"
proof -
  have ctx: "omap_ok (cp_context cp)" using assms(1) by (simp add: checkpoint_ok_def)
  have same: "ctx_set lim k v c = c" if "omap_ok c" "map_of c k = Some (clip_value lim v)" for k v c
    using that by (simp add: ctx_set_def omap_set_same)
  have rem: "remove1 i (remove1 i (completed_nodes cp)) = remove1 i (completed_nodes cp)"
    using assms(2) by (intro remove1_idem) simp
  show ?thesis
    using ctx by (cases ok) (simp_all add: mark_checkpoint_def same rem)
qed

text \<open>Fact: \<open>StageAdvancer::mark\<close>. When every file operation succeeds, marking a stage of a loadable checkpoint
  saves a checkpoint whose current node is that stage and whose completed list contains it exactly if it is
  marked successful; and marking it again with the same arguments changes no file.\<close>

theorem stage_mark_idempotent:
  fixes lim :: nat and i out :: string and ok :: bool
  assumes "json_load what pe (checkpoint_path d) fs = Inr cp" and "distinct (completed_nodes cp)"
  defines "fs1 \<equiv> snd (stage_mark what pe lim io_ok True d i ok out fs)"
  shows "(\<exists>cp1. json_load what pe (checkpoint_path d) fs1 = Inr cp1 \<and> current_node cp1 = i \<and>
      set (completed_nodes cp1) = (if ok then insert i (set (completed_nodes cp)) else set (completed_nodes cp) - {i}) \<and>
      ctx_get (cp_context cp1) ''needle.last_outcome.status'' =
        clip_value lim (if ok then ''SUCCESS'' else ''FAILURE'')) \<and>
    stage_mark what pe lim io_ok True d i ok out fs1 = (success (), fs1)"
proof -
  let ?p = "checkpoint_path d" and ?s = "stage_status_path d i"
  let ?cp1 = "mark_checkpoint lim i ok out cp"
  have ok: "checkpoint_ok cp" using assms(1) by (rule json_load_ok)
  note other = status_path_other [of d i]
  have ne: "tmp_of ?p \<noteq> ?p" by (simp add: tmp_of_def)
  have fs1: "fs1 = fs(?p \<mapsto> Doc (checkpoint_to_json ?cp1), tmp_of ?p := None, ?s \<mapsto> Doc (status_json i ok out))"
    using assms(1) other ne by (auto simp: fs1_def stage_mark_def json_save_def io_ok_def Let_def fun_eq_iff)
  have load1: "json_load what pe ?p fs1 = Inr ?cp1"
    using other ne mark_checkpoint_ok [OF ok] by (simp add: fs1 json_load_def checkpoint_reads_back)
  have twice: "mark_checkpoint lim i ok out ?cp1 = ?cp1" by (rule mark_checkpoint_twice [OF ok assms(2)])
  have again: "stage_mark what pe lim io_ok True d i ok out fs1 = (success (), fs1)"
    using other ne unfolding stage_mark_def load1
    by (simp add: json_save_def io_ok_def Let_def twice) (auto simp: fs1 fun_eq_iff)
  have keys: "''needle.last_outcome.status'' \<noteq> ''tool.'' @ i @ ''.output''"
    "''needle.last_outcome.status'' \<noteq> ''codergen.'' @ i @ ''.output''" by simp_all
  have "current_node ?cp1 = i \<and>
      set (completed_nodes ?cp1) = (if ok then insert i (set (completed_nodes cp)) else set (completed_nodes cp) - {i}) \<and>
      ctx_get (cp_context ?cp1) ''needle.last_outcome.status'' = clip_value lim (if ok then ''SUCCESS'' else ''FAILURE'')"
    using assms(2) keys by (auto simp: mark_checkpoint_def Let_def ctx_get_set)
  with load1 again show ?thesis by blast
qed

theorem stage_mark_idempotent_witness:
  "\<exists>fs1. stage_mark (\<lambda>_. []) [] 0 io_ok True ''r'' ''a'' True ''done'' fs1 = (success (), fs1)"
proof -
  let ?fs = "(\<lambda>_. None)(checkpoint_path ''r'' \<mapsto> Doc (checkpoint_to_json empty_checkpoint))"
  have "json_load (\<lambda>_. []) [] (checkpoint_path ''r'') ?fs = Inr empty_checkpoint"
    by (simp add: json_load_def checkpoint_reads_back)
  from stage_mark_idempotent [OF this, of 0 "''a''" True "''done''"]
  show ?thesis by (auto simp: empty_checkpoint_def)
qed

end
