(* ===== verification/Resume_Validator.thy ===== *)
theory Resume_Validator
  imports Checkpoint "HOL-Library.Word" "HOL-Library.Product_Lexorder" "HOL-Library.Multiset"
begin

text \<open>
  \<open>src/engine/resume_validator.cpp\<close>: the graph and node fingerprints (FNV-1a on 64-bit words, printed as
  sixteen hexadecimal digits) and the checks a checkpoint must pass before a run resumes from it. Also
  \<open>src/validation/diagnostic.cpp\<close>.
\<close>

unbundle bit_operations_syntax

section \<open>Diagnostics\<close>

datatype severity = Error | Warning | Info

record diagnostic =
  severity :: severity
  code :: string
  message :: string
  diag_node :: string

type_synonym diagnostics = "diagnostic list"

definition add_diagnostic :: "diagnostic \<Rightarrow> diagnostics \<Rightarrow> diagnostics" where
  "add_diagnostic d ds = ds @ [d]"

definition diag_errors :: "diagnostics \<Rightarrow> diagnostics" where
  "diag_errors ds = filter (\<lambda>d. severity d = Error) ds"

definition has_errors :: "diagnostics \<Rightarrow> bool" where
  "has_errors ds = (\<exists>d \<in> set ds. severity d = Error)"

definition has_warnings :: "diagnostics \<Rightarrow> bool" where
  "has_warnings ds = (\<exists>d \<in> set ds. severity d = Warning)"

definition diag :: "severity \<Rightarrow> string \<Rightarrow> string \<Rightarrow> string \<Rightarrow> diagnostic" where
  "diag s c m i = \<lparr>severity = s, code = c, message = m, diag_node = i\<rparr>"

lemma diag_simps [simp]: "severity (diag s c m i) = s" "code (diag s c m i) = c"
  "message (diag s c m i) = m" "diag_node (diag s c m i) = i"
  by (simp_all add: diag_def)

lemma has_errors_append [simp]: "has_errors (ds @ ds') \<longleftrightarrow> has_errors ds \<or> has_errors ds'"
  "\<not> has_errors []" "has_errors (d # ds) \<longleftrightarrow> severity d = Error \<or> has_errors ds"
  by (auto simp: has_errors_def)

section \<open>Fingerprints\<close>

definition fnv_step :: "64 word \<Rightarrow> char \<Rightarrow> 64 word" where
  "fnv_step hash c = (hash XOR of_nat (byte c)) * 1099511628211"

definition fnv1a :: "string \<Rightarrow> 64 word" where
  "fnv1a input = foldl fnv_step 14695981039346656037 input"

definition hex_digit :: "nat \<Rightarrow> char" where
  "hex_digit d = (if d < 10 then char_of (48 + d) else char_of (87 + d))"

fun hex_digits :: "nat \<Rightarrow> nat \<Rightarrow> string" where
  "hex_digits 0 n = []"
| "hex_digits (Suc k) n = hex_digits k (n div 16) @ [hex_digit (n mod 16)]"

definition hex16 :: "64 word \<Rightarrow> string" where
  "hex16 w = hex_digits 16 (unat w)"

definition node_infos :: "graph \<Rightarrow> (string \<times> string) list" where
  "node_infos g = sort_key fst (map (\<lambda>n. (node_id n, handler_type n)) (gnodes g))"

definition edge_infos :: "graph \<Rightarrow> (string \<times> string \<times> string) list" where
  "edge_infos g = sort (map (\<lambda>e. (efrom e, eto e, edge_condition e)) (gedges g))"

definition graph_hash_input :: "graph \<Rightarrow> string" where
  "graph_hash_input g =
     concat (map (\<lambda>(i, h). ''N:'' @ i @ '':'' @ h @ '';'') (node_infos g))
     @ concat (map (\<lambda>(f, t, c). ''E:'' @ f @ ''->'' @ t @ '':'' @ c @ '';'') (edge_infos g))"

definition compute_graph_hash :: "graph \<Rightarrow> string" where
  "compute_graph_hash g = hex16 (fnv1a (graph_hash_input g))"

definition node_hash_input :: "node \<Rightarrow> string" where
  "node_hash_input n = ''id:'' @ node_id n @ '';handler:'' @ handler_type n @ '';''
     @ concat (map (\<lambda>(k, v). k @ ''='' @ v @ '';'') (nattrs n))"

definition compute_node_hash :: "node \<Rightarrow> string" where
  "compute_node_hash n = hex16 (fnv1a (node_hash_input n))"

section \<open>\<open>ResumeValidator::validate\<close>\<close>

definition em_dash :: string where
  "em_dash = [CHR 0xE2, CHR 0x80, CHR 0x94]"

definition quoted :: "string \<Rightarrow> string" where
  "quoted s = squote # s @ [squote]"

text \<open>The completed nodes that are still in the graph, have a recorded hash, and hash differently now.\<close>

definition changed_completed :: "checkpoint \<Rightarrow> graph \<Rightarrow> string list" where
  "changed_completed cp g =
     filter (\<lambda>i. case find_node g i of
         None \<Rightarrow> False
       | Some n \<Rightarrow> (case map_of (completed_node_hashes cp) i of
             None \<Rightarrow> False
           | Some h \<Rightarrow> compute_node_hash n \<noteq> h)) (completed_nodes cp)"

definition check_hash :: "checkpoint \<Rightarrow> graph \<Rightarrow> bool \<Rightarrow> diagnostics" where
  "check_hash cp g strict =
     (if graph_hash cp = [] \<or> graph_hash cp = compute_graph_hash g then []
      else let changed = changed_completed cp g in
      if changed = [] then
        [diag Warning ''R003'' (''Graph edited since checkpoint; only unstarted nodes affected ''
           @ em_dash @ '' continuing.'') []]
      else
        [diag (if strict then Error else Warning) ''R003''
          ((if strict then [] else ''soft-hash check: '')
           @ ''completed node(s) edited since checkpoint: '' @ join '', '' changed @ ''. ''
           @ (if strict then ''Resume blocked under --strict-graph-hash.''
              else ''Resume continues; pass --strict-graph-hash to block.'')) []])"

definition validate_resume :: "checkpoint \<Rightarrow> graph \<Rightarrow> bool \<Rightarrow> diagnostics" where
  "validate_resume cp g strict =
     (if find_node g (current_node cp) = None then
        [diag Error ''R001'' (''Checkpoint current_node '' @ quoted (current_node cp) @ '' not found in graph'')
           (current_node cp)]
      else [])
     @ map (\<lambda>i. diag Error ''R002'' (''Checkpoint completed_node '' @ quoted i @ '' not found in graph'') i)
         (filter (\<lambda>i. find_node g i = None) (completed_nodes cp))
     @ check_hash cp g strict
     @ (if find_node g (current_node cp) \<noteq> None \<and> outgoing_edges g (current_node cp) = [] \<and>
           (case exit_node g of None \<Rightarrow> True | Some e \<Rightarrow> node_id e \<noteq> current_node cp)
        then [diag Warning ''R004'' (''Checkpoint current_node '' @ quoted (current_node cp)
           @ '' has no outgoing edges in graph'') (current_node cp)]
        else [])"

section \<open>Properties\<close>

lemma graph_hash_cong:
  assumes "mset (map (\<lambda>n. (node_id n, handler_type n)) (gnodes g))
      = mset (map (\<lambda>n. (node_id n, handler_type n)) (gnodes g'))"
    and "distinct (map node_id (gnodes g))"
    and "mset (map (\<lambda>e. (efrom e, eto e, edge_condition e)) (gedges g))
      = mset (map (\<lambda>e. (efrom e, eto e, edge_condition e)) (gedges g'))"
  shows "compute_graph_hash g = compute_graph_hash g'"
proof -
  let ?ns = "\<lambda>g. map (\<lambda>n. (node_id n, handler_type n)) (gnodes g)"
  let ?es = "\<lambda>g. map (\<lambda>e. (efrom e, eto e, edge_condition e)) (gedges g)"
  have "distinct (map fst (?ns g))" using assms(2) by (simp add: comp_def)
  then have "inj_on fst (set (?ns g))" by (simp only: distinct_map)
  then have "sort_key fst (?ns g) = sort_key fst (?ns g')"
    by (intro sort_key_inj_key_eq) (simp_all only: mset_sort assms(1) sorted_sort_key)
  moreover have "sort (?es g) = sort (?es g')"
    by (intro properties_for_sort) (simp_all only: mset_sort assms(3) sorted_sort)
  ultimately show ?thesis
    by (simp add: compute_graph_hash_def graph_hash_input_def node_infos_def edge_infos_def)
qed

text \<open>Fact: the graph hash is a function of the graph's topology: it does not depend on the order in which
  nodes and edges are listed, and it ignores every attribute except the handler of a node and the condition
  of an edge.\<close>

theorem graph_hash_topology:
  assumes "mset (map (\<lambda>n. (node_id n, handler_type n)) (gnodes g))
      = mset (map (\<lambda>n. (node_id n, handler_type n)) (gnodes g'))"
    and "distinct (map node_id (gnodes g))"
    and "mset (map (\<lambda>e. (efrom e, eto e, edge_condition e)) (gedges g))
      = mset (map (\<lambda>e. (efrom e, eto e, edge_condition e)) (gedges g'))"
  shows "compute_graph_hash g = compute_graph_hash g'"
  using assms by (rule graph_hash_cong)

theorem graph_hash_topology_witness:
  "compute_graph_hash \<lparr>gname = ''g'', gnodes = [\<lparr>node_id = ''a'', ntype = START, nattrs = [(''prompt'', ''x'')]\<rparr>,
       \<lparr>node_id = ''b'', ntype = EXIT, nattrs = []\<rparr>], gedges = [], gattrs = []\<rparr>
   = compute_graph_hash \<lparr>gname = ''h'', gnodes = [\<lparr>node_id = ''b'', ntype = EXIT, nattrs = []\<rparr>,
       \<lparr>node_id = ''a'', ntype = START, nattrs = [(''prompt'', ''y'')]\<rparr>], gedges = [], gattrs = []\<rparr>"
  by (rule graph_hash_topology) (simp_all add: handler_type_def attr_get_or_def)

lemma validate_resume_errors:
  "has_errors (validate_resume cp g strict) \<longleftrightarrow>
     find_node g (current_node cp) = None \<or> (\<exists>i \<in> set (completed_nodes cp). find_node g i = None) \<or>
     (strict \<and> graph_hash cp \<noteq> [] \<and> graph_hash cp \<noteq> compute_graph_hash g \<and>
      (\<exists>i \<in> set (completed_nodes cp). \<exists>n h. find_node g i = Some n \<and>
         map_of (completed_node_hashes cp) i = Some h \<and> compute_node_hash n \<noteq> h))"
proof -
  have point: "(case find_node g i of None \<Rightarrow> False
       | Some n \<Rightarrow> (case map_of (completed_node_hashes cp) i of None \<Rightarrow> False
           | Some h \<Rightarrow> compute_node_hash n \<noteq> h)) \<longleftrightarrow>
      (\<exists>n h. find_node g i = Some n \<and> map_of (completed_node_hashes cp) i = Some h \<and> compute_node_hash n \<noteq> h)" for i
    by (auto split: option.split)
  have changed: "changed_completed cp g \<noteq> [] \<longleftrightarrow> (\<exists>i \<in> set (completed_nodes cp). \<exists>n h. find_node g i = Some n \<and>
         map_of (completed_node_hashes cp) i = Some h \<and> compute_node_hash n \<noteq> h)"
    by (simp add: changed_completed_def point filter_empty_conv)
  have hash: "has_errors (check_hash cp g strict) \<longleftrightarrow> strict \<and> graph_hash cp \<noteq> [] \<and>
      graph_hash cp \<noteq> compute_graph_hash g \<and> changed_completed cp g \<noteq> []"
    by (auto simp: check_hash_def Let_def)
  have missing: "has_errors (map (\<lambda>i. diag Error c (m i) i) is) \<longleftrightarrow> is \<noteq> []" for c m "is"
    by (cases "is") (auto simp: has_errors_def)
  show ?thesis
    unfolding validate_resume_def has_errors_append hash changed missing
    by (auto simp: filter_empty_conv)
qed

text \<open>C19: when a checkpoint blocks a resume: exactly when its current node or a completed node is missing from
  the graph, or, under the strict check, when the graph hash differs and the recorded hash of a completed
  node does not match that node.\<close>

theorem validate_errors_iff:
  "has_errors (validate_resume cp g strict) \<longleftrightarrow>
     find_node g (current_node cp) = None \<or> (\<exists>i \<in> set (completed_nodes cp). find_node g i = None) \<or>
     (strict \<and> graph_hash cp \<noteq> [] \<and> graph_hash cp \<noteq> compute_graph_hash g \<and>
      (\<exists>i \<in> set (completed_nodes cp). \<exists>n h. find_node g i = Some n \<and>
         map_of (completed_node_hashes cp) i = Some h \<and> compute_node_hash n \<noteq> h))"
  by (rule validate_resume_errors)

text \<open>Fact: the strict check does not see attribute edits. If the graph a run resumes with has the topology of
  the graph the checkpoint was taken from, then whatever prompts, commands or other attributes of completed
  nodes were edited, even the strict check raises no error.\<close>

theorem strict_check_ignores_attribute_edits:
  assumes "graph_hash cp = compute_graph_hash g"
    and "distinct (map node_id (gnodes g))"
    and "map (\<lambda>n. (node_id n, handler_type n)) (gnodes g') = map (\<lambda>n. (node_id n, handler_type n)) (gnodes g)"
    and "gedges g' = gedges g"
    and "find_node g (current_node cp) \<noteq> None" and "\<forall>i \<in> set (completed_nodes cp). find_node g i \<noteq> None"
  shows "\<not> has_errors (validate_resume cp g' True)"
proof -
  have same: "compute_graph_hash g = compute_graph_hash g'"
    using assms(2-4) by (intro graph_hash_cong) simp_all
  have "map node_id (gnodes g') = map fst (map (\<lambda>n. (node_id n, handler_type n)) (gnodes g'))" by simp
  also have "\<dots> = map node_id (gnodes g)" unfolding assms(3) by simp
  finally have "node_id ` set (gnodes g') = node_id ` set (gnodes g)" by (metis set_map)
  then have "find_node g' i = None \<longleftrightarrow> find_node g i = None" for i by (simp add: find_node_None)
  with assms(5,6) show ?thesis
    by (auto simp: validate_resume_def has_errors_def check_hash_def assms(1) same)
qed

theorem strict_check_ignores_attribute_edits_witness:
  "\<not> has_errors (validate_resume
     (empty_checkpoint\<lparr>current_node := ''a'', completed_nodes := [''a''],
        graph_hash := compute_graph_hash \<lparr>gname = ''g'', gnodes = [\<lparr>node_id = ''a'', ntype = TOOL, nattrs = [(''command'', ''ls'')]\<rparr>],
          gedges = [], gattrs = []\<rparr>,
        completed_node_hashes := [(''a'', compute_node_hash \<lparr>node_id = ''a'', ntype = TOOL, nattrs = [(''command'', ''ls'')]\<rparr>)]\<rparr>)
     \<lparr>gname = ''g'', gnodes = [\<lparr>node_id = ''a'', ntype = TOOL, nattrs = [(''command'', ''rm'')]\<rparr>], gedges = [], gattrs = []\<rparr>
     True)"
  by (rule strict_check_ignores_attribute_edits [where g = "\<lparr>gname = ''g'',
        gnodes = [\<lparr>node_id = ''a'', ntype = TOOL, nattrs = [(''command'', ''ls'')]\<rparr>], gedges = [], gattrs = []\<rparr>"])
    (simp_all add: find_node_def handler_type_def attr_get_or_def)

section \<open>How good the fingerprint is\<close>

lemma fnv_prime_inverse: "(1099511628211 :: 64 word) * 14886173955864302971 = 1"
  by simp

lemma fnv_mult_cancel: "(a :: 64 word) * 1099511628211 = b * 1099511628211 \<longleftrightarrow> a = b"
proof
  assume "a * 1099511628211 = b * 1099511628211"
  then have "a * 1099511628211 * 14886173955864302971 = b * 1099511628211 * 14886173955864302971" by simp
  then show "a = b" by (simp only: mult.assoc fnv_prime_inverse mult_1_right)
qed simp

lemma xor_cancel: "(a :: 64 word) XOR w = b XOR w \<longleftrightarrow> a = b"
proof
  assume "a XOR w = b XOR w"
  then have "(a XOR w) XOR w = (b XOR w) XOR w" by (rule arg_cong [where f = "\<lambda>x. x XOR w"])
  then show "a = b" by (simp only: xor.assoc xor_self_eq xor.right_neutral)
qed simp

lemma fnv_fold_cancel: "foldl fnv_step h s = foldl fnv_step h' s \<longleftrightarrow> h = h'"
  by (induction s arbitrary: h h') (simp_all add: fnv_step_def fnv_mult_cancel xor_cancel)

lemma of_nat_byte_inject: "(of_nat (byte c) :: 64 word) = of_nat (byte d) \<longleftrightarrow> c = d"
proof -
  have "(of_nat (byte c) :: 64 word) = of_nat (byte d) \<longleftrightarrow> byte c = byte d"
    using byte_less [of c] byte_less [of d]
    by (simp add: word_of_nat_eq_iff take_bit_nat_eq_self)
  then show ?thesis by simp
qed

lemma fnv1a_one_char: "fnv1a (pre @ c # post) = fnv1a (pre @ d # post) \<longleftrightarrow> c = d"
proof -
  have "fnv_step h c = fnv_step h d \<longleftrightarrow> c = d" for h
    by (simp add: fnv_step_def fnv_mult_cancel xor.commute [of h] xor_cancel of_nat_byte_inject)
  then show ?thesis by (simp add: fnv1a_def fnv_fold_cancel)
qed

lemma hex_digit_inject: "a < 16 \<Longrightarrow> b < 16 \<Longrightarrow> hex_digit a = hex_digit b \<longleftrightarrow> a = b"
proof -
  assume ab: "a < 16" "b < 16"
  have val: "byte (hex_digit n) = (if n < 10 then 48 + n else 87 + n)" if "n < 16" for n
    using that by (simp add: hex_digit_def byte_char_of)
  have "byte (hex_digit a) = byte (hex_digit b) \<longleftrightarrow> a = b"
    unfolding val [OF ab(1)] val [OF ab(2)] by auto
  then show ?thesis by simp
qed

lemma length_hex_digits [simp]: "length (hex_digits k n) = k"
  by (induction k arbitrary: n) auto

lemma hex_digits_inject: "n < 16 ^ k \<Longrightarrow> m < 16 ^ k \<Longrightarrow> hex_digits k n = hex_digits k m \<longleftrightarrow> n = m"
proof (induction k arbitrary: n m)
  case (Suc k)
  have "hex_digits (Suc k) n = hex_digits (Suc k) m \<longleftrightarrow> n div 16 = m div 16 \<and> n mod 16 = m mod 16"
    using Suc.prems Suc.IH [of "n div 16" "m div 16"]
    by (simp add: less_mult_imp_div_less mult.commute hex_digit_inject)
  also have "\<dots> \<longleftrightarrow> n = m" by (metis div_mult_mod_eq)
  finally show ?case .
qed simp

lemma hex16_inject: "hex16 v = hex16 w \<longleftrightarrow> v = w"
proof -
  have "unat v < 16 ^ 16" "unat w < 16 ^ 16" using unsigned_less [of v] unsigned_less [of w] by simp_all
  then have "hex16 v = hex16 w \<longleftrightarrow> unat v = unat w" unfolding hex16_def by (rule hex_digits_inject)
  then show ?thesis by (simp only: word_unat_eq_iff)
qed

text \<open>Fact: the fingerprint of a node is sixteen characters long and changes with every replacement of a
  single character of the id, the handler or an attribute: 64-bit FNV-1a has no collision between inputs
  that differ in one character, and the hexadecimal form loses nothing.\<close>

theorem node_hash_detects_replacement:
  assumes "node_hash_input n = pre @ c # post" and "node_hash_input n' = pre @ d # post"
  shows "(compute_node_hash n = compute_node_hash n' \<longleftrightarrow> c = d) \<and> length (compute_node_hash n) = 16"
  using assms by (simp add: compute_node_hash_def hex16_inject fnv1a_one_char) (simp add: hex16_def)

theorem node_hash_detects_replacement_witness:
  "compute_node_hash \<lparr>node_id = ''a'', ntype = TOOL, nattrs = [(''command'', ''ls'')]\<rparr>
   \<noteq> compute_node_hash \<lparr>node_id = ''a'', ntype = TOOL, nattrs = [(''command'', ''rs'')]\<rparr>"
  using node_hash_detects_replacement [of "\<lparr>node_id = ''a'', ntype = TOOL, nattrs = [(''command'', ''ls'')]\<rparr>"
      "''id:a;handler:tool;command=''" "CHR ''l''" "''s;''"
      "\<lparr>node_id = ''a'', ntype = TOOL, nattrs = [(''command'', ''rs'')]\<rparr>" "CHR ''r''"]
  by (simp add: node_hash_input_def handler_type_def attr_get_or_def)

end
