(* ===== verification/Engine_State.thy ===== *)
theory Engine_State
  imports Edge_Selector Graph_Builder Variable_Expansion Resume_Validator
begin

text \<open>
  The state of a \<open>PipelineEngine\<close> (\<open>include/needle/engine/pipeline_engine.h\<close>) and the members of
  \<open>src/engine/pipeline_engine.cpp\<close> that the main loop and \<open>execute_subgraph\<close> share.

  Everything the engine does to its surroundings is recorded in \<open>trace\<close>, in order: events, saved
  checkpoints, stage directories, sleeps. What it reads from its surroundings is a parameter of the
  configuration that acts on the opaque \<open>world\<close>: the registered handlers, the cancellation flag other
  threads set, the pause controller, the troubleshooter, the clock and the graph source file. The
  mutex-protected sections are the state updates themselves. The structured data of events, log lines and
  the git commit recorded with a stage are left out.
\<close>

section \<open>State\<close>

datatype event_type =
  PIPELINE_STARTED | PIPELINE_COMPLETED | PIPELINE_FAILED
| STAGE_STARTED | STAGE_COMPLETED | STAGE_FAILED | STAGE_RETRYING
| PARALLEL_BRANCH_STARTED | PARALLEL_BRANCH_COMPLETED | HUMAN_QUESTION | HUMAN_ANSWER
| CHECKPOINT_SAVED | VARIABLE_UNRESOLVED | RESUME_WARNING | STAGE_WARNING
| PIPELINE_PAUSED | PIPELINE_RESUMED | STAGE_PAUSED | TROUBLESHOOT_ACTIVITY

datatype effect =
  Event event_type string string
| Saved checkpoint
| Stage_Written string outcome
| Manifest_Written
| Artifact_Written string string
| Slept int
| Backed_Off string int
| Pid_Written
| Pid_Removed

record 'w est =
  ctx :: ctxt
  completed :: "string list"
  node_hashes :: "(string, string) omap"
  outcomes :: "(string, stage_status) omap"
  fail_sigs :: "(string, int) omap"
  retries :: retry_controller
  cycle_limit :: int
  cur_graph_hash :: string
  start_time :: string
  cancelled :: bool
  trace :: "effect list"
  world :: 'w

type_synonym 'w handler = "node \<Rightarrow> graph \<Rightarrow> 'w est \<Rightarrow> outcome result \<times> 'w est"

datatype ats_action =
  Ats_Skipped | Ats_Resumed | Ats_Reported | Ats_Escalated string | Ats_Cancelled | Ats_Promoted string

text \<open>
  \<open>PipelineConfig\<close>. \<open>poll_cancel\<close> says whether another thread has called \<open>cancel()\<close> since the last
  look; \<open>pause_wait\<close> is \<open>None\<close> if the run is not paused, and otherwise the result of
  \<open>wait_if_paused\<close> (\<open>False\<close>: cancelled while paused); \<open>source_text\<close> is the content of the file
  \<open>reload_active_graph\<close> opens.
\<close>

record 'w config =
  handlers :: "string \<Rightarrow> 'w handler option"
  c_graph_file :: string
  c_stylesheet_file :: string
  c_logs_root :: string
  c_dot_content_hash :: string
  has_writer :: bool
  auto_status :: bool
  strict_graph_hash :: bool
  allow_unresolved_vars :: bool
  troubleshoot_on :: bool
  size_limit :: nat
  troubleshoot :: "string \<Rightarrow> graph \<Rightarrow> 'w est \<Rightarrow> ats_action \<times> 'w est"
  poll_cancel :: "'w \<Rightarrow> bool \<times> 'w"
  pause_wait :: "'w \<Rightarrow> bool option \<times> 'w"
  now :: "'w \<Rightarrow> string"
  source_text :: "'w \<Rightarrow> string result"

section \<open>Shared members\<close>

definition log_effect :: "effect \<Rightarrow> 'w est \<Rightarrow> 'w est" where
  "log_effect e st = st\<lparr>trace := trace st @ [e]\<rparr>"

definition emit :: "event_type \<Rightarrow> string \<Rightarrow> string \<Rightarrow> 'w est \<Rightarrow> 'w est" where
  "emit ty i msg st = log_effect (Event ty i msg) st"

definition set_ctx :: "'w config \<Rightarrow> string \<Rightarrow> string \<Rightarrow> 'w est \<Rightarrow> 'w est" where
  "set_ctx cfg k v st = st\<lparr>ctx := ctx_set (size_limit cfg) k v (ctx st)\<rparr>"

definition apply_ctx_updates :: "'w config \<Rightarrow> (string, string) omap \<Rightarrow> 'w est \<Rightarrow> 'w est" where
  "apply_ctx_updates cfg u st = st\<lparr>ctx := apply_updates (size_limit cfg) u (ctx st)\<rparr>"

text \<open>\<open>cancelled_.load()\<close>.\<close>

definition poll :: "'w config \<Rightarrow> 'w est \<Rightarrow> 'w est" where
  "poll cfg st = (let (b, w) = poll_cancel cfg (world st) in st\<lparr>cancelled := (cancelled st \<or> b), world := w\<rparr>)"

definition branch_worktree_prefix :: string where
  "branch_worktree_prefix = ''needle.branch_worktree.''"

definition branch_worktrees_of :: "ctxt \<Rightarrow> (string, string) omap" where
  "branch_worktrees_of c =
     fold (\<lambda>kv m. if length branch_worktree_prefix < length (fst kv) \<and> starts_with branch_worktree_prefix (fst kv)
            then omap_set (drop (length branch_worktree_prefix) (fst kv)) (snd kv) m else m) c []"

definition make_checkpoint :: "'w config \<Rightarrow> string \<Rightarrow> 'w est \<Rightarrow> checkpoint" where
  "make_checkpoint cfg i st =
     \<lparr>timestamp = now cfg (world st), current_node = i, completed_nodes = completed st,
      retry_counters = retries st, cp_context = ctx st, graph_file = c_graph_file cfg,
      graph_hash = cur_graph_hash st, completed_node_hashes = node_hashes st,
      branch_worktrees = branch_worktrees_of (ctx st), stylesheet_file = c_stylesheet_file cfg,
      logs_root = c_logs_root cfg, dot_content_hash = c_dot_content_hash cfg\<rparr>"

definition save_checkpoint :: "'w config \<Rightarrow> string \<Rightarrow> 'w est \<Rightarrow> 'w est" where
  "save_checkpoint cfg i st =
     (if has_writer cfg then log_effect (Saved (make_checkpoint cfg i st)) st else st)"

definition write_stage_directory :: "'w config \<Rightarrow> node \<Rightarrow> outcome \<Rightarrow> 'w est \<Rightarrow> 'w est" where
  "write_stage_directory cfg n out st =
     (if c_logs_root cfg \<noteq> [] then log_effect (Stage_Written (node_id n) out) st else st)"

definition record_node_completion :: "node \<Rightarrow> stage_status \<Rightarrow> 'w est \<Rightarrow> 'w est" where
  "record_node_completion n s st =
     (let st = (if s \<noteq> FAILURE \<and> s \<noteq> RETRY then
          st\<lparr>completed := (if node_id n \<in> set (completed st) then completed st else completed st @ [node_id n]),
             node_hashes := omap_set (node_id n) (compute_node_hash n) (node_hashes st)\<rparr>
        else st)
      in st\<lparr>outcomes := omap_set (node_id n) s (outcomes st)\<rparr>)"

definition apply_common_node_context :: "'w config \<Rightarrow> node \<Rightarrow> graph \<Rightarrow> 'w est \<Rightarrow> 'w est" where
  "apply_common_node_context cfg n g st =
     (let fidelity_edge = find (\<lambda>e. edge_fidelity e \<noteq> []) (incoming_edges g (node_id n));
          st = set_ctx cfg ''needle.fidelity_mode'' (fidelity_to_string (resolve_fidelity fidelity_edge n g)) st;
          goal = attr_get (gattrs g) ''goal''
      in if goal \<noteq> [] then set_ctx cfg ''needle.goal'' goal st else st)"

definition select_next_edge :: "node \<Rightarrow> outcome \<Rightarrow> ctxt \<Rightarrow> graph \<Rightarrow> edge result" where
  "select_next_edge n out c g =
     (let candidates = outgoing_edges g (node_id n) in
      if candidates = [] then failure (''no outgoing edges from node: '' @ node_id n)
      else select_edge candidates out c)"

definition reload_active_graph :: "'w config \<Rightarrow> 'w est \<Rightarrow> graph result" where
  "reload_active_graph cfg st =
     (case source_text cfg (world st) of
        Inl e \<Rightarrow> failure e
      | Inr src \<Rightarrow> (case parse_dot src of
            Some (Inr ast) \<Rightarrow> success (build_graph ast)
          | Some (Inl e) \<Rightarrow> failure e
          | None \<Rightarrow> failure []))"

text \<open>The cascade over candidate targets: the first non-empty one that is a node.\<close>

fun first_target :: "graph \<Rightarrow> string list \<Rightarrow> node option" where
  "first_target g [] = None"
| "first_target g (t # ts) =
     (if t = [] then first_target g ts
      else case find_node g t of Some n \<Rightarrow> Some n | None \<Rightarrow> first_target g ts)"

definition retry_candidates :: "node \<Rightarrow> graph \<Rightarrow> string list" where
  "retry_candidates n g =
     [attr_get (nattrs n) ''retry_target'', attr_get (nattrs n) ''fallback_retry_target'',
      attr_get (gattrs g) ''retry_target'', attr_get (gattrs g) ''fallback_retry_target'']"

section \<open>The bookkeeping invariant\<close>

text \<open>
  What every operation of the engine keeps: the maps are maps, no node is listed twice, every completed node
  has a hash and an outcome, every failure has been seen less often than the cycle limit, and every
  checkpoint saved so far was consistent in the same way and fit to be written as JSON.
\<close>

definition counters_ok :: "retry_controller \<Rightarrow> bool" where
  "counters_ok rc = (omap_ok rc \<and> (\<forall>v \<in> snd ` set rc. in_int v))"

definition saved_ok :: "checkpoint \<Rightarrow> bool" where
  "saved_ok cp = (checkpoint_ok cp \<and> distinct (completed_nodes cp) \<and>
     (\<forall>i \<in> set (completed_nodes cp). map_of (completed_node_hashes cp) i \<noteq> None))"

definition est_ok :: "'w est \<Rightarrow> bool" where
  "est_ok st =
     (omap_ok (ctx st) \<and> omap_ok (node_hashes st) \<and> omap_ok (outcomes st) \<and> omap_ok (fail_sigs st) \<and>
      counters_ok (retries st) \<and> distinct (completed st) \<and>
      (\<forall>i \<in> set (completed st). map_of (node_hashes st) i \<noteq> None \<and> map_of (outcomes st) i \<noteq> None) \<and>
      (\<forall>sig n. map_of (fail_sigs st) sig = Some n \<longrightarrow> 0 < n \<and> n < cycle_limit st) \<and>
      (\<forall>cp. Saved cp \<in> set (trace st) \<longrightarrow> saved_ok cp))"

named_theorems est_intros \<open>operations of the engine keep its bookkeeping well formed\<close>

lemma est_simps [simp]:
  "ctx (log_effect e st) = ctx st" "completed (log_effect e st) = completed st"
  "node_hashes (log_effect e st) = node_hashes st" "outcomes (log_effect e st) = outcomes st"
  "fail_sigs (log_effect e st) = fail_sigs st" "retries (log_effect e st) = retries st"
  "cycle_limit (log_effect e st) = cycle_limit st" "cancelled (log_effect e st) = cancelled st"
  "world (log_effect e st) = world st" "trace (log_effect e st) = trace st @ [e]"
  "cur_graph_hash (log_effect e st) = cur_graph_hash st"
  by (simp_all add: log_effect_def)

lemma est_ok_log [est_intros]: "est_ok st \<Longrightarrow> (\<And>cp. e = Saved cp \<Longrightarrow> saved_ok cp) \<Longrightarrow> est_ok (log_effect e st)"
  by (auto simp: est_ok_def)

lemma est_ok_emit [simp, est_intros]: "est_ok (emit ty i msg st) = est_ok st"
  by (auto simp: emit_def est_ok_def)

lemma est_ok_set_ctx [est_intros]: "est_ok st \<Longrightarrow> est_ok (set_ctx cfg k v st)"
  by (auto simp: est_ok_def set_ctx_def)

lemma est_ok_updates [est_intros]: "est_ok st \<Longrightarrow> est_ok (apply_ctx_updates cfg u st)"
  by (auto simp: est_ok_def apply_ctx_updates_def)

lemma est_ok_poll [est_intros]: "est_ok st \<Longrightarrow> est_ok (poll cfg st)"
  by (auto simp: est_ok_def poll_def split: prod.splits)

lemma omap_ok_branch_worktrees: "omap_ok (branch_worktrees_of c)"
proof -
  have "omap_ok m \<Longrightarrow> omap_ok (fold (\<lambda>kv m. if P kv then omap_set (f kv) (snd kv) m else m) c m)"
    for P and f :: "string \<times> string \<Rightarrow> string" and m :: "(string, string) omap"
    by (induction c arbitrary: m) auto
  then show ?thesis by (simp add: branch_worktrees_of_def)
qed

lemma make_checkpoint_ok: "est_ok st \<Longrightarrow> saved_ok (make_checkpoint cfg i st)"
  by (simp add: est_ok_def saved_ok_def checkpoint_ok_def make_checkpoint_def counters_ok_def omap_ok_branch_worktrees)

lemma est_ok_save [est_intros]: "est_ok st \<Longrightarrow> est_ok (save_checkpoint cfg i st)"
  by (auto simp: save_checkpoint_def intro: est_ok_log make_checkpoint_ok)

lemma est_ok_stage [est_intros]: "est_ok st \<Longrightarrow> est_ok (write_stage_directory cfg n out st)"
  by (auto simp: write_stage_directory_def intro: est_ok_log)

lemma est_ok_record [est_intros]: "est_ok st \<Longrightarrow> est_ok (record_node_completion n s st)"
  by (auto simp: est_ok_def record_node_completion_def Let_def)

lemma est_ok_common [est_intros]: "est_ok st \<Longrightarrow> est_ok (apply_common_node_context cfg n g st)"
  by (auto simp: apply_common_node_context_def Let_def intro: est_ok_set_ctx)

lemma max_retries_in_int: "in_int (max_retries (policy_from_attributes attrs))"
proof -
  have "in_int (max_retries (policy_from_preset p))" for p by (cases p) (simp_all add: int_range_defs)
  moreover have "in_int (or_else (max_retries default_policy) (attr_get_int attrs k))" for k
    by (cases "attr_get_int attrs k") (auto simp: or_else_def default_policy_def int_range_defs dest: attr_get_int_range)
  ultimately show ?thesis by (simp add: policy_from_attributes_def Let_def)
qed

lemma counters_ok_record:
  assumes "counters_ok rc" and "should_retry rc i (policy_from_attributes attrs)"
  shows "counters_ok (record_attempt i rc)"
proof -
  have "in_int (attempts rc i)"
  proof (cases "map_of rc i")
    case (Some v)
    then have "v \<in> snd ` set rc" by (metis image_eqI map_of_SomeD snd_conv)
    then have "in_int v" using assms(1) unfolding counters_ok_def by blast
    with Some show ?thesis by (simp add: attempts_def)
  qed (simp add: attempts_def int_range_defs)
  with assms(2) max_retries_in_int [of attrs] have "in_int (attempts rc i + 1)"
    by (simp add: should_retry_def int_range_defs)
  moreover have "snd ` set (record_attempt i rc) \<subseteq> insert (attempts rc i + 1) (snd ` set rc)"
    using set_omap_set_subset [of i "attempts rc i + 1" rc] by (force simp: record_attempt_def)
  ultimately have "in_int v" if "v \<in> snd ` set (record_attempt i rc)" for v
    using assms(1) subsetD [OF _ that, of "insert (attempts rc i + 1) (snd ` set rc)"]
    unfolding counters_ok_def by (elim conjE insertE) (simp, blast)
  with assms(1) show ?thesis unfolding counters_ok_def by (intro conjI ballI) (rule omap_ok_record, elim conjE)
qed

lemma est_ok_retry [est_intros]:
  "est_ok st \<Longrightarrow> should_retry (retries st) i (policy_from_attributes attrs) \<Longrightarrow>
   est_ok (st\<lparr>retries := record_attempt i (retries st)\<rparr>)"
  by (auto simp: est_ok_def intro: counters_ok_record)

lemma record_completion_simps [simp]:
  "trace (record_node_completion n s st) = trace st" "ctx (record_node_completion n s st) = ctx st"
  "cancelled (record_node_completion n s st) = cancelled st"
  "retries (record_node_completion n s st) = retries st"
  "outcomes (record_node_completion n s st) = omap_set (node_id n) s (outcomes st)"
  "s \<noteq> FAILURE \<Longrightarrow> s \<noteq> RETRY \<Longrightarrow>
     set (completed (record_node_completion n s st)) = insert (node_id n) (set (completed st))"
  by (auto simp: record_node_completion_def Let_def)

lemma first_target_node: "first_target g ts = Some n \<Longrightarrow> find_node g (node_id n) = Some n"
proof (induction g ts rule: first_target.induct)
  case (2 g t ts)
  then show ?case
    by (cases "find_node g t") (auto split: if_splits dest: find_node_Some)
qed simp

end
