(* ===== verification/Pipeline_Engine.thy ===== *)
theory Pipeline_Engine
  imports Engine_State
begin

text \<open>
  \<open>PipelineEngine::run\<close>, \<open>resume\<close> and \<open>execute_loop\<close> of \<open>src/engine/pipeline_engine.cpp\<close>. One call of
  \<open>engine_step\<close> is one iteration of the inner loop, or what follows it when the loop ends; it either ends
  the run (\<open>Done\<close>) or gives the next session (\<open>Goto\<close>), which includes the recursive call of
  \<open>execute_loop\<close> for an unsatisfied goal gate. \<open>execute_loop\<close> iterates it with fuel, because nothing
  bounds a run whose stages never fail the same way twice.
\<close>

section \<open>Sessions\<close>

record 'w session =
  sgraph :: graph
  scur :: "node option"
  sexit :: node
  sst :: "'w est"

datatype 'w ctl = Done "unit result" "'w est" | Goto "'w session"

definition goto :: "graph \<Rightarrow> node option \<Rightarrow> node \<Rightarrow> 'w est \<Rightarrow> 'w ctl" where
  "goto g c ex st = Goto \<lparr>sgraph = g, scur = c, sexit = ex, sst = st\<rparr>"

section \<open>After a stage has succeeded\<close>

text \<open>\<open>loop_restart\<close>: only \<open>var.*\<close> and \<open>graph.*\<close> context keys survive, written again through \<open>Context::set\<close>.\<close>

definition restart_context :: "nat \<Rightarrow> ctxt \<Rightarrow> ctxt" where
  "restart_context lim c =
     fold (\<lambda>kv m. if take 4 (fst kv) = ''var.'' \<or> take 6 (fst kv) = ''graph.''
            then ctx_set lim (fst kv) (snd kv) m else m) c []"

definition follow_edge :: "'w config \<Rightarrow> graph \<Rightarrow> node \<Rightarrow> node \<Rightarrow> outcome \<Rightarrow> 'w est \<Rightarrow> 'w ctl" where
  "follow_edge cfg g n ex out st =
     (case select_next_edge n out (ctx st) g of
        Inl e \<Rightarrow> Done (failure (''edge selection failed: '' @ e))
                   (emit PIPELINE_FAILED [] (''Edge selection failed: '' @ e) st)
      | Inr e \<Rightarrow>
          if attr_get (eattrs e) ''loop_restart'' = ''true'' then
            let st = emit STAGE_WARNING (node_id n) (''Loop restart: resetting pipeline from '' @ eto e) st;
                st = st\<lparr>ctx := restart_context (size_limit cfg) (ctx st), completed := [], outcomes := []\<rparr>
            in (case find_node g (eto e) of
                  None \<Rightarrow> Done (failure (''loop restart target not found: '' @ eto e))
                    (emit PIPELINE_FAILED [] (''Loop restart target node not found: '' @ eto e) st)
                | Some m \<Rightarrow> goto g (Some m) ex st)
          else
            (case find_node g (eto e) of
               None \<Rightarrow> Done (failure (''target node not found: '' @ eto e))
                 (emit PIPELINE_FAILED [] (''Target node not found: '' @ eto e) st)
             | Some m \<Rightarrow> goto g (Some m) ex st))"

definition fan_in_target :: "outcome \<Rightarrow> ctxt \<Rightarrow> string" where
  "fan_in_target out c =
     (case map_of (context_updates out) ''parallel.fan_in_target'' of
        Some t \<Rightarrow> t | None \<Rightarrow> ctx_get c ''parallel.fan_in_target'')"

definition complete_stage :: "'w config \<Rightarrow> node \<Rightarrow> outcome \<Rightarrow> 'w est \<Rightarrow> 'w est" where
  "complete_stage cfg n out st =
     (let st = emit STAGE_COMPLETED (node_id n) (''Stage completed: '' @ node_id n) st;
          st = apply_ctx_updates cfg (context_updates out) st;
          st = set_ctx cfg ''needle.last_outcome.status'' (status_to_string (status out)) st;
          st = record_node_completion n (status out) st;
          st = save_checkpoint cfg (node_id n) st
      in if auto_status cfg then write_stage_directory cfg n out st else st)"

definition on_success :: "'w config \<Rightarrow> graph \<Rightarrow> node \<Rightarrow> node \<Rightarrow> outcome \<Rightarrow> 'w est \<Rightarrow> 'w ctl" where
  "on_success cfg g n ex out st =
     (let st = complete_stage cfg n out st
      in if ntype n = PARALLEL then
           let tgt = fan_in_target out (ctx st);
               st = set_ctx cfg ''parallel.fan_in_target'' [] st
           in (case (if tgt \<noteq> [] then find_node g tgt else None) of
                 Some m \<Rightarrow> goto g (Some m) ex st
               | None \<Rightarrow> follow_edge cfg g n ex out st)
         else follow_edge cfg g n ex out st)"

section \<open>After a stage has asked for a retry\<close>

definition retry_message :: "node \<Rightarrow> outcome \<Rightarrow> string" where
  "retry_message n out =
     (if out_text out = [] then ''Retrying stage: '' @ node_id n
      else out_text out @ '' '' @ em_dash @ '' retrying '' @ node_id n)"

definition on_retry :: "'w config \<Rightarrow> graph \<Rightarrow> node \<Rightarrow> node \<Rightarrow> outcome \<Rightarrow> 'w est \<Rightarrow> 'w ctl" where
  "on_retry cfg g n ex out st =
     (if should_retry (retries st) (node_id n) (policy_from_attributes (nattrs n)) then
        let st = st\<lparr>retries := record_attempt (node_id n) (retries st)\<rparr>;
            st = emit STAGE_RETRYING (node_id n) (retry_message n out) st;
            st = log_effect (if retry_after_ms out > 0 then Slept (retry_after_ms out)
                   else Backed_Off (node_id n) (attempts (retries st) (node_id n))) st
        in goto g (Some n) ex st
      else if attr_get_bool (nattrs n) ''allow_partial'' = Some True then
        on_success cfg g n ex
          (out\<lparr>status := PARTIAL_SUCCESS, out_text := ''retries exhausted, partial accepted''\<rparr>) st
      else
        let st = emit STAGE_FAILED (node_id n) (''Retries exhausted for: '' @ node_id n) st
        in Done (failure (''retries exhausted for node: '' @ node_id n))
             (emit PIPELINE_FAILED [] (''Retries exhausted for: '' @ node_id n) st))"

section \<open>After a stage has failed\<close>

definition failure_signature :: "node \<Rightarrow> outcome \<Rightarrow> string" where
  "failure_signature n out = node_id n @ ''|'' @ take 100 (out_text out)"

definition count_failure :: "string \<Rightarrow> 'w est \<Rightarrow> 'w est" where
  "count_failure sig st =
     st\<lparr>fail_sigs := omap_set sig ((case map_of (fail_sigs st) sig of Some k \<Rightarrow> k | None \<Rightarrow> 0) + 1) (fail_sigs st)\<rparr>"

definition failure_count :: "string \<Rightarrow> 'w est \<Rightarrow> int" where
  "failure_count sig st = (case map_of (fail_sigs st) sig of Some k \<Rightarrow> k | None \<Rightarrow> 0)"

definition troubleshoot_enabled :: "'w config \<Rightarrow> node \<Rightarrow> bool" where
  "troubleshoot_enabled cfg n =
     (let v = attr_get (nattrs n) ''troubleshoot'' in
      troubleshoot_on cfg \<and> \<not> (v = ''false'' \<or> v = ''0''))"

definition on_promoted :: "'w config \<Rightarrow> graph \<Rightarrow> node \<Rightarrow> node \<Rightarrow> string \<Rightarrow> 'w est \<Rightarrow> 'w ctl" where
  "on_promoted cfg g n ex artifact st =
     (let promoted = (new_outcome SUCCESS)\<lparr>out_text := artifact\<rparr>;
          st = set_ctx cfg (''codergen.'' @ node_id n @ ''.output'') artifact st;
          st = set_ctx cfg (''tool.'' @ node_id n @ ''.output'') artifact st;
          st = set_ctx cfg ''needle.last_outcome.status'' ''SUCCESS'' st;
          st = record_node_completion n SUCCESS st;
          st = (if auto_status cfg then write_stage_directory cfg n promoted st else st);
          st = emit STAGE_COMPLETED (node_id n) (''Stage recovered by troubleshooter: '' @ node_id n) st;
          st = save_checkpoint cfg (node_id n) st
      in case select_next_edge n promoted (ctx st) g of
           Inl e \<Rightarrow> Done (failure (''edge selection failed: '' @ e))
             (emit PIPELINE_FAILED [] (''Edge selection failed after troubleshoot promotion: '' @ e) st)
         | Inr e \<Rightarrow> goto g (find_node g (eto e)) ex st)"

definition on_resumed :: "'w config \<Rightarrow> graph \<Rightarrow> node \<Rightarrow> node \<Rightarrow> 'w est \<Rightarrow> 'w ctl" where
  "on_resumed cfg g n ex st =
     (case reload_active_graph cfg st of
        Inl e \<Rightarrow> goto g (Some n) ex (save_checkpoint cfg (node_id n) st)
      | Inr g' \<Rightarrow>
          (case (find_node g' (node_id n), exit_node g') of
             (Some n', Some ex') \<Rightarrow>
               let st = st\<lparr>cur_graph_hash := compute_graph_hash g'\<rparr>
               in goto g' (Some n') ex' (save_checkpoint cfg (node_id n') st)
           | _ \<Rightarrow> goto g (Some n) ex (save_checkpoint cfg (node_id n) st)))"

text \<open>The recovery routes: a conditional edge that matches, then the cascade of retry targets.\<close>

definition recover :: "'w config \<Rightarrow> graph \<Rightarrow> node \<Rightarrow> node \<Rightarrow> outcome \<Rightarrow> string \<Rightarrow> 'w est \<Rightarrow> 'w ctl" where
  "recover cfg g n ex out fail_err st =
     (let has_conditional_edge = (\<exists>e \<in> set (outgoing_edges g (node_id n)). edge_condition e \<noteq> []);
          route = (if has_conditional_edge then select_next_edge n out (ctx st) g else failure [])
      in case route of
           Inr e \<Rightarrow> goto g (find_node g (eto e)) ex (save_checkpoint cfg (node_id n) st)
         | Inl _ \<Rightarrow>
             (case first_target g (retry_candidates n g) of
                Some m \<Rightarrow> goto g (Some m) ex (save_checkpoint cfg (node_id n) st)
              | None \<Rightarrow>
                  let st = save_checkpoint cfg (node_id n) st
                  in Done (failure (''stage failed: '' @ node_id n @ '': '' @ out_text out))
                       (emit PIPELINE_FAILED [] fail_err st)))"

definition on_failure :: "'w config \<Rightarrow> graph \<Rightarrow> node \<Rightarrow> node \<Rightarrow> outcome \<Rightarrow> 'w est \<Rightarrow> 'w ctl" where
  "on_failure cfg g n ex out st =
     (let st = write_stage_directory cfg n out st;
          st = apply_ctx_updates cfg (context_updates out) st;
          st = set_ctx cfg ''needle.last_outcome.status'' (status_to_string (status out)) st;
          fail_err = ''Stage failed: '' @ node_id n @ '': '' @ out_text out;
          st = emit STAGE_FAILED (node_id n) fail_err st;
          sig = failure_signature n out;
          st = count_failure sig st
      in if failure_count sig st \<ge> cycle_limit st then
           let st = save_checkpoint cfg (node_id n) st
           in Done (failure ''cycle detected'')
                (emit PIPELINE_FAILED (node_id n) (''Cycle detected: node '' @ node_id n @ '' failed ''
                   @ show_int (cycle_limit st) @ '' times with same error'') st)
         else if troubleshoot_enabled cfg n then
           let (action, st) = troubleshoot cfg (node_id n) g st in
           case action of
             Ats_Promoted artifact \<Rightarrow> on_promoted cfg g n ex artifact st
           | Ats_Resumed \<Rightarrow> on_resumed cfg g n ex st
           | Ats_Escalated report \<Rightarrow>
               Done (failure (''escalated auto-troubleshoot: '' @ report)) (save_checkpoint cfg (node_id n) st)
           | _ \<Rightarrow> recover cfg g n ex out fail_err st
         else recover cfg g n ex out fail_err st)"

section \<open>One stage\<close>

definition run_stage :: "'w config \<Rightarrow> graph \<Rightarrow> node \<Rightarrow> node \<Rightarrow> 'w est \<Rightarrow> 'w ctl" where
  "run_stage cfg g n ex st =
     (let st = emit STAGE_STARTED (node_id n) (''Stage started: '' @ node_id n) st in
      case handlers cfg (handler_type n) of
        None \<Rightarrow>
          let err = ''no handler registered for type: '' @ handler_type n
          in Done (failure err) (emit PIPELINE_FAILED [] err (emit STAGE_FAILED (node_id n) err st))
      | Some handle \<Rightarrow>
          let st = apply_common_node_context cfg n g st;
              (r, st) = handle n g st
          in case r of
               Inl e \<Rightarrow> Done (failure e) (emit PIPELINE_FAILED [] e (emit STAGE_FAILED (node_id n) e st))
             | Inr out \<Rightarrow>
                 if status out = RETRY then on_retry cfg g n ex out st
                 else if status out = FAILURE then on_failure cfg g n ex out st
                 else on_success cfg g n ex out st)"

section \<open>The end of the loop: exit node and goal gates\<close>

definition run_exit :: "'w config \<Rightarrow> graph \<Rightarrow> node \<Rightarrow> 'w est \<Rightarrow> 'w est" where
  "run_exit cfg g n st =
     (let st = emit STAGE_STARTED (node_id n) (''Stage started: '' @ node_id n) st;
          st = (case handlers cfg (handler_type n) of
              None \<Rightarrow> st
            | Some handle \<Rightarrow>
                (case handle n g st of
                   (Inl e, st) \<Rightarrow> st
                 | (Inr out, st) \<Rightarrow> apply_ctx_updates cfg (context_updates out) st));
          st = emit STAGE_COMPLETED (node_id n) (''Stage completed: '' @ node_id n) st;
          st = record_node_completion n SUCCESS st
      in save_checkpoint cfg (node_id n) st)"

definition gate_satisfied :: "'w est \<Rightarrow> node \<Rightarrow> bool" where
  "gate_satisfied st n =
     (case map_of (outcomes st) (node_id n) of
        None \<Rightarrow> False | Some s \<Rightarrow> s = SUCCESS \<or> s = PARTIAL_SUCCESS)"

text \<open>\<open>unsatisfied_node\<close>: the id of the first gate that did not succeed, empty if there is none.\<close>

definition unsatisfied_gate :: "graph \<Rightarrow> 'w est \<Rightarrow> string" where
  "unsatisfied_gate g st =
     (case find (\<lambda>n. goal_gate n \<and> \<not> gate_satisfied st n) (gnodes g) of
        Some n \<Rightarrow> node_id n | None \<Rightarrow> [])"

definition gate_candidates :: "string \<Rightarrow> graph \<Rightarrow> string list" where
  "gate_candidates i g =
     (case find_node g i of
        Some n \<Rightarrow> retry_candidates n g
      | None \<Rightarrow> [attr_get (gattrs g) ''retry_target'', attr_get (gattrs g) ''fallback_retry_target''])"

definition finish :: "'w config \<Rightarrow> 'w session \<Rightarrow> 'w ctl" where
  "finish cfg s =
     (let g = sgraph s; ex = sexit s; st = poll cfg (sst s) in
      if cancelled st then
        Done (failure ''pipeline cancelled'') (emit PIPELINE_FAILED [] ''Pipeline cancelled'' st)
      else
        let st = (case scur s of
              Some n \<Rightarrow> if node_id n = node_id ex then run_exit cfg g n st else st
            | None \<Rightarrow> st);
            gate = unsatisfied_gate g st
        in if gate \<noteq> [] then
             (case first_target g (gate_candidates gate g) of
                Some m \<Rightarrow> goto g (Some m) ex st
              | None \<Rightarrow>
                  let msg = ''Goal gate unsatisfied: '' @ gate
                  in Done (failure msg) (emit PIPELINE_FAILED [] msg st))
           else
             let st = (if c_logs_root cfg \<noteq> [] then log_effect Manifest_Written st else st)
             in Done (success ()) (emit PIPELINE_COMPLETED [] ''Pipeline completed'' st))"

definition engine_step :: "'w config \<Rightarrow> 'w session \<Rightarrow> 'w ctl" where
  "engine_step cfg s =
     (case scur s of
        None \<Rightarrow> finish cfg s
      | Some n \<Rightarrow>
          if node_id n = node_id (sexit s) then finish cfg s
          else
            let st = poll cfg (sst s) in
            if cancelled st then finish cfg (s\<lparr>sst := st\<rparr>)
            else
              let (paused, w) = pause_wait cfg (world st); st = st\<lparr>world := w\<rparr> in
              case paused of
                None \<Rightarrow> run_stage cfg (sgraph s) n (sexit s) st
              | Some go_on \<Rightarrow>
                  let st = emit STAGE_PAUSED (node_id n) (''Node paused: '' @ node_id n) st in
                  if go_on then run_stage cfg (sgraph s) n (sexit s) st
                  else finish cfg (s\<lparr>sst := st\<lparr>cancelled := True\<rparr>\<rparr>))"

fun execute_loop :: "'w config \<Rightarrow> nat \<Rightarrow> 'w session \<Rightarrow> (unit result \<times> 'w est) option" where
  "execute_loop cfg 0 s = None"
| "execute_loop cfg (Suc k) s =
     (case engine_step cfg s of
        Done r st \<Rightarrow> Some (r, st)
      | Goto s' \<Rightarrow> execute_loop cfg k s')"

end
