(* ===== verification/Engine_Loop.thy ===== *)
theory Engine_Loop
  imports Pipeline_Engine
begin

text \<open>
  What holds of every run of \<open>execute_loop\<close>: the step relation of the engine, its reachable sessions, and
  a locale that turns a property kept by one \<open>engine_step\<close> into a property of whole runs. It is interpreted
  for the well-formedness of sessions, the bookkeeping of the engine and what a successful end means.
\<close>

section \<open>Steps and reachable sessions\<close>

inductive engine_reaches :: "'w config \<Rightarrow> 'w session \<Rightarrow> 'w session \<Rightarrow> bool" for cfg s where
  reaches_refl: "engine_reaches cfg s s"
| reaches_step: "engine_reaches cfg s s' \<Longrightarrow> engine_step cfg s' = Goto s'' \<Longrightarrow> engine_reaches cfg s s''"

inductive engine_ends :: "'w config \<Rightarrow> 'w session \<Rightarrow> unit result \<Rightarrow> 'w est \<Rightarrow> bool" for cfg where
  ends_now: "engine_step cfg s = Done r st \<Longrightarrow> engine_ends cfg s r st"
| ends_later: "engine_step cfg s = Goto s' \<Longrightarrow> engine_ends cfg s' r st \<Longrightarrow> engine_ends cfg s r st"

inductive_cases reaches_cases: "engine_reaches cfg s s'"
inductive_simps engine_ends_unfold: "engine_ends cfg s r st"

lemma execute_loop_mono: "execute_loop cfg k s = Some x \<Longrightarrow> k \<le> k' \<Longrightarrow> execute_loop cfg k' s = Some x"
proof (induction cfg k s arbitrary: k' rule: execute_loop.induct)
  case (2 cfg k s)
  then obtain j where "k' = Suc j" "k \<le> j" by (cases k') auto
  with 2 show ?case by (auto split: ctl.splits)
qed simp

text \<open>The fuel only cuts runs off: enough of it computes exactly the runs that end.\<close>

lemma execute_loop_iff: "(\<exists>k. execute_loop cfg k s = Some (r, st)) \<longleftrightarrow> engine_ends cfg s r st"
proof
  assume "\<exists>k. execute_loop cfg k s = Some (r, st)"
  then obtain k where "execute_loop cfg k s = Some (r, st)" by blast
  then show "engine_ends cfg s r st"
    by (induction cfg k s rule: execute_loop.induct)
      (auto split: ctl.splits intro: ends_now ends_later)
next
  assume "engine_ends cfg s r st"
  then show "\<exists>k. execute_loop cfg k s = Some (r, st)"
  proof induction
    case (ends_now s r st)
    then have "execute_loop cfg (Suc 0) s = Some (r, st)" by simp
    then show ?case by blast
  next
    case (ends_later s s' r st)
    then obtain k where "execute_loop cfg k s' = Some (r, st)" by blast
    with ends_later(1) have "execute_loop cfg (Suc k) s = Some (r, st)" by simp
    then show ?case by blast
  qed
qed

section \<open>Properties of both kinds of steps\<close>

primrec ctl_all :: "('w session \<Rightarrow> bool) \<Rightarrow> (unit result \<Rightarrow> 'w est \<Rightarrow> bool) \<Rightarrow> 'w ctl \<Rightarrow> bool" where
  "ctl_all P Q (Done r st) = Q r st"
| "ctl_all P Q (Goto s) = P s"

named_theorems ctl_intros \<open>what each part of a step guarantees about the session or the result it gives\<close>

locale engine_invariant =
  fixes cfg :: "'w config"
    and I :: "'w session \<Rightarrow> bool"
    and F :: "unit result \<Rightarrow> 'w est \<Rightarrow> bool"
  assumes step: "I s \<Longrightarrow> ctl_all I F (engine_step cfg s)"
begin

lemma reachable: "engine_reaches cfg s s' \<Longrightarrow> I s \<Longrightarrow> I s'"
proof (induction rule: engine_reaches.induct)
  case (reaches_step s' s'')
  then show ?case using step [of s'] by simp
qed simp

lemma ends: "engine_ends cfg s r st \<Longrightarrow> I s \<Longrightarrow> F r st"
proof (induction rule: engine_ends.induct)
  case (ends_now s r st)
  then show ?case using step [of s] by simp
next
  case (ends_later s s' r st)
  then show ?case using step [of s] by simp
qed

lemma returns: "execute_loop cfg k s = Some (r, st) \<Longrightarrow> I s \<Longrightarrow> F r st"
  using execute_loop_iff [of cfg s r st] ends by blast

end

section \<open>Well-formed sessions\<close>

text \<open>
  The graph's edges end at nodes of the graph, and the current and the exit node are nodes of the graph: no
  pointer of the session is null. \<open>GraphBuilder\<close> and therefore \<open>reload_active_graph\<close> give such graphs.
\<close>

definition session_ok :: "'w session \<Rightarrow> bool" where
  "session_ok s =
     (edges_closed (sgraph s) \<and> (\<exists>n. scur s = Some n \<and> find_node (sgraph s) (node_id n) = Some n) \<and>
      ntype (sexit s) = EXIT \<and> find_node (sgraph s) (node_id (sexit s)) = Some (sexit s))"

definition in_graph :: "graph \<Rightarrow> node \<Rightarrow> bool" where
  "in_graph g ex = (edges_closed g \<and> ntype ex = EXIT \<and> find_node g (node_id ex) = Some ex)"

lemma session_ok_goto: "ctl_all session_ok Q (goto g (Some n) ex st) \<longleftrightarrow> in_graph g ex \<and> find_node g (node_id n) = Some n"
  by (auto simp: goto_def session_ok_def in_graph_def)

lemma find_node_self: "find_node g i = Some n \<Longrightarrow> find_node g (node_id n) = Some n"
  using find_node_Some by fastforce

lemma select_next_edge_mem: "select_next_edge n out c g = Inr e \<Longrightarrow> e \<in> set (gedges g) \<and> efrom e = node_id n"
proof -
  assume "select_next_edge n out c g = Inr e"
  then have "select_edge (outgoing_edges g (node_id n)) out c = Inr e"
    by (auto simp: select_next_edge_def Let_def split: if_splits)
  then have "e \<in> set (outgoing_edges g (node_id n))"
    using select_edge_mem filter_by_condition_subset by blast
  then show ?thesis by simp
qed

lemma select_next_edge_target:
  "edges_closed g \<Longrightarrow> select_next_edge n out c g = Inr e \<Longrightarrow>
   \<exists>m. find_node g (eto e) = Some m \<and> find_node g (node_id m) = Some m"
  using select_next_edge_mem [of n out c g e] by (auto simp: edges_closed_def intro: find_node_self)

lemma reload_ok:
  assumes "reload_active_graph cfg st = Inr g'" and "exit_node g' = Some ex"
  shows "in_graph g' ex"
proof -
  obtain ast where g': "g' = build_graph ast"
    using assms(1) by (auto simp: reload_active_graph_def split: sum.splits option.splits)
  have "find_node g' (node_id ex) = Some ex"
    using exit_node_Some [OF assms(2)] find_node_unique [OF build_distinct] by (auto simp: g')
  with exit_node_Some [OF assms(2)] show ?thesis by (auto simp: in_graph_def g' intro: build_graph_closed)
qed

text \<open>\<open>PipelineEngine::run\<close> starts from a graph; only troubleshooting replaces it during the run.\<close>

definition run_graph :: "'w config \<Rightarrow> graph \<Rightarrow> node \<Rightarrow> graph \<Rightarrow> node \<Rightarrow> bool" where
  "run_graph cfg g0 ex0 g ex = (in_graph g ex \<and> (\<not> troubleshoot_on cfg \<longrightarrow> g = g0 \<and> ex = ex0))"

definition session_at :: "'w config \<Rightarrow> graph \<Rightarrow> node \<Rightarrow> 'w session \<Rightarrow> bool" where
  "session_at cfg g0 ex0 s = (session_ok s \<and> run_graph cfg g0 ex0 (sgraph s) (sexit s))"

text \<open>What a run that reports success has done.\<close>

definition finished :: "'w config \<Rightarrow> graph \<Rightarrow> node \<Rightarrow> 'w est \<Rightarrow> bool" where
  "finished cfg g ex st =
     (last (trace st) = Event PIPELINE_COMPLETED [] ''Pipeline completed'' \<and>
      node_id ex \<in> set (completed st) \<and> map_of (outcomes st) (node_id ex) = Some SUCCESS \<and>
      (has_writer cfg \<longrightarrow> (\<exists>cp. Saved cp \<in> set (trace st) \<and> current_node cp = node_id ex \<and>
         completed_nodes cp = completed st)) \<and>
      ((\<forall>n \<in> set (gnodes g). node_id n \<noteq> []) \<longrightarrow>
         (\<forall>n \<in> set (gnodes g). goal_gate n \<longrightarrow>
            (\<exists>x \<in> {SUCCESS, PARTIAL_SUCCESS}. map_of (outcomes st) (node_id n) = Some x))))"

definition result_ok :: "'w config \<Rightarrow> graph \<Rightarrow> node \<Rightarrow> unit result \<Rightarrow> 'w est \<Rightarrow> bool" where
  "result_ok cfg g0 ex0 r st =
     (r = Inr () \<longrightarrow> (\<exists>g ex. run_graph cfg g0 ex0 g ex \<and> finished cfg g ex st))"

abbreviation safe :: "'w config \<Rightarrow> graph \<Rightarrow> node \<Rightarrow> 'w ctl \<Rightarrow> bool" where
  "safe cfg g0 ex0 \<equiv> ctl_all (session_at cfg g0 ex0) (result_ok cfg g0 ex0)"

lemma result_ok_failure [simp]: "result_ok cfg g0 ex0 (Inl e) st"
  by (simp add: result_ok_def)

lemma safe_goto: "safe cfg g0 ex0 (goto g (Some n) ex st) \<longleftrightarrow>
    run_graph cfg g0 ex0 g ex \<and> find_node g (node_id n) = Some n"
  by (auto simp: goto_def session_at_def session_ok_def run_graph_def in_graph_def)

lemma run_graph_closed: "run_graph cfg g0 ex0 g ex \<Longrightarrow> edges_closed g"
  by (simp add: run_graph_def in_graph_def)

lemma safe_target:
  "run_graph cfg g0 ex0 g ex \<Longrightarrow> select_next_edge n out c g = Inr e \<Longrightarrow>
   safe cfg g0 ex0 (goto g (find_node g (eto e)) ex st)"
  using select_next_edge_target [of g n out c e] run_graph_closed [of cfg g0 ex0 g ex]
  by (auto simp: safe_goto)

lemma safe_follow [ctl_intros]: "run_graph cfg g0 ex0 g ex \<Longrightarrow> safe cfg g0 ex0 (follow_edge cfg g n ex out st)"
  by (auto simp: follow_edge_def Let_def safe_goto find_node_self split: sum.splits option.splits)

lemma safe_success [ctl_intros]: "run_graph cfg g0 ex0 g ex \<Longrightarrow> safe cfg g0 ex0 (on_success cfg g n ex out st)"
  by (auto simp: on_success_def Let_def safe_goto find_node_self intro: ctl_intros split: option.splits)

lemma safe_retry [ctl_intros]:
  "run_graph cfg g0 ex0 g ex \<Longrightarrow> find_node g (node_id n) = Some n \<Longrightarrow> safe cfg g0 ex0 (on_retry cfg g n ex out st)"
  by (simp add: on_retry_def Let_def safe_goto safe_success)

lemma safe_promoted [ctl_intros]:
  "run_graph cfg g0 ex0 g ex \<Longrightarrow> safe cfg g0 ex0 (on_promoted cfg g n ex artifact st)"
  by (auto simp: on_promoted_def Let_def safe_target split: sum.splits)

lemma safe_resumed [ctl_intros]:
  "run_graph cfg g0 ex0 g ex \<Longrightarrow> troubleshoot_on cfg \<Longrightarrow> find_node g (node_id n) = Some n \<Longrightarrow>
   safe cfg g0 ex0 (on_resumed cfg g n ex st)"
  using reload_ok [of cfg st]
  by (auto simp: on_resumed_def Let_def safe_goto find_node_self run_graph_def split: sum.splits option.splits)

lemma safe_recover [ctl_intros]: "run_graph cfg g0 ex0 g ex \<Longrightarrow> safe cfg g0 ex0 (recover cfg g n ex out msg st)"
  by (auto simp: recover_def Let_def safe_target safe_goto dest: first_target_node split: sum.splits option.splits)

lemma safe_failure [ctl_intros]:
  assumes rg: "run_graph cfg g0 ex0 g ex" and n: "find_node g (node_id n) = Some n"
  shows "safe cfg g0 ex0 (on_failure cfg g n ex out st)"
  unfolding on_failure_def Let_def troubleshoot_enabled_def
  by (simp add: safe_recover [OF rg] safe_promoted [OF rg] safe_resumed [OF rg _ n] split: prod.split ats_action.split)

lemma safe_stage [ctl_intros]:
  assumes rg: "run_graph cfg g0 ex0 g ex" and n: "find_node g (node_id n) = Some n"
  shows "safe cfg g0 ex0 (run_stage cfg g n ex st)"
  unfolding run_stage_def Let_def
  by (simp add: safe_failure [OF rg n] safe_success [OF rg] safe_retry [OF rg n]
      split: option.split prod.split sum.split)

lemma poll_keeps: "trace (poll cfg st) = trace st" "completed (poll cfg st) = completed st"
  "outcomes (poll cfg st) = outcomes st" "cancelled st \<Longrightarrow> cancelled (poll cfg st)" "ctx (poll cfg st) = ctx st"
  "fail_sigs (poll cfg st) = fail_sigs st" "cycle_limit (poll cfg st) = cycle_limit st" "retries (poll cfg st) = retries st"
  by (auto simp: poll_def split: prod.splits)

lemma save_checkpoint_keeps [simp]:
  "completed (save_checkpoint cfg i st) = completed st" "outcomes (save_checkpoint cfg i st) = outcomes st"
  "ctx (save_checkpoint cfg i st) = ctx st" "retries (save_checkpoint cfg i st) = retries st"
  "fail_sigs (save_checkpoint cfg i st) = fail_sigs st" "cycle_limit (save_checkpoint cfg i st) = cycle_limit st"
  "node_hashes (save_checkpoint cfg i st) = node_hashes st" "world (save_checkpoint cfg i st) = world st"
  "cancelled (save_checkpoint cfg i st) = cancelled st"
  by (simp_all add: save_checkpoint_def)

lemma save_checkpoint_saved: "has_writer cfg \<Longrightarrow>
   \<exists>cp. Saved cp \<in> set (trace (save_checkpoint cfg i st)) \<and> current_node cp = i \<and> completed_nodes cp = completed st"
  by (intro exI [of _ "make_checkpoint cfg i st"]) (simp add: save_checkpoint_def make_checkpoint_def)

lemma run_exit_done:
  "node_id n \<in> set (completed (run_exit cfg g n st))"
  "map_of (outcomes (run_exit cfg g n st)) (node_id n) = Some SUCCESS"
  "has_writer cfg \<Longrightarrow> \<exists>cp. Saved cp \<in> set (trace (run_exit cfg g n st)) \<and> current_node cp = node_id n \<and>
     completed_nodes cp = completed (run_exit cfg g n st)"
  unfolding run_exit_def Let_def by (simp_all add: save_checkpoint_saved)

lemma gates_satisfied:
  assumes "unsatisfied_gate g st = []" and "\<forall>n \<in> set (gnodes g). node_id n \<noteq> []"
    and "n \<in> set (gnodes g)" and "goal_gate n"
  shows "\<exists>x \<in> {SUCCESS, PARTIAL_SUCCESS}. map_of (outcomes st) (node_id n) = Some x"
proof -
  have "find (\<lambda>n. goal_gate n \<and> \<not> gate_satisfied st n) (gnodes g) = None"
    using assms(1,2) by (auto simp: unsatisfied_gate_def dest: find_Some_mem split: option.splits)
  with assms(3,4) have "gate_satisfied st n" by (auto simp: find_None_iff)
  then show ?thesis by (auto simp: gate_satisfied_def split: option.splits)
qed

lemma finish_cancelled: "cancelled (poll cfg (sst s)) \<Longrightarrow> finish cfg s =
    Done (failure ''pipeline cancelled'') (emit PIPELINE_FAILED [] ''Pipeline cancelled'' (poll cfg (sst s)))"
  by (simp add: finish_def Let_def)

lemma finished_logged:
  assumes "unsatisfied_gate g st = []" and "node_id ex \<in> set (completed st)"
    and "map_of (outcomes st) (node_id ex) = Some SUCCESS"
    and "has_writer cfg \<Longrightarrow> \<exists>cp. Saved cp \<in> set (trace st) \<and> current_node cp = node_id ex \<and> completed_nodes cp = completed st"
  shows "finished cfg g ex (emit PIPELINE_COMPLETED [] ''Pipeline completed''
           (if c_logs_root cfg \<noteq> [] then log_effect Manifest_Written st else st))"
  using assms gates_satisfied [OF assms(1)] by (auto simp: finished_def emit_def)

lemma safe_finish [ctl_intros]:
  assumes rg: "run_graph cfg g0 ex0 (sgraph s) (sexit s)"
    and cur: "scur s = Some n" and n: "node_id n = node_id (sexit s) \<or> cancelled (sst s)"
  shows "safe cfg g0 ex0 (finish cfg s)"
proof (cases "cancelled (poll cfg (sst s))")
  case True
  then show ?thesis by (simp add: finish_cancelled)
next
  case False
  then have ex: "node_id n = node_id (sexit s)" using n poll_keeps(4) by blast
  define st where "st = run_exit cfg (sgraph s) n (poll cfg (sst s))"
  have fin: "finished cfg (sgraph s) (sexit s) (emit PIPELINE_COMPLETED [] ''Pipeline completed''
       (if c_logs_root cfg \<noteq> [] then log_effect Manifest_Written st else st))"
    if "unsatisfied_gate (sgraph s) st = []"
    using that run_exit_done [where n = n and cfg = cfg and g = "sgraph s" and st = "poll cfg (sst s)"]
    unfolding st_def ex by (intro finished_logged)
  have eq: "finish cfg s = (let gate = unsatisfied_gate (sgraph s) st in
      if gate \<noteq> [] then
        (case first_target (sgraph s) (gate_candidates gate (sgraph s)) of
           Some m \<Rightarrow> goto (sgraph s) (Some m) (sexit s) st
         | None \<Rightarrow> Done (failure (''Goal gate unsatisfied: '' @ gate))
             (emit PIPELINE_FAILED [] (''Goal gate unsatisfied: '' @ gate) st))
      else Done (success ()) (emit PIPELINE_COMPLETED [] ''Pipeline completed''
             (if c_logs_root cfg \<noteq> [] then log_effect Manifest_Written st else st)))"
    using False unfolding finish_def Let_def cur option.case ex simp_thms if_True st_def by simp
  show ?thesis
  proof (cases "unsatisfied_gate (sgraph s) st = []")
    case True
    then have "safe cfg g0 ex0 (finish cfg s) = result_ok cfg g0 ex0 (Inr ()) (emit PIPELINE_COMPLETED [] ''Pipeline completed''
             (if c_logs_root cfg \<noteq> [] then log_effect Manifest_Written st else st))"
      by (simp add: eq)
    with fin [OF True] rg show ?thesis unfolding result_ok_def by blast
  next
    case False
    with rg show ?thesis
      by (simp add: eq Let_def safe_goto first_target_node split: option.split)
  qed
qed

lemma safe_step:
  assumes "session_at cfg g0 ex0 s"
  shows "safe cfg g0 ex0 (engine_step cfg s)"
proof -
  obtain n where n: "scur s = Some n" "find_node (sgraph s) (node_id n) = Some n"
    and rg: "run_graph cfg g0 ex0 (sgraph s) (sexit s)"
    using assms by (auto simp: session_at_def session_ok_def)
  have fin: "safe cfg g0 ex0 (finish cfg (s\<lparr>sst := st\<rparr>))" if "cancelled st" for st
    by (rule safe_finish [where n = n]) (use rg n that in simp_all)
  have ends: "node_id n = node_id (sexit s) \<Longrightarrow> safe cfg g0 ex0 (finish cfg s)"
    by (rule safe_finish [OF rg n(1)]) simp
  show ?thesis
    unfolding engine_step_def
    by (simp add: n Let_def fin ends safe_stage [OF rg n(2)] split: option.split prod.split)
qed

interpretation safe_run: engine_invariant cfg "session_at cfg g0 ex0" "result_ok cfg g0 ex0" for cfg g0 ex0
  by unfold_locales (rule safe_step)

text \<open>C1: no pointer of the engine is ever null and success means what it says. Started on a graph whose edges
  end at its nodes, every session the engine reaches has a current node and an exit node in the graph; and
  if \<open>execute_loop\<close> reports success, the exit node was executed and is recorded as completed and
  successful, a checkpoint with it was saved, every goal gate has the outcome \<open>SUCCESS\<close> or
  \<open>PARTIAL_SUCCESS\<close>, and \<open>PIPELINE_COMPLETED\<close> is the last event. Without troubleshooting the graph is
  the one the run was started with.\<close>

theorem run_success_means:
  assumes "session_ok s"
  shows "(engine_reaches cfg s s' \<longrightarrow> session_ok s') \<and>
    (execute_loop cfg k s = Some (Inr (), st) \<longrightarrow>
       (\<exists>g ex. (\<not> troubleshoot_on cfg \<longrightarrow> g = sgraph s \<and> ex = sexit s) \<and> ntype ex = EXIT \<and> finished cfg g ex st))"
proof -
  have s: "session_at cfg (sgraph s) (sexit s) s"
    using assms by (auto simp: session_at_def session_ok_def run_graph_def in_graph_def)
  have "result_ok cfg (sgraph s) (sexit s) (Inr ()) st" if "execute_loop cfg k s = Some (Inr (), st)"
    using safe_run.returns [OF that s] .
  moreover have "session_ok s'" if "engine_reaches cfg s s'"
    using safe_run.reachable [OF that s] by (simp add: session_at_def)
  ultimately show ?thesis by (auto simp: result_ok_def run_graph_def in_graph_def)
qed

section \<open>A run\<close>

text \<open>A pipeline with one tool stage, and a configuration whose handlers all succeed.\<close>

definition sample_graph :: graph where
  "sample_graph = \<lparr>gname = ''g'',
     gnodes = [\<lparr>node_id = ''a'', ntype = START, nattrs = []\<rparr>,
       \<lparr>node_id = ''b'', ntype = TOOL, nattrs = [(''goal_gate'', ''true'')]\<rparr>,
       \<lparr>node_id = ''z'', ntype = EXIT, nattrs = []\<rparr>],
     gedges = [\<lparr>efrom = ''a'', eto = ''b'', eattrs = []\<rparr>, \<lparr>efrom = ''b'', eto = ''z'', eattrs = []\<rparr>],
     gattrs = []\<rparr>"

definition sample_config :: "unit config" where
  "sample_config = \<lparr>handlers = (\<lambda>_. Some (\<lambda>n g st. (Inr (new_outcome SUCCESS), st))),
     c_graph_file = [], c_stylesheet_file = [], c_logs_root = ''r'', c_dot_content_hash = [], has_writer = True,
     auto_status = True, strict_graph_hash = False, allow_unresolved_vars = False, troubleshoot_on = False,
     size_limit = 0, troubleshoot = (\<lambda>i g st. (Ats_Skipped, st)), poll_cancel = (\<lambda>w. (False, w)),
     pause_wait = (\<lambda>w. (None, w)), now = (\<lambda>w. ''t''), source_text = (\<lambda>w. Inl [])\<rparr>"

definition sample_state :: "unit est" where
  "sample_state = \<lparr>ctx = [], completed = [], node_hashes = [], outcomes = [], fail_sigs = [], retries = [],
     cycle_limit = 3, cur_graph_hash = [], start_time = ''t'', cancelled = False, trace = [], world = ()\<rparr>"

definition sample_session :: "unit session" where
  "sample_session = \<lparr>sgraph = sample_graph, scur = start_node sample_graph,
     sexit = \<lparr>node_id = ''z'', ntype = EXIT, nattrs = []\<rparr>, sst = sample_state\<rparr>"

lemma sample_session_ok: "session_ok sample_session"
  by (simp add: session_ok_def sample_session_def sample_graph_def edges_closed_def find_node_def start_node_def)

lemma engine_step_stage:
  assumes "scur s = Some n" and "node_id n \<noteq> node_id (sexit s)"
    and "\<not> cancelled (poll cfg (sst s))" and "pause_wait cfg (world (poll cfg (sst s))) = (None, w)"
  shows "engine_step cfg s = run_stage cfg (sgraph s) n (sexit s) ((poll cfg (sst s))\<lparr>world := w\<rparr>)"
  using assms by (simp add: engine_step_def Let_def)

lemma complete_stage_keeps:
  "cancelled (complete_stage cfg n out st) = cancelled st"
  "status out \<in> {SUCCESS, PARTIAL_SUCCESS, SKIP} \<Longrightarrow> completed (complete_stage cfg n out st) =
     (if node_id n \<in> set (completed st) then completed st else completed st @ [node_id n])"
  "outcomes (complete_stage cfg n out st) = omap_set (node_id n) (status out) (outcomes st)"
  by (auto simp: complete_stage_def Let_def write_stage_directory_def set_ctx_def apply_ctx_updates_def
      emit_def record_node_completion_def)

lemma select_single: "edge_condition e = [] \<Longrightarrow> select_edge [e] out c = Inr e"
  by (simp add: select_edge_def filter_by_condition_def)

lemma sample_poll: "poll sample_config st = st" "pause_wait sample_config w = (None, w)"
  by (simp_all add: poll_def sample_config_def)

lemma unit_world: "(st :: unit est)\<lparr>world := w\<rparr> = st"
  by (cases st) simp

lemma sample_stage:
  assumes "\<And>c. select_next_edge n (new_outcome SUCCESS) c g = Inr e" and "attr_get (eattrs e) ''loop_restart'' \<noteq> ''true''"
    and "find_node g (eto e) = Some m" and "ntype n \<noteq> PARALLEL"
  shows "\<exists>st'. run_stage sample_config g n ex st = goto g (Some m) ex st' \<and> cancelled st' = cancelled st \<and>
     completed st' = (if node_id n \<in> set (completed st) then completed st else completed st @ [node_id n]) \<and>
     outcomes st' = omap_set (node_id n) SUCCESS (outcomes st)"
proof -
  define st1 where "st1 = apply_common_node_context sample_config n g (emit STAGE_STARTED (node_id n) (''Stage started: '' @ node_id n) st)"
  define st2 where "st2 = complete_stage sample_config n (new_outcome SUCCESS) st1"
  have h: "handlers sample_config t = Some (\<lambda>n g st. (Inr (new_outcome SUCCESS), st))" for t
    by (simp add: sample_config_def)
  have "run_stage sample_config g n ex st = follow_edge sample_config g n ex (new_outcome SUCCESS) st2"
    unfolding run_stage_def Let_def h by (simp add: on_success_def Let_def assms(4) st1_def st2_def new_outcome_def)
  also have "\<dots> = goto g (Some m) ex st2" using assms(1-3) by (simp add: follow_edge_def)
  finally show ?thesis
    by (auto simp: st1_def st2_def complete_stage_keeps new_outcome_def apply_common_node_context_def Let_def set_ctx_def emit_def)
qed

lemma sample_select:
  "select_next_edge \<lparr>node_id = ''a'', ntype = START, nattrs = []\<rparr> out c sample_graph
     = Inr \<lparr>efrom = ''a'', eto = ''b'', eattrs = []\<rparr>"
  "select_next_edge \<lparr>node_id = ''b'', ntype = TOOL, nattrs = as\<rparr> out c sample_graph
     = Inr \<lparr>efrom = ''b'', eto = ''z'', eattrs = []\<rparr>"
  by (simp_all add: select_next_edge_def outgoing_edges_def sample_graph_def select_single edge_condition_def attr_get_or_def)

lemma sample_nodes:
  "find_node sample_graph ''b'' = Some \<lparr>node_id = ''b'', ntype = TOOL, nattrs = [(''goal_gate'', ''true'')]\<rparr>"
  "find_node sample_graph ''z'' = Some \<lparr>node_id = ''z'', ntype = EXIT, nattrs = []\<rparr>"
  "exit_node sample_graph = Some \<lparr>node_id = ''z'', ntype = EXIT, nattrs = []\<rparr>"
  by (simp_all add: find_node_def exit_node_def sample_graph_def)

lemma sample_run:
  "\<exists>st. execute_loop sample_config 3 sample_session = Some (Inr (), st) \<and> completed st = [''a'', ''b'', ''z'']"
proof -
  let ?a = "\<lparr>node_id = ''a'', ntype = START, nattrs = []\<rparr>"
  let ?b = "\<lparr>node_id = ''b'', ntype = TOOL, nattrs = [(''goal_gate'', ''true'')]\<rparr>"
  let ?z = "\<lparr>node_id = ''z'', ntype = EXIT, nattrs = []\<rparr>"
  note sel = sample_select and nodes = sample_nodes
  let ?s = "\<lambda>n st. \<lparr>sgraph = sample_graph, scur = Some n, sexit = ?z, sst = st\<rparr> :: unit session"
  have start: "sample_session = ?s ?a sample_state"
    by (simp add: sample_session_def start_node_def sample_graph_def)
  have step: "engine_step sample_config (?s n st) = run_stage sample_config sample_graph n ?z st"
    if "node_id n \<noteq> ''z''" "\<not> cancelled st" for n st
    using that by (subst engine_step_stage [where n = n]) (simp_all add: sample_poll unit_world)
  obtain st1 where st1: "engine_step sample_config (?s ?a sample_state) = Goto (?s ?b st1)" "\<not> cancelled st1"
    "completed st1 = [''a'']"
    using sample_stage [of ?a sample_graph "\<lparr>efrom = ''a'', eto = ''b'', eattrs = []\<rparr>" ?b ?z sample_state]
    by (auto simp: step sel nodes goto_def attr_get_or_def sample_state_def)
  obtain st2 where st2: "engine_step sample_config (?s ?b st1) = Goto (?s ?z st2)" "\<not> cancelled st2"
    "completed st2 = [''a'', ''b'']" "outcomes st2 = omap_set ''b'' SUCCESS (outcomes st1)"
    using sample_stage [of ?b sample_graph "\<lparr>efrom = ''b'', eto = ''z'', eattrs = []\<rparr>" ?z ?z st1] st1(2,3)
    by (auto simp: step sel nodes goto_def attr_get_or_def)
  let ?last = "run_exit sample_config sample_graph ?z st2"
  have last: "completed ?last = [''a'', ''b'', ''z'']" "map_of (outcomes ?last) ''b'' = Some SUCCESS"
    using st2(3,4) by (auto simp: run_exit_def Let_def sample_config_def emit_def record_node_completion_def
        apply_ctx_updates_def new_outcome_def)
  have gate: "unsatisfied_gate sample_graph ?last = []"
    by (simp add: unsatisfied_gate_def sample_graph_def goal_gate_def attr_get_bool_def gate_satisfied_def last
        last [unfolded sample_graph_def])
  have "\<exists>st. engine_step sample_config (?s ?z st2) = Done (Inr ()) st \<and> completed st = [''a'', ''b'', ''z'']"
    using st2(2) by (simp add: engine_step_def finish_def Let_def sample_poll gate last emit_def)
  then show ?thesis by (auto simp: start numeral_3_eq_3 st1(1) st2(1))
qed

theorem run_success_means_witness:
  "session_ok sample_session \<and> (\<exists>st g ex. execute_loop sample_config 3 sample_session = Some (Inr (), st) \<and>
     g = sample_graph \<and> ntype ex = EXIT \<and> finished sample_config g ex st)"
proof -
  obtain st where "execute_loop sample_config 3 sample_session = Some (Inr (), st)" using sample_run by blast
  moreover have "\<not> troubleshoot_on sample_config" "sgraph sample_session = sample_graph"
    by (simp_all add: sample_config_def sample_session_def)
  ultimately show ?thesis
    using run_success_means [OF sample_session_ok, where cfg = sample_config and k = 3 and st = st]
      sample_session_ok by blast
qed

end
