(* ===== verification/Engine_Books.thy ===== *)
theory Engine_Books
  imports Engine_Loop
begin

text \<open>
  The bookkeeping of \<open>PipelineEngine\<close> is kept by every step, whatever the handlers and the troubleshooter
  return, as long as they keep it themselves: a second interpretation of \<open>engine_invariant\<close>.
\<close>

section \<open>Components that keep the books\<close>

definition keeps_books :: "'w config \<Rightarrow> bool" where
  "keeps_books cfg =
     ((\<forall>t h n g st. handlers cfg t = Some h \<longrightarrow> est_ok st \<longrightarrow> est_ok (snd (h n g st))) \<and>
      (\<forall>i g st. est_ok st \<longrightarrow> est_ok (snd (troubleshoot cfg i g st))))"

definition kept :: "'w config \<Rightarrow> 'w session \<Rightarrow> bool" where
  "kept cfg s = (keeps_books cfg \<and> est_ok (sst s))"

text \<open>A run that ends with a detected cycle has counted one failure up to the limit; the rest is in order.\<close>

definition closed_books :: "unit result \<Rightarrow> 'w est \<Rightarrow> bool" where
  "closed_books r st = est_ok (st\<lparr>fail_sigs := []\<rparr>)"

abbreviation booked :: "'w config \<Rightarrow> 'w ctl \<Rightarrow> bool" where
  "booked cfg \<equiv> ctl_all (kept cfg) closed_books"

lemma closed_books_est [intro]: "est_ok st \<Longrightarrow> closed_books r st"
  by (simp add: est_ok_def closed_books_def)

lemma booked_goto: "booked cfg (goto g c ex st) \<longleftrightarrow> keeps_books cfg \<and> est_ok st"
  by (simp add: goto_def kept_def)

lemma est_ok_fields [est_intros]:
  "est_ok st \<Longrightarrow> est_ok (st\<lparr>world := w\<rparr>)" "est_ok st \<Longrightarrow> est_ok (st\<lparr>cancelled := b\<rparr>)"
  "est_ok st \<Longrightarrow> est_ok (st\<lparr>cur_graph_hash := h\<rparr>)"
  by (simp_all add: est_ok_def)

lemma omap_ok_restart: "omap_ok (restart_context lim c)"
proof -
  have "omap_ok m \<Longrightarrow> omap_ok (fold (\<lambda>kv m. if P kv then ctx_set lim (fst kv) (snd kv) m else m) c m)"
    for P and m :: ctxt
    by (induction c arbitrary: m) auto
  then show ?thesis by (simp add: restart_context_def)
qed

lemma est_ok_restart [est_intros]:
  "est_ok st \<Longrightarrow> est_ok (st\<lparr>ctx := restart_context lim c, completed := [], outcomes := []\<rparr>)"
  by (simp add: est_ok_def omap_ok_restart)

lemma est_ok_complete [est_intros]: "est_ok st \<Longrightarrow> est_ok (complete_stage cfg n out st)"
  by (simp add: complete_stage_def Let_def est_intros)

lemma booked_follow [ctl_intros]: "keeps_books cfg \<Longrightarrow> est_ok st \<Longrightarrow> booked cfg (follow_edge cfg g n ex out st)"
  by (auto simp: follow_edge_def Let_def booked_goto intro!: est_intros closed_books_est
      split: sum.splits option.splits)

lemma booked_success [ctl_intros]: "keeps_books cfg \<Longrightarrow> est_ok st \<Longrightarrow> booked cfg (on_success cfg g n ex out st)"
  by (simp add: on_success_def Let_def booked_goto booked_follow est_intros split: option.split)

lemma booked_retry [ctl_intros]: "keeps_books cfg \<Longrightarrow> est_ok st \<Longrightarrow> booked cfg (on_retry cfg g n ex out st)"
  by (auto simp: on_retry_def Let_def booked_goto intro!: ctl_intros est_ok_log est_ok_retry closed_books_est)

lemma booked_promoted [ctl_intros]: "keeps_books cfg \<Longrightarrow> est_ok st \<Longrightarrow> booked cfg (on_promoted cfg g n ex a st)"
  by (auto simp: on_promoted_def Let_def booked_goto intro!: est_intros closed_books_est split: sum.splits)

lemma booked_resumed [ctl_intros]: "keeps_books cfg \<Longrightarrow> est_ok st \<Longrightarrow> booked cfg (on_resumed cfg g n ex st)"
  by (auto simp: on_resumed_def Let_def booked_goto intro!: est_intros split: sum.splits option.splits)

lemma booked_recover [ctl_intros]: "keeps_books cfg \<Longrightarrow> est_ok st \<Longrightarrow> booked cfg (recover cfg g n ex out msg st)"
  unfolding recover_def Let_def
  by (simp add: booked_goto est_ok_save closed_books_est split: sum.split option.split)

section \<open>Counting failures\<close>

lemma closed_books_save: "est_ok st \<Longrightarrow> closed_books r (emit ty j msg (save_checkpoint cfg i (st\<lparr>fail_sigs := f\<rparr>)))"
proof -
  assume st: "est_ok st"
  have "(emit ty j msg (save_checkpoint cfg i (st\<lparr>fail_sigs := f\<rparr>)))\<lparr>fail_sigs := []\<rparr>
      = emit ty j msg (save_checkpoint cfg i (st\<lparr>fail_sigs := []\<rparr>))"
    by (simp add: save_checkpoint_def make_checkpoint_def emit_def log_effect_def)
  moreover have "est_ok (st\<lparr>fail_sigs := []\<rparr>)" using st by (simp add: est_ok_def)
  ultimately show ?thesis by (simp add: closed_books_def est_intros)
qed

lemma est_ok_count:
  assumes "est_ok st" and "failure_count sig (count_failure sig st) < cycle_limit st"
  shows "est_ok (count_failure sig st)"
proof -
  have "0 < (case map_of (fail_sigs st) sig of Some k \<Rightarrow> k | None \<Rightarrow> 0) + 1"
    using assms(1) by (force simp: est_ok_def split: option.split)
  with assms show ?thesis by (auto simp: est_ok_def count_failure_def failure_count_def)
qed

lemma count_failure_eq: "\<exists>f. count_failure sig st = st\<lparr>fail_sigs := f\<rparr>"
  by (auto simp: count_failure_def)

lemma booked_failure [ctl_intros]:
  assumes k: "keeps_books cfg" and st: "est_ok st"
  shows "booked cfg (on_failure cfg g n ex out st)"
proof -
  define st1 where "st1 = emit STAGE_FAILED (node_id n) (''Stage failed: '' @ node_id n @ '': '' @ out_text out)
     (set_ctx cfg ''needle.last_outcome.status'' (status_to_string (status out))
       (apply_ctx_updates cfg (context_updates out) (write_stage_directory cfg n out st)))"
  have st1: "est_ok st1" using st by (simp add: st1_def est_intros)
  define st2 where "st2 = count_failure (failure_signature n out) st1"
  have limit: "cycle_limit st2 = cycle_limit st1" by (simp add: st2_def count_failure_def)
  show ?thesis
  proof (cases "cycle_limit st2 \<le> failure_count (failure_signature n out) st2")
    case True
    obtain f where f: "st2 = st1\<lparr>fail_sigs := f\<rparr>" unfolding st2_def using count_failure_eq by blast
    have "closed_books r (emit ty j msg (save_checkpoint cfg i st2))" for r ty j msg i
      unfolding f using closed_books_save [OF st1] .
    then show ?thesis using True
      unfolding on_failure_def Let_def st1_def [symmetric] st2_def [symmetric] by simp
  next
    case False
    then have st2: "est_ok st2"
      using est_ok_count [OF st1] limit unfolding st2_def by (simp add: count_failure_def)
    obtain action st3 where ats: "troubleshoot cfg (node_id n) g st2 = (action, st3)" by (rule prod.exhaust)
    then have st3: "est_ok st3" using k st2 unfolding keeps_books_def by (metis snd_conv)
    show ?thesis
      using False st2 st3 k
      unfolding on_failure_def Let_def st1_def [symmetric] st2_def [symmetric]
      by (simp add: ats ctl_intros est_intros closed_books_est split: ats_action.split)
  qed
qed

lemma booked_stage [ctl_intros]:
  assumes k: "keeps_books cfg" and st: "est_ok st"
  shows "booked cfg (run_stage cfg g n ex st)"
proof -
  define st1 where "st1 = emit STAGE_STARTED (node_id n) (''Stage started: '' @ node_id n) st"
  have st1: "est_ok st1" using st by (simp add: st1_def)
  show ?thesis
  proof (cases "handlers cfg (handler_type n)")
    case None
    with st1 show ?thesis
      unfolding run_stage_def Let_def st1_def [symmetric] by (simp add: closed_books_est del: append.simps)
  next
    case (Some h)
    obtain r st2 where h: "h n g (apply_common_node_context cfg n g st1) = (r, st2)" by (rule prod.exhaust)
    then have "est_ok st2" using k Some est_ok_common [OF st1] unfolding keeps_books_def by (metis snd_conv)
    with Some k show ?thesis
      unfolding run_stage_def Let_def st1_def [symmetric]
      by (simp add: h ctl_intros closed_books_est split: sum.split)
  qed
qed

lemma est_ok_exit:
  assumes k: "keeps_books cfg" and st: "est_ok st"
  shows "est_ok (run_exit cfg g n st)"
proof -
  define st1 where "st1 = emit STAGE_STARTED (node_id n) (''Stage started: '' @ node_id n) st"
  have st1: "est_ok st1" using st by (simp add: st1_def)
  have "est_ok (case handlers cfg (handler_type n) of None \<Rightarrow> st1
     | Some handle \<Rightarrow> (case handle n g st1 of (Inl e, st) \<Rightarrow> st
         | (Inr out, st) \<Rightarrow> apply_ctx_updates cfg (context_updates out) st))"
  proof (cases "handlers cfg (handler_type n)")
    case (Some h)
    obtain r st2 where h: "h n g st1 = (r, st2)" by (rule prod.exhaust)
    then have "est_ok st2" using k Some st1 unfolding keeps_books_def by (metis snd_conv)
    with Some h show ?thesis by (cases r) (simp_all add: est_ok_updates)
  qed (simp add: st1)
  then show ?thesis unfolding run_exit_def Let_def st1_def [symmetric] by (simp add: est_intros)
qed

lemma booked_finish [ctl_intros]:
  assumes k: "keeps_books cfg" and st: "est_ok (sst s)"
  shows "booked cfg (finish cfg s)"
proof -
  define st1 where "st1 = poll cfg (sst s)"
  have st1: "est_ok st1" using st by (simp add: st1_def est_ok_poll)
  define st2 where "st2 = (case scur s of
     Some n \<Rightarrow> if node_id n = node_id (sexit s) then run_exit cfg (sgraph s) n st1 else st1 | None \<Rightarrow> st1)"
  have st2: "est_ok st2" using st1 est_ok_exit [OF k st1] by (simp add: st2_def split: option.split)
  show ?thesis
    unfolding finish_def Let_def st1_def [symmetric] st2_def [symmetric]
    using st1 st2 k est_ok_log [OF st2, of Manifest_Written]
    by (simp add: booked_goto closed_books_est split: option.split)
qed

lemma booked_step: "kept cfg s \<Longrightarrow> booked cfg (engine_step cfg s)"
  by (simp add: kept_def engine_step_def Let_def booked_finish booked_stage est_intros
      split: option.split prod.split)

interpretation books: engine_invariant cfg "kept cfg" closed_books for cfg
  by unfold_locales (rule booked_step)

section \<open>Properties\<close>

text \<open>C3: the engine's bookkeeping. If the handlers and the troubleshooter keep the books, then in every
  session the engine reaches no node is listed as completed twice, every completed node has an outcome and a
  recorded hash, and no failure has been seen \<open>cycle_limit\<close> times (the failure that reaches the limit
  ends the run); and every checkpoint the engine saved, also one saved in the step that ends the run, lists
  completed nodes once, has their hashes, and is read back from its JSON form unchanged.\<close>

theorem engine_bookkeeping:
  assumes "keeps_books cfg" and "est_ok (sst s)"
  shows "(engine_reaches cfg s s' \<longrightarrow> distinct (completed (sst s')) \<and>
      (\<forall>i \<in> set (completed (sst s')). map_of (outcomes (sst s')) i \<noteq> None \<and> map_of (node_hashes (sst s')) i \<noteq> None) \<and>
      (\<forall>sig. failure_count sig (sst s') < max 1 (cycle_limit (sst s')))) \<and>
    (execute_loop cfg k s = Some (r, st) \<longrightarrow> (\<forall>cp. Saved cp \<in> set (trace st) \<longrightarrow>
      distinct (completed_nodes cp) \<and> (\<forall>i \<in> set (completed_nodes cp). map_of (completed_node_hashes cp) i \<noteq> None) \<and>
      checkpoint_from_json what (checkpoint_to_json cp) = Inr cp))"
proof -
  have s: "kept cfg s" using assms by (simp add: kept_def)
  have "kept cfg s'" if "engine_reaches cfg s s'" using books.reachable [OF that s] .
  moreover have "closed_books r st" if "execute_loop cfg k s = Some (r, st)" using books.returns [OF that s] .
  ultimately show ?thesis
    by (auto simp: kept_def closed_books_def est_ok_def failure_count_def saved_ok_def checkpoint_reads_back
        less_max_iff_disj split: option.split)
qed

lemma sample_keeps_books: "keeps_books sample_config" "est_ok (sst sample_session)"
  by (simp_all add: keeps_books_def sample_config_def est_ok_def sample_session_def sample_state_def counters_ok_def)

theorem engine_bookkeeping_witness:
  "\<exists>st. execute_loop sample_config 3 sample_session = Some (Inr (), st) \<and>
     (\<forall>cp \<in> {cp. Saved cp \<in> set (trace st)}. distinct (completed_nodes cp))"
  using sample_run engine_bookkeeping [OF sample_keeps_books, where k = 3 and r = "Inr ()"] by blast

end
