(* ===== verification/Interviewer.thy ===== *)
theory Interviewer
  imports Checkpoint
begin

text \<open>
  Who answers the questions of human gates: \<open>include/needle/interviewer/interviewer.h\<close> and the
  implementations under \<open>src/interviewer/\<close>. What they print is left out. An answer is an index into the
  choices; the caller uses it without a check, so the law of the interface is that it is in range.
\<close>

section \<open>Questions and answers\<close>

record question =
  q_prompt :: string
  q_choices :: "string list"

record answer =
  selected_index :: int
  raw_input :: string

type_synonym 'w asker = "question \<Rightarrow> 'w \<Rightarrow> answer result \<times> 'w"

definition in_choices :: "question \<Rightarrow> answer \<Rightarrow> bool" where
  "in_choices q a = (0 \<le> selected_index a \<and> selected_index a < int (length (q_choices q)))"

section \<open>Implementations\<close>

definition auto_approve_ask :: "'w asker" where
  "auto_approve_ask q w =
     (case q_choices q of
        [] \<Rightarrow> (failure ''no choices available'', w)
      | c # _ \<Rightarrow> (success \<lparr>selected_index = 0, raw_input = c\<rparr>, w))"

text \<open>
  \<open>console_answer\<close> is the decision on a line of input. \<open>atoi\<close> is only looked at when the line is all digits;
  a number that does not fit \<open>int\<close> is taken as out of range, as the common C libraries make it.
\<close>

definition blank :: "char \<Rightarrow> bool" where
  "blank c = (c = CHR '' '' \<or> c = CHR 0x09 \<or> c = CHR 0x0D \<or> c = CHR 0x0A)"

definition console_answer :: "question \<Rightarrow> string \<Rightarrow> answer result" where
  "console_answer q line =
     (let count = int (length (q_choices q));
          trimmed = rtrim blank (dropWhile blank line);
          trimmed = (if trimmed = [] \<and> count = 1 then ''1'' else trimmed);
          choice = digits_value trimmed;
          is_numeric = (trimmed \<noteq> [] \<and> (\<forall>c \<in> set trimmed. is_digit c))
      in if is_numeric \<and> choice \<ge> 1 \<and> choice \<le> count then
           success \<lparr>selected_index = choice - 1, raw_input = trimmed\<rparr>
         else if trimmed = [] then failure ''empty input (enter a number or type feedback)''
         else success \<lparr>selected_index = count - 1, raw_input = trimmed\<rparr>)"

definition console_ask :: "('w \<Rightarrow> string option \<times> 'w) \<Rightarrow> 'w asker" where
  "console_ask read_line q w =
     (case read_line w of
        (None, w) \<Rightarrow> (failure ''failed to read from stdin'', w)
      | (Some line, w) \<Rightarrow> (console_answer q line, w))"

text \<open>\<open>QueueInterviewer\<close>: the answers and the index of the next one.\<close>

definition queue_ask :: "(answer list \<times> nat) asker" where
  "queue_ask q s =
     (let (answers, index) = s in
      if index \<ge> length answers then (failure ''no more queued answers'', s)
      else (success (answers ! index), (answers, index + 1)))"

definition recording_ask :: "'w asker \<Rightarrow> ('w \<times> (question \<times> answer) list) asker" where
  "recording_ask ask q s =
     (let (w, recording) = s in
      case ask q w of
        (Inl e, w) \<Rightarrow> (Inl e, (w, recording))
      | (Inr a, w) \<Rightarrow> (Inr a, (w, recording @ [(q, a)])))"

text \<open>
  \<open>HttpInterviewer\<close>: \<open>text\<close> is the body posted to the server and \<open>parsed\<close> what the JSON library makes of it
  (\<open>None\<close> if it is not JSON). Any exception ends in the catch block.
\<close>

definition http_answer :: "json option \<Rightarrow> string \<Rightarrow> answer" where
  "http_answer parsed body =
     (let caught = \<lparr>selected_index = 0, raw_input = body\<rparr> in
      case parsed of
        None \<Rightarrow> caught
      | Some j \<Rightarrow>
          (case bind_result (case json_find j ''selected_index'' of Some v \<Rightarrow> json_int v | None \<Rightarrow> Inr 0)
             (\<lambda>i. bind_result (case json_find j ''raw_input'' of Some v \<Rightarrow> json_string v | None \<Rightarrow> Inr [])
               (\<lambda>r. Inr \<lparr>selected_index = i, raw_input = r\<rparr>)) of
             Inl _ \<Rightarrow> caught
           | Inr a \<Rightarrow> a))"

definition http_ask :: "('w \<Rightarrow> (json option \<times> string) \<times> 'w) \<Rightarrow> 'w asker" where
  "http_ask posted q w = (let ((parsed, body), w) = posted w in (success (http_answer parsed body), w))"

section \<open>The law of the interface\<close>

locale interviewer =
  fixes ask :: "'w asker"
  assumes in_range: "q_choices q \<noteq> [] \<Longrightarrow> ask q w = (Inr a, w') \<Longrightarrow> in_choices q a"
begin

lemma answers_a_choice:
  assumes "q_choices q \<noteq> []" and "ask q w = (Inr a, w')"
  shows "nat (selected_index a) < length (q_choices q)"
  using in_range [OF assms] by (simp add: in_choices_def nat_less_iff)

end

interpretation auto_approve: interviewer auto_approve_ask
  by standard (auto simp: auto_approve_ask_def in_choices_def split: list.splits)

lemma console_answer_in_range: "q_choices q \<noteq> [] \<Longrightarrow> console_answer q line = Inr a \<Longrightarrow> in_choices q a"
  by (auto simp: console_answer_def in_choices_def Let_def Suc_le_eq split: if_splits)

interpretation console: interviewer "console_ask read_line" for read_line
  by standard (auto simp: console_ask_def intro: console_answer_in_range split: prod.splits option.splits)

text \<open>Recording keeps the law, so it can be put around any interviewer that has it.\<close>

context interviewer begin

lemma recorded: "interviewer (recording_ask ask)"
  by unfold_locales (auto simp: recording_ask_def intro: in_range split: prod.splits sum.splits)

end

interpretation recorded_console: interviewer "recording_ask (console_ask read_line)" for read_line
  by (rule console.recorded)

text \<open>Fact: interviewers that need no check. The console and the auto-approving interviewer, recorded or not,
  never answer with an index outside the choices: a number picks its choice, any other text the last choice
  with the text as feedback, and an empty line is only accepted when there is a single choice.\<close>

theorem console_picks_a_choice:
  assumes "q_choices q \<noteq> []" and "console_answer q line = Inr a"
  shows "in_choices q a \<and> raw_input a \<noteq> [] \<and>
    (if \<forall>c \<in> set (raw_input a). is_digit c \<and> 1 \<le> digits_value (raw_input a) \<and>
          digits_value (raw_input a) \<le> int (length (q_choices q))
     then selected_index a = digits_value (raw_input a) - 1
     else selected_index a = int (length (q_choices q)) - 1)"
  using assms console_answer_in_range [OF assms]
  by (auto simp: console_answer_def Let_def digits_value_def is_digit_def byte_def split: if_splits)

theorem console_picks_a_choice_witness:
  "console_answer \<lparr>q_prompt = ''ok'', q_choices = [''yes'', ''no'']\<rparr> ''2'' = Inr \<lparr>selected_index = 1, raw_input = ''2''\<rparr> \<and>
   in_choices \<lparr>q_prompt = ''ok'', q_choices = [''yes'', ''no'']\<rparr> \<lparr>selected_index = 1, raw_input = ''2''\<rparr>"
proof -
  have a: "console_answer \<lparr>q_prompt = ''ok'', q_choices = [''yes'', ''no'']\<rparr> ''2''
      = Inr \<lparr>selected_index = 1, raw_input = ''2''\<rparr>" by code_simp
  from console_picks_a_choice [OF _ a] a show ?thesis by simp
qed

text \<open>The HTTP interviewer checks nothing: the index of the JSON body that is posted is the answer.\<close>

lemma http_answer_index:
  "in_int i \<Longrightarrow> http_answer (Some (JObj [(''selected_index'', JInt i)])) body = \<lparr>selected_index = i, raw_input = []\<rparr>"
  by (simp add: http_answer_def json_find_def wrap32_id)

end
