(* ===== verification/Handlers.thy ===== *)
theory Handlers
  imports Engine_Loop Interviewer
begin

text \<open>
  The stage handlers that run nothing outside the engine, under \<open>src/handlers/\<close>: \<open>start\<close>, \<open>exit\<close>, \<open>conditional\<close>
  and \<open>wait_human\<close>, and the wrapper \<open>HandlerBase::execute\<close> of those that derive from it. A handler takes the
  node, the graph and the state of the engine, whose \<open>ctx\<close> is the context it is given.
\<close>

section \<open>\<open>HandlerBase\<close>\<close>

text \<open>
  \<open>do_execute\<close> may throw: its result is \<open>Inl what\<close> then, and \<open>Inr\<close> of the \<open>Result\<close> it returns otherwise. The
  artifact is written to a path that is absolute or below the project directory.
\<close>

type_synonym 'w body = "node \<Rightarrow> graph \<Rightarrow> 'w est \<Rightarrow> (string + outcome result) \<times> 'w est"

definition is_absolute_path :: "string \<Rightarrow> bool" where
  "is_absolute_path path = (path \<noteq> [] \<and> hd path = CHR ''/'')"

definition artifact_path :: "string \<Rightarrow> string \<Rightarrow> string" where
  "artifact_path project_dir artifact =
     (if is_absolute_path artifact then artifact else project_dir @ ''/'' @ artifact)"

definition handler_base :: "string \<Rightarrow> string \<Rightarrow> 'w body \<Rightarrow> 'w handler" where
  "handler_base type_name project_dir do_execute n g st =
     (let (r, st) = do_execute n g st in
      case r of
        Inl what \<Rightarrow> (failure (''exception in handler '' @ type_name @ '': '' @ what), st)
      | Inr (Inl e) \<Rightarrow> (Inl e, st)
      | Inr (Inr out) \<Rightarrow>
          let out = (if status out = FAILURE \<and> out_text out = [] then
                out\<lparr>out_text := ''stage failed (no details from handler '' @ type_name @ '')''\<rparr> else out);
              artifact = attr_get (nattrs n) ''artifact'';
              st = (if artifact \<noteq> [] \<and> status out = SUCCESS \<and> out_text out \<noteq> [] \<and> project_dir \<noteq> []
                then log_effect (Artifact_Written (artifact_path project_dir artifact) (out_text out)) st else st)
          in (success out, st))"

section \<open>\<open>start\<close> and \<open>exit\<close>\<close>

definition start_handler :: "('w \<Rightarrow> string) \<Rightarrow> 'w handler" where
  "start_handler utc_now n g st =
     (success ((new_outcome SUCCESS)\<lparr>context_updates := [(''pipeline.start_time'', utc_now (world st))]\<rparr>), st)"

definition goal_satisfied :: "ctxt \<Rightarrow> node \<Rightarrow> bool" where
  "goal_satisfied c n = (ctx_has c (''goal.'' @ node_id n) \<and> ctx_get c (''goal.'' @ node_id n) = ''satisfied'')"

definition exit_handler :: "'w handler" where
  "exit_handler n g st =
     (let unsatisfied = map node_id (filter (\<lambda>n. goal_gate n \<and> \<not> goal_satisfied (ctx st) n) (gnodes g)) in
      if unsatisfied \<noteq> [] then
        (success ((new_outcome RETRY)\<lparr>suggested_next := unsatisfied, out_text := ''goal gates unsatisfied''\<rparr>), st)
      else (success ((new_outcome SUCCESS)\<lparr>out_text := ''all goal gates satisfied''\<rparr>), st))"

section \<open>\<open>conditional\<close>\<close>

definition previous_status :: "string \<Rightarrow> stage_status" where
  "previous_status s =
     (if s = ''FAILURE'' then FAILURE else if s = ''RETRY'' then RETRY
      else if s = ''PARTIAL_SUCCESS'' then PARTIAL_SUCCESS else if s = ''SKIP'' then SKIP else SUCCESS)"

fun conditional_label :: "edge list \<Rightarrow> outcome \<Rightarrow> ctxt \<Rightarrow> string \<Rightarrow> string" where
  "conditional_label [] eval_outcome c label = label"
| "conditional_label (e # es) eval_outcome c label =
     (if edge_condition e = [] then
        conditional_label es eval_outcome c (if label = [] then edge_label e else label)
      else case parse_condition (edge_condition e) of
          Inl _ \<Rightarrow> conditional_label es eval_outcome c label
        | Inr expr \<Rightarrow>
            if evaluate expr eval_outcome c then edge_label e
            else conditional_label es eval_outcome c label)"

definition conditional_handler :: "'w handler" where
  "conditional_handler n g st =
     (let prev_status = ctx_get (ctx st) ''needle.last_outcome.status'';
          eval_outcome = new_outcome (previous_status prev_status);
          label = conditional_label (outgoing_edges g (node_id n)) eval_outcome (ctx st) []
      in (success ((new_outcome SUCCESS)\<lparr>preferred_label := label\<rparr>), st))"

section \<open>\<open>wait_human\<close>\<close>

text \<open>
  The choices are the labels of the outgoing edges, or their targets where there is no label. \<open>choices[i]\<close> is
  read without a check; the result \<open>None\<close> stands for the undefined behaviour of an index out of range.
\<close>

definition gate_choices :: "graph \<Rightarrow> node \<Rightarrow> string list" where
  "gate_choices g n =
     map (\<lambda>e. if edge_label e = [] then eto e else edge_label e) (outgoing_edges g (node_id n))"

definition gate_question :: "graph \<Rightarrow> node \<Rightarrow> question" where
  "gate_question g n =
     \<lparr>q_prompt = (if node_prompt n = [] then node_label n else node_prompt n), q_choices = gate_choices g n\<rparr>"

definition gate_outcome :: "string \<Rightarrow> string \<Rightarrow> outcome" where
  "gate_outcome choice raw =
     (let updates = omap_set ''human.gate.selected'' choice [];
          updates = (if raw \<noteq> [] then omap_set ''human.gate.feedback'' raw updates else updates)
      in (new_outcome SUCCESS)\<lparr>preferred_label := choice, out_text := ''user chose: '' @ choice,
            context_updates := updates\<rparr>)"

definition wait_human :: "'w asker \<Rightarrow> node \<Rightarrow> graph \<Rightarrow> 'w est \<Rightarrow> (outcome result \<times> 'w est) option" where
  "wait_human ask n g st =
     (if gate_choices g n = [] then
        Some (failure (''no choices available for wait_human node: '' @ node_id n), st)
      else
        let q = gate_question g n;
            st = emit HUMAN_QUESTION (node_id n) (q_prompt q) st;
            (r, w) = ask q (world st);
            st = st\<lparr>world := w\<rparr>
        in case r of
             Inl e \<Rightarrow> Some (failure (''interviewer failed: '' @ e), st)
           | Inr a \<Rightarrow>
               if \<not> in_choices q a then None
               else let choice = q_choices q ! nat (selected_index a);
                        st = emit HUMAN_ANSWER (node_id n) (''User selected: '' @ choice) st
                    in Some (success (gate_outcome choice (raw_input a)), st))"

section \<open>Choosing by label\<close>

lemma select_by_label:
  assumes "e \<in> set (filter_by_condition es out c)" and "preferred_label out = edge_label e" and "edge_label e \<noteq> []"
    and unique: "\<And>x. x \<in> set es \<Longrightarrow> edge_label x = edge_label e \<Longrightarrow> x = e"
  shows "select_edge es out c = Inr e"
proof -
  let ?E = "filter_by_condition es out c"
  have "\<exists>e' \<in> set es. condition_holds e' out c \<or> no_condition e'"
    using assms(1) by (auto simp: filter_by_condition_eq split: if_splits)
  then obtain e' where e': "select_edge es out c = Inr e'"
    using select_edge_ok_iff [of es out c] by (auto simp: is_ok_iff)
  have mem: "x \<in> set es" if "x \<in> set ?E" for x using that filter_by_condition_subset by blast
  from select_edge_cases [OF e'] consider "?E = [e']" | "match_preferred_label ?E out = Some e'"
    | "match_preferred_label ?E out = None" by auto
  then have "e' = e"
  proof cases
    case 2
    then have "e' \<in> set ?E" "edge_label e' = edge_label e" using preferred_label_Some assms(2) by force+
    then show ?thesis using unique mem by blast
  next
    case 3
    then show ?thesis using assms(1-3) preferred_label_None [of ?E out] by auto
  qed (use assms(1) in simp)
  with e' show ?thesis by simp
qed

lemma unconditional_filter: "\<forall>e \<in> set es. edge_condition e = [] \<Longrightarrow> filter_by_condition es out c = es"
  by (auto simp: filter_by_condition_eq condition_holds_def no_condition_def parse_condition_def filter_id_conv)

lemma complete_stage_ctx:
  "ctx (complete_stage cfg n out st) = ctx_set (size_limit cfg) ''needle.last_outcome.status''
     (status_to_string (status out)) (apply_updates (size_limit cfg) (context_updates out) (ctx st))"
  by (simp add: complete_stage_def Let_def save_checkpoint_def set_ctx_def apply_ctx_updates_def emit_def
      write_stage_directory_def record_node_completion_def)

section \<open>Properties of \<open>conditional\<close>\<close>

lemma conditional_label_first:
  assumes "find (\<lambda>e. condition_holds e out c) es = Some e"
    and "\<forall>x \<in> set es. no_condition x \<longrightarrow> edge_condition x = []"
  shows "conditional_label es out c label = edge_label e"
  using assms
proof (induction es arbitrary: label)
  case (Cons x es)
  show ?case
  proof (cases "condition_holds x out c")
    case True
    then obtain expr where "parse_condition (edge_condition x) = Inr expr" "expr \<noteq> []" "evaluate expr out c"
      by (auto simp: condition_holds_def split: sum.splits)
    moreover from this have "edge_condition x \<noteq> []" by (auto simp: parse_condition_def)
    ultimately show ?thesis using True Cons.prems(1) by simp
  next
    case False
    with Cons have "conditional_label es out c l = edge_label e" for l by auto
    with False Cons.prems(2) show ?thesis
      by (auto simp: condition_holds_def no_condition_def split: sum.splits)
  qed
qed simp

text \<open>Fact: a conditional's choice is followed. If the edges of a \<open>conditional\<close> have distinct labels and conditions
  on context values only (the status of the last stage excepted), the engine leaves it by the first edge whose
  condition holds.\<close>

theorem conditional_choice_followed:
  fixes n :: node and g :: graph
  defines "es \<equiv> outgoing_edges g (node_id n)"
  assumes "conditional_handler n g st = (Inr out, st')" and "ntype n \<noteq> PARALLEL"
    and context_only: "\<forall>x \<in> set es. \<forall>expr. parse_condition (edge_condition x) = Inr expr \<longrightarrow>
       list_all (\<lambda>cl. take 8 (variable cl) = ''context.'' \<and> variable cl \<noteq> ''context.needle.last_outcome.status'') expr"
    and "\<forall>x \<in> set es. no_condition x \<longrightarrow> edge_condition x = []"
    and labels: "distinct (map edge_label es)" "edge_label e \<noteq> []"
    and first: "find (\<lambda>x. condition_holds x (new_outcome SUCCESS) (ctx st)) es = Some e"
    and "attr_get (eattrs e) ''loop_restart'' \<noteq> ''true''" and "find_node g (eto e) = Some m"
  shows "on_success cfg g n ex out st' = goto g (Some m) ex (complete_stage cfg n out st')"
proof -
  have same: "condition_holds x o1 c = condition_holds x o2 c'"
    if "x \<in> set es" "\<And>k. k \<noteq> ''needle.last_outcome.status'' \<Longrightarrow> ctx_get c k = ctx_get c' k" for x o1 o2 c c'
  proof (cases "parse_condition (edge_condition x)")
    case (Inr expr)
    have "clause_actual o1 c (variable cl) = clause_actual o2 c' (variable cl)" if "cl \<in> set expr" for cl
    proof -
      have cl: "take 8 (variable cl) = ''context.''" "variable cl \<noteq> ''context.needle.last_outcome.status''"
        using context_only \<open>x \<in> set es\<close> Inr that by (auto simp: list_all_iff)
      then have "variable cl \<noteq> ''outcome''" "variable cl \<noteq> ''preferred_label''"
        "drop 8 (variable cl) \<noteq> ''needle.last_outcome.status''"
        by (auto dest: arg_cong [where f = "\<lambda>v. take 8 v"]) (metis append_Cons append_Nil append_take_drop_id)
      with cl(1) \<open>\<And>k. k \<noteq> _ \<Longrightarrow> _\<close> show ?thesis by (simp add: clause_actual_def)
    qed
    with Inr show ?thesis by (simp add: condition_holds_def evaluate_iff)
  qed (simp add: condition_holds_def)
  let ?eval = "new_outcome (previous_status (ctx_get (ctx st) ''needle.last_outcome.status''))"
  have "find (\<lambda>x. condition_holds x ?eval (ctx st)) es = find (\<lambda>x. condition_holds x (new_outcome SUCCESS) (ctx st)) es"
    by (intro find_cong refl same)
  then have "find (\<lambda>x. condition_holds x ?eval (ctx st)) es = Some e" using first by simp
  then have "conditional_label es ?eval (ctx st) [] = edge_label e"
    using assms(5) by (rule conditional_label_first)
  with assms(2) have out: "out = (new_outcome SUCCESS)\<lparr>preferred_label := edge_label e\<rparr>" "st' = st"
    by (auto simp: conditional_handler_def Let_def es_def)
  let ?st = "complete_stage cfg n out st"
  have c: "ctx_get (ctx ?st) k = ctx_get (ctx st) k" if "k \<noteq> ''needle.last_outcome.status''" for k
    using that by (simp add: complete_stage_ctx out(1) ctx_get_set)
  have e: "e \<in> set es" "condition_holds e (new_outcome SUCCESS) (ctx st)" using find_Some_mem [OF first] by simp_all
  have "condition_holds e out (ctx ?st)" using same [OF e(1), of "ctx ?st" "ctx st"] c e(2) by blast
  then have "e \<in> set (filter_by_condition es out (ctx ?st))" using e(1) by (auto simp: filter_by_condition_eq)
  then have "select_edge es out (ctx ?st) = Inr e"
    using labels e(1) by (intro select_by_label) (auto simp: out(1) distinct_map dest: inj_onD)
  moreover have "es \<noteq> []" using e(1) by auto
  ultimately have "select_next_edge n out (ctx ?st) g = Inr e" by (simp add: select_next_edge_def es_def)
  then show ?thesis
    using assms(3,9,10) by (simp add: on_success_def Let_def follow_edge_def out(2))
qed

definition branch_graph :: "string \<Rightarrow> graph" where
  "branch_graph cond = \<lparr>gname = ''g'',
     gnodes = [\<lparr>node_id = ''c'', ntype = CONDITIONAL, nattrs = []\<rparr>, \<lparr>node_id = ''x'', ntype = TOOL, nattrs = []\<rparr>,
       \<lparr>node_id = ''y'', ntype = TOOL, nattrs = []\<rparr>],
     gedges = [\<lparr>efrom = ''c'', eto = ''x'', eattrs = [(''condition'', cond), (''label'', ''fix'')]\<rparr>,
       \<lparr>efrom = ''c'', eto = ''y'', eattrs = [(''label'', ''go'')]\<rparr>], gattrs = []\<rparr>"

lemma branch_graph_edges:
  "outgoing_edges (branch_graph cond) ''c'' =
     [\<lparr>efrom = ''c'', eto = ''x'', eattrs = [(''condition'', cond), (''label'', ''fix'')]\<rparr>,
      \<lparr>efrom = ''c'', eto = ''y'', eattrs = [(''label'', ''go'')]\<rparr>]"
  "edge_condition \<lparr>efrom = i, eto = j, eattrs = [(''condition'', cond), (''label'', l)]\<rparr> = cond"
  "edge_label \<lparr>efrom = i, eto = j, eattrs = [(''condition'', cond), (''label'', l)]\<rparr> = l"
  "edge_condition \<lparr>efrom = i, eto = j, eattrs = [(''label'', l)]\<rparr> = []"
  "edge_label \<lparr>efrom = i, eto = j, eattrs = [(''label'', l)]\<rparr> = l"
  by (simp_all add: outgoing_edges_def branch_graph_def edge_condition_def edge_label_def attr_get_or_def)

theorem conditional_choice_followed_witness:
  "let n = \<lparr>node_id = ''c'', ntype = CONDITIONAL, nattrs = []\<rparr>;
       st = sample_state\<lparr>ctx := [(''k'', ''v'')]\<rparr>; g = branch_graph ''context.k=v'';
       out = (new_outcome SUCCESS)\<lparr>preferred_label := ''fix''\<rparr>
   in conditional_handler n g st = (Inr out, st) \<and>
     on_success sample_config g n n out st
       = goto g (Some \<lparr>node_id = ''x'', ntype = TOOL, nattrs = []\<rparr>) n (complete_stage sample_config n out st)"
proof -
  let ?n = "\<lparr>node_id = ''c'', ntype = CONDITIONAL, nattrs = []\<rparr>"
  let ?st = "sample_state\<lparr>ctx := [(''k'', ''v'')]\<rparr>"
  let ?g = "branch_graph ''context.k=v''"
  let ?e = "\<lparr>efrom = ''c'', eto = ''x'', eattrs = [(''condition'', ''context.k=v''), (''label'', ''fix'')]\<rparr>"
  have parse: "parse_condition ''context.k=v'' = Inr [\<lparr>variable = ''context.k'', op = ''='', cvalue = ''v''\<rparr>]"
    "parse_condition [] = Inr []" by code_simp+
  have holds: "condition_holds ?e out [(''k'', ''v'')]" for out
    by (simp add: condition_holds_def branch_graph_edges parse clause_actual_def ctx_get_def)
  have h: "conditional_handler ?n ?g ?st = (Inr ((new_outcome SUCCESS)\<lparr>preferred_label := ''fix''\<rparr>), ?st)"
    by (simp add: conditional_handler_def branch_graph_edges parse clause_actual_def ctx_get_def)
  have x: "find_node ?g (eto ?e) = Some \<lparr>node_id = ''x'', ntype = TOOL, nattrs = []\<rparr>"
    by (simp add: branch_graph_def find_node_def)
  have edges: "outgoing_edges ?g (node_id ?n) = [?e, \<lparr>efrom = ''c'', eto = ''y'', eattrs = [(''label'', ''go'')]\<rparr>]"
    by (simp add: branch_graph_edges)
  have "on_success sample_config ?g ?n ?n ((new_outcome SUCCESS)\<lparr>preferred_label := ''fix''\<rparr>) ?st
    = goto ?g (Some \<lparr>node_id = ''x'', ntype = TOOL, nattrs = []\<rparr>) ?n
        (complete_stage sample_config ?n ((new_outcome SUCCESS)\<lparr>preferred_label := ''fix''\<rparr>) ?st)"
    by (rule conditional_choice_followed [OF h _ _ _ _ _ _ _ x])
      (simp_all add: edges branch_graph_edges parse holds no_condition_def attr_get_or_def)
  with h show ?thesis by (simp only: Let_def simp_thms)
qed

text \<open>Fact: a conditional cannot branch on the previous stage. Its handler evaluates the conditions with the status
  of the stage before it, but the engine selects the edge with the conditional's own status: an edge it leaves
  a conditional by has only conditions on \<open>outcome\<close> that \<open>SUCCESS\<close> satisfies, whatever the handler decided.\<close>

theorem conditional_sees_success:
  assumes "conditional_handler n g st = (Inr out, st')" and "select_next_edge n out c g = Inr e"
    and "parse_condition (edge_condition e) = Inr expr" and "cl \<in> set expr" and "variable cl = ''outcome''"
  shows "(to_lower (cvalue cl) = ''success'') = (op cl \<noteq> ''!='')"
proof -
  have out: "status out = SUCCESS" using assms(1) by (auto simp: conditional_handler_def Let_def)
  have "e \<in> set (filter_by_condition (outgoing_edges g (node_id n)) out c)"
    using assms(2) by (auto simp: select_next_edge_def Let_def intro: select_edge_mem split: if_splits)
  moreover have "\<not> no_condition e" using assms(3,4) by (auto simp: no_condition_def)
  ultimately have "condition_holds e out c" by (auto simp: filter_by_condition_eq split: if_splits)
  then have "evaluate expr out c" using assms(3) by (simp add: condition_holds_def)
  then have "(to_lower (clause_actual out c (variable cl)) = to_lower (cvalue cl)) = (op cl \<noteq> ''!='')"
    using assms(4) by (simp only: evaluate_iff)
  moreover have "to_lower (clause_actual out c (variable cl)) = ''success''"
    unfolding assms(5) by (simp add: clause_actual_def out) code_simp
  ultimately show ?thesis by metis
qed

theorem conditional_sees_success_witness:
  "let n = \<lparr>node_id = ''c'', ntype = CONDITIONAL, nattrs = []\<rparr>;
       st = sample_state\<lparr>ctx := [(''needle.last_outcome.status'', ''FAILURE'')]\<rparr>
   in fst (conditional_handler n (branch_graph ''outcome=failure'') st)
        = Inr ((new_outcome SUCCESS)\<lparr>preferred_label := ''fix''\<rparr>) \<and>
      (\<forall>e. select_next_edge n ((new_outcome SUCCESS)\<lparr>preferred_label := ''fix''\<rparr>) (ctx st) (branch_graph ''outcome=failure'')
        = Inr e \<longrightarrow> eto e \<noteq> ''x'')"
proof -
  let ?n = "\<lparr>node_id = ''c'', ntype = CONDITIONAL, nattrs = []\<rparr>"
  let ?st = "sample_state\<lparr>ctx := [(''needle.last_outcome.status'', ''FAILURE'')]\<rparr>"
  let ?g = "branch_graph ''outcome=failure''"
  let ?cl = "\<lparr>variable = ''outcome'', op = ''='', cvalue = ''failure''\<rparr>"
  let ?out = "(new_outcome SUCCESS)\<lparr>preferred_label := ''fix''\<rparr>"
  have parse: "parse_condition ''outcome=failure'' = Inr [?cl]" by code_simp
  have lower: "to_lower ''FAILURE'' = to_lower ''failure''" "to_lower ''failure'' \<noteq> ''success''" by code_simp+
  have h: "conditional_handler ?n ?g ?st = (Inr ?out, ?st)"
    by (simp add: conditional_handler_def branch_graph_edges parse clause_actual_def ctx_get_def previous_status_def lower)
  have "eto e \<noteq> ''x''" if "select_next_edge ?n ?out (ctx ?st) ?g = Inr e" for e
  proof
    assume "eto e = ''x''"
    moreover have "e \<in> set (outgoing_edges ?g ''c'')" using select_next_edge_mem [OF that] by simp
    ultimately have "parse_condition (edge_condition e) = Inr [?cl]" by (auto simp: branch_graph_edges parse)
    from conditional_sees_success [OF h that this, of ?cl] lower(2) show False by simp
  qed
  with h show ?thesis by (simp add: Let_def)
qed

section \<open>Properties of \<open>wait_human\<close>\<close>

text \<open>With an interviewer that keeps the law, a gate is never undefined and its answer is one of the edges.\<close>

context interviewer begin

lemma gate_answers:
  assumes "wait_human ask n g st = r"
  shows "\<exists>res st'. r = Some (res, st') \<and> (\<forall>out. res = Inr out \<longrightarrow>
    (\<exists>i raw. i < length (gate_choices g n) \<and> out = gate_outcome (gate_choices g n ! i) raw \<and> ctx st' = ctx st))"
proof (cases "gate_choices g n = []")
  case False
  let ?q = "gate_question g n"
  let ?st = "emit HUMAN_QUESTION (node_id n) (q_prompt ?q) st"
  obtain a w where a: "ask ?q (world ?st) = (a, w)" by (rule prod.exhaust)
  have q: "q_choices ?q = gate_choices g n" by (simp add: gate_question_def)
  show ?thesis
  proof (cases a)
    case (Inr b)
    have "in_choices ?q b" "nat (selected_index b) < length (gate_choices g n)"
      using a Inr False in_range answers_a_choice q by force+
    then show ?thesis
      using assms False a Inr q
      by (auto simp: wait_human_def Let_def emit_def intro!: exI [of _ "nat (selected_index b)"])
  qed (use assms False a in \<open>auto simp: wait_human_def Let_def\<close>)
qed (use assms in \<open>auto simp: wait_human_def\<close>)

end


definition gate_graph :: graph where
  "gate_graph = \<lparr>gname = ''g'',
     gnodes = [\<lparr>node_id = ''h'', ntype = WAIT_HUMAN, nattrs = []\<rparr>, \<lparr>node_id = ''x'', ntype = TOOL, nattrs = []\<rparr>,
       \<lparr>node_id = ''y'', ntype = TOOL, nattrs = []\<rparr>],
     gedges = [\<lparr>efrom = ''h'', eto = ''x'', eattrs = [(''label'', ''yes'')]\<rparr>,
       \<lparr>efrom = ''h'', eto = ''y'', eattrs = [(''label'', ''no'')]\<rparr>], gattrs = []\<rparr>"

lemma gate_graph_edges: "outgoing_edges gate_graph ''h'' =
    [\<lparr>efrom = ''h'', eto = ''x'', eattrs = [(''label'', ''yes'')]\<rparr>, \<lparr>efrom = ''h'', eto = ''y'', eattrs = [(''label'', ''no'')]\<rparr>]"
  by (simp add: outgoing_edges_def gate_graph_def)


text \<open>Fact: an unlabelled choice is not followed. A gate offers an edge without label under the name of its target,
  but the engine only compares labels: if no edge has that name as its label, the edge that is taken does not
  depend on the choice being made.\<close>

theorem unlabelled_choice_ignored:
  assumes "\<forall>e \<in> set (outgoing_edges g (node_id n)). edge_label e \<noteq> choice"
    and "\<forall>e \<in> set (outgoing_edges g (node_id n)). \<forall>expr. parse_condition (edge_condition e) = Inr expr \<longrightarrow>
      list_all (\<lambda>cl. variable cl \<noteq> ''preferred_label'') expr"
  shows "select_next_edge n (gate_outcome choice raw) c g
    = select_next_edge n ((gate_outcome choice raw)\<lparr>preferred_label := []\<rparr>) c g"
proof -
  let ?es = "outgoing_edges g (node_id n)"
  let ?o1 = "gate_outcome choice raw" and ?o2 = "(gate_outcome choice raw)\<lparr>preferred_label := []\<rparr>"
  have o: "preferred_label ?o1 = choice" "suggested_next ?o1 = []" "suggested_next ?o2 = []" "preferred_label ?o2 = []"
    by (simp_all add: gate_outcome_def Let_def)
  have "condition_holds e ?o1 c = condition_holds e ?o2 c" if "e \<in> set ?es" for e
  proof (cases "parse_condition (edge_condition e)")
    case (Inr expr)
    then have "\<forall>cl \<in> set expr. clause_actual ?o1 c (variable cl) = clause_actual ?o2 c (variable cl)"
      using assms(2) that by (auto simp: clause_actual_def list_all_iff)
    with Inr show ?thesis by (simp add: condition_holds_def evaluate_iff)
  qed (simp add: condition_holds_def)
  then have E: "filter_by_condition ?es ?o1 c = filter_by_condition ?es ?o2 c"
    unfolding filter_by_condition_eq by (intro if_cong bex_cong filter_cong refl)
  have none: "match_preferred_label (filter_by_condition ?es ?o2 c) ?o1 = None"
    "match_preferred_label (filter_by_condition ?es ?o2 c) ?o2 = None"
    using assms filter_by_condition_subset [of ?es ?o2 c] by (auto simp: preferred_label_None o)
  have "select_edge ?es ?o1 c = select_edge ?es ?o2 c"
    by (simp only: select_edge_def E Let_def none match_suggested_next_def o)
  then show ?thesis unfolding select_next_edge_def Let_def by (rule arg_cong)
qed

definition half_labelled :: graph where
  "half_labelled = \<lparr>gname = ''g'', gnodes = [\<lparr>node_id = ''h'', ntype = WAIT_HUMAN, nattrs = []\<rparr>],
     gedges = [\<lparr>efrom = ''h'', eto = ''x'', eattrs = [(''label'', ''yes'')]\<rparr>, \<lparr>efrom = ''h'', eto = ''y'', eattrs = []\<rparr>],
     gattrs = []\<rparr>"

theorem unlabelled_choice_ignored_witness:
  "let n = \<lparr>node_id = ''h'', ntype = WAIT_HUMAN, nattrs = []\<rparr>
   in ''y'' \<in> set (gate_choices half_labelled n) \<and>
      map_option eto (case select_next_edge n (gate_outcome ''y'' ''2'') [] half_labelled of Inl _ \<Rightarrow> None | Inr e \<Rightarrow> Some e)
        = Some ''x''"
proof -
  let ?n = "\<lparr>node_id = ''h'', ntype = WAIT_HUMAN, nattrs = []\<rparr>"
  have es: "outgoing_edges half_labelled (node_id ?n) =
      [\<lparr>efrom = ''h'', eto = ''x'', eattrs = [(''label'', ''yes'')]\<rparr>, \<lparr>efrom = ''h'', eto = ''y'', eattrs = []\<rparr>]"
    by (simp add: outgoing_edges_def half_labelled_def)
  have lbl: "edge_label \<lparr>efrom = i, eto = j, eattrs = []\<rparr> = []" "edge_condition \<lparr>efrom = i, eto = j, eattrs = []\<rparr> = []"
    "parse_condition [] = Inr []" for i j
    by (simp_all add: edge_label_def edge_condition_def attr_get_or_def parse_condition_def)
  have eq: "select_next_edge ?n (gate_outcome ''y'' ''2'') [] half_labelled
      = select_next_edge ?n ((gate_outcome ''y'' ''2'')\<lparr>preferred_label := []\<rparr>) [] half_labelled"
    by (rule unlabelled_choice_ignored) (simp_all only: es, simp_all add: branch_graph_edges lbl)
  have "map_option eto (case select_next_edge ?n ((gate_outcome ''y'' ''2'')\<lparr>preferred_label := []\<rparr>) [] half_labelled
      of Inl _ \<Rightarrow> None | Inr e \<Rightarrow> Some e) = Some ''x''" by code_simp
  moreover have "''y'' \<in> set (gate_choices half_labelled ?n)"
    unfolding gate_choices_def es by (simp add: branch_graph_edges lbl)
  ultimately show ?thesis unfolding Let_def eq by blast
qed

text \<open>Fact: the HTTP gate trusts the index. A posted index outside the choices makes the handler read past the end
  of the vector of choices (undefined behaviour), whatever the gate.\<close>

theorem http_gate_reads_out_of_range:
  assumes "posted (world st) = ((Some (JObj [(''selected_index'', JInt i)]), sent), w)" and "in_int i"
    and "gate_choices g n \<noteq> []" and "i < 0 \<or> int (length (gate_choices g n)) \<le> i"
  shows "wait_human (http_ask posted) n g st = None"
  using assms http_answer_index [OF assms(2), of sent]
  by (auto simp: wait_human_def Let_def http_ask_def gate_question_def in_choices_def emit_def)

theorem http_gate_reads_out_of_range_witness:
  "wait_human (http_ask (\<lambda>w. ((Some (JObj [(''selected_index'', JInt 2)]), ''x''), w)))
     \<lparr>node_id = ''h'', ntype = WAIT_HUMAN, nattrs = []\<rparr> gate_graph sample_state = None"
  by (rule http_gate_reads_out_of_range)
    (auto simp: gate_choices_def gate_graph_edges branch_graph_edges int_range_defs)

section \<open>Properties of \<open>exit\<close>\<close>

text \<open>The verdict of the exit handler is not looked at: the engine records the exit node as successful.\<close>

lemma exit_verdict_ignored:
  assumes "handlers cfg (handler_type n) = Some exit_handler"
  shows "run_exit cfg g n st = run_exit (cfg\<lparr>handlers := (\<lambda>_. None)\<rparr>) g n st"
proof -
  have e: "\<exists>out. exit_handler n g st = (Inr out, st) \<and> context_updates out = []" for st :: "'a est"
    by (simp add: exit_handler_def Let_def)
  have "save_checkpoint (cfg\<lparr>handlers := (\<lambda>_. None)\<rparr>) i st = save_checkpoint cfg i st" for i st
    by (simp add: save_checkpoint_def make_checkpoint_def)
  moreover obtain out where "exit_handler n g (emit STAGE_STARTED (node_id n) (''Stage started: '' @ node_id n) st)
      = (Inr out, emit STAGE_STARTED (node_id n) (''Stage started: '' @ node_id n) st)" "context_updates out = []"
    using e by blast
  ultimately show ?thesis
    using assms unfolding run_exit_def Let_def by (simp add: apply_ctx_updates_def del: append.simps)
qed

end
