(* ===== verification/Troubleshoot_Types.thy ===== *)
theory Troubleshoot_Types
  imports Needle_Prelude
begin

text \<open>
  \<open>src/troubleshoot/types.cpp\<close> and \<open>src/troubleshoot/allowed_tools.cpp\<close>: the modes of the troubleshooter, the
  states of a session, their names, and the list of tools the agent is given in each mode.
\<close>

section \<open>Modes and states\<close>

datatype troubleshoot_mode = Off | Diagnose_Mode | Tweak | Full

datatype session_status =
  Running | Resumed | Reported | Escalated | Cancelled | FailedHookViolation | FailedTimeout | FailedAgent

fun mode_name :: "troubleshoot_mode \<Rightarrow> string" where
  "mode_name Off = ''off''"
| "mode_name Diagnose_Mode = ''diagnose''"
| "mode_name Tweak = ''tweak''"
| "mode_name Full = ''full''"

definition parse_troubleshoot_mode :: "string \<Rightarrow> troubleshoot_mode option" where
  "parse_troubleshoot_mode s =
     (let v = to_lower s in
      if v = ''off'' \<or> v = ''false'' then Some Off
      else if v = ''diagnose'' then Some Diagnose_Mode
      else if v = ''tweak'' \<or> v = ''true'' then Some Tweak
      else if v = ''full'' then Some Full
      else None)"

text \<open>\<open>parse_troubleshoot_mode_graph_attr\<close>: the two flags are the warnings already given by this thread; the last
  component tells whether this call warns.\<close>

definition parse_graph_attr :: "string \<Rightarrow> bool \<times> bool \<Rightarrow> troubleshoot_mode option \<times> (bool \<times> bool) \<times> bool" where
  "parse_graph_attr s warned =
     (let v = to_lower s; (warned_true, warned_false) = warned in
      if v = ''true'' \<and> \<not> warned_true then (parse_troubleshoot_mode s, (True, warned_false), True)
      else if v = ''false'' \<and> \<not> warned_false then (parse_troubleshoot_mode s, (warned_true, True), True)
      else (parse_troubleshoot_mode s, warned, False))"

fun status_name :: "session_status \<Rightarrow> string" where
  "status_name Running = ''running''"
| "status_name Resumed = ''resumed''"
| "status_name Reported = ''reported''"
| "status_name Escalated = ''escalated''"
| "status_name Cancelled = ''cancelled''"
| "status_name FailedHookViolation = ''failed_hook_violation''"
| "status_name FailedTimeout = ''failed_timeout''"
| "status_name FailedAgent = ''failed_agent''"

definition parse_session_status :: "string \<Rightarrow> session_status option" where
  "parse_session_status s =
     (let v = to_lower s in
      if v = ''running'' then Some Running
      else if v = ''resumed'' then Some Resumed
      else if v = ''reported'' then Some Reported
      else if v = ''escalated'' then Some Escalated
      else if v = ''cancelled'' then Some Cancelled
      else if v = ''failed_hook_violation'' then Some FailedHookViolation
      else if v = ''failed_timeout'' then Some FailedTimeout
      else if v = ''failed_agent'' then Some FailedAgent
      else None)"

lemma to_lower_name: "to_lower (mode_name m) = mode_name m" "to_lower (status_name t) = status_name t"
  by (cases m; simp add: to_lower_def to_lower_char_def is_upper_def byte_def)
     (cases t; simp add: to_lower_def to_lower_char_def is_upper_def byte_def)

lemma mode_name_roundtrip: "parse_troubleshoot_mode (mode_name m) = Some m"
  unfolding parse_troubleshoot_mode_def to_lower_name by (cases m) simp_all

lemma status_name_roundtrip: "parse_session_status (status_name t) = Some t"
  unfolding parse_session_status_def to_lower_name by (cases t) simp_all

section \<open>Tools\<close>

definition needs_quote :: "char \<Rightarrow> bool" where
  "needs_quote c = (c \<in> {CHR '' '', tab, newline, dquote, squote, CHR ''('', CHR '')''})"

definition quote_if_needed :: "string \<Rightarrow> string" where
  "quote_if_needed path =
     (if \<not> list_ex needs_quote path then path
      else [squote] @ concat (map (\<lambda>c. if c = squote then [squote, backslash, squote, squote] else [c]) path) @ [squote])"

definition edit_tool :: "string \<Rightarrow> string" where
  "edit_tool path = ''Edit('' @ quote_if_needed path @ '')''"

definition base_tools :: string where
  "base_tools = ''Read Glob Grep Write Bash(needle troubleshoot escalate:*)''"

definition tweak_tools :: string where
  "tweak_tools = '' '' @ edit_tool ''.needle/**/source.dot'' @ '' '' @ edit_tool ''*.dot'' @
     '' '' @ edit_tool ''.needle/**/stages/*/prompt.md'' @
     '' Bash(needle stage mark:*) Bash(needle stage advance:*) Bash(needle stage retry:*) Bash(needle resume:*)'' @
     '' Bash(needle config set defaults.*:*) Bash(git status:*) Bash(git log:*) Bash(git diff:*)''"

definition full_tools :: string where
  "full_tools = '' '' @ edit_tool ''**'' @
     '' Bash(git add:*) Bash(git checkout:*) Bash(git stash:*) Bash(npm install:*) Bash(npm ci:*)'' @
     '' Bash(pnpm install:*) Bash(yarn install:*) Bash(pip install:*) Bash(cargo build:*) Bash(cargo update:*)'' @
     '' Bash(make:*)''"

definition build_allowed_tools :: "troubleshoot_mode \<Rightarrow> string" where
  "build_allowed_tools mode =
     (if mode = Off then []
      else base_tools @ (if mode = Tweak \<or> mode = Full then tweak_tools else []) @ (if mode = Full then full_tools else []))"

text \<open>The entries of an allow-list: the words that are not inside parentheses.\<close>

fun tool_entries :: "nat \<Rightarrow> string \<Rightarrow> string \<Rightarrow> string list" where
  "tool_entries d w [] = (if w = [] then [] else [w])"
| "tool_entries d w (c # cs) =
     (if c = CHR '' '' \<and> d = 0 then (if w = [] then [] else [w]) @ tool_entries 0 [] cs
      else tool_entries (if c = CHR ''('' then d + 1 else if c = CHR '')'' then d - 1 else d) (w @ [c]) cs)"

text \<open>Each mode may do everything the one below it may; a diagnosing agent has no \<open>Edit\<close> entry and no shell command
  but the escalation, though it may call \<open>Write\<close> on any path.\<close>

lemma allowed_tools_scope:
  "tool_entries 0 [] (build_allowed_tools Diagnose_Mode) =
     [''Read'', ''Glob'', ''Grep'', ''Write'', ''Bash(needle troubleshoot escalate:*)''] \<and>
   set (tool_entries 0 [] (build_allowed_tools Off)) \<subseteq> set (tool_entries 0 [] (build_allowed_tools Diagnose_Mode)) \<and>
   set (tool_entries 0 [] (build_allowed_tools Diagnose_Mode)) \<subseteq> set (tool_entries 0 [] (build_allowed_tools Tweak)) \<and>
   set (tool_entries 0 [] (build_allowed_tools Tweak)) \<subseteq> set (tool_entries 0 [] (build_allowed_tools Full))"
  by code_simp

end
