(* ===== verification/Cli_Args.thy ===== *)
theory Cli_Args
  imports Checkpoint Troubleshoot_Types
begin

text \<open>
  The command line: \<open>Router::parse_args\<close> and the part of \<open>Router::run_command\<close> that fills the context
  (\<open>src/cli/router.cpp\<close>, \<open>src/util/context_defaults.cpp\<close>). What is printed about unknown flags and invalid modes is left out.
\<close>

section \<open>The arguments\<close>

record cli_args =
  a_command :: string
  positionals :: "string list"
  logs_dir :: string
  stylesheet :: string
  backend :: string
  interviewer_mode :: string
  fidelity :: string
  no_color :: bool
  json_output :: bool
  dry_run :: bool
  debug :: bool
  quiet :: bool
  port :: int
  bind_addr :: string
  a_help :: bool
  a_version :: bool
  vars :: "(string, string) omap"
  project_dir :: string
  stage_output :: string
  stage_to :: string
  a_strict_graph_hash :: bool
  allow_unresolved :: bool
  reload :: bool
  from_snapshot :: bool
  frozen_config :: bool
  a_troubleshoot :: bool
  troubleshoot_mode_set :: bool
  a_troubleshoot_mode :: troubleshoot_mode
  manual_mode_set :: bool
  manual_mode :: troubleshoot_mode
  reason :: string
  next_question :: string
  session_id :: string
  run_dir :: string
  no_lint :: bool
  a_strict :: bool
  scope :: string

definition default_args :: cli_args where
  "default_args = \<lparr>a_command = [], positionals = [], logs_dir = [], stylesheet = [], backend = [],
     interviewer_mode = [], fidelity = [], no_color = False, json_output = False, dry_run = False, debug = False,
     quiet = False, port = 0, bind_addr = [], a_help = False, a_version = False, vars = [], project_dir = [],
     stage_output = [], stage_to = [], a_strict_graph_hash = False, allow_unresolved = False, reload = False,
     from_snapshot = False, frozen_config = False, a_troubleshoot = False, troubleshoot_mode_set = False,
     a_troubleshoot_mode = Off, manual_mode_set = False, manual_mode = Tweak, reason = [], next_question = [],
     session_id = [], run_dir = [], no_lint = False, a_strict = False, scope = []\<rparr>"

definition first_positional :: "cli_args \<Rightarrow> string" where
  "first_positional a = (case positionals a of [] \<Rightarrow> [] | p # _ \<Rightarrow> p)"

definition add_var :: "string \<Rightarrow> cli_args \<Rightarrow> cli_args" where
  "add_var kv a =
     (case find_char (CHR ''='') kv of
        None \<Rightarrow> a
      | Some eq \<Rightarrow> a\<lparr>vars := omap_set (take eq kv) (drop (eq + 1) kv) (vars a)\<rparr>)"

definition set_mode :: "string \<Rightarrow> cli_args \<Rightarrow> cli_args" where
  "set_mode s a =
     (case parse_troubleshoot_mode s of
        Some m \<Rightarrow> a\<lparr>a_troubleshoot_mode := m, troubleshoot_mode_set := True\<rparr> | None \<Rightarrow> a)"

definition set_manual_mode :: "string \<Rightarrow> cli_args \<Rightarrow> cli_args" where
  "set_manual_mode s a =
     (case parse_troubleshoot_mode s of
        Some m \<Rightarrow> a\<lparr>manual_mode := m, manual_mode_set := True\<rparr> | None \<Rightarrow> a)"

text \<open>The options that stand alone, and those that take the next argument if there is one.\<close>

definition set_flag :: "string \<Rightarrow> cli_args \<Rightarrow> cli_args option" where
  "set_flag arg a =
     (if arg = ''--help'' \<or> arg = ''-h'' then Some (a\<lparr>a_help := True\<rparr>)
      else if arg = ''--version'' \<or> arg = ''-v'' then Some (a\<lparr>a_version := True\<rparr>)
      else if arg = ''--no-color'' then Some (a\<lparr>no_color := True\<rparr>)
      else if arg = ''--json'' then Some (a\<lparr>json_output := True\<rparr>)
      else if arg = ''--dry-run'' then Some (a\<lparr>dry_run := True\<rparr>)
      else if arg = ''--debug'' then Some (a\<lparr>debug := True\<rparr>)
      else if arg = ''--quiet'' then Some (a\<lparr>quiet := True\<rparr>)
      else if arg = ''--strict-graph-hash'' then Some (a\<lparr>a_strict_graph_hash := True\<rparr>)
      else if arg = ''--allow-unresolved-vars'' then Some (a\<lparr>allow_unresolved := True\<rparr>)
      else if arg = ''--reload'' then Some (a\<lparr>reload := True\<rparr>)
      else if arg = ''--from-snapshot'' then Some (a\<lparr>from_snapshot := True\<rparr>)
      else if arg = ''--frozen-config'' then Some (a\<lparr>frozen_config := True\<rparr>)
      else if arg = ''--troubleshoot'' then Some (a\<lparr>a_troubleshoot := True\<rparr>)
      else if arg = ''--no-lint'' then Some (a\<lparr>no_lint := True\<rparr>)
      else if arg = ''--strict'' then Some (a\<lparr>a_strict := True\<rparr>)
      else None)"

text \<open>\<open>std::stoi\<close> throws on a port that is not a number: the error result of the option.\<close>

definition set_option :: "string \<Rightarrow> string \<Rightarrow> cli_args \<Rightarrow> cli_args result option" where
  "set_option arg v a =
     (if arg = ''--logs-dir'' then Some (success (a\<lparr>logs_dir := v\<rparr>))
      else if arg = ''--stylesheet'' then Some (success (a\<lparr>stylesheet := v\<rparr>))
      else if arg = ''--backend'' then Some (success (a\<lparr>backend := v\<rparr>))
      else if arg = ''--interviewer'' then Some (success (a\<lparr>interviewer_mode := v\<rparr>))
      else if arg = ''--fidelity'' then Some (success (a\<lparr>fidelity := v\<rparr>))
      else if arg = ''--port'' then
        Some (case stoi v of None \<Rightarrow> failure ''stoi'' | Some (i, _) \<Rightarrow> success (a\<lparr>port := i\<rparr>))
      else if arg = ''--bind'' then Some (success (a\<lparr>bind_addr := v\<rparr>))
      else if arg = ''--var'' then Some (success (add_var v a))
      else if arg = ''--project-dir'' then Some (success (a\<lparr>project_dir := v\<rparr>))
      else if arg = ''--output'' then Some (success (a\<lparr>stage_output := v\<rparr>))
      else if arg = ''--to'' then Some (success (a\<lparr>stage_to := v\<rparr>))
      else if arg = ''--scope'' then Some (success (a\<lparr>scope := v\<rparr>))
      else if arg = ''--troubleshoot-mode'' then Some (success (set_mode v a))
      else if arg = ''--mode'' then Some (success (set_manual_mode v a))
      else if arg = ''--reason'' then Some (success (a\<lparr>reason := v\<rparr>))
      else if arg = ''--next-question'' then Some (success (a\<lparr>next_question := v\<rparr>))
      else if arg = ''--session-id'' then Some (success (a\<lparr>session_id := v\<rparr>))
      else if arg = ''--run-dir'' then Some (success (a\<lparr>run_dir := v\<rparr>))
      else None)"

text \<open>The options of the form \<open>--name=value\<close>, and what is none of all these.\<close>

definition set_assigned :: "string \<Rightarrow> cli_args \<Rightarrow> cli_args" where
  "set_assigned arg a =
     (if starts_with ''--troubleshoot-mode='' arg then set_mode (drop 20 arg) a
      else if starts_with ''--mode='' arg then set_manual_mode (drop 7 arg) a
      else if starts_with ''--reason='' arg then a\<lparr>reason := drop 9 arg\<rparr>
      else if starts_with ''--next-question='' arg then a\<lparr>next_question := drop 16 arg\<rparr>
      else if starts_with ''--session-id='' arg then a\<lparr>session_id := drop 13 arg\<rparr>
      else if starts_with ''--run-dir='' arg then a\<lparr>run_dir := drop 10 arg\<rparr>
      else if starts_with ''-'' arg then a
      else if a_command a = [] then a\<lparr>a_command := arg\<rparr>
      else a\<lparr>positionals := positionals a @ [arg]\<rparr>)"

fun parse_args_loop :: "string list \<Rightarrow> cli_args \<Rightarrow> cli_args result" where
  "parse_args_loop [] a = success a"
| "parse_args_loop [arg] a =
     (case set_flag arg a of Some a \<Rightarrow> success a | None \<Rightarrow> success (set_assigned arg a))"
| "parse_args_loop (arg # v # rest) a =
     (case set_flag arg a of
        Some a \<Rightarrow> parse_args_loop (v # rest) a
      | None \<Rightarrow>
          (case set_option arg v a of
             Some (Inl e) \<Rightarrow> failure e
           | Some (Inr a) \<Rightarrow> parse_args_loop rest a
           | None \<Rightarrow> parse_args_loop (v # rest) (set_assigned arg a)))"

definition parse_args :: "string list \<Rightarrow> cli_args result" where
  "parse_args argv = parse_args_loop argv default_args"

section \<open>The context of a run\<close>

definition scalar_text :: "json \<Rightarrow> string option" where
  "scalar_text v =
     (case v of JStr s \<Rightarrow> Some s | JInt i \<Rightarrow> Some (show_int i)
      | JBool b \<Rightarrow> Some (if b then ''true'' else ''false'') | _ \<Rightarrow> None)"

definition inject_config_defaults :: "nat \<Rightarrow> json \<Rightarrow> bool \<Rightarrow> ctxt \<Rightarrow> ctxt" where
  "inject_config_defaults lim defaults overwrite_existing c =
     fold (\<lambda>(k, v) c.
        let key = ''config.defaults.'' @ k in
        if \<not> overwrite_existing \<and> ctx_has c key then c
        else case scalar_text v of Some s \<Rightarrow> ctx_set lim key s c | None \<Rightarrow> c)
       (obj_items defaults) c"

definition run_logs_root :: "cli_args \<Rightarrow> string \<Rightarrow> string" where
  "run_logs_root a dot_stem =
     (let root = (if logs_dir a \<noteq> [] then logs_dir a
            else if project_dir a \<noteq> [] then project_dir a @ ''/.needle/'' @ dot_stem
            else ''.needle/'' @ dot_stem)
      in if dry_run a \<and> logs_dir a = [] then root @ ''-dryrun'' else root)"

definition run_context :: "nat \<Rightarrow> string \<Rightarrow> json \<Rightarrow> string \<Rightarrow> cli_args \<Rightarrow> ctxt" where
  "run_context lim cwd defaults dot_stem a =
     (let c = fold (\<lambda>(k, v). ctx_set lim (''var.'' @ k) v) (vars a) [];
          c = ctx_set lim ''needle.project_dir'' (if project_dir a = [] then cwd else project_dir a) c;
          root = run_logs_root a dot_stem;
          c = ctx_set lim ''needle.logs_root'' root c;
          c = ctx_set lim ''needle.logs_dir'' (root @ ''/logs'') c;
          c = ctx_set lim ''needle.dot_stem'' dot_stem c
      in inject_config_defaults lim defaults True c)"

section \<open>Properties\<close>

lemma find_char_append: "c \<notin> set k \<Longrightarrow> find_char c (k @ c # v) = Some (length k)"
  by (induction k) auto

lemma parse_var: "parse_args_loop (''--var'' # kv # rest) a = parse_args_loop rest (add_var kv a)"
  by (simp add: set_flag_def set_option_def)

lemma parse_logs_dir: "parse_args_loop (''--logs-dir'' # v # rest) a = parse_args_loop rest (a\<lparr>logs_dir := v\<rparr>)"
  by (simp add: set_flag_def set_option_def)

lemma parse_stylesheet_option:
  "parse_args_loop (''--stylesheet'' # v # rest) a = parse_args_loop rest (a\<lparr>stylesheet := v\<rparr>)"
  by (simp add: set_flag_def set_option_def)

text \<open>An argument that does not start with a dash.\<close>

lemma parse_plain:
  assumes "arg \<noteq> []" and "hd arg \<noteq> CHR ''-''"
  shows "parse_args_loop (arg # rest) a = parse_args_loop rest
    (if a_command a = [] then a\<lparr>a_command := arg\<rparr> else a\<lparr>positionals := positionals a @ [arg]\<rparr>)"
proof -
  have no: "arg \<noteq> CHR ''-'' # s" "\<not> starts_with (CHR ''-'' # s) arg" for s
    using assms by (cases arg; auto simp: starts_with_def)+
  then have "set_flag arg a = None" "set_option arg v a = None" for v
    by (simp_all add: set_flag_def set_option_def)
  moreover have "set_assigned arg a =
      (if a_command a = [] then a\<lparr>a_command := arg\<rparr> else a\<lparr>positionals := positionals a @ [arg]\<rparr>)"
    by (simp add: set_assigned_def no)
  ultimately show ?thesis by (cases rest) simp_all
qed

definition var_args :: "(string \<times> string) list \<Rightarrow> string list" where
  "var_args kvs = concat (map (\<lambda>(k, v). [''--var'', k @ CHR ''='' # v]) kvs)"

lemma parse_var_args:
  "\<forall>(k, v) \<in> set kvs. CHR ''='' \<notin> set k \<Longrightarrow>
   parse_args_loop (var_args kvs @ rest) a
     = parse_args_loop rest (a\<lparr>vars := fold (\<lambda>(k, v). omap_set k v) kvs (vars a)\<rparr>)"
proof (induction kvs arbitrary: a)
  case (Cons kv kvs)
  obtain k v where kv: "kv = (k, v)" by (rule prod.exhaust)
  with Cons.prems have "add_var (k @ CHR ''='' # v) a = a\<lparr>vars := omap_set k v (vars a)\<rparr>"
    by (simp add: add_var_def find_char_append)
  then show ?case using Cons.IH Cons.prems by (simp add: var_args_def kv parse_var del: parse_args_loop.simps)
qed (simp add: var_args_def)

lemma map_of_fold_set:
  "map_of (fold (\<lambda>(k, v). omap_set k v) kvs m) k = (case map_of (rev kvs) k of Some v \<Rightarrow> Some v | None \<Rightarrow> map_of m k)"
  by (induction kvs arbitrary: m) (auto split: option.splits)

lemma omap_ok_fold_set: "omap_ok m \<Longrightarrow> omap_ok (fold (\<lambda>(k, v). omap_set k v) kvs m)"
  by (induction kvs arbitrary: m) auto

lemma ctx_get_inject:
  assumes "\<not> starts_with ''config.defaults.'' k"
  shows "ctx_get (inject_config_defaults lim defaults ow c) k = ctx_get c k"
proof -
  have "ctx_get (fold (\<lambda>(k, v) c.
        let key = ''config.defaults.'' @ k in
        if \<not> ow \<and> ctx_has c key then c
        else case scalar_text v of Some s \<Rightarrow> ctx_set lim key s c | None \<Rightarrow> c) kvs c) k = ctx_get c k" for kvs c
    using assms
    by (induction kvs arbitrary: c)
      (auto simp: Let_def ctx_get_set starts_with_def split: option.split prod.split)
  then show ?thesis by (simp add: inject_config_defaults_def)
qed

lemma ctx_get_var_fold:
  assumes "distinct (map fst vs)"
  shows "ctx_get (fold (\<lambda>(k, v). ctx_set lim (''var.'' @ k) v) vs c) k' =
    (case find (\<lambda>(k, v). k' = ''var.'' @ k) vs of Some (k, v) \<Rightarrow> clip_value lim v | None \<Rightarrow> ctx_get c k')"
  using assms
proof (induction vs arbitrary: c)
  case (Cons kv vs)
  obtain k v where kv: "kv = (k, v)" by (rule prod.exhaust)
  show ?case
  proof (cases "k' = ''var.'' @ k")
    case True
    then have "find (\<lambda>(k, v). k' = ''var.'' @ k) vs = None"
      using Cons.prems kv by (auto simp: find_None_iff image_iff)
    with Cons True kv show ?thesis by (simp add: ctx_get_set)
  qed (use Cons kv in \<open>simp add: ctx_get_set split: option.split\<close>)
qed simp

lemma run_context_get:
  assumes "omap_ok (vars a)" and "\<not> starts_with ''config.defaults.'' k" and "\<not> starts_with ''needle.'' k \<or> k = ''needle.depth''"
  shows "ctx_get (run_context lim cwd defaults stem a) k =
    (case find (\<lambda>(k', v). k = ''var.'' @ k') (vars a) of Some (_, v) \<Rightarrow> clip_value lim v | None \<Rightarrow> [])"
proof -
  have "k \<noteq> ''needle.project_dir''" "k \<noteq> ''needle.logs_root''" "k \<noteq> ''needle.logs_dir''" "k \<noteq> ''needle.dot_stem''"
    using assms(3) by (auto simp: starts_with_def)
  then show ?thesis
    using assms(2) ctx_get_var_fold [OF omap_ok_distinct [OF assms(1)], of lim "[]" k]
    by (simp add: run_context_def Let_def ctx_get_inject ctx_get_set ctx_get_def [of "[]"] split: option.split)
qed

text \<open>Fact: the variables of the command line reach the context. Every \<open>--var name=value\<close> behind the pipeline's file
  sets the context key \<open>var.name\<close> of the run, clipped to the context's limit; of several for one name the
  last wins. The value may contain any character, the name no equals sign.\<close>

theorem cli_vars_reach_context:
  assumes "\<forall>(k, v) \<in> set kvs. CHR ''='' \<notin> set k"
    and "cmd \<noteq> []" "hd cmd \<noteq> CHR ''-''" and "path \<noteq> []" "hd path \<noteq> CHR ''-''"
  shows "\<exists>a. parse_args (cmd # path # var_args kvs) = Inr a \<and> a_command a = cmd \<and> first_positional a = path \<and>
    ctx_get (run_context lim cwd defaults stem a) (''var.'' @ k) =
      (case map_of (rev kvs) k of Some v \<Rightarrow> clip_value lim v | None \<Rightarrow> [])"
proof -
  let ?vs = "fold (\<lambda>(k, v). omap_set k v) kvs []"
  let ?a = "default_args\<lparr>a_command := cmd, positionals := [path], vars := ?vs\<rparr>"
  have "parse_args (cmd # path # var_args kvs) = Inr ?a"
    using parse_var_args [OF assms(1), of "[]"] assms(2-5)
    by (simp add: parse_args_def parse_plain default_args_def parse_args_loop.simps(1) del: parse_args_loop.simps(2,3))
  moreover have "ctx_get (run_context lim cwd defaults stem ?a) (''var.'' @ k) =
      (case map_of (rev kvs) k of Some v \<Rightarrow> clip_value lim v | None \<Rightarrow> [])"
  proof -
    have ok: "omap_ok ?vs" by (simp add: omap_ok_fold_set)
    have "find (\<lambda>(k', v). ''var.'' @ k = ''var.'' @ k') vs = map_option (\<lambda>v. (k, v)) (map_of vs k)"
      for vs :: "(string, string) omap" by (induction vs) auto
    with ok show ?thesis
      by (subst run_context_get) (auto simp: starts_with_def map_of_fold_set split: option.split)
  qed
  ultimately show ?thesis by (intro exI [of _ ?a]) (simp add: first_positional_def)
qed

theorem cli_vars_reach_context_witness:
  "\<exists>a. parse_args [''run'', ''p.dot'', ''--var'', ''x=1=2''] = Inr a \<and>
     ctx_get (run_context 0 ''/w'' JNull ''p'' a) ''var.x'' = ''1=2''"
  using cli_vars_reach_context [of "[(''x'', ''1=2'')]" "''run''" "''p.dot''" 0 "''/w''" JNull "''p''" "''x''"]
  by (auto simp: var_args_def clip_value_def)

end
