(* ===== verification/Process_Handlers.thy ===== *)
theory Process_Handlers
  imports Engine_Books Handlers Cli_Args
begin

text \<open>
  The handlers that call out: \<open>tool\<close>, \<open>codergen\<close>, \<open>llmkit\<close> and \<open>nested_run\<close> under \<open>src/handlers/\<close>, as bodies of
  \<open>handler_base\<close>. The process runner, the agent backends, the git snapshots and the file system are parameters
  that act on the world. The Windows command line is not modelled.
\<close>

section \<open>What the handlers call\<close>

record proc_result =
  exit_code :: int
  stdout_output :: string
  stderr_output :: string
  timed_out :: bool
  idle_timeout :: bool

text \<open>
  \<open>git_delta dir before after\<close> is the JSON text of the difference between two worlds, \<open>None\<close> if a snapshot is
  not valid.
\<close>

record 'w host =
  h_project_dir :: string
  h_logs_root :: string
  run_process :: "string \<Rightarrow> string list \<Rightarrow> string \<Rightarrow> int \<Rightarrow> int \<Rightarrow> 'w \<Rightarrow> proc_result result \<times> 'w"
  run_backend :: "node \<Rightarrow> ctxt \<Rightarrow> string \<Rightarrow> 'w \<Rightarrow> outcome result \<times> 'w"
  git_delta :: "string \<Rightarrow> 'w \<Rightarrow> 'w \<Rightarrow> string option"
  file_exists :: "string \<Rightarrow> 'w \<Rightarrow> bool"
  copy_file :: "string \<Rightarrow> string \<Rightarrow> 'w \<Rightarrow> 'w"
  remove_file :: "string \<Rightarrow> 'w \<Rightarrow> 'w"
  new_run_id :: "'w \<Rightarrow> string \<times> 'w"

abbreviation returns :: "outcome result \<Rightarrow> 'w est \<Rightarrow> (string + outcome result) \<times> 'w est" where
  "returns r st \<equiv> (Inr r, st)"

definition base_dir :: "'w host \<Rightarrow> string" where
  "base_dir host = (if h_project_dir host = [] then ''.'' else h_project_dir host)"

section \<open>\<open>tool\<close>\<close>

definition needs_shell :: "string \<Rightarrow> bool" where
  "needs_shell command =
     (CHR ''|'' \<in> set command \<or> find_sub ''&&'' command \<noteq> None \<or> find_sub ''||'' command \<noteq> None \<or>
      CHR ''>'' \<in> set command \<or> CHR ''<'' \<in> set command \<or> CHR 0x60 \<in> set command \<or>
      CHR ''$'' \<in> set command \<or> CHR '';'' \<in> set command)"

definition is_blank :: "char \<Rightarrow> bool" where
  "is_blank c = (c = CHR '' '' \<or> c = CHR 0x09)"

fun split_words :: "string \<Rightarrow> string \<Rightarrow> string list" where
  "split_words [] current = (if current = [] then [] else [current])"
| "split_words (c # cs) current =
     (if is_blank c then (if current = [] then split_words cs [] else current # split_words cs [])
      else split_words cs (current @ [c]))"

text \<open>The program and its arguments; \<open>None\<close> for a command of blanks.\<close>

definition tool_command :: "string \<Rightarrow> (string \<times> string list) option" where
  "tool_command command =
     (if needs_shell command then Some (''/bin/sh'', [''-c'', command])
      else case split_words command [] of [] \<Rightarrow> None | cmd # args \<Rightarrow> Some (cmd, args))"

definition tool_working_dir :: "'w host \<Rightarrow> node \<Rightarrow> ctxt \<Rightarrow> string" where
  "tool_working_dir host n c =
     (let default_dir = base_dir host;
          default_dir = (if attr_get (nattrs n) ''cwd_scope'' \<noteq> ''parent'' \<and> ctx_has c ''needle.branch.cwd''
            then ctx_get c ''needle.branch.cwd'' else default_dir)
      in attr_get_or (nattrs n) ''working_dir'' default_dir)"

definition tool_outcome :: "string \<Rightarrow> proc_result \<Rightarrow> string option \<Rightarrow> outcome" where
  "tool_outcome i proc delta =
     (let key = (\<lambda>k. ''tool.'' @ i @ k);
          updates = omap_set (key ''.stdout'') (stdout_output proc) [];
          updates = omap_set (key ''.stderr'') (stderr_output proc) updates;
          updates = omap_set (key ''.exit_code'') (show_int (exit_code proc)) updates;
          updates = (if timed_out proc then
              omap_set (key ''.timeout_kind'') (if idle_timeout proc then ''idle'' else ''wall_clock'') updates
            else updates);
          updates = (case delta of Some d \<Rightarrow> omap_set (key ''.git_state'') d updates | None \<Rightarrow> updates)
      in (new_outcome (if exit_code proc = 0 \<and> \<not> timed_out proc then SUCCESS else FAILURE))
           \<lparr>out_text := stdout_output proc, context_updates := updates\<rparr>)"

definition tool_body :: "'w host \<Rightarrow> 'w body" where
  "tool_body host n g st =
     (let command = attr_get (nattrs n) ''command'' in
      if command = [] then returns (failure (''tool node missing 'command' attribute: '' @ node_id n)) st
      else
        let working_dir = tool_working_dir host n (ctx st) in
        case tool_command command of
          None \<Rightarrow> returns (failure (''empty command for tool node: '' @ node_id n)) st
        | Some (cmd, args) \<Rightarrow>
            let timeout_ms = (case attr_get_duration_ms (nattrs n) ''timeout'' of Some t \<Rightarrow> t | None \<Rightarrow> 60000);
                idle_ms = (case attr_get_duration_ms (nattrs n) ''idle_timeout'' of Some t \<Rightarrow> t | None \<Rightarrow> 0);
                before = world st;
                (r, w) = run_process host cmd args working_dir timeout_ms idle_ms before;
                st = st\<lparr>world := w\<rparr>
            in case r of
                 Inl e \<Rightarrow> returns (failure (''process runner failed: '' @ e)) st
               | Inr proc \<Rightarrow> returns (success (tool_outcome (node_id n) proc (git_delta host working_dir before w))) st)"

definition tool_handler :: "'w host \<Rightarrow> 'w handler" where
  "tool_handler host = handler_base ''tool'' (h_project_dir host) (tool_body host)"

section \<open>\<open>codergen\<close> and \<open>llmkit\<close>\<close>

definition stage_dir :: "'w host \<Rightarrow> node \<Rightarrow> string" where
  "stage_dir host n = (if h_logs_root host \<noteq> [] then h_logs_root host @ ''/stages/'' @ node_id n else [])"

definition codergen_body :: "'w host \<Rightarrow> 'w body" where
  "codergen_body host n g st =
     (let dir = stage_dir host n;
          w = world st;
          w = (if dir \<noteq> [] then remove_file host (dir @ ''/status.json'') (remove_file host (dir @ ''/response.md'') w) else w);
          (r, w') = run_backend host n (ctx st) dir w;
          st = st\<lparr>world := w'\<rparr>
      in case r of
           Inl e \<Rightarrow> returns (Inl e) st
         | Inr out \<Rightarrow>
             let updates = context_updates out;
                 updates = (if out_text out \<noteq> [] then
                     omap_set (''codergen.'' @ node_id n @ ''.output'') (out_text out) updates else updates);
                 updates = (case git_delta host (base_dir host) w w' of
                     Some d \<Rightarrow> omap_set (''codergen.'' @ node_id n @ ''.git_state'') d updates | None \<Rightarrow> updates)
             in returns (success (out\<lparr>context_updates := updates\<rparr>)) st)"

definition codergen_handler :: "'w host \<Rightarrow> 'w handler" where
  "codergen_handler host = handler_base ''codergen'' (h_project_dir host) (codergen_body host)"

definition llmkit_body :: "'w host \<Rightarrow> 'w body" where
  "llmkit_body host n g st =
     (let (r, w) = run_backend host n (ctx st) (stage_dir host n) (world st) in returns r (st\<lparr>world := w\<rparr>))"

definition llmkit_handler :: "'w host \<Rightarrow> 'w handler" where
  "llmkit_handler host = handler_base ''llmkit'' (h_project_dir host) (llmkit_body host)"

section \<open>\<open>nested_run\<close>\<close>

text \<open>\<open>std::atoi\<close>: the number at the start of the text, 0 if there is none or it does not fit.\<close>

definition atoi :: "string \<Rightarrow> int" where
  "atoi s = (case stoi s of Some (v, _) \<Rightarrow> v | None \<Rightarrow> 0)"

definition nested_depth :: "ctxt \<Rightarrow> int" where
  "nested_depth c = (let depth_str = ctx_get c ''needle.depth'' in if depth_str = [] then 0 else atoi depth_str)"

definition nested_args :: "string \<Rightarrow> int \<Rightarrow> bool \<Rightarrow> string list" where
  "nested_args run_rel depth with_stylesheet =
     [''run'', run_rel @ ''/pipeline.dot'', ''--logs-dir'', run_rel @ ''/.needle'', ''--var'',
      ''needle.depth='' @ show_int (depth + 1)]
     @ (if with_stylesheet then [''--stylesheet'', run_rel @ ''/pipeline.nss''] else [])"

definition nested_outcome :: "string \<Rightarrow> string \<Rightarrow> proc_result result \<Rightarrow> outcome" where
  "nested_outcome i run_rel r =
     (let key = (\<lambda>k. ''nested_run.'' @ i @ k) in
      case r of
        Inl e \<Rightarrow> (new_outcome FAILURE)\<lparr>out_text := ''nested_run process failed: '' @ e,
          context_updates := [(key ''.success'', ''false'')]\<rparr>
      | Inr proc \<Rightarrow>
          let text = stdout_output proc;
              text = (if length text > 10240 then ''[truncated]'' @ newline # truncate_back text 10240 else text);
              ok = (exit_code proc = 0 \<and> \<not> timed_out proc);
              out = (if ok then (new_outcome SUCCESS)\<lparr>out_text := text\<rparr>
                else (new_outcome FAILURE)\<lparr>out_text := ''nested_run failed: exit '' @ show_int (exit_code proc)
                  @ (if timed_out proc then '' (timed out)'' else []) @ newline # text\<rparr>);
              updates = omap_set (key ''.success'') (if ok then ''true'' else ''false'') [];
              updates = omap_set (key ''.exit_code'') (show_int (exit_code proc)) updates;
              updates = omap_set (key ''.output'') text updates;
              updates = omap_set (key ''.run_dir'') run_rel updates
          in out\<lparr>context_updates := updates\<rparr>)"

definition below :: "string \<Rightarrow> string \<Rightarrow> string" where
  "below dir path = (if is_absolute_path path then path else dir @ ''/'' @ path)"

definition nested_run_body :: "'w host \<Rightarrow> 'w body" where
  "nested_run_body host n g st =
     (let dot_file = attr_get (nattrs n) ''dot_file'';
          dot_file = (if dot_file = [] then ctx_get (ctx st) (''nested_run.'' @ node_id n @ ''.dot_file'') else dot_file)
      in if dot_file = [] then returns (failure (''nested_run node missing 'dot_file' attribute: '' @ node_id n)) st
      else
        let dir = base_dir host; dot_file = below dir dot_file in
        if \<not> file_exists host dot_file (world st) then
          returns (failure (''nested_run dot_file not found: '' @ dot_file)) st
        else
          let current_depth = nested_depth (ctx st);
              max_depth = atoi (attr_get_or (nattrs n) ''max_depth'' ''3'')
          in if current_depth \<ge> max_depth then
               returns (success ((new_outcome FAILURE)\<lparr>out_text := ''nested_run recursion depth limit reached (''
                 @ show_int current_depth @ ''/'' @ show_int max_depth @ '')''\<rparr>)) st
             else
               let (run_id, w) = new_run_id host (world st);
                   run_rel = ''.needle/runs/'' @ run_id;
                   target = dir @ ''/'' @ run_rel;
                   w = copy_file host dot_file (target @ ''/pipeline.dot'') w;
                   sheet = attr_get (nattrs n) ''stylesheet'';
                   sheet = (if sheet \<noteq> [] then below dir sheet else sheet);
                   with_sheet = (sheet \<noteq> [] \<and> file_exists host sheet w);
                   w = (if with_sheet then copy_file host sheet (target @ ''/pipeline.nss'') w else w);
                   timeout_ms = (case attr_get_duration_ms (nattrs n) ''timeout'' of Some t \<Rightarrow> t | None \<Rightarrow> 1800000);
                   (r, w) = run_process host ''needle'' (nested_args run_rel current_depth with_sheet) dir timeout_ms 0 w
               in returns (success (nested_outcome (node_id n) run_rel r)) (st\<lparr>world := w\<rparr>))"

definition nested_run_handler :: "'w host \<Rightarrow> 'w handler" where
  "nested_run_handler host = handler_base ''nested_run'' (h_project_dir host) (nested_run_body host)"

section \<open>The bookkeeping\<close>

text \<open>A handler that only changes the world and adds events or artifacts keeps the engine's bookkeeping.\<close>

lemma est_ok_handler_base:
  assumes "\<And>n g st. est_ok st \<Longrightarrow> est_ok (snd (do_execute n g st))" and "est_ok st"
  shows "est_ok (snd (handler_base t dir do_execute n g st))"
proof -
  obtain r st1 where r: "do_execute n g st = (r, st1)" by (rule prod.exhaust)
  with assms have st1: "est_ok st1" by (metis snd_conv)
  then have "est_ok (log_effect (Artifact_Written p t) st1)" for p t by (rule est_ok_log) simp
  with st1 show ?thesis by (simp add: handler_base_def r Let_def split: sum.split)
qed

lemma est_ok_simple_handlers:
  assumes "est_ok st"
  shows "est_ok (snd (start_handler utc n g st))" "est_ok (snd (exit_handler n g st))"
    "est_ok (snd (conditional_handler n g st))"
  using assms by (simp_all add: start_handler_def exit_handler_def conditional_handler_def Let_def)

lemma est_ok_process_handlers:
  assumes "est_ok st"
  shows "est_ok (snd (tool_handler host n g st))" "est_ok (snd (codergen_handler host n g st))"
    "est_ok (snd (llmkit_handler host n g st))" "est_ok (snd (nested_run_handler host n g st))"
  unfolding tool_handler_def codergen_handler_def llmkit_handler_def nested_run_handler_def
  by (rule est_ok_handler_base [OF _ assms];
      simp add: tool_body_def codergen_body_def llmkit_body_def nested_run_body_def Let_def est_ok_fields
        split: option.split sum.split prod.split)+

section \<open>Properties\<close>

lemma split_words_word:
  assumes "\<forall>c \<in> set w. \<not> is_blank c"
  shows "split_words (w @ s) current = split_words s (current @ w)"
  using assms by (induction w arbitrary: current) auto

lemma split_words_join:
  "\<forall>w \<in> set ws. w \<noteq> [] \<and> (\<forall>c \<in> set w. \<not> is_blank c) \<Longrightarrow> split_words (join '' '' ws) [] = ws"
proof (induction ws rule: induct_list012)
  case (2 w)
  then show ?case using split_words_word [of w "[]" "[]"] by simp
next
  case (3 w w' ws)
  then have "split_words (join '' '' (w # w' # ws)) [] = split_words ('' '' @ join '' '' (w' # ws)) w"
    using split_words_word [of w "'' '' @ join '' '' (w' # ws)" "[]"] by simp
  with 3 show ?case by (simp add: is_blank_def)
qed simp

lemma split_words_content:
  "\<forall>c \<in> set current. \<not> is_blank c \<Longrightarrow> concat (split_words s current) = current @ filter (\<lambda>c. \<not> is_blank c) s \<and>
   (\<forall>w \<in> set (split_words s current). w \<noteq> [] \<and> (\<forall>c \<in> set w. \<not> is_blank c))"
proof (induction s arbitrary: current)
  case (Cons c s)
  show ?case
  proof (cases "is_blank c")
    case True
    with Cons.IH [of "[]"] Cons.prems show ?thesis by simp
  next
    case False
    then have "\<forall>d \<in> set (current @ [c]). \<not> is_blank d" using Cons.prems by simp
    from Cons.IH [OF this] False show ?thesis by simp
  qed
qed simp

text \<open>Fact: what a tool node runs. A command with a shell character goes to \<open>/bin/sh -c\<close> as it is. Any other is
  split at blanks and nothing else: every word is passed as it stands, with its quotes and backslashes, so the
  words of a command made of words come back, and a quoted argument with a blank in it becomes two arguments.\<close>

theorem tool_command_words:
  "(needs_shell s \<longrightarrow> tool_command s = Some (''/bin/sh'', [''-c'', s])) \<and>
   (\<not> needs_shell s \<and> tool_command s = Some (cmd, args) \<longrightarrow>
      concat (cmd # args) = filter (\<lambda>c. \<not> is_blank c) s \<and>
      (\<forall>w \<in> set (cmd # args). w \<noteq> [] \<and> (\<forall>c \<in> set w. \<not> is_blank c))) \<and>
   (s = join '' '' (w # ws) \<and> \<not> needs_shell s \<and> (\<forall>w \<in> set (w # ws). w \<noteq> [] \<and> (\<forall>c \<in> set w. \<not> is_blank c)) \<longrightarrow>
      tool_command s = Some (w, ws))"
proof (intro conjI impI)
  assume *: "\<not> needs_shell s \<and> tool_command s = Some (cmd, args)"
  then have "split_words s [] = cmd # args" by (auto simp: tool_command_def split: list.splits)
  with split_words_content [of "[]" s] show "concat (cmd # args) = filter (\<lambda>c. \<not> is_blank c) s"
    "\<forall>w \<in> set (cmd # args). w \<noteq> [] \<and> (\<forall>c \<in> set w. \<not> is_blank c)" by simp_all
next
  assume *: "s = join '' '' (w # ws) \<and> \<not> needs_shell s \<and> (\<forall>w \<in> set (w # ws). w \<noteq> [] \<and> (\<forall>c \<in> set w. \<not> is_blank c))"
  then have "split_words s [] = w # ws" using split_words_join [of "w # ws"] by blast
  moreover from * have "\<not> needs_shell s" by blast
  ultimately show "tool_command s = Some (w, ws)" by (simp add: tool_command_def)
qed (simp add: tool_command_def)

theorem tool_command_words_witness:
  "tool_command (join '' '' [''make'', ''-j'', ''2'']) = Some (''make'', [''-j'', ''2'']) \<and>
   tool_command ''a|b'' = Some (''/bin/sh'', [''-c'', ''a|b'']) \<and>
   tool_command [CHR ''e'', CHR '' '', dquote, CHR ''a'', CHR '' '', CHR ''b'', dquote] =
     Some (''e'', [[dquote, CHR ''a''], [CHR ''b'', dquote]])"
proof -
  have "needs_shell ''a|b''" "\<not> needs_shell (join '' '' [''make'', ''-j'', ''2''])" by code_simp+
  moreover have "tool_command [CHR ''e'', CHR '' '', dquote, CHR ''a'', CHR '' '', CHR ''b'', dquote] =
     Some (''e'', [[dquote, CHR ''a''], [CHR ''b'', dquote]])" by code_simp
  ultimately show ?thesis
    using tool_command_words [of "''a|b''"]
      tool_command_words [of "join '' '' [''make'', ''-j'', ''2'']" _ _ "''make''" "[''-j'', ''2'']"]
    by (simp add: is_blank_def)
qed

text \<open>Fact: the recursion limit is lost. A nested run hands its depth to the child as \<open>--var needle.depth=...\<close>, which
  the child's command line stores under \<open>var.needle.depth\<close>; its own nested stages read \<open>needle.depth\<close>, which
  nothing sets, so in every child the depth is 0 again and \<open>max_depth\<close> never stops the recursion.\<close>

theorem nested_depth_lost:
  "\<exists>a. parse_args (nested_args (''.needle/runs/'' @ run_id) depth with_sheet) = Inr a \<and> a_command a = ''run'' \<and>
     ctx_get (run_context lim cwd cfg_json stem a) ''var.needle.depth'' = clip_value lim (show_int (depth + 1)) \<and>
     nested_depth (run_context lim cwd cfg_json stem a) = 0"
proof -
  let ?kvs = "[(''needle.depth'', show_int (depth + 1))]"
  have "\<exists>a. parse_args (nested_args (''.needle/runs/'' @ run_id) depth with_sheet) = Inr a \<and> a_command a = ''run'' \<and>
    vars a = ?kvs"
    by (cases with_sheet)
      (simp_all add: parse_args_def nested_args_def parse_plain parse_logs_dir parse_var parse_stylesheet_option add_var_def
        default_args_def del: parse_args_loop.simps(2,3))
  then obtain a where a: "parse_args (nested_args (''.needle/runs/'' @ run_id) depth with_sheet) = Inr a"
    "a_command a = ''run''" "vars a = ?kvs" by blast
  have ok: "omap_ok (vars a)" by (simp add: a(3) omap_ok_Cons)
  have "ctx_get (run_context lim cwd cfg_json stem a) ''var.needle.depth'' = clip_value lim (show_int (depth + 1))"
    "ctx_get (run_context lim cwd cfg_json stem a) ''needle.depth'' = []"
    using run_context_get [OF ok] by (simp_all add: a(3) starts_with_def)
  with a show ?thesis by (auto simp: nested_depth_def)
qed

end
