(* ===== verification/Worktree.thy ===== *)
theory Worktree
  imports Process_Handlers Resume_Validator
begin

text \<open>
  \<open>src/worktree/strategy.cpp\<close>: the worktree strategies and the interpolation of path and branch templates; the
  path helpers of \<open>src/handlers/parallel_handler.cpp\<close>; and \<open>src/worktree/manager.cpp\<close>, the operations on
  git worktrees. The program \<open>git\<close> is reached through the process runner of the host, the canonical form of a
  path and the test for a directory are further parameters.
\<close>

section \<open>Strategies\<close>

datatype worktree_strategy = Wt_Off | Wt_Auto | Wt_Manual

definition worktree_strategy_from_string :: "string \<Rightarrow> worktree_strategy" where
  "worktree_strategy_from_string s =
     (let lower = to_lower s in
      if lower = ''auto'' then Wt_Auto else if lower = ''manual'' then Wt_Manual else Wt_Off)"

fun worktree_strategy_to_string :: "worktree_strategy \<Rightarrow> string" where
  "worktree_strategy_to_string Wt_Auto = ''auto''"
| "worktree_strategy_to_string Wt_Manual = ''manual''"
| "worktree_strategy_to_string Wt_Off = ''off''"

section \<open>Templates\<close>

text \<open>\<open>tmpl\<close> is the whole template, for the error messages; the loop runs over the rest of it.\<close>

function interpolate :: "string \<Rightarrow> (string, string) omap \<Rightarrow> string \<Rightarrow> string result" where
  "interpolate tmpl params s =
     (if take 2 s = ''${'' then
        (case find_char (CHR ''}'') (drop 2 s) of
           None \<Rightarrow> failure (''unterminated `${` in template: '' @ tmpl)
         | Some n \<Rightarrow>
             (case map_of params (take n (drop 2 s)) of
                None \<Rightarrow> failure (''missing parameter `${'' @ take n (drop 2 s) @ ''}` in template: '' @ tmpl)
              | Some v \<Rightarrow>
                  (case interpolate tmpl params (drop (n + 3) s) of
                     Inl e \<Rightarrow> failure e
                   | Inr out \<Rightarrow> success (v @ out))))
      else case s of
          [] \<Rightarrow> success []
        | c # rest \<Rightarrow>
            (case interpolate tmpl params rest of Inl e \<Rightarrow> failure e | Inr out \<Rightarrow> success (c # out)))"
  by pat_completeness auto
termination
proof (relation "measure (\<lambda>(tmpl, params, s). length s)", goal_cases)
  case (2 tmpl params s n v)
  then have "s \<noteq> []" by auto
  then show ?case by simp
qed auto

declare interpolate.simps [simp del]

definition interpolate_template :: "string \<Rightarrow> (string, string) omap \<Rightarrow> string result" where
  "interpolate_template tmpl params = interpolate tmpl params tmpl"

text \<open>A template as a list of literal pieces and references, and its text.\<close>

datatype piece = Lit string | Ref string

fun piece_text :: "piece \<Rightarrow> string" where
  "piece_text (Lit s) = s"
| "piece_text (Ref v) = ''${'' @ v @ ''}''"

definition piece_ok :: "piece \<Rightarrow> bool" where
  "piece_ok p = (case p of Lit s \<Rightarrow> CHR ''$'' \<notin> set s | Ref v \<Rightarrow> CHR ''}'' \<notin> set v)"

fun piece_value :: "(string, string) omap \<Rightarrow> piece \<Rightarrow> string option" where
  "piece_value params (Lit s) = Some s"
| "piece_value params (Ref v) = map_of params v"

lemma find_char_first: "c \<notin> set v \<Longrightarrow> find_char c (v @ c # s) = Some (length v)"
  by (induction v) auto

lemma drop_reference: "drop (length v + 3) (''${'' @ v @ ''}'' @ s) = s"
  by (simp add: numeral_3_eq_3)

lemma interpolate_ref:
  assumes "CHR ''}'' \<notin> set v"
  shows "interpolate tmpl params (''${'' @ v @ ''}'' @ s) =
    (case map_of params v of
       None \<Rightarrow> failure (''missing parameter `${'' @ v @ ''}` in template: '' @ tmpl)
     | Some x \<Rightarrow> (case interpolate tmpl params s of Inl e \<Rightarrow> failure e | Inr out \<Rightarrow> success (x @ out)))"
proof -
  have t: "take 2 (''${'' @ v @ ''}'' @ s) = ''${''" by simp
  have d: "drop 2 (''${'' @ v @ ''}'' @ s) = v @ CHR ''}'' # s" by simp
  have v: "take (length v) (v @ CHR ''}'' # s) = v" by simp
  show ?thesis
    by (subst interpolate.simps)
      (simp only: t d v find_char_first [OF assms] drop_reference if_True option.case simp_thms)
qed

lemma interpolate_other:
  assumes "c \<noteq> CHR ''$''"
  shows "interpolate tmpl params (c # s) =
    (case interpolate tmpl params s of Inl e \<Rightarrow> failure e | Inr out \<Rightarrow> success (c # out))"
proof -
  have "take 2 (c # s) \<noteq> ''${''" using assms by (simp add: numeral_2_eq_2)
  then show ?thesis by (subst interpolate.simps) (simp only: if_False list.case)
qed

lemma interpolate_lit:
  assumes "CHR ''$'' \<notin> set l"
  shows "interpolate tmpl params (l @ s) =
    (case interpolate tmpl params s of Inl e \<Rightarrow> failure e | Inr out \<Rightarrow> success (l @ out))"
  using assms
proof (induction l)
  case (Cons c l)
  then show ?case by (auto simp: interpolate_other split: sum.split)
qed (simp split: sum.split)

lemma interpolate_Nil: "interpolate tmpl params [] = success []"
  by (subst interpolate.simps) simp

text \<open>Fact: templates. The text of a template made of literal pieces (without dollar signs) and references is
  interpolated piece by piece: it succeeds exactly if every referenced parameter is given, and then each
  reference is replaced by its value as it stands, which is not interpolated again.\<close>

theorem interpolate_pieces:
  assumes "list_all piece_ok ps"
  shows "(case those (map (piece_value params) ps) of
      Some vs \<Rightarrow> interpolate tmpl params (concat (map piece_text ps)) = success (concat vs)
    | None \<Rightarrow> \<not> is_ok (interpolate tmpl params (concat (map piece_text ps))))"
  using assms
proof (induction ps)
  case (Cons p ps)
  let ?rest = "concat (map piece_text ps)"
  have IH: "case those (map (piece_value params) ps) of
      Some vs \<Rightarrow> interpolate tmpl params ?rest = success (concat vs)
    | None \<Rightarrow> \<not> is_ok (interpolate tmpl params ?rest)" using Cons by simp
  show ?case
  proof (cases p)
    case (Lit l)
    then have "CHR ''$'' \<notin> set l" using Cons.prems by (simp add: piece_ok_def)
    from interpolate_lit [OF this, of tmpl params ?rest] IH Lit show ?thesis
      by (auto split: option.splits sum.splits)
  next
    case (Ref v)
    then have "CHR ''}'' \<notin> set v" using Cons.prems by (simp add: piece_ok_def)
    from interpolate_ref [OF this, of tmpl params ?rest] IH Ref show ?thesis
      by (auto split: option.splits sum.splits)
  qed
qed (simp add: interpolate_Nil)

theorem interpolate_pieces_witness:
  "interpolate_template ''wt-${run}-${b}'' [(''b'', ''x${run}''), (''run'', ''7'')] = success ''wt-7-x${run}''"
  using interpolate_pieces [where ps = "[Lit ''wt-'', Ref ''run'', Lit ''-'', Ref ''b'']"
      and params = "[(''b'', ''x${run}''), (''run'', ''7'')]" and tmpl = "''wt-${run}-${b}''"]
  by (simp add: piece_ok_def interpolate_template_def)

section \<open>Paths\<close>

definition is_slash :: "char \<Rightarrow> bool" where
  "is_slash c = (c = CHR ''/'' \<or> c = CHR 0x5C)"

text \<open>The path without trailing slashes; its first character is kept.\<close>

definition strip_slashes :: "string \<Rightarrow> string" where
  "strip_slashes path = (case path of [] \<Rightarrow> [] | c # rest \<Rightarrow> c # rtrim is_slash rest)"

definition basename_of :: "string \<Rightarrow> string" where
  "basename_of path = rev (takeWhile (\<lambda>c. \<not> is_slash c) (rev (strip_slashes path)))"

definition parent_of :: "string \<Rightarrow> string" where
  "parent_of path =
     (let p = strip_slashes path in
      if path = [] \<or> (\<forall>c \<in> set p. \<not> is_slash c) then ''.''
      else let slash = length p - length (basename_of path) - 1
           in if slash = 0 then take 1 path else take slash path)"

section \<open>The worktree manager\<close>

record 'w worktree_host = "'w host" +
  canonical :: "string \<Rightarrow> 'w \<Rightarrow> string"
  dir_exists :: "string \<Rightarrow> 'w \<Rightarrow> bool"

record worktree_config =
  strategy :: worktree_strategy
  wt_branch :: string
  wt_path :: string

record worktree_ready_info =
  ready_path :: string
  ready_branch :: string
  created_now :: bool

text \<open>\<open>run_git\<close>: the output of both streams and the exit code, \<open>-1\<close> if the program could not be started.\<close>

definition run_git :: "'w worktree_host \<Rightarrow> string \<Rightarrow> string list \<Rightarrow> 'w \<Rightarrow> (string \<times> int) \<times> 'w" where
  "run_git host cwd args w =
     (let (r, w) = run_process host ''git'' args cwd 30000 0 w in
      case r of
        Inl e \<Rightarrow> (([], - 1), w)
      | Inr p \<Rightarrow> ((stdout_output p @ stderr_output p, exit_code p), w))"

text \<open>\<open>std::getline\<close> until the end of the text.\<close>

fun getlines :: "string \<Rightarrow> string \<Rightarrow> string list" where
  "getlines [] ln = (if ln = [] then [] else [ln])"
| "getlines (c # cs) ln = (if c = CHR 0x0A then ln # getlines cs [] else getlines cs (ln @ [c]))"

fun parse_worktree_lines :: "string list \<Rightarrow> string \<Rightarrow> (string, string) omap \<Rightarrow> (string, string) omap" where
  "parse_worktree_lines [] current_path out = out"
| "parse_worktree_lines (ln # rest) current_path out =
     (if starts_with ''worktree '' ln then
        let current_path = drop 9 ln in parse_worktree_lines rest current_path (omap_set current_path [] out)
      else if starts_with ''branch '' ln \<and> current_path \<noteq> [] then
        let ref = drop 7 ln;
            ref = (if starts_with ''refs/heads/'' ref then drop 11 ref else ref)
        in parse_worktree_lines rest current_path (omap_set current_path ref out)
      else if ln = [] then parse_worktree_lines rest [] out
      else parse_worktree_lines rest current_path out)"

definition parse_worktree_list :: "string \<Rightarrow> (string, string) omap" where
  "parse_worktree_list txt = parse_worktree_lines (getlines txt []) [] []"

definition is_line_end :: "char \<Rightarrow> bool" where
  "is_line_end c = (c = CHR 0x0A \<or> c = CHR 0x0D)"

definition ensure_ready ::
  "'w worktree_host \<Rightarrow> string \<Rightarrow> worktree_config \<Rightarrow> 'w \<Rightarrow> worktree_ready_info result \<times> 'w" where
  "ensure_ready host repo cfg w =
     (if wt_path cfg = [] \<or> wt_branch cfg = [] then
        (failure ''WorktreeConfig requires non-empty path and branch'', w)
      else
        let ((txt, code), w) = run_git host repo [''rev-parse'', ''--is-bare-repository''] w in
        if code \<noteq> 0 then (failure (''launch directory is not a git repo: '' @ repo), w)
        else if rtrim is_line_end txt = ''true'' then (failure (''cannot create worktree from a bare repo: '' @ repo), w)
        else
          let ((txt, code), w) = run_git host repo [''worktree'', ''list'', ''--porcelain''] w;
              same = (\<lambda>kv. canonical host (fst kv) w = canonical host (wt_path cfg) w)
          in case find same (parse_worktree_list txt) of
               Some kv \<Rightarrow>
                 if snd kv \<noteq> wt_branch cfg then
                   (failure (''worktree at '' @ wt_path cfg @ '' is on branch '' @ quoted (snd kv) @
                      '' but expected branch '' @ quoted (wt_branch cfg) @ '' '' @ em_dash @
                      '' refusing to switch automatically''), w)
                 else (success \<lparr>ready_path = wt_path cfg, ready_branch = wt_branch cfg, created_now = False\<rparr>, w)
             | None \<Rightarrow>
                 if dir_exists host (wt_path cfg) w then
                   (failure (''directory already exists at '' @ wt_path cfg @
                      '' but is not a registered git worktree '' @ em_dash @ '' refusing to overwrite''), w)
                 else
                   let ((txt, code), w) = run_git host repo [''worktree'', ''add'', wt_path cfg, ''-b'', wt_branch cfg] w in
                   if code \<noteq> 0 then (failure (''git worktree add failed: '' @ txt), w)
                   else (success \<lparr>ready_path = wt_path cfg, ready_branch = wt_branch cfg, created_now = True\<rparr>, w))"

definition remove_worktree :: "'w worktree_host \<Rightarrow> string \<Rightarrow> 'w \<Rightarrow> unit result \<times> 'w" where
  "remove_worktree host path w =
     (let ((txt, code), w) = run_git host path [''rev-parse'', ''--git-common-dir''] w in
      if code \<noteq> 0 then (failure (''not inside a worktree: '' @ path), w)
      else
        let ((txt, code), w) = run_git host path [''worktree'', ''remove'', path] w in
        if code \<noteq> 0 then (failure (''git worktree remove failed: '' @ txt), w) else (success (), w))"

definition is_active_worktree :: "'w worktree_host \<Rightarrow> string \<Rightarrow> 'w \<Rightarrow> bool \<times> 'w" where
  "is_active_worktree host path w =
     (let ((txt, code), w) = run_git host path [''rev-parse'', ''--is-inside-work-tree''] w in
      (code = 0 \<and> rtrim is_line_end txt = ''true'', w))"

end
