(* ===== verification/Diagnose.thy ===== *)
theory Diagnose
  imports Worktree
begin

text \<open>
  \<open>src/troubleshoot/diagnose.cpp\<close>: what is known of a failed stage, read from the run directory, and how its
  failure is classified and described. The files, the JSON parser, git and the process table are parameters.
\<close>

section \<open>Kinds of failure and the signals\<close>

datatype failure_kind =
    Unknown | IdleStallNoWorkSalvageable | IdleStallWorkOnDisk | IdleStallWorkCommitted | WallClockWithProgress
  | WallClockWithoutOwnProgress | SelfExitError | PromptBlowup | RolePromptConflict | VariableCorrupted
  | OrphanedSubprocesses | CherryPickConflict

fun failure_kind_string :: "failure_kind \<Rightarrow> string" where
  "failure_kind_string IdleStallNoWorkSalvageable = ''idle_stall_clean''"
| "failure_kind_string IdleStallWorkOnDisk = ''idle_stall_with_uncommitted_work''"
| "failure_kind_string IdleStallWorkCommitted = ''idle_stall_with_committed_work''"
| "failure_kind_string WallClockWithProgress = ''wall_clock_with_progress''"
| "failure_kind_string WallClockWithoutOwnProgress = ''wall_clock_without_own_progress''"
| "failure_kind_string SelfExitError = ''self_exit_error''"
| "failure_kind_string PromptBlowup = ''prompt_blowup''"
| "failure_kind_string RolePromptConflict = ''role_prompt_conflict''"
| "failure_kind_string VariableCorrupted = ''variable_corrupted''"
| "failure_kind_string OrphanedSubprocesses = ''orphaned_subprocesses''"
| "failure_kind_string CherryPickConflict = ''cherry_pick_conflict''"
| "failure_kind_string Unknown = ''unknown''"

record commit_entry =
  commit_hash :: string
  subject :: string

record signals =
  d_current_node :: string
  d_completed :: "string list"
  d_last_outcome :: string
  d_graph_file :: string
  d_failed_node :: string
  d_status :: string
  d_output :: string
  d_prompt_kb :: int
  d_prompt_present :: bool
  d_response_present :: bool
  d_response_bytes :: int
  d_timeout_kind :: string
  d_conflict :: bool
  d_timed_out :: bool
  d_exit_code :: int
  d_stdout_bytes :: int
  d_commits :: "commit_entry list"
  d_own_commits :: "commit_entry list"
  d_start_commit :: string
  d_untracked :: "string list"
  d_modified :: "string list"
  d_role :: "string list"
  d_impl :: "string list"
  d_vars :: "string list"
  d_pid :: int
  d_pid_alive :: bool
  d_descendants :: "int list"

definition no_signals :: signals where
  "no_signals = \<lparr>d_current_node = [], d_completed = [], d_last_outcome = [], d_graph_file = [], d_failed_node = [],
     d_status = [], d_output = [], d_prompt_kb = 0, d_prompt_present = False, d_response_present = False,
     d_response_bytes = 0, d_timeout_kind = [], d_conflict = False, d_timed_out = False, d_exit_code = 0,
     d_stdout_bytes = 0, d_commits = [], d_own_commits = [], d_start_commit = [], d_untracked = [], d_modified = [],
     d_role = [], d_impl = [], d_vars = [], d_pid = 0, d_pid_alive = False, d_descendants = []\<rparr>"

text \<open>
  What the code asks the system: the regular files, the JSON parser, the exit code of
  \<open>git -C dir merge-base --is-ancestor a b\<close> (\<open>None\<close>: git did not run), live processes and their descendants.
\<close>

record run_world =
  disk :: "string \<Rightarrow> string option"
  parse_json :: "string \<Rightarrow> json option"
  is_ancestor :: "string \<Rightarrow> string \<Rightarrow> string \<Rightarrow> int option"
  alive :: "int \<Rightarrow> bool"
  descendants :: "int \<Rightarrow> int list"

section \<open>Reading prompts and logs\<close>

definition infer_project_dir :: "string \<Rightarrow> string" where
  "infer_project_dir rdir =
     (case find_sub ''/.needle/'' rdir of
        Some n \<Rightarrow> take n rdir
      | None \<Rightarrow> (case find_char (CHR ''/'') (rev rdir) of
            None \<Rightarrow> ''.''
          | Some k \<Rightarrow> take (length rdir - 1 - k) rdir))"

fun strip_quoted :: "bool \<Rightarrow> string \<Rightarrow> string" where
  "strip_quoted in_quote [] = []"
| "strip_quoted in_quote (c # cs) =
     (if c = dquote then strip_quoted (\<not> in_quote) cs
      else if \<not> in_quote then c # strip_quoted in_quote cs else strip_quoted in_quote cs)"

fun strip_lines :: "bool \<Rightarrow> bool \<Rightarrow> string list \<Rightarrow> string" where
  "strip_lines strip_quotes in_fence [] = []"
| "strip_lines strip_quotes in_fence (l # ls) =
     (if starts_with ''```'' (trim l) then strip_lines strip_quotes (\<not> in_fence) ls
      else if in_fence then strip_lines strip_quotes in_fence ls
      else (if strip_quotes then strip_quoted False l else l) @ [newline] @ strip_lines strip_quotes in_fence ls)"

definition strip_fences_and_quotes :: "string \<Rightarrow> bool \<Rightarrow> string" where
  "strip_fences_and_quotes input strip_quotes = strip_lines strip_quotes False (getlines input [])"

definition contains_ci :: "string \<Rightarrow> string \<Rightarrow> bool" where
  "contains_ci haystack pat = (find_sub (to_lower pat) (to_lower haystack) \<noteq> None)"

definition role_keywords :: "string list" where
  "role_keywords = [''reviewer mode'', ''docs mode'', ''must not call write or edit'', ''operating in'']"

definition impl_keywords :: "string list" where
  "impl_keywords = [''commit your changes'', ''run the project'' @ [squote] @ ''s test suite'', ''after completing your implementation'']"

definition scan_prompt_fingerprints :: "string \<Rightarrow> string list \<times> string list" where
  "scan_prompt_fingerprints prompt_text =
     (let filtered = strip_fences_and_quotes prompt_text True
      in (filter (contains_ci filtered) role_keywords, filter (contains_ci filtered) impl_keywords))"

definition var_char :: "char \<Rightarrow> bool" where
  "var_char c = (is_alnum c \<or> c = CHR ''_'' \<or> c = CHR ''.'' \<or> c = CHR ''-'')"

text \<open>The search for \<open>$var.\<close>, which goes on right after each hit.\<close>

function var_refs :: "string \<Rightarrow> string list" where
  "var_refs [] = []"
| "var_refs (c # cs) =
     (if starts_with ''$var.'' (c # cs) then
        let rest = drop 5 (c # cs); name = takeWhile var_char rest
        in (if name = [] then [] else [name]) @ var_refs rest
      else var_refs cs)"
  by pat_completeness auto
termination by (relation "measure length") auto

definition marker :: string where
  "marker = ''[VARIABLE_UNRESOLVED]''"

definition log_line_var :: "string \<Rightarrow> string list" where
  "log_line_var ln =
     (if find_sub marker ln = None then []
      else case find_sub ''$var.'' ln of
          None \<Rightarrow> []
        | Some p \<Rightarrow> (let name = takeWhile var_char (drop (p + 5) ln) in if name = [] then [] else [name]))"

definition log_vars :: "string option \<Rightarrow> string list" where
  "log_vars log =
     (case log of
        None \<Rightarrow> []
      | Some txt \<Rightarrow> if find_sub marker txt = None then [] else concat (map log_line_var (getlines txt [])))"

text \<open>The names go through a \<open>std::set\<close>: sorted and without repetition.\<close>

definition scan_unresolved_vars :: "run_world \<Rightarrow> string \<Rightarrow> string \<Rightarrow> string \<Rightarrow> string list" where
  "scan_unresolved_vars w rdir failed_node prompt_text =
     remdups (sort (var_refs (strip_fences_and_quotes prompt_text False) @
       concat (map (\<lambda>p. log_vars (disk w p)) [rdir @ ''/debug.log'', rdir @ ''/stages/'' @ failed_node @ ''/debug.log''])))"

section \<open>Filling the signals\<close>

text \<open>
  The body of a \<open>try\<close> block: each action changes the signals or throws; what was filled before the throw stays.
\<close>

type_synonym 's attempt = "'s \<Rightarrow> 's \<times> bool"

definition and_then :: "'s attempt \<Rightarrow> 's attempt \<Rightarrow> 's attempt" where
  "and_then f g s = (case f s of (s', True) \<Rightarrow> g s' | (s', False) \<Rightarrow> (s', False))"

fun try_all :: "'s attempt list \<Rightarrow> 's attempt" where
  "try_all [] s = (s, True)"
| "try_all (f # fs) s = and_then f (try_all fs) s"

definition read_value :: "json \<Rightarrow> string \<Rightarrow> (string \<Rightarrow> 's \<Rightarrow> 's) \<Rightarrow> 's attempt" where
  "read_value j k upd s = (case json_value_string j k of Inl _ \<Rightarrow> (s, False) | Inr v \<Rightarrow> (upd v s, True))"

definition read_text :: "json \<Rightarrow> (string \<Rightarrow> 's \<Rightarrow> 's) \<Rightarrow> 's attempt" where
  "read_text j upd s = (case json_string j of Inl _ \<Rightarrow> (s, False) | Inr v \<Rightarrow> (upd v s, True))"

text \<open>\<open>for (x : j)\<close>: the elements of an array, the values of an object, a scalar itself.\<close>

fun json_elems :: "json \<Rightarrow> json list" where
  "json_elems (JArr xs) = xs"
| "json_elems (JObj kvs) = map snd kvs"
| "json_elems JNull = []"
| "json_elems j = [j]"

definition read_each :: "json option \<Rightarrow> (json \<Rightarrow> 's attempt) \<Rightarrow> 's attempt" where
  "read_each j f = (case j of None \<Rightarrow> try_all [] | Some v \<Rightarrow> try_all (map f (json_elems v)))"

definition read_commit :: "json \<Rightarrow> signals attempt" where
  "read_commit c s =
     (case (json_value_string c ''hash'', json_value_string c ''subject'') of
        (Inr h, Inr t) \<Rightarrow> (s\<lparr>d_commits := d_commits s @ [\<lparr>commit_hash = h, subject = t\<rparr>]\<rparr>, True)
      | _ \<Rightarrow> (s, False))"

definition read_git_state :: "(string \<times> json) list \<Rightarrow> signals attempt" where
  "read_git_state gs = try_all
     [read_each (map_of gs ''commits_added'') read_commit,
      read_each (map_of gs ''files_added_untracked'')
        (\<lambda>f. read_text f (\<lambda>v s. s\<lparr>d_untracked := d_untracked s @ [v]\<rparr>)),
      read_each (map_of gs ''files_modified_uncommitted'')
        (\<lambda>f. read_text f (\<lambda>v s. s\<lparr>d_modified := d_modified s @ [v]\<rparr>))]"

definition read_status :: "json \<Rightarrow> signals attempt" where
  "read_status j = try_all
     [read_value j ''status'' (\<lambda>v s. s\<lparr>d_status := v\<rparr>),
      read_value j ''output'' (\<lambda>v s. s\<lparr>d_output := v\<rparr>),
      read_value j ''timeout_kind'' (\<lambda>v s. s\<lparr>d_timeout_kind := v, d_timed_out := v \<noteq> []\<rparr>),
      (\<lambda>s. (s\<lparr>d_conflict := (json_find j ''cherry_pick_conflict'' \<noteq> None)\<rparr>, True)),
      (case json_find j ''git_state'' of Some (JObj gs) \<Rightarrow> read_git_state gs | _ \<Rightarrow> try_all [])]"

text \<open>\<open>file_size_bytes\<close>, an \<open>int\<close>.\<close>

definition size_bytes :: "string \<Rightarrow> int" where
  "size_bytes txt = wrap32 (int (length txt))"

definition quot_int :: "int \<Rightarrow> int \<Rightarrow> int" where
  "quot_int a b = (if a < 0 then - ((- a) div b) else a div b)"

text \<open>Commits made by the stage itself; the answers of git are cached by hash.\<close>

definition is_own_commit :: "run_world \<Rightarrow> string \<Rightarrow> string \<Rightarrow> string \<Rightarrow> (string \<times> bool) list \<Rightarrow> bool \<times> (string \<times> bool) list" where
  "is_own_commit w pdir start h cache =
     (if start = [] \<or> h = [] then (True, cache)
      else case map_of cache h of
          Some own \<Rightarrow> (own, cache)
        | None \<Rightarrow> (let own = (is_ancestor w pdir h start \<noteq> Some 0) in (own, (h, own) # cache)))"

fun own_commits :: "run_world \<Rightarrow> string \<Rightarrow> string \<Rightarrow> (string \<times> bool) list \<Rightarrow> commit_entry list \<Rightarrow> commit_entry list" where
  "own_commits w pdir start cache [] = []"
| "own_commits w pdir start cache (c # cs) =
     (let (own, cache) = is_own_commit w pdir start (commit_hash c) cache
      in (if own then [c] else []) @ own_commits w pdir start cache cs)"

definition process_alive :: "run_world \<Rightarrow> int \<Rightarrow> bool" where
  "process_alive w pid = (0 < pid \<and> alive w pid)"

definition fill_status :: "run_world \<Rightarrow> string \<Rightarrow> signals \<Rightarrow> signals" where
  "fill_status w sdir s =
     (case disk w (sdir @ ''/status.json'') of
        None \<Rightarrow> s
      | Some txt \<Rightarrow> (case parse_json w txt of None \<Rightarrow> s | Some j \<Rightarrow> fst (read_status j s)))"

definition fill_prompt :: "run_world \<Rightarrow> string \<Rightarrow> string \<Rightarrow> signals \<Rightarrow> signals" where
  "fill_prompt w rdir sdir s =
     (case disk w (sdir @ ''/prompt.md'') of
        None \<Rightarrow> s\<lparr>d_prompt_present := False\<rparr>
      | Some txt \<Rightarrow>
          let (roles, impls) = scan_prompt_fingerprints txt
          in s\<lparr>d_prompt_present := True, d_prompt_kb := quot_int (size_bytes txt) 1024, d_role := d_role s @ roles,
               d_impl := d_impl s @ impls, d_vars := scan_unresolved_vars w rdir (d_failed_node s) txt\<rparr>)"

definition fill_response :: "run_world \<Rightarrow> string \<Rightarrow> signals \<Rightarrow> signals" where
  "fill_response w sdir s =
     (case disk w (sdir @ ''/response.md'') of
        None \<Rightarrow> s\<lparr>d_response_present := False\<rparr>
      | Some txt \<Rightarrow> s\<lparr>d_response_present := True, d_response_bytes := size_bytes txt, d_stdout_bytes := size_bytes txt\<rparr>)"

definition fill_own_commits :: "run_world \<Rightarrow> string \<Rightarrow> signals \<Rightarrow> signals" where
  "fill_own_commits w rdir s =
     s\<lparr>d_own_commits :=
         (if d_start_commit s = [] then d_commits s
          else d_own_commits s @ own_commits w (infer_project_dir rdir) (d_start_commit s) [] (d_commits s))\<rparr>"

definition fill_engine :: "run_world \<Rightarrow> string \<Rightarrow> signals \<Rightarrow> signals" where
  "fill_engine w rdir s =
     (case disk w (rdir @ ''/engine.pid'') of
        None \<Rightarrow> s
      | Some txt \<Rightarrow>
          let pid = atoi (trim txt); is_alive = process_alive w pid
          in s\<lparr>d_pid := pid, d_pid_alive := is_alive,
               d_descendants := (if is_alive then descendants w pid else d_descendants s)\<rparr>)"

definition fill_stage_signals :: "run_world \<Rightarrow> string \<Rightarrow> string \<Rightarrow> signals \<Rightarrow> signals" where
  "fill_stage_signals w rdir failed_node s =
     (let s = s\<lparr>d_failed_node := failed_node\<rparr> in
      if failed_node = [] then s
      else
        let sdir = rdir @ ''/stages/'' @ failed_node;
            s = fill_status w sdir s;
            s = (case disk w (sdir @ ''/start_commit.txt'') of None \<Rightarrow> s | Some txt \<Rightarrow> s\<lparr>d_start_commit := trim txt\<rparr>);
            s = fill_prompt w rdir sdir s;
            s = fill_response w sdir s;
            s = s\<lparr>d_exit_code := (if d_status s = ''FAILURE'' then 1 else 0)\<rparr>;
            s = fill_own_commits w rdir s
        in fill_engine w rdir s)"

definition read_checkpoint :: "json \<Rightarrow> signals attempt" where
  "read_checkpoint j = try_all
     [read_value j ''current_node'' (\<lambda>v s. s\<lparr>d_current_node := v\<rparr>),
      read_value j ''graph_file'' (\<lambda>v s. s\<lparr>d_graph_file := v\<rparr>),
      read_each (json_find j ''completed_nodes'') (\<lambda>n. read_text n (\<lambda>v s. s\<lparr>d_completed := d_completed s @ [v]\<rparr>)),
      (case json_find j ''context'' of
         Some (JObj c) \<Rightarrow>
           (case map_of c ''needle.last_outcome.status'' of
              Some v \<Rightarrow> read_text v (\<lambda>v s. s\<lparr>d_last_outcome := v\<rparr>)
            | None \<Rightarrow> try_all [])
       | _ \<Rightarrow> try_all [])]"

definition collect :: "run_world \<Rightarrow> string \<Rightarrow> string \<Rightarrow> signals" where
  "collect w rdir failed_node_in =
     (let s = (case disk w (rdir @ ''/checkpoint.json'') of
                 None \<Rightarrow> no_signals
               | Some txt \<Rightarrow> (case parse_json w txt of None \<Rightarrow> no_signals | Some j \<Rightarrow> fst (read_checkpoint j no_signals)));
          failed_node = (if failed_node_in = [] then d_current_node s else failed_node_in)
      in fill_stage_signals w rdir failed_node s)"

section \<open>Classification\<close>

definition classify :: "signals \<Rightarrow> failure_kind" where
  "classify s =
     (let has_own_commits = d_own_commits s \<noteq> []; has_any_commits = d_commits s \<noteq> [];
          has_uncommitted = (d_untracked s \<noteq> [] \<or> d_modified s \<noteq> []) in
      if d_conflict s then CherryPickConflict
      else if 200 \<le> d_prompt_kb s then PromptBlowup
      else if d_role s \<noteq> [] \<and> d_impl s \<noteq> [] then RolePromptConflict
      else if d_timed_out s \<and> d_timeout_kind s = ''wall_clock'' \<and> \<not> has_own_commits then WallClockWithoutOwnProgress
      else if d_timed_out s \<and> d_timeout_kind s = ''wall_clock'' \<and> has_own_commits then WallClockWithProgress
      else if d_timed_out s \<and> (d_timeout_kind s = ''idle'' \<or> d_timeout_kind s = ''wall_clock'') then
        if has_any_commits then IdleStallWorkCommitted
        else if has_uncommitted then IdleStallWorkOnDisk
        else IdleStallNoWorkSalvageable
      else if d_vars s \<noteq> [] then VariableCorrupted
      else if d_status s = ''FAILURE'' then SelfExitError
      else Unknown)"

text \<open>The graph of the run, by the parser and the builder of the engine.\<close>

definition read_graph_from_file :: "run_world \<Rightarrow> string \<Rightarrow> graph option" where
  "read_graph_from_file w gfile =
     (if gfile = [] then None
      else case disk w gfile of
          None \<Rightarrow> None
        | Some [] \<Rightarrow> None
        | Some source \<Rightarrow> (case parse_dot source of Some (Inr ast) \<Rightarrow> Some (build_graph ast) | _ \<Rightarrow> None))"

record branch_diagnosis =
  child_node_id :: string
  child_kind :: failure_kind
  child_signals :: signals

record diagnosis_report =
  report_signals :: signals
  report_kind :: failure_kind
  report_children :: "branch_diagnosis list"

definition diagnose_child :: "run_world \<Rightarrow> string \<Rightarrow> signals \<Rightarrow> edge \<Rightarrow> branch_diagnosis list" where
  "diagnose_child w rdir s e =
     (if eto e \<in> set (d_completed s) then []
      else
        let c = collect w rdir (eto e) in
        if d_failed_node c = [] then []
        else if \<not> (d_status c = ''FAILURE'' \<or> d_timed_out c) then []
        else [\<lparr>child_node_id = eto e, child_kind = classify c, child_signals = c\<rparr>])"

definition collect_report :: "run_world \<Rightarrow> string \<Rightarrow> string \<Rightarrow> diagnosis_report" where
  "collect_report w rdir failed_node =
     (let s = collect w rdir failed_node in
      if d_failed_node s = [] then \<lparr>report_signals = s, report_kind = Unknown, report_children = []\<rparr>
      else
        let r = \<lparr>report_signals = s, report_kind = classify s, report_children = []\<rparr> in
        case read_graph_from_file w (d_graph_file s) of
          None \<Rightarrow> r
        | Some g \<Rightarrow>
            (case find_node g (d_failed_node s) of
               None \<Rightarrow> r
             | Some failed \<Rightarrow>
                 if ntype failed \<noteq> PARALLEL then r
                 else r\<lparr>report_children := concat (map (diagnose_child w rdir s) (outgoing_edges g (node_id failed)))\<rparr>))"


section \<open>What the actions keep\<close>

lemma attempts_keep: "(\<And>f s. f \<in> set fs \<Longrightarrow> view (fst (f s)) = view s) \<Longrightarrow> view (fst (try_all fs s)) = view s"
proof (induction fs arbitrary: s)
  case (Cons f fs)
  obtain s' b where f: "f s = (s', b)" by (rule prod.exhaust)
  have "view s' = view s" using Cons.prems [of f s] f by simp
  moreover have "view (fst (try_all fs s')) = view s'" by (rule Cons.IH) (use Cons.prems in simp)
  ultimately show ?case using f by (cases b) (simp_all add: and_then_def)
qed simp

lemma read_value_keeps: "(\<And>v s. view (upd v s) = view s) \<Longrightarrow> view (fst (read_value j k upd s)) = view s"
  by (simp add: read_value_def split: sum.split)

lemma read_text_keeps: "(\<And>v s. view (upd v s) = view s) \<Longrightarrow> view (fst (read_text j upd s)) = view s"
  by (simp add: read_text_def split: sum.split)

lemma read_each_keeps: "(\<And>x s. view (fst (f x s)) = view s) \<Longrightarrow> view (fst (read_each j f s)) = view s"
  unfolding read_each_def by (cases j) (auto intro!: attempts_keep)

text \<open>The part of the signals that does not come from the directory of the stage.\<close>

definition from_checkpoint :: "signals \<Rightarrow> string \<times> string list \<times> string \<times> string \<times> string" where
  "from_checkpoint s = (d_current_node s, d_completed s, d_last_outcome s, d_graph_file s, d_failed_node s)"

lemma read_git_state_keeps: "from_checkpoint (fst (read_git_state gs s)) = from_checkpoint s"
proof -
  have "from_checkpoint (fst (read_commit c s)) = from_checkpoint s" for c s
    by (simp add: read_commit_def from_checkpoint_def split: sum.split)
  moreover have "from_checkpoint (s\<lparr>d_untracked := d_untracked s @ [v]\<rparr>) = from_checkpoint s"
    "from_checkpoint (s\<lparr>d_modified := d_modified s @ [v]\<rparr>) = from_checkpoint s" for s v
    by (simp_all add: from_checkpoint_def)
  ultimately show ?thesis unfolding read_git_state_def
    by (intro attempts_keep) (auto intro!: read_each_keeps read_text_keeps)
qed

lemma read_status_keeps: "from_checkpoint (fst (read_status j s)) = from_checkpoint s"
proof -
  have "from_checkpoint (s\<lparr>d_status := v\<rparr>) = from_checkpoint s" "from_checkpoint (s\<lparr>d_output := v\<rparr>) = from_checkpoint s"
    "from_checkpoint (s\<lparr>d_timeout_kind := v, d_timed_out := b\<rparr>) = from_checkpoint s"
    "from_checkpoint (s\<lparr>d_conflict := b\<rparr>) = from_checkpoint s" for s v b
    by (simp_all add: from_checkpoint_def)
  then show ?thesis unfolding read_status_def
    by (intro attempts_keep) (auto intro!: read_value_keeps simp: read_git_state_keeps split: option.splits json.splits)
qed

lemma fill_stage_signals_keeps:
  "from_checkpoint (fill_stage_signals w rdir n s) = from_checkpoint (s\<lparr>d_failed_node := n\<rparr>)"
proof -
  have prompt: "from_checkpoint (fill_prompt w rdir sd s) = from_checkpoint s" for sd s
    by (simp add: fill_prompt_def from_checkpoint_def split: option.split prod.split)
  have status: "from_checkpoint (fill_status w sd s) = from_checkpoint s" for sd s
    using read_status_keeps by (simp add: fill_status_def split: option.split)
  have response: "from_checkpoint (fill_response w sd s) = from_checkpoint s" for sd s
    by (simp add: fill_response_def from_checkpoint_def split: option.split)
  have engine: "from_checkpoint (fill_engine w rdir s) = from_checkpoint s" for s
    by (simp add: fill_engine_def from_checkpoint_def Let_def split: option.split)
  have own: "from_checkpoint (fill_own_commits w rdir s) = from_checkpoint s" for s
    by (simp add: fill_own_commits_def from_checkpoint_def)
  have other: "from_checkpoint (s\<lparr>d_start_commit := v\<rparr>) = from_checkpoint s" "from_checkpoint (s\<lparr>d_exit_code := i\<rparr>) = from_checkpoint s" for s v i
    by (simp_all add: from_checkpoint_def)
  show ?thesis unfolding fill_stage_signals_def Let_def
    by (simp add: prompt status response engine own other split: option.split)
qed

section \<open>Reading back the checkpoint of the engine\<close>

lemma read_texts: "try_all (map (\<lambda>n. read_text n (\<lambda>v s. s\<lparr>d_completed := d_completed s @ [v]\<rparr>)) (map JStr ns)) s =
    (s\<lparr>d_completed := d_completed s @ ns\<rparr>, True)"
  by (induction ns arbitrary: s) (simp_all add: and_then_def read_text_def)

lemma checkpoint_json_fields:
  "json_find (checkpoint_to_json cp) ''current_node'' = Some (JStr (current_node cp))"
  "json_find (checkpoint_to_json cp) ''graph_file'' = Some (JStr (graph_file cp))"
  "json_find (checkpoint_to_json cp) ''completed_nodes'' = Some (JArr (map JStr (completed_nodes cp)))"
  "json_find (checkpoint_to_json cp) ''context'' = Some (context_to_json (cp_context cp))"
  by (simp_all add: checkpoint_to_json_def)

lemma json_value_string_find: "json_find j k = Some (JStr v) \<Longrightarrow> json_value_string j k = Inr v"
  by (cases j) (auto simp: json_find_def)

lemma context_json_find: "\<exists>kvs. context_to_json c = JObj kvs \<and> (omap_ok c \<longrightarrow> map_of kvs k = map_option JStr (map_of c k))"
proof -
  have "\<exists>kvs'. fold (\<lambda>kv. json_set (fst kv) (JStr (snd kv))) m (JObj kvs) = JObj kvs' \<and>
      (distinct (map fst m) \<longrightarrow> map_of kvs' k = (case map_of m k of None \<Rightarrow> map_of kvs k | Some v \<Rightarrow> Some (JStr v)))"
    for m :: ctxt and kvs
  proof (induction m arbitrary: kvs)
    case (Cons a m)
    have "map_of m (fst a) = None" if "distinct (map fst (a # m))" using that by (auto simp: map_of_eq_None_iff)
    with Cons [of "omap_set (fst a) (JStr (snd a)) kvs"] show ?case
      by (auto simp: json_set_def split: option.split)
  qed simp
  from this [of c "[]"] show ?thesis
    by (auto simp: context_to_json_def map_to_json_def omap_ok_distinct split: option.splits)
qed

text \<open>Fact: the diagnosis reads what the engine saved. If the checkpoint file of a run holds the JSON form of a
  checkpoint, the signals have its current node, graph file, completed nodes and last outcome, and the failed
  node is the given one or, if none is given, the checkpoint's current node, whatever else the run directory holds.\<close>

theorem diagnose_reads_checkpoint:
  assumes "disk w (rdir @ ''/checkpoint.json'') = Some txt" and "parse_json w txt = Some (checkpoint_to_json cp)"
    and "checkpoint_ok cp"
  shows "from_checkpoint (collect w rdir failed) =
    (current_node cp, completed_nodes cp, ctx_get (cp_context cp) ''needle.last_outcome.status'', graph_file cp,
     if failed = [] then current_node cp else failed)"
proof -
  have ok: "omap_ok (cp_context cp)" using assms(3) by (simp add: checkpoint_ok_def)
  obtain kvs where kvs: "context_to_json (cp_context cp) = JObj kvs"
    "map_of kvs ''needle.last_outcome.status'' = map_option JStr (map_of (cp_context cp) ''needle.last_outcome.status'')"
    using context_json_find ok by blast
  have "read_checkpoint (checkpoint_to_json cp) no_signals =
    (no_signals\<lparr>d_current_node := current_node cp, d_graph_file := graph_file cp, d_completed := completed_nodes cp,
       d_last_outcome := ctx_get (cp_context cp) ''needle.last_outcome.status''\<rparr>, True)"
    unfolding read_checkpoint_def read_value_def checkpoint_json_fields
      json_value_string_find [OF checkpoint_json_fields(1)] json_value_string_find [OF checkpoint_json_fields(2)]
    by (cases "map_of (cp_context cp) ''needle.last_outcome.status''")
       (simp_all add: and_then_def read_each_def read_texts kvs read_text_def ctx_get_def no_signals_def del: map_map)
  then show ?thesis unfolding collect_def Let_def assms(1) option.case assms(2) fill_stage_signals_keeps
    by (simp add: from_checkpoint_def)
qed


text \<open>A run directory with a checkpoint and nothing else.\<close>

definition one_file :: "string \<Rightarrow> json \<Rightarrow> run_world" where
  "one_file path j = \<lparr>disk = [path \<mapsto> ''x''], parse_json = [''x'' \<mapsto> j], is_ancestor = (\<lambda>_ _ _. None), alive = (\<lambda>_. False), descendants = (\<lambda>_. [])\<rparr>"

definition small_checkpoint :: checkpoint where
  "small_checkpoint = \<lparr>timestamp = [], current_node = ''b'', completed_nodes = [''a''], retry_counters = [],
     cp_context = [(''needle.last_outcome.status'', ''FAILURE'')], graph_file = ''g.dot'', graph_hash = [],
     completed_node_hashes = [], branch_worktrees = [], stylesheet_file = [], logs_root = [], dot_content_hash = []\<rparr>"

theorem diagnose_reads_checkpoint_witness:
  "from_checkpoint (collect (one_file ''r/checkpoint.json'' (checkpoint_to_json small_checkpoint)) ''r'' []) =
     (''b'', [''a''], ''FAILURE'', ''g.dot'', ''b'')"
proof -
  have "checkpoint_ok small_checkpoint" by (simp add: checkpoint_ok_def small_checkpoint_def omap_ok_Cons)
  from diagnose_reads_checkpoint [of "one_file ''r/checkpoint.json'' (checkpoint_to_json small_checkpoint)" "''r''" "''x''", OF _ _ this]
  show ?thesis by (simp add: one_file_def small_checkpoint_def ctx_get_def)
qed

section \<open>Who is to blame for a timeout\<close>

definition own_commit :: "run_world \<Rightarrow> string \<Rightarrow> string \<Rightarrow> commit_entry \<Rightarrow> bool" where
  "own_commit w pdir start c = (start = [] \<or> commit_hash c = [] \<or> is_ancestor w pdir (commit_hash c) start \<noteq> Some 0)"

text \<open>The cache does not change the answers.\<close>

lemma own_commits_filter:
  "\<forall>h own. map_of cache h = Some own \<longrightarrow> own = (is_ancestor w pdir h start \<noteq> Some 0) \<Longrightarrow>
   own_commits w pdir start cache cs = filter (own_commit w pdir start) cs"
proof (induction cs arbitrary: cache)
  case (Cons c cs)
  obtain own cache' where o: "is_own_commit w pdir start (commit_hash c) cache = (own, cache')" by (rule prod.exhaust)
  have "own = own_commit w pdir start c \<and>
      (\<forall>h own. map_of cache' h = Some own \<longrightarrow> own = (is_ancestor w pdir h start \<noteq> Some 0))"
    using o Cons.prems by (auto simp: is_own_commit_def own_commit_def Let_def split: if_splits option.splits) metis+
  with Cons.IH [of cache'] o show ?case by simp
qed simp

lemma fill_engine_keeps:
  "d_own_commits (fill_engine w rdir s) = d_own_commits s" "d_commits (fill_engine w rdir s) = d_commits s"
  "d_start_commit (fill_engine w rdir s) = d_start_commit s"
  by (simp_all add: fill_engine_def Let_def split: option.split)

definition commits_view :: "signals \<Rightarrow> commit_entry list" where
  "commits_view s = d_own_commits s"

definition both_commits :: "signals \<Rightarrow> commit_entry list \<times> commit_entry list" where
  "both_commits s = (d_own_commits s, d_commits s)"

lemma read_status_own: "commits_view (fst (read_status j s)) = commits_view s"
proof -
  have "commits_view (fst (read_commit c s)) = commits_view s" for c s
    by (simp add: read_commit_def commits_view_def split: sum.split)
  moreover have "commits_view (s\<lparr>d_untracked := d_untracked s @ [v]\<rparr>) = commits_view s"
    "commits_view (s\<lparr>d_modified := d_modified s @ [v]\<rparr>) = commits_view s" for s v by (simp_all add: commits_view_def)
  ultimately have git: "commits_view (fst (read_git_state gs s)) = commits_view s" for gs s
    unfolding read_git_state_def by (intro attempts_keep) (auto intro!: read_each_keeps read_text_keeps)
  have "commits_view (s\<lparr>d_status := v\<rparr>) = commits_view s" "commits_view (s\<lparr>d_output := v\<rparr>) = commits_view s"
    "commits_view (s\<lparr>d_timeout_kind := v, d_timed_out := b\<rparr>) = commits_view s" "commits_view (s\<lparr>d_conflict := b\<rparr>) = commits_view s" for s v b
    by (simp_all add: commits_view_def)
  then show ?thesis unfolding read_status_def
    by (intro attempts_keep) (auto intro!: read_value_keeps simp: git split: option.splits json.splits)
qed

text \<open>The own commits of the collected signals are those commits of the stage that are its own.\<close>

lemma collect_own_commits:
  "d_own_commits (collect w rdir failed) =
     filter (own_commit w (infer_project_dir rdir) (d_start_commit (collect w rdir failed))) (d_commits (collect w rdir failed))"
proof -
  have own: "d_own_commits (fill_own_commits w rdir s) =
      filter (own_commit w (infer_project_dir rdir) (d_start_commit (fill_own_commits w rdir s))) (d_commits (fill_own_commits w rdir s))"
    if "commits_view s = []" for s
    using that own_commits_filter [of "[]" w "infer_project_dir rdir" "d_start_commit s" "d_commits s"]
    by (auto simp: fill_own_commits_def commits_view_def own_commit_def intro!: filter_True [symmetric])
  have status: "commits_view (fill_status w sd s) = commits_view s" for sd s
    using read_status_own by (simp add: fill_status_def split: option.split)
  have others: "commits_view (fill_prompt w rdir sd s) = commits_view s" "commits_view (fill_response w sd s) = commits_view s"
    "commits_view (s\<lparr>d_start_commit := v\<rparr>) = commits_view s" "commits_view (s\<lparr>d_exit_code := i\<rparr>) = commits_view s"
    "commits_view (s\<lparr>d_failed_node := v\<rparr>) = commits_view s" for sd s v i
    by (simp_all add: commits_view_def fill_prompt_def fill_response_def split: option.split prod.split)
  have check: "both_commits (fst (read_checkpoint j s)) = both_commits s" for j s
  proof -
    have "both_commits (s\<lparr>d_current_node := v\<rparr>) = both_commits s" "both_commits (s\<lparr>d_graph_file := v\<rparr>) = both_commits s"
      "both_commits (s\<lparr>d_completed := ns\<rparr>) = both_commits s" "both_commits (s\<lparr>d_last_outcome := v\<rparr>) = both_commits s" for s v ns
      by (simp_all add: both_commits_def)
    then show ?thesis unfolding read_checkpoint_def
      by (intro attempts_keep) (auto intro!: read_value_keeps read_each_keeps read_text_keeps split: option.splits json.splits)
  qed
  obtain s n where s: "collect w rdir failed = fill_stage_signals w rdir n s" "both_commits s = ([], [])"
  proof -
    have "both_commits no_signals = ([], [])" by (simp add: both_commits_def no_signals_def)
    then show ?thesis using that check by (fastforce simp: collect_def Let_def split: option.splits)
  qed
  from s(2) have none: "commits_view s = []" "d_own_commits s = []" "d_commits s = []"
    by (simp_all add: both_commits_def commits_view_def)
  show ?thesis
  proof (cases "n = []")
    case False
    obtain s' where "fill_stage_signals w rdir n s = fill_engine w rdir (fill_own_commits w rdir s')" "commits_view s' = []"
      using False none that by (simp add: fill_stage_signals_def Let_def others status split: option.split)
    then show ?thesis unfolding s(1) using own by (simp add: fill_engine_keeps)
  qed (simp add: s(1) fill_stage_signals_def none)
qed

text \<open>Fact: who is to blame for a timeout. A stage that timed out on the wall clock, with no merge conflict, a prompt of
  less than 200 KB and no conflicting instructions, is classified as having made progress if and only if one of
  the commits added during the stage is its own: git does not call it an ancestor of the commit at which the
  stage started, or it cannot be asked because one of the two is unknown.\<close>

theorem wall_clock_blame:
  assumes s: "s = collect w rdir failed"
    and "d_timed_out s" "d_timeout_kind s = ''wall_clock''" "\<not> d_conflict s" "d_prompt_kb s < 200" "d_role s = [] \<or> d_impl s = []"
  shows "classify s =
    (if \<exists>c \<in> set (d_commits s). d_start_commit s = [] \<or> commit_hash c = [] \<or>
          is_ancestor w (infer_project_dir rdir) (commit_hash c) (d_start_commit s) \<noteq> Some 0
     then WallClockWithProgress else WallClockWithoutOwnProgress)"
proof -
  have "d_own_commits s \<noteq> [] \<longleftrightarrow> (\<exists>c \<in> set (d_commits s). own_commit w (infer_project_dir rdir) (d_start_commit s) c)"
    unfolding s by (subst collect_own_commits) (auto simp: filter_empty_conv)
  then show ?thesis using assms(2-) by (auto simp: classify_def own_commit_def Let_def)
qed

text \<open>A stage that timed out after one commit, in a run that recorded where it started.\<close>

definition timeout_world :: "int \<Rightarrow> run_world" where
  "timeout_world k = \<lparr>
     disk = [''p/.needle/r/stages/b/status.json'' \<mapsto> ''x'', ''p/.needle/r/stages/b/start_commit.txt'' \<mapsto> ''c0''],
     parse_json = [''x'' \<mapsto> JObj [(''git_state'', JObj [(''commits_added'', JArr [JObj [(''hash'', JStr ''c1'')]])]),
       (''timeout_kind'', JStr ''wall_clock'')]],
     is_ancestor = (\<lambda>d a b. Some (if d = ''p'' \<and> a = ''c1'' \<and> b = ''c0'' then k else 128)),
     alive = (\<lambda>_. False), descendants = (\<lambda>_. [])\<rparr>"

lemma timeout_collect:
  "collect (timeout_world k) ''p/.needle/r'' ''b'' = no_signals\<lparr>d_failed_node := ''b'', d_timeout_kind := ''wall_clock'',
     d_timed_out := True, d_commits := [\<lparr>commit_hash = ''c1'', subject = []\<rparr>], d_start_commit := ''c0'',
     d_own_commits := (if k \<noteq> 0 then [\<lparr>commit_hash = ''c1'', subject = []\<rparr>] else [])\<rparr>"
  by (simp add: collect_def timeout_world_def fill_stage_signals_def fill_status_def read_status_def read_value_def
      read_each_def read_commit_def read_git_state_def and_then_def json_find_def fill_prompt_def fill_response_def
      fill_own_commits_def is_own_commit_def fill_engine_def no_signals_def infer_project_dir_def starts_with_def
      trim_def is_space_def byte_def)

lemma timeout_ancestor: "is_ancestor (timeout_world k) ''p'' ''c1'' ''c0'' = Some k"
  by (simp add: timeout_world_def)

theorem wall_clock_blame_witness:
  "classify (collect (timeout_world 1) ''p/.needle/r'' ''b'') = WallClockWithProgress \<and>
   classify (collect (timeout_world 0) ''p/.needle/r'' ''b'') = WallClockWithoutOwnProgress"
  using wall_clock_blame [OF refl, of "timeout_world 1" "''p/.needle/r''" "''b''"]
    wall_clock_blame [OF refl, of "timeout_world 0" "''p/.needle/r''" "''b''"]
  by (simp add: timeout_collect timeout_ancestor no_signals_def infer_project_dir_def starts_with_def)

text \<open>An unknown kind of timeout is not kept from the scan for variables, which the comment in the code says it is.\<close>

lemma unknown_timeout_is_variable:
  assumes "d_timed_out s" "d_timeout_kind s \<notin> {''idle'', ''wall_clock''}" "d_vars s \<noteq> []"
    "\<not> d_conflict s" "d_prompt_kb s < 200" "d_role s = [] \<or> d_impl s = []"
  shows "classify s = VariableCorrupted"
  using assms by (auto simp: classify_def)

text \<open>No failure is classified as \<open>OrphanedSubprocesses\<close>, though the reports have texts for it.\<close>

lemma never_orphaned: "classify s \<noteq> OrphanedSubprocesses"
  by (simp add: classify_def Let_def)

section \<open>The branches of a fork\<close>

definition branch_failed_on_disk :: "run_world \<Rightarrow> string \<Rightarrow> string \<Rightarrow> bool" where
  "branch_failed_on_disk w rdir i = (let c = collect w rdir i in i \<noteq> [] \<and> (d_status c = ''FAILURE'' \<or> d_timed_out c))"

lemma collect_failed_node: "i \<noteq> [] \<Longrightarrow> d_failed_node (collect w rdir i) = i"
  using fill_stage_signals_keeps unfolding collect_def Let_def from_checkpoint_def by simp


text \<open>Fact: the report on a failed fork. If the graph of the run can be read and the failed node is a parallel node of it,
  the report lists, in the order of the edges, exactly those targets of the fork that the checkpoint does not
  have as completed and whose stage failed or timed out, each with the classification of its own stage.\<close>

theorem fork_report_children:
  assumes "s = collect w rdir failed" and "d_failed_node s \<noteq> []" and "read_graph_from_file w (d_graph_file s) = Some g"
    and "find_node g (d_failed_node s) = Some n" and "ntype n = PARALLEL" and "\<forall>e \<in> set (gedges g). eto e \<noteq> []"
  shows "map child_node_id (report_children (collect_report w rdir failed)) =
      filter (\<lambda>i. i \<notin> set (d_completed s) \<and> branch_failed_on_disk w rdir i) (map eto (outgoing_edges g (d_failed_node s))) \<and>
    (\<forall>c \<in> set (report_children (collect_report w rdir failed)).
      child_signals c = collect w rdir (child_node_id c) \<and> child_kind c = classify (child_signals c))"
proof -
  have id: "node_id n = d_failed_node s" using assms(4) by (auto simp: find_node_def find_Some_iff)
  have children: "report_children (collect_report w rdir failed) =
      concat (map (diagnose_child w rdir s) (outgoing_edges g (d_failed_node s)))"
    using assms(2-5) by (simp add: collect_report_def Let_def assms(1) [symmetric] id)
  have child: "map child_node_id (diagnose_child w rdir s e) =
      (if eto e \<notin> set (d_completed s) \<and> branch_failed_on_disk w rdir (eto e) then [eto e] else [])" if "eto e \<noteq> []" for e
    using collect_failed_node [OF that] that by (auto simp: diagnose_child_def branch_failed_on_disk_def Let_def)
  have "map child_node_id (concat (map (diagnose_child w rdir s) es)) =
      filter (\<lambda>i. i \<notin> set (d_completed s) \<and> branch_failed_on_disk w rdir i) (map eto es)" if "\<forall>e \<in> set es. eto e \<noteq> []" for es
    using that by (induction es) (simp_all add: child)
  moreover have "\<forall>e \<in> set (outgoing_edges g (d_failed_node s)). eto e \<noteq> []" using assms(6) by (auto simp: outgoing_edges_def)
  moreover have "child_signals c = collect w rdir (child_node_id c) \<and> child_kind c = classify (child_signals c)"
    if "c \<in> set (diagnose_child w rdir s e)" for c e
    using that by (auto simp: diagnose_child_def Let_def split: if_splits)
  ultimately show ?thesis unfolding children by auto
qed


definition fork_source :: string where
  "fork_source = ''digraph{f[shape=component];f->a;f->b}''"

definition fork_run :: run_world where
  "fork_run = \<lparr>
     disk = [''r/checkpoint.json'' \<mapsto> ''x'', ''g.dot'' \<mapsto> fork_source, ''r/stages/b/status.json'' \<mapsto> ''y''],
     parse_json = [''x'' \<mapsto> JObj [(''current_node'', JStr ''f''), (''graph_file'', JStr ''g.dot'')], ''y'' \<mapsto> JObj [(''status'', JStr ''FAILURE'')]],
     is_ancestor = (\<lambda>_ _ _. None), alive = (\<lambda>_. False), descendants = (\<lambda>_. [])\<rparr>"

definition parsed_fork :: graph where
  "parsed_fork = (case parse_dot fork_source of Some (Inr ast) \<Rightarrow> build_graph ast)"

lemma parsed_fork_facts:
  "read_graph_from_file fork_run ''g.dot'' = Some parsed_fork"
  "map_option ntype (find_node parsed_fork ''f'') = Some PARALLEL"
  "map (\<lambda>e. (efrom e, eto e)) (gedges parsed_fork) = [(''f'', ''a''), (''f'', ''b'')]"
proof -
  have "case parse_dot fork_source of Some (Inr ast) \<Rightarrow> True | _ \<Rightarrow> False" by code_simp
  then show "read_graph_from_file fork_run ''g.dot'' = Some parsed_fork"
    by (auto simp: read_graph_from_file_def fork_run_def parsed_fork_def fork_source_def split: option.splits sum.splits)
  show "map_option ntype (find_node parsed_fork ''f'') = Some PARALLEL" by code_simp
  show "map (\<lambda>e. (efrom e, eto e)) (gedges parsed_fork) = [(''f'', ''a''), (''f'', ''b'')]" by code_simp
qed

lemmas collect_simps = collect_def fill_stage_signals_def fill_status_def read_status_def read_value_def read_checkpoint_def
  read_each_def and_then_def json_find_def fill_prompt_def fill_response_def fill_own_commits_def fill_engine_def no_signals_def

theorem fork_report_children_witness:
  "map child_node_id (report_children (collect_report fork_run ''r'' ''f'')) = [''b'']"
proof -
  let ?s = "collect fork_run ''r'' ''f''"
  have s: "d_failed_node ?s = ''f''" "d_graph_file ?s = ''g.dot''" "d_completed ?s = []"
    by (simp_all add: collect_simps fork_run_def)
  have edges: "\<forall>e \<in> set (gedges parsed_fork). eto e \<noteq> []"
    "map eto (outgoing_edges parsed_fork ''f'') = [''a'', ''b'']"
    using parsed_fork_facts(3) by (auto simp: outgoing_edges_def map_eq_Cons_conv)
  have failed: "\<not> branch_failed_on_disk fork_run ''r'' ''a''" "branch_failed_on_disk fork_run ''r'' ''b''"
    by (simp_all add: branch_failed_on_disk_def collect_simps fork_run_def)
  obtain n where n: "find_node parsed_fork ''f'' = Some n" "ntype n = PARALLEL"
    using parsed_fork_facts(2) by (cases "find_node parsed_fork ''f''") auto
  have "map child_node_id (report_children (collect_report fork_run ''r'' ''f'')) =
      filter (\<lambda>i. i \<notin> set (d_completed ?s) \<and> branch_failed_on_disk fork_run ''r'' i)
        (map eto (outgoing_edges parsed_fork (d_failed_node ?s)))"
    using fork_report_children [of ?s fork_run "''r''" "''f''" parsed_fork n] edges(1) n parsed_fork_facts(1) s by simp
  then show ?thesis by (simp add: s edges(2) failed)
qed

end
