(* ===== verification/Recovery_Report.thy ===== *)
theory Recovery_Report
  imports Diagnose Troubleshoot_Types
begin

text \<open>
  The texts of the troubleshooter: \<open>render_markdown\<close> and \<open>render_proposed_actions\<close> of
  \<open>src/troubleshoot/diagnose.cpp\<close>, and the report file of \<open>src/engine/recovery_report.cpp\<close>. The cost in dollars is
  a floating-point number; its two-digit text is a field of the input.
\<close>

section \<open>The diagnosis\<close>

abbreviation nl :: string where "nl \<equiv> [newline]"

definition tick :: "string \<Rightarrow> string" where
  "tick s = ''`'' @ s @ ''`''"

definition bullet :: "string \<Rightarrow> string \<Rightarrow> string" where
  "bullet label v = ''- **'' @ label @ '':** '' @ v @ nl"

definition shown_vars :: "(string \<Rightarrow> string) \<Rightarrow> string list \<Rightarrow> string" where
  "shown_vars f vs = join '', '' (map (\<lambda>v. f (''$var.'' @ v)) vs)"

fun root_cause :: "failure_kind \<Rightarrow> signals \<Rightarrow> string" where
  "root_cause RolePromptConflict s = ''Prompt contains conflicting role-isolation and implementation instructions.'' @ nl"
| "root_cause VariableCorrupted s = ''Prompt or logs indicate unresolved $var placeholders.'' @
     (if d_vars s \<noteq> [] then '' Unresolved: '' @ shown_vars id (d_vars s) else []) @ nl"
| "root_cause WallClockWithoutOwnProgress s = ''Wall-clock timeout occurred without commits attributable to this stage.'' @ nl"
| "root_cause IdleStallNoWorkSalvageable s = ''Agent went silent with no salvageable output.'' @ nl"
| "root_cause IdleStallWorkOnDisk s = ''Agent stalled after producing uncommitted filesystem changes.'' @ nl"
| "root_cause IdleStallWorkCommitted s = ''Agent stalled after creating commits.'' @ nl"
| "root_cause WallClockWithProgress s = ''Stage exceeded wall-clock timeout but made commit progress.'' @ nl"
| "root_cause SelfExitError s = ''Process exited with failure outside timeout patterns.'' @ nl"
| "root_cause PromptBlowup s = ''Prompt size is unusually large and likely caused instability.'' @ nl"
| "root_cause OrphanedSubprocesses s = ''Live descendants are still attached to the engine process.'' @ nl"
| "root_cause CherryPickConflict s = ''Fan-in cherry-pick conflict requires manual operator merge.'' @ nl"
| "root_cause Unknown s = ''Pattern matcher could not classify this failure.'' @ nl"

text \<open>The total is read from the graph of the run, or else is the number of failed branches.\<close>

definition branch_total :: "run_world \<Rightarrow> diagnosis_report \<Rightarrow> nat" where
  "branch_total w r =
     (let s = report_signals r;
          total = (case read_graph_from_file w (d_graph_file s) of
                     None \<Rightarrow> 0
                   | Some g \<Rightarrow> (case find_node g (d_failed_node s) of
                                  None \<Rightarrow> 0 | Some failed \<Rightarrow> length (outgoing_edges g (node_id failed))))
      in if total = 0 then length (report_children r) else total)"

definition branch_section :: "run_world \<Rightarrow> diagnosis_report \<Rightarrow> string" where
  "branch_section w r =
     (if report_children r = [] then []
      else nl @ ''## Parallel Branch Failures'' @ nl @
        ''Parallel branch failures: '' @ show_nat (length (report_children r)) @ '' of '' @ show_nat (branch_total w r) @ nl @ nl @
        concat (map (\<lambda>c. ''- **'' @ child_node_id c @ ''**: '' @ failure_kind_string (child_kind c) @ nl) (report_children r)))"

definition orphan_section :: "signals \<Rightarrow> string" where
  "orphan_section s =
     (if d_descendants s = [] then []
      else nl @ ''## Orphaned Subprocesses'' @ nl @ bullet ''Engine PID'' (show_int (d_pid s)) @
        bullet ''Live descendant PIDs'' (join '', '' (map show_int (d_descendants s))))"

definition render_markdown :: "run_world \<Rightarrow> diagnosis_report \<Rightarrow> string" where
  "render_markdown w r =
     (let s = report_signals r in
      bullet ''Failure kind'' (failure_kind_string (report_kind r)) @
      bullet ''Stage'' (d_failed_node s) @
      bullet ''Status'' (if d_status s = [] then ''(unknown)'' else d_status s) @
      (if d_timed_out s then bullet ''Timeout kind'' (d_timeout_kind s) else []) @
      bullet ''Prompt size'' (show_int (d_prompt_kb s) @ '' KB'') @
      bullet ''Response size'' (show_int (d_response_bytes s) @ '' bytes'') @
      bullet ''Commits added during stage'' (show_nat (length (d_commits s))) @
      bullet ''Own commits after stage start'' (show_nat (length (d_own_commits s))) @
      branch_section w r @ orphan_section s @
      nl @ ''### Likely root cause'' @ nl @ root_cause (report_kind r) s)"

section \<open>Proposed actions\<close>

definition arrow :: string where
  "arrow = [CHR 0xE2, CHR 0x86, CHR 0x92]"

definition retry_line :: "string \<Rightarrow> string" where
  "retry_line n = ''- Retry the stage: '' @ tick (''needle stage retry:'' @ n) @ ''.'' @ nl"

definition short_retry :: "string \<Rightarrow> string" where
  "short_retry n = ''- Retry: '' @ tick (''needle stage retry:'' @ n) @ ''.'' @ nl"

definition timeout_actions :: "string \<Rightarrow> string" where
  "timeout_actions n =
     ''- The stage exceeded its wall-clock `timeout`. Increase the `timeout` attribute on '' @ tick n @
     '' in the DOT (e.g. `30m` '' @ arrow @ '' `60m`) and retry.'' @ nl @
     ''- If the node runs at high reasoning effort, consider lowering `reasoning_effort` (e.g. `high` '' @ arrow @
     '' `medium`) to finish inside the budget.'' @ nl @ retry_line n @
     ''- If the work is genuinely slow, consider whether the work belongs in a different node type or should be split across multiple stages.'' @ nl"

fun kind_actions :: "failure_kind \<Rightarrow> signals \<Rightarrow> string \<Rightarrow> string" where
  "kind_actions RolePromptConflict s n =
     ''- Open '' @ tick (''.needle/<run>/stages/'' @ n @ ''/prompt.md'') @
     '' and remove conflicting role / implementation instructions.'' @ nl @ retry_line n"
| "kind_actions VariableCorrupted s n =
     ''- Resolve the unresolved `$var.*` references'' @
     (if d_vars s \<noteq> [] then '' ('' @ shown_vars tick (d_vars s) @ '')'' else []) @
     ''. Check the upstream stage that should have set them, or supply via `--var key=value` at run start.'' @ nl @ retry_line n"
| "kind_actions WallClockWithoutOwnProgress s n = timeout_actions n"
| "kind_actions WallClockWithProgress s n = timeout_actions n"
| "kind_actions IdleStallNoWorkSalvageable s n =
     ''- Inspect '' @ tick (''.needle/<run>/stages/'' @ n @ ''/'') @
     '' for clues. If the handler hung, lower `idle_timeout` or fix the prompt.'' @ nl @ retry_line n"
| "kind_actions IdleStallWorkOnDisk s n =
     ''- Stage left uncommitted work under '' @ tick (''.needle/<run>/stages/'' @ n @ ''/'') @ ''. Inspect it.'' @ nl @
     ''- If the work is good: '' @ tick (''needle stage mark:'' @ n) @ '' then '' @ tick (''needle stage advance:'' @ n) @ ''.'' @ nl @
     ''- Otherwise discard and '' @ tick (''needle stage retry:'' @ n) @ ''.'' @ nl"
| "kind_actions IdleStallWorkCommitted s n =
     ''- Stage'' @ [squote] @ ''s work is already committed to git. Treat as complete:'' @ nl @
     ''  '' @ tick (''needle stage mark:'' @ n) @ '' then '' @ tick (''needle stage advance:'' @ n) @ ''.'' @ nl"
| "kind_actions SelfExitError s n =
     ''- Inspect '' @ tick (''.needle/<run>/stages/'' @ n @ ''/'') @
     '' (especially `agent.stderr` / `response.md`) for the underlying error.'' @ nl @
     ''- Fix the cause in the DOT (`command=...`, missing dependency, bad path).'' @ nl @ retry_line n"
| "kind_actions PromptBlowup s n =
     ''- Prompt size is too large. Shorten the stage `prompt`, lower its `fidelity`, or split the work across multiple smaller stages.'' @ nl @
     short_retry n"
| "kind_actions OrphanedSubprocesses s n =
     ''- Live descendant PIDs are still attached to the engine process. `kill` them manually (or restart `needle serve`) before retrying.'' @ nl @
     short_retry n"
| "kind_actions CherryPickConflict s n =
     ''- Fan-in produced a cherry-pick merge conflict. Resolve manually in the worktree, then retry the fan-in stage.'' @ nl"
| "kind_actions Unknown s n =
     ''- Pattern matcher could not classify this failure. Inspect '' @ tick (''.needle/<run>/stages/'' @ n @ ''/'') @
     '' and the run log directly.'' @ nl @
     ''- Or escalate to interactive chat: `needle troubleshoot escalate --reason '' @ quoted ''<short>'' @
     '' --next-question '' @ quoted ''<what to ask the operator>'' @ ''`.'' @ nl"

definition render_proposed_actions :: "diagnosis_report \<Rightarrow> string" where
  "render_proposed_actions r =
     (let s = report_signals r; n = (if d_failed_node s = [] then ''<node>'' else d_failed_node s) in
      kind_actions (report_kind r) s n @
      ''- If the agent already applied edits via this session and you want to revert them, use: `needle troubleshoot rollback <run-dir> <session-id>`.'' @ nl)"

section \<open>The report file\<close>

record recovery_input =
  rr_session_id :: string
  rr_run_id :: string
  rr_failed_node :: string
  rr_mode :: troubleshoot_mode
  rr_agent :: string
  rr_model :: string
  rr_started :: string
  rr_ended :: string
  rr_cost :: string
  rr_outcome :: session_status
  rr_attempts_used :: int
  rr_escalate_reason :: string
  rr_backup_branch :: string
  rr_backup_base :: string
  rr_diagnosis_body :: string
  rr_proposed_actions :: string
  rr_action_log :: "string list"
  rr_outcome_summary :: string
  rr_security_audit :: "string list"
  rr_artifacts :: "string list"

definition yaml_char :: "char \<Rightarrow> string" where
  "yaml_char c = (if c = backslash \<or> c = dquote then [backslash, c]
     else if c = newline \<or> c = CHR 0x0D then '' '' else [c])"

definition yaml_string :: "string \<Rightarrow> string" where
  "yaml_string v = (if v = [] then [dquote, dquote] else [dquote] @ concat (map yaml_char v) @ [dquote])"

definition yaml_nullable :: "string \<Rightarrow> string" where
  "yaml_nullable v = (if v = [] then ''null'' else yaml_string v)"

definition with_newline :: "string \<Rightarrow> string" where
  "with_newline txt = txt @ (if txt = [] \<or> last txt \<noteq> newline then nl else [])"

text \<open>The lines of the front matter, without their line ends.\<close>

definition front_matter :: "recovery_input \<Rightarrow> string list" where
  "front_matter r =
     [''schema_version: 2'', ''session_id: '' @ yaml_string (rr_session_id r), ''run_id: '' @ yaml_string (rr_run_id r),
      ''tier: '' @ mode_name (rr_mode r), ''agent: '' @ yaml_string (rr_agent r), ''model: '' @ yaml_string (rr_model r),
      ''started: '' @ yaml_string (rr_started r), ''ended: '' @ yaml_string (rr_ended r), ''cost_usd: '' @ rr_cost r,
      ''outcome: '' @ status_name (rr_outcome r), ''summary: '' @ yaml_nullable (rr_outcome_summary r),
      ''failed_node: '' @ yaml_string (rr_failed_node r), ''attempts_used: '' @ show_int (rr_attempts_used r),
      ''escalate_reason: '' @ yaml_nullable (rr_escalate_reason r), ''backup_branch: '' @ yaml_nullable (rr_backup_branch r),
      ''backup_base: '' @ yaml_nullable (rr_backup_base r)]"

definition bullets :: "string list \<Rightarrow> string" where
  "bullets ls = concat (map (\<lambda>l. ''- '' @ l @ nl) ls)"

definition report_body :: "recovery_input \<Rightarrow> string" where
  "report_body r =
     ''## Diagnosis'' @ nl @ nl @
     (if rr_diagnosis_body r = [] then ''_No diagnosis recorded._'' @ nl @ nl else with_newline (rr_diagnosis_body r) @ nl) @
     (if rr_proposed_actions r \<noteq> [] then ''## Proposed actions'' @ nl @ nl @ with_newline (rr_proposed_actions r) @ nl else []) @
     ''## Actions taken'' @ nl @ nl @
     (if rr_action_log r = [] then ''- No actions recorded.'' @ nl @ nl else bullets (rr_action_log r) @ nl) @
     ''## Outcome'' @ nl @ nl @
     (if rr_outcome_summary r = [] then status_name (rr_outcome r) else rr_outcome_summary r) @ nl @ nl @
     (if rr_security_audit r \<noteq> [] then ''## Security audit'' @ nl @ nl @ bullets (rr_security_audit r) @ nl else []) @
     ''## Artifacts'' @ nl @ nl @
     (if rr_artifacts r = [] then ''- None'' @ nl else bullets (rr_artifacts r))"

definition report_text :: "recovery_input \<Rightarrow> string" where
  "report_text r =
     ''---'' @ nl @ concat (map (\<lambda>l. l @ nl) (front_matter r)) @ ''---'' @ nl @ nl @ report_body r"

text \<open>\<open>write_v2\<close>: the path that was written (empty if the file cannot be opened) and the text of the file.\<close>

definition write_v2 :: "bool \<Rightarrow> recovery_input \<Rightarrow> string \<Rightarrow> string \<times> string option" where
  "write_v2 opens r path = (if opens then (path, Some (report_text r)) else ([], None))"

section \<open>The front matter cannot be forged\<close>

text \<open>Reading a quoted YAML scalar: up to the closing quote, with the escapes undone.\<close>

fun yaml_unquote :: "string \<Rightarrow> string option" where
  "yaml_unquote [] = None"
| "yaml_unquote (c # cs) =
     (if c = dquote then (if cs = [] then Some [] else None)
      else if c = backslash then
        (case cs of [] \<Rightarrow> None | d # ds \<Rightarrow> map_option (\<lambda>t. d # t) (yaml_unquote ds))
      else map_option (\<lambda>t. c # t) (yaml_unquote cs))"

definition read_yaml :: "string \<Rightarrow> string option" where
  "read_yaml s = (case s of c # cs \<Rightarrow> if c = dquote then yaml_unquote cs else None | [] \<Rightarrow> None)"

definition one_line :: "string \<Rightarrow> string" where
  "one_line v = map (\<lambda>c. if c = newline \<or> c = CHR 0x0D then CHR '' '' else c) v"

lemma yaml_unquote_escaped: "yaml_unquote (concat (map yaml_char v) @ [dquote]) = Some (one_line v)"
  by (induction v) (auto simp: yaml_char_def one_line_def)

lemma read_yaml_string: "read_yaml (yaml_string v) = Some (one_line v)"
  by (simp add: read_yaml_def yaml_string_def yaml_unquote_escaped one_line_def)

lemma yaml_one_line: "newline \<notin> set (yaml_string v)" "newline \<notin> set (yaml_nullable v)"
  by (auto simp: yaml_string_def yaml_nullable_def yaml_char_def)

lemma getlines_line: "newline \<notin> set l \<Longrightarrow> getlines (l @ newline # rest) ln = (ln @ l) # getlines rest []"
  by (induction l arbitrary: ln) auto

lemma getlines_lines: "\<forall>l \<in> set ls. newline \<notin> set l \<Longrightarrow> getlines (concat (map (\<lambda>l. l @ nl) ls) @ rest) [] = ls @ getlines rest []"
  by (induction ls) (simp_all add: getlines_line)

lemma names_one_line: "newline \<notin> set (mode_name m)" "newline \<notin> set (status_name t)"
  by (cases m; simp) (cases t; simp)

lemma show_nat_one_line: "newline \<notin> set (show_nat n)"
  using show_nat_digits [of n] by (auto simp: is_digit_def byte_def)

lemma show_int_one_line: "newline \<notin> set (show_int i)"
  using show_nat_one_line by (auto simp: show_int_def)

text \<open>Fact: the front matter. Whatever the agent, the graph or the operator put into the fields, the file starts with a
  line \<open>---\<close>, sixteen lines with the sixteen keys in order and a second \<open>---\<close>, followed by an empty line and the body; the
  quoted values read back as the fields, with line ends turned into blanks. No value can add or end a line.\<close>

theorem report_front_matter:
  assumes "newline \<notin> set (rr_cost r)"
  shows "getlines (report_text r) [] = ''---'' # front_matter r @ [''---'', []] @ getlines (report_body r) [] \<and>
    (\<forall>v. newline \<notin> set (yaml_string v) \<and> read_yaml (yaml_string v) = Some (one_line v))"
proof -
  have "\<forall>l \<in> set (front_matter r). newline \<notin> set l"
    using assms by (simp add: front_matter_def yaml_one_line names_one_line show_int_one_line)
  from getlines_lines [of "''---'' # front_matter r @ [''---'', []]" "report_body r"] this
  show ?thesis by (simp add: report_text_def read_yaml_string yaml_one_line)
qed


text \<open>A summary that tries to end the front matter.\<close>

definition forged_report :: recovery_input where
  "forged_report = \<lparr>rr_session_id = ''s'', rr_run_id = ''r'', rr_failed_node = ''n'', rr_mode = Tweak, rr_agent = ''claude'',
     rr_model = ''m'', rr_started = [], rr_ended = [], rr_cost = ''0.00'', rr_outcome = FailedAgent, rr_attempts_used = 1,
     rr_escalate_reason = [], rr_backup_branch = [], rr_backup_base = [], rr_diagnosis_body = [], rr_proposed_actions = [],
     rr_action_log = [], rr_outcome_summary = ''x'' @ nl @ ''---'' @ nl @ ''outcome: resumed'', rr_security_audit = [], rr_artifacts = []\<rparr>"

theorem report_front_matter_witness:
  "getlines (report_text forged_report) [] ! 10 = ''outcome: failed_agent'' \<and>
   getlines (report_text forged_report) [] ! 11 = ''summary: '' @ [dquote] @ ''x --- outcome: resumed'' @ [dquote]"
proof -
  have "newline \<notin> set (rr_cost forged_report)" by (simp add: forged_report_def)
  from report_front_matter [OF this]
  have "getlines (report_text forged_report) [] =
      ''---'' # front_matter forged_report @ [''---'', []] @ getlines (report_body forged_report) []" by (rule conjunct1)
  then show ?thesis
    by (simp add: front_matter_def forged_report_def yaml_nullable_def yaml_string_def yaml_char_def nth_append numeral_eq_Suc)
qed

end
