(* ===== verification/Cli_Backend.thy ===== *)
theory Cli_Backend
  imports Recovery_Report
begin

text \<open>
  \<open>src/backend/cli_backend.cpp\<close>, \<open>src/backend/prompt_assembly_policy.cpp\<close> and \<open>archive_stage_files\<close> of
  \<open>src/util/fs_helpers.cpp\<close>: the backend that runs an agent's command line. The prompt (references to the context, the
  preamble, the policy of the node's class), the command, the tools it may use, and the outcome of what the
  process did. Processes, files, the clock, the dates of the C library and the JSON parser are parameters.
\<close>

section \<open>What the backend calls\<close>

text \<open>
  \<open>cb_millis\<close> is \<open>static_cast<int>(std::stod(s) * 1000)\<close>, \<open>None\<close> if it throws; \<open>cb_until\<close> the seconds from now
  to the time a text names, \<open>None\<close> if \<open>strptime\<close> and \<open>mktime\<close> give no time; \<open>cb_clock\<close> the wall clock that
  many milliseconds ahead; \<open>cb_mtime\<close> the time stamp in the name of an archived file.
\<close>

type_synonym command_line = "string \<times> string list \<times> (string, string) omap"

record 'w cli_env =
  cb_run :: "command_line \<Rightarrow> string \<Rightarrow> int \<Rightarrow> string \<Rightarrow> int \<Rightarrow> 'w \<Rightarrow> proc_result result \<times> 'w"
  cb_read :: "string \<Rightarrow> 'w \<Rightarrow> string option"
  cb_write :: "string \<Rightarrow> string \<Rightarrow> 'w \<Rightarrow> bool \<times> 'w"
  cb_mkdir :: "string \<Rightarrow> 'w \<Rightarrow> 'w"
  cb_exists :: "string \<Rightarrow> 'w \<Rightarrow> bool"
  cb_rename :: "string \<Rightarrow> string \<Rightarrow> 'w \<Rightarrow> 'w"
  cb_mtime :: "string \<Rightarrow> 'w \<Rightarrow> string option"
  cb_uuid :: "'w \<Rightarrow> string \<times> 'w"
  cb_config_int :: "string \<Rightarrow> int \<Rightarrow> 'w \<Rightarrow> int"
  cb_json :: "string \<Rightarrow> json option"
  cb_millis :: "string \<Rightarrow> int option"
  cb_until :: "string \<Rightarrow> 'w \<Rightarrow> int option"
  cb_clock :: "int \<Rightarrow> 'w \<Rightarrow> string"
  cb_wrapper :: "(string \<Rightarrow> string list \<Rightarrow> node \<Rightarrow> ctxt \<Rightarrow> command_line) option"

section \<open>Rate limits\<close>

definition limit_patterns :: "string list" where
  "limit_patterns = [''rate_limit'', ''rate limit'', ''usage limit'', ''hit your usage'', ''you've exceeded'',
     ''too many requests'', ''overloaded'']"

definition has_limit_pattern :: "string \<Rightarrow> bool" where
  "has_limit_pattern lower = list_ex (\<lambda>p. find_sub p lower \<noteq> None) limit_patterns"

text \<open>The text behind a phrase, up to a full stop or the end of the line.\<close>

definition time_text :: "string \<Rightarrow> string \<Rightarrow> string" where
  "time_text combined phrase =
     (case find_sub phrase combined of
        None \<Rightarrow> []
      | Some p \<Rightarrow> rtrim is_space (takeWhile (\<lambda>c. c \<noteq> CHR ''.'' \<and> c \<noteq> newline \<and> c \<noteq> CHR 0x0D) (drop (p + length phrase) combined)))"

definition drop_suffix :: "string \<Rightarrow> string \<Rightarrow> string" where
  "drop_suffix suf s = (case find_sub suf s of None \<Rightarrow> s | Some p \<Rightarrow> take p s @ '','' @ drop (p + 3) s)"

definition without_ordinals :: "string \<Rightarrow> string" where
  "without_ordinals ts = fold drop_suffix [''th,'', ''st,'', ''nd,'', ''rd,''] ts"

record rate_limit =
  rl_wait_ms :: int
  rl_retry_after :: string

definition seconds_wait :: "int \<Rightarrow> int" where
  "seconds_wait s = (let s = min s 86400 in if 0 < s then s * 1000 + 5000 else 1000)"

definition printed_wait :: "'w cli_env \<Rightarrow> string \<Rightarrow> int" where
  "printed_wait env combined =
     (case find_sub ''try again in '' combined of
        None \<Rightarrow> 0
      | Some p \<Rightarrow> (case cb_millis env (drop (p + 13) combined) of None \<Rightarrow> 0 | Some ms \<Rightarrow> max 1000 (ms + 500)))"

definition named_wait :: "'w cli_env \<Rightarrow> string \<Rightarrow> int \<Rightarrow> 'w \<Rightarrow> int" where
  "named_wait env at_time wait w =
     (if at_time = [] then wait
      else case cb_until env (without_ordinals at_time) w of None \<Rightarrow> wait | Some s \<Rightarrow> seconds_wait s)"

definition detect_rate_limit :: "'w cli_env \<Rightarrow> string \<Rightarrow> string \<Rightarrow> 'w \<Rightarrow> rate_limit option" where
  "detect_rate_limit env out err w =
     (let combined = out @ nl @ err in
      if \<not> has_limit_pattern (to_lower combined) then None
      else
        let wait = printed_wait env combined;
            after = (if wait = 0 then time_text combined ''try again after '' else []);
            at_time = (if wait = 0 then time_text combined ''try again at '' else []);
            after = (if at_time \<noteq> [] then at_time else after);
            wait = named_wait env at_time wait w;
            after = (if 0 < wait \<and> after = [] then cb_clock env wait w else after)
        in Some \<lparr>rl_wait_ms = (if wait = 0 then 60000 else wait), rl_retry_after = after\<rparr>)"

section \<open>References to the context\<close>

definition key_char :: "char \<Rightarrow> bool" where
  "key_char c = (is_alnum c \<or> c = CHR ''_'' \<or> c = CHR ''.'')"

text \<open>What stands behind a dollar sign: the value of the reference and the characters it takes up.\<close>

definition plain_ref :: "ctxt \<Rightarrow> string \<Rightarrow> (string \<times> nat) option" where
  "plain_ref c r =
     (if starts_with ''context.'' r \<and> 8 < length r then
        let key = takeWhile key_char (drop 8 r) in
        if key \<noteq> [] \<and> ctx_has c key then Some (ctx_get c key, 8 + length key) else None
      else None)"

definition braced_ref :: "ctxt \<Rightarrow> string \<Rightarrow> (string \<times> nat) option" where
  "braced_ref c r =
     (if take 1 r = ''{'' then
        (case find_char (CHR ''}'') (drop 1 r) of
           None \<Rightarrow> None
         | Some n \<Rightarrow>
             let var = take n (drop 1 r); key = drop 8 var in
             if 8 < length var \<and> starts_with ''context.'' var \<and> ctx_has c key then Some (ctx_get c key, n + 2) else None)
      else None)"

definition context_ref :: "ctxt \<Rightarrow> char \<Rightarrow> string \<Rightarrow> (string \<times> nat) option" where
  "context_ref c x r =
     (if x = CHR ''$'' then (case plain_ref c r of Some v \<Rightarrow> Some v | None \<Rightarrow> braced_ref c r) else None)"

function expand_context_refs :: "ctxt \<Rightarrow> string \<Rightarrow> string" where
  "expand_context_refs c [] = []"
| "expand_context_refs c (x # r) =
     (case context_ref c x r of
        Some (v, n) \<Rightarrow> v @ expand_context_refs c (drop n r)
      | None \<Rightarrow> x # expand_context_refs c r)"
  by pat_completeness auto
termination by (relation "measure (length \<circ> snd)") auto

section \<open>The preamble\<close>

definition preamble_guardrails :: string where
  "preamble_guardrails =
     ''## Guardrails'' @ nl @ nl @
     ''Do not run brute-force scans over package caches or dependency directories '' @ em_dash @
     '' including but not limited to `~/.nuget/packages`, `node_modules`, `~/.cargo/registry`, `~/go/pkg/mod`, '' @
     ''`~/.gradle/caches`, `~/Library/Caches/pip`, and language-specific site-packages. Commands like '' @
     ''`find <cache> | xargs grep`, `find <cache> | xargs strings | grep`, or `grep -r` against the whole cache '' @
     ''will hang the stage on any non-trivial project (these directories typically contain tens of thousands '' @
     ''of files).'' @ nl @ nl @
     ''If you need to verify a symbol or type exists in a dependency, run a TARGETED grep against a specific '' @
     ''package subdirectory, not the whole cache. If a targeted grep against the obvious package finds nothing, '' @
     ''assume the symbol does not exist and proceed '' @ em_dash @ '' do not escalate to a full-cache scan.'' @ nl @ nl"

definition clip_at :: "nat \<Rightarrow> string \<Rightarrow> string" where
  "clip_at n v = take n v @ (if n < length v then ''...'' else [])"

definition bold_item :: "(string \<Rightarrow> string) \<Rightarrow> string \<times> string \<Rightarrow> string" where
  "bold_item f kv = ''- **'' @ fst kv @ ''**: '' @ f (snd kv) @ nl"

definition plain_item :: "(string \<Rightarrow> string) \<Rightarrow> string \<times> string \<Rightarrow> string" where
  "plain_item f kv = ''- '' @ fst kv @ '': '' @ f (snd kv) @ nl"

definition is_output_key :: "string \<Rightarrow> bool" where
  "is_output_key k = (find_sub ''.output'' k \<noteq> None)"

definition is_internal_key :: "string \<Rightarrow> bool" where
  "is_internal_key k = (starts_with ''internal.'' k \<or> starts_with ''needle.'' k)"

definition effective_mode :: "string \<Rightarrow> string" where
  "effective_mode mode =
     (if mode \<in> {''truncate'', ''compact'', ''summary:high'', ''summary:medium'', ''summary:low'', ''full''} then mode else ''compact'')"

definition preamble_head :: "string \<Rightarrow> string \<Rightarrow> string \<Rightarrow> string" where
  "preamble_head title goal label =
     title @ nl @ nl @ ''Goal: '' @ goal @ nl @ ''Current stage: '' @ label @ nl @ nl"

text \<open>The entries of the context that a mode shows.\<close>

definition shown_key :: "string \<Rightarrow> string \<Rightarrow> bool" where
  "shown_key mode k =
     (if mode = ''compact'' then is_output_key k \<or> find_sub ''.results'' k \<noteq> None
      else if mode = ''summary:high'' then \<not> is_internal_key k
      else if mode = ''summary:medium'' then \<not> is_internal_key k \<and> (starts_with ''var.'' k \<or> is_output_key k)
      else if mode = ''summary:low'' then starts_with ''var.'' k
      else if mode = ''full'' then \<not> starts_with ''needle.'' k
      else False)"

definition shown_items :: "string \<Rightarrow> (string \<times> string \<Rightarrow> string) \<Rightarrow> ctxt \<Rightarrow> string" where
  "shown_items mode item c = concat (map item (filter (\<lambda>kv. shown_key mode (fst kv)) c))"

definition build_fidelity_preamble :: "string \<Rightarrow> node \<Rightarrow> ctxt \<Rightarrow> string" where
  "build_fidelity_preamble mode n c =
     (let effective = effective_mode mode; goal = ctx_get c ''needle.goal''; label = node_label n;
          head = preamble_head ''## Context'' goal label
      in (if effective = ''truncate'' then head
          else if effective = ''compact'' then
            head @ ''### Completed stages'' @ nl @ shown_items ''compact'' (bold_item (clip_at 200)) c @ nl
          else if effective = ''summary:high'' then
            head @ ''### Prior stage outputs'' @ nl @ shown_items ''summary:high'' (bold_item (clip_at 500)) c @ nl
          else if effective = ''summary:medium'' then head @ shown_items ''summary:medium'' (bold_item (clip_at 300)) c @ nl
          else if effective = ''summary:low'' then
            head @ ''Prior stages completed. Key variables:'' @ nl @ shown_items ''summary:low'' (plain_item (clip_at 100)) c @ nl
          else preamble_head ''## Full Context'' goal label @ shown_items ''full'' (bold_item (\<lambda>v. v)) c @ nl)
         @ preamble_guardrails)"

section \<open>Templates\<close>

record cli_template =
  command_pattern :: string
  provider :: string
  template_defaults :: "(string, string) omap"
  pipe_prompt_via_stdin :: bool
  default_timeout_ms :: int
  default_idle_timeout_ms :: int
  supports_resume :: bool

definition claude_default :: cli_template where
  "claude_default = \<lparr>command_pattern =
      ''claude -p --model {model} --session-id {session_id} --dangerously-skip-permissions --verbose'',
     provider = ''claude'', template_defaults = [(''model'', ''claude-opus-4-7'')], pipe_prompt_via_stdin = True,
     default_timeout_ms = 2700000, default_idle_timeout_ms = 0, supports_resume = True\<rparr>"

definition codex_default :: cli_template where
  "codex_default = \<lparr>command_pattern = ''codex exec -m {model} -s danger-full-access'', provider = ''codex'',
     template_defaults = [(''model'', ''gpt-5.4'')], pipe_prompt_via_stdin = True,
     default_timeout_ms = 2700000, default_idle_timeout_ms = 0, supports_resume = False\<rparr>"

definition gemini_default :: cli_template where
  "gemini_default = \<lparr>command_pattern = ''gemini --yolo --model {model} --prompt .'', provider = ''gemini'',
     template_defaults = [(''model'', ''gemini-2.5-pro'')], pipe_prompt_via_stdin = True,
     default_timeout_ms = 2700000, default_idle_timeout_ms = 0, supports_resume = False\<rparr>"

text \<open>The default template and those by provider.\<close>

type_synonym templates = "cli_template \<times> (string \<rightharpoonup> cli_template)"

definition resolve_template :: "templates \<Rightarrow> node \<Rightarrow> cli_template" where
  "resolve_template ts n =
     (let wanted = attr_get (nattrs n) ''llm_provider'';
          wanted = (if wanted = [] then attr_get (nattrs n) ''agent'' else wanted)
      in if wanted = [] then fst ts else case snd ts wanted of Some t \<Rightarrow> t | None \<Rightarrow> fst ts)"

function replace_all :: "string \<Rightarrow> string \<Rightarrow> string \<Rightarrow> string" where
  "replace_all pat by [] = []"
| "replace_all pat by (x # r) =
     (if pat \<noteq> [] \<and> starts_with pat (x # r) then by @ replace_all pat by (drop (length pat - 1) r)
      else x # replace_all pat by r)"
  by pat_completeness auto
termination by (relation "measure (length \<circ> snd \<circ> snd)") auto

definition template_model :: "cli_template \<Rightarrow> node \<Rightarrow> string" where
  "template_model tmpl n =
     (let m = attr_get (nattrs n) ''llm_model'' in
      if m \<noteq> [] then m else case map_of (template_defaults tmpl) ''model'' of Some d \<Rightarrow> d | None \<Rightarrow> [])"

definition build_command :: "cli_template \<Rightarrow> node \<Rightarrow> string \<Rightarrow> string" where
  "build_command tmpl n sdir =
     replace_all ''{provider}'' (provider tmpl)
       (replace_all ''{working_dir}'' (attr_get_or (nattrs n) ''working_dir'' ''.'')
         (replace_all ''{prompt_file}'' (sdir @ ''/prompt.md'')
           (replace_all ''{model}'' (template_model tmpl n) (command_pattern tmpl))))"

text \<open>\<open>iss >> token\<close>.\<close>

fun tokens_of :: "string \<Rightarrow> string \<Rightarrow> string list" where
  "tokens_of [] acc = (if acc = [] then [] else [acc])"
| "tokens_of (c # cs) acc =
     (if is_space c then (if acc = [] then tokens_of cs [] else acc # tokens_of cs []) else tokens_of cs (acc @ [c]))"

definition build_args :: "cli_template \<Rightarrow> node \<Rightarrow> string \<Rightarrow> string list" where
  "build_args tmpl n sdir = tokens_of (build_command tmpl n sdir) []"

section \<open>The policy of a node's class\<close>

datatype workflow_mode = Implementation | NonCoding | No_Workflow

record prompt_policy =
  inject_role_isolation :: bool
  inject_human_feedback :: bool
  workflow :: workflow_mode
  allow_skill_trailer :: bool
  role_label :: string

definition coding_policy :: prompt_policy where
  "coding_policy = \<lparr>inject_role_isolation = False, inject_human_feedback = False, workflow = Implementation,
     allow_skill_trailer = True, role_label = ''implementer''\<rparr>"

definition reading_policy :: "string \<Rightarrow> prompt_policy" where
  "reading_policy role = \<lparr>inject_role_isolation = True, inject_human_feedback = False, workflow = NonCoding,
     allow_skill_trailer = False, role_label = role\<rparr>"

definition policy_for :: "string \<Rightarrow> prompt_policy" where
  "policy_for cls =
     (if cls = ''apply_feedback'' then coding_policy\<lparr>inject_human_feedback := True\<rparr>
      else if cls = ''critique'' \<or> cls = ''review'' then reading_policy ''reviewer''
      else if cls = ''docs'' then reading_policy ''documenter''
      else if cls = ''troubleshoot'' then reading_policy ''troubleshooter''
      else coding_policy)"

section \<open>The prompt\<close>

definition rule_line :: string where
  "rule_line = nl @ nl @ ''---'' @ nl"

definition role_text :: "prompt_policy \<Rightarrow> string" where
  "role_text p =
     (if inject_role_isolation p then
        rule_line @ ''You are operating in strict '' @ role_label p @
        '' mode. Do not modify source code. Do not run Edit/Write operations. '' @
        ''Your output should be analysis and recommendations only.''
      else [])"

definition feedback_text :: "prompt_policy \<Rightarrow> ctxt \<Rightarrow> string" where
  "feedback_text p c =
     (if inject_human_feedback p \<and> ctx_get c ''human.gate.feedback'' \<noteq> []
      then rule_line @ ''Feedback from reviewer: '' @ ctx_get c ''human.gate.feedback'' else [])"

definition workflow_text :: "prompt_policy \<Rightarrow> node \<Rightarrow> string" where
  "workflow_text p n =
     (if workflow p = Implementation \<and> attr_get (nattrs n) ''no_commit'' \<noteq> ''true'' then
        rule_line @ ''## Workflow Instructions'' @ nl @ nl @
        ''After completing your implementation:'' @ nl @
        ''1. Run the project's build command to verify compilation'' @ nl @
        ''2. Run the project's test suite to verify no regressions'' @ nl @
        ''3. Commit your changes with a clear, descriptive commit message summarizing what was done'' @ nl @
        ''4. Do NOT modify or write to the .needle/ directory '' @ em_dash @ '' it is managed by the pipeline engine'' @ nl
      else if workflow p = NonCoding then
        rule_line @ ''## Workflow Instructions'' @ nl @ nl @ ''Do NOT modify source code.'' @ nl @ ''Do NOT commit changes.'' @ nl @
        ''Your output must be review/documentation artifacts only.'' @ nl
      else [])"

definition uses_skills :: "prompt_policy \<Rightarrow> cli_template \<Rightarrow> node \<Rightarrow> bool" where
  "uses_skills p tmpl n =
     (allow_skill_trailer p \<and> provider tmpl = ''claude'' \<and>
      (attr_get (nattrs n) ''use_skills'' = ''true'' \<or>
       (case attr_get_duration_ms (nattrs n) ''timeout'' of Some t \<Rightarrow> 1800000 < t | None \<Rightarrow> False)))"

definition skills_text :: string where
  "skills_text =
     nl @ ''## Available Skills'' @ nl @ nl @
     ''You have access to sprint planning and execution skills for complex, multi-step tasks:'' @ nl @ nl @
     ''- **/sprint-plan** '' @ em_dash @ '' Use this for tasks that require significant planning before implementation. '' @
     ''It will help you break the work into phases, identify risks, and produce a structured plan.'' @ nl @
     ''- **/sprint-execute** '' @ em_dash @
     '' Use this to execute a plan phase-by-phase with build/test validation after each phase.'' @ nl @
     ''- **/review-code** '' @ em_dash @ '' Use this for comprehensive multi-perspective code review.'' @ nl @ nl @
     ''For this task, consider whether the scope is large enough to benefit from structured planning '' @
     ''before diving into implementation. If the task involves multiple files, complex architecture decisions, '' @
     ''or significant refactoring, use /sprint-plan first to create a plan, then /sprint-execute to implement it.'' @ nl @ nl @
     ''IMPORTANT: You are running autonomously in a pipeline '' @ em_dash @ '' there is no human to interact with.'' @ nl @
     ''Do NOT ask for confirmation or wait for user input at any point.'' @ nl @
     ''If you use /sprint-plan, immediately follow it with /sprint-execute to implement the plan.'' @ nl @
     ''Make all decisions yourself. If something is ambiguous, choose the most reasonable option and proceed.'' @ nl @ nl @
     ''When using sprint skills:'' @ nl @
     ''- Commit at the end of each sprint phase with a message describing the phase'' @ nl @
     ''- Commit at the end of the sprint with a summary message'' @ nl @
     ''- Each commit should leave the build passing and tests green'' @ nl"

definition prompt_tail :: "prompt_policy \<Rightarrow> cli_template \<Rightarrow> node \<Rightarrow> ctxt \<Rightarrow> string" where
  "prompt_tail p tmpl n c =
     role_text p @ feedback_text p c @ workflow_text p n @ (if uses_skills p tmpl n then skills_text else [])"

definition assemble_prompt :: "cli_template \<Rightarrow> node \<Rightarrow> ctxt \<Rightarrow> string" where
  "assemble_prompt tmpl n c =
     (let prompt = (if node_prompt n = [] then node_label n else node_prompt n);
          mode = ctx_get c ''needle.fidelity_mode''; mode = (if mode = [] then ''compact'' else mode)
      in build_fidelity_preamble mode n c @ ''---'' @ nl @ nl @ expand_context_refs c prompt @
         prompt_tail (policy_for (attr_get (nattrs n) ''class'')) tmpl n c)"

section \<open>Tools\<close>

definition tool_name :: "string \<Rightarrow> string" where
  "tool_name entry = takeWhile (\<lambda>c. c \<noteq> CHR '':'') entry"

text \<open>The entries between commas, blanks left out; what stands behind a colon is dropped.\<close>

fun tool_names :: "string \<Rightarrow> string \<Rightarrow> string list" where
  "tool_names [] acc = (if acc = [] then [] else [tool_name acc])"
| "tool_names (c # cs) acc =
     (if c = CHR '','' then (if acc = [] then tool_names cs [] else tool_name acc # tool_names cs [])
      else tool_names cs (if c = CHR '' '' then acc else acc @ [c]))"

definition modifying_tools :: "string list" where
  "modifying_tools = [''Edit'', ''Write'', ''NotebookEdit'']"

definition tool_args :: "cli_template \<Rightarrow> node \<Rightarrow> string list" where
  "tool_args tmpl n =
     (let allowed_attr = attr_get (nattrs n) ''allowed_tools''; names = tool_names allowed_attr [];
          disallow = filter (\<lambda>t. t \<notin> set names) modifying_tools
      in if allowed_attr = [] \<or> provider tmpl \<noteq> ''claude'' then []
         else (''--allowedTools'' # names) @ (if disallow \<noteq> [] then ''--disallowedTools'' # disallow else []))"

section \<open>The run\<close>

definition cli_working_dir :: "node \<Rightarrow> ctxt \<Rightarrow> string" where
  "cli_working_dir n c =
     (let dir = attr_get (nattrs n) ''working_dir'';
          dir = (if dir = [] \<and> attr_get (nattrs n) ''cwd_scope'' \<noteq> ''parent'' then ctx_get c ''needle.branch.cwd'' else dir);
          dir = (if dir = [] then ctx_get c ''needle.project_dir'' else dir)
      in if dir = [] then ''.'' else dir)"

definition cli_timeout :: "cli_template \<Rightarrow> node \<Rightarrow> int" where
  "cli_timeout tmpl n = (case attr_get_duration_ms (nattrs n) ''timeout'' of Some t \<Rightarrow> t | None \<Rightarrow> default_timeout_ms tmpl)"

definition cli_idle :: "cli_template \<Rightarrow> node \<Rightarrow> int" where
  "cli_idle tmpl n = (case attr_get_duration_ms (nattrs n) ''idle_timeout'' of Some t \<Rightarrow> t | None \<Rightarrow> default_idle_timeout_ms tmpl)"

text \<open>The command and its arguments with the session id and the tools; \<open>None\<close> for an empty command.\<close>

definition cli_command :: "cli_template \<Rightarrow> node \<Rightarrow> string \<Rightarrow> string \<Rightarrow> (string \<times> string list) option" where
  "cli_command tmpl n sdir sid =
     (case build_args tmpl n sdir of
        [] \<Rightarrow> None
      | cmd # args \<Rightarrow> Some (cmd, map (\<lambda>a. if a = ''{session_id}'' then sid else a) args @ tool_args tmpl n))"

text \<open>Integer division of \<open>int\<close> truncates towards zero.\<close>

definition timeout_message :: "int \<Rightarrow> int \<Rightarrow> proc_result \<Rightarrow> string" where
  "timeout_message timeout_ms idle_ms p =
     (if idle_timeout p then
        ''proc idle for '' @ show_int (quot_int idle_ms 1000) @ ''s (no stdout/stderr output) '' @ em_dash @ '' killed'' @
        (if stdout_output p = [] then [] else ''; partial output in response.md'')
      else
        ''proc timed out after '' @ show_int (quot_int timeout_ms 1000) @ ''s'' @
        (if stdout_output p = [] then [] else '' (partial output in response.md)''))"

definition result_text :: "'w cli_env \<Rightarrow> string \<Rightarrow> string" where
  "result_text env txt =
     (case cb_json env txt of
        Some (JObj kvs) \<Rightarrow> (case map_of kvs ''result'' of Some (JStr s) \<Rightarrow> s | _ \<Rightarrow> txt)
      | _ \<Rightarrow> txt)"

definition limit_message :: "rate_limit \<Rightarrow> string" where
  "limit_message rl =
     ''Usage limit reached'' @ (if rl_retry_after rl = [] then [] else '', please try again after '' @ rl_retry_after rl)"

definition process_outcome :: "'w cli_env \<Rightarrow> cli_template \<Rightarrow> node \<Rightarrow> proc_result \<Rightarrow> 'w \<Rightarrow> outcome" where
  "process_outcome env tmpl n p w =
     (if timed_out p then
        (new_outcome FAILURE)\<lparr>out_text := timeout_message (cli_timeout tmpl n) (cli_idle tmpl n) p,
          context_updates := [(''cli.timeout_kind.'' @ node_id n, if idle_timeout p then ''idle'' else ''wall_clock'')]\<rparr>
      else if exit_code p = 0 then (new_outcome SUCCESS)\<lparr>out_text := result_text env (stdout_output p)\<rparr>
      else
        (case detect_rate_limit env (stdout_output p) (stderr_output p) w of
           Some rl \<Rightarrow> (new_outcome RETRY)\<lparr>retry_after_ms := rl_wait_ms rl, out_text := limit_message rl\<rparr>
         | None \<Rightarrow> (new_outcome FAILURE)\<lparr>out_text := (if stderr_output p = [] then stdout_output p else stderr_output p)\<rparr>))"

text \<open>What the agent left in \<open>status.json\<close>; a value of the wrong type ends the reading, what was read before stays.\<close>

definition get_text :: "json \<Rightarrow> string \<Rightarrow> (string \<Rightarrow> outcome \<Rightarrow> outcome) \<Rightarrow> outcome attempt" where
  "get_text j k upd out = (case json_find j k of None \<Rightarrow> (out, True) | Some v \<Rightarrow> read_text v upd out)"

definition put_update :: "string \<Rightarrow> string \<Rightarrow> outcome \<Rightarrow> outcome" where
  "put_update k v out = out\<lparr>context_updates := omap_set k v (context_updates out)\<rparr>"

definition read_updates :: "json \<Rightarrow> outcome attempt" where
  "read_updates j = try_all
     (case json_find j ''context_updates'' of Some (JObj kvs) \<Rightarrow> map (\<lambda>(k, v). read_text v (put_update k)) kvs | _ \<Rightarrow> [])"

definition status_override :: "json \<Rightarrow> outcome \<Rightarrow> outcome" where
  "status_override j out = fst (try_all
     [get_text j ''status'' (\<lambda>v out. out\<lparr>status := stage_status_from_string v\<rparr>),
      get_text j ''preferred_label'' (\<lambda>v out. out\<lparr>preferred_label := v\<rparr>), read_updates j] out)"

definition apply_status_file :: "'w cli_env \<Rightarrow> string \<Rightarrow> outcome \<Rightarrow> 'w \<Rightarrow> outcome" where
  "apply_status_file env sdir out w =
     (case cb_read env (sdir @ ''/status.json'') w of
        None \<Rightarrow> out
      | Some txt \<Rightarrow> (case cb_json env txt of None \<Rightarrow> out | Some j \<Rightarrow> status_override j out))"

section \<open>The stage directory\<close>

definition stage_files :: "(string \<times> string) list" where
  "stage_files = [(''prompt'', ''.md''), (''response'', ''.md''), (''status'', ''.json''), (''debug'', ''.log'')]"

fun first_free :: "(string \<Rightarrow> bool) \<Rightarrow> string list \<Rightarrow> string \<Rightarrow> string" where
  "first_free taken [] dest = dest"
| "first_free taken (d # ds) dest = (if taken d then first_free taken ds d else d)"

definition archive_name :: "(string \<Rightarrow> bool) \<Rightarrow> string \<Rightarrow> string \<Rightarrow> string \<Rightarrow> string" where
  "archive_name taken stem ts ext =
     (let dest = stem @ ''-'' @ ts @ ext in
      if taken dest then first_free taken (map (\<lambda>i. stem @ ''-'' @ ts @ ''-'' @ show_nat i @ ext) [2..<100]) dest else dest)"

definition archive_file :: "'w cli_env \<Rightarrow> string \<Rightarrow> string \<times> string \<Rightarrow> 'w \<Rightarrow> 'w" where
  "archive_file env sdir name w =
     (let stem = sdir @ ''/'' @ fst name; path = stem @ snd name in
      case cb_mtime env path w of
        None \<Rightarrow> w
      | Some ts \<Rightarrow> cb_rename env path (archive_name (\<lambda>p. cb_exists env p w) stem ts (snd name)) w)"

definition archive_stage_files :: "'w cli_env \<Rightarrow> string \<Rightarrow> 'w \<Rightarrow> 'w" where
  "archive_stage_files env sdir w = fold (archive_file env sdir) stage_files w"

section \<open>\<open>CLIBackend::execute\<close>\<close>

definition prompt_too_large :: "'w cli_env \<Rightarrow> node \<Rightarrow> string \<Rightarrow> 'w \<Rightarrow> string option" where
  "prompt_too_large env n prompt w =
     (let kb = length prompt div 1024; fail_kb = cb_config_int env ''defaults.prompt_fail_kb'' 500 w in
      if 0 < fail_kb \<and> nat fail_kb \<le> kb then
        Some (''prompt size '' @ show_nat kb @ '' KB exceeds hard limit of '' @ show_int fail_kb @ '' KB for node '' @ node_id n @
          '' '' @ em_dash @ '' lower fidelity (`fidelity='' @ [dquote] @ ''summary:high'' @ [dquote] @
          ''`) or split the node (see `defaults.prompt_fail_kb` to tune)'')
      else None)"

definition write_quiet :: "'w cli_env \<Rightarrow> string \<Rightarrow> string \<Rightarrow> 'w \<Rightarrow> 'w" where
  "write_quiet env path txt w = snd (cb_write env path txt w)"

definition wrap_command :: "'w cli_env \<Rightarrow> string \<Rightarrow> string list \<Rightarrow> node \<Rightarrow> ctxt \<Rightarrow> command_line" where
  "wrap_command env cmd args n c = (case cb_wrapper env of None \<Rightarrow> (cmd, args, []) | Some f \<Rightarrow> f cmd args n c)"

text \<open>From the command on.\<close>

definition run_agent_process ::
  "'w cli_env \<Rightarrow> cli_template \<Rightarrow> node \<Rightarrow> ctxt \<Rightarrow> string \<Rightarrow> string \<Rightarrow> string \<Rightarrow> string list \<Rightarrow> string \<Rightarrow> 'w \<Rightarrow> outcome result \<times> 'w" where
  "run_agent_process env tmpl n c sdir prompt cmd args sid w =
     (let w = (if supports_resume tmpl \<and> sdir \<noteq> [] then write_quiet env (sdir @ ''/session_id'') sid w else w);
          (r, w) = cb_run env (wrap_command env cmd args n c) (cli_working_dir n c) (cli_timeout tmpl n)
            (if pipe_prompt_via_stdin tmpl then prompt else []) (cli_idle tmpl n) w
      in case r of
           Inl e \<Rightarrow> (failure (''process runner failed: '' @ e), w)
         | Inr p \<Rightarrow>
             let w = write_quiet env (sdir @ ''/response.md'') (stdout_output p) w;
                 w = (if stderr_output p \<noteq> [] \<and> sdir \<noteq> [] then write_quiet env (sdir @ ''/debug.log'') (stderr_output p) w else w);
                 out = process_outcome env tmpl n p w;
                 out = (if supports_resume tmpl then put_update (''cli.session_id.'' @ node_id n) sid out else out)
             in (success (apply_status_file env sdir out w), w))"

definition cli_execute :: "'w cli_env \<Rightarrow> templates \<Rightarrow> node \<Rightarrow> ctxt \<Rightarrow> string \<Rightarrow> 'w \<Rightarrow> outcome result \<times> 'w" where
  "cli_execute env ts n c sdir w =
     (let w = archive_stage_files env sdir (cb_mkdir env sdir w); tmpl = resolve_template ts n;
          prompt = assemble_prompt tmpl n c; (written, w) = cb_write env (sdir @ ''/prompt.md'') prompt w
      in if \<not> written then (failure (''failed to write prompt file: '' @ sdir @ ''/prompt.md''), w)
         else case prompt_too_large env n prompt w of
             Some e \<Rightarrow> (failure e, w)
           | None \<Rightarrow>
               if build_args tmpl n sdir = [] then (failure ''empty command'', w)
               else
                 let (sid, w) = cb_uuid env w in
                 case cli_command tmpl n sdir sid of
                   None \<Rightarrow> (failure ''empty command'', w)
                 | Some (cmd, args) \<Rightarrow> run_agent_process env tmpl n c sdir prompt cmd args sid w)"

section \<open>The outcome of a process\<close>

lemma seconds_wait_bounds: "1000 \<le> seconds_wait s \<and> seconds_wait s \<le> 86405000"
  by (simp add: seconds_wait_def Let_def min_def)

lemma printed_wait_bounds: "printed_wait env t = 0 \<or> 1000 \<le> printed_wait env t"
  "find_sub ''try again in '' t = None \<Longrightarrow> printed_wait env t = 0"
  by (auto simp: printed_wait_def split: option.split)

lemma named_wait_bounds: "named_wait env a wait w = wait \<or> 1000 \<le> named_wait env a wait w \<and> named_wait env a wait w \<le> 86405000"
  using seconds_wait_bounds by (auto simp: named_wait_def split: option.split)

lemma rate_limit_wait:
  assumes "detect_rate_limit env out err w = Some rl"
  shows "1000 \<le> rl_wait_ms rl \<and> (if find_sub ''try again in '' (out @ nl @ err) = None then rl_wait_ms rl \<le> 86405000 else True)"
proof -
  define combined where "combined = out @ nl @ err"
  define wait where "wait = printed_wait env combined"
  define at_time where "at_time = (if wait = 0 then time_text combined ''try again at '' else [])"
  have "rl_wait_ms rl = (if named_wait env at_time wait w = 0 then 60000 else named_wait env at_time wait w)"
    using assms unfolding detect_rate_limit_def Let_def combined_def [symmetric] wait_def [symmetric] at_time_def [symmetric]
    by (auto split: if_splits)
  then show ?thesis
    using printed_wait_bounds [where env = env and t = combined] named_wait_bounds [of env at_time wait w]
    unfolding wait_def [symmetric] combined_def [symmetric] by auto
qed

lemma detects_limit: "detect_rate_limit env out err w = None \<longleftrightarrow> \<not> has_limit_pattern (to_lower (out @ nl @ err))"
  by (simp add: detect_rate_limit_def Let_def)


text \<open>A \<open>status.json\<close> of the agent overrides the exit code, though the codergen handler says the exit code is what counts.\<close>

lemma status_file_overrides:
  "status (status_override (JObj [(''status'', JStr ''SUCCESS'')]) out) = SUCCESS"
  by (simp add: status_override_def and_then_def get_text_def read_text_def json_find_def read_updates_def
      stage_status_from_string_def)

section \<open>The tools of the agent\<close>

text \<open>Fact: the tools of a read-only agent. If a node lists its tools and runs under \<open>claude\<close>, then every tool that can change
  a file is either in the list or named behind \<open>--disallowedTools\<close>, at the end of the command, and no tool is both;
  and the list is read as it is written: names without commas, blanks and colons come out as they stand.\<close>

theorem tools_enforced:
  assumes "cli_command tmpl n sdir sid = Some (cmd, args)" "provider tmpl = ''claude''"
    and "attr_get (nattrs n) ''allowed_tools'' \<noteq> []"
  shows "\<exists>rest denied. args = rest @ ''--allowedTools'' # tool_names (attr_get (nattrs n) ''allowed_tools'') [] @ denied \<and>
     (\<forall>t \<in> {''Edit'', ''Write'', ''NotebookEdit''}.
        t \<in> set (tool_names (attr_get (nattrs n) ''allowed_tools'') []) \<longleftrightarrow> t \<notin> set denied) \<and>
     (denied \<noteq> [] \<longrightarrow> hd denied = ''--disallowedTools'')"
proof -
  define names where "names = tool_names (attr_get (nattrs n) ''allowed_tools'') []"
  define dis where "dis = filter (\<lambda>t. t \<notin> set names) modifying_tools"
  have t: "tool_args tmpl n = ''--allowedTools'' # names @ (if dis \<noteq> [] then ''--disallowedTools'' # dis else [])"
    using assms(2,3) by (simp add: tool_args_def Let_def names_def dis_def)
  from assms(1) obtain rest where "args = rest @ tool_args tmpl n"
    by (auto simp: cli_command_def split: list.splits)
  with t have "args = rest @ ''--allowedTools'' # names @ (if dis \<noteq> [] then ''--disallowedTools'' # dis else [])" by simp
  moreover have "t \<in> set names \<longleftrightarrow> t \<notin> set (if dis \<noteq> [] then ''--disallowedTools'' # dis else [])"
    if "t \<in> {''Edit'', ''Write'', ''NotebookEdit''}" for t
    using that by (auto simp: dis_def modifying_tools_def)
  moreover have "(if dis \<noteq> [] then ''--disallowedTools'' # dis else []) \<noteq> [] \<longrightarrow>
      hd (if dis \<noteq> [] then ''--disallowedTools'' # dis else []) = ''--disallowedTools''" by simp
  ultimately show ?thesis unfolding names_def by blast
qed

definition tool_word :: "string \<Rightarrow> bool" where
  "tool_word t = (t \<noteq> [] \<and> (\<forall>c \<in> set t. c \<noteq> CHR '','' \<and> c \<noteq> CHR '' '' \<and> c \<noteq> CHR '':''))"

lemma tool_names_word:
  "(\<forall>c \<in> set t. c \<noteq> CHR '','' \<and> c \<noteq> CHR '' '') \<Longrightarrow> tool_names (t @ s) acc = tool_names s (acc @ t)"
  by (induction t arbitrary: acc) auto

lemma tool_name_word: "tool_word t \<Longrightarrow> tool_name t = t"
  by (simp add: tool_word_def tool_name_def)

lemma tool_names_join: "\<forall>t \<in> set ts. tool_word t \<Longrightarrow> tool_names (join '','' ts) [] = ts"
proof (induction ts rule: induct_list012)
  case (2 t)
  then show ?case using tool_names_word [of t "[]" "[]"] tool_name_word by (simp add: tool_word_def)
next
  case (3 t u ts)
  then have "tool_names (join '','' (t # u # ts)) [] = tool_names ('','' @ join '','' (u # ts)) t"
    using tool_names_word [of t "'','' @ join '','' (u # ts)" "[]"] by (simp add: tool_word_def)
  with 3 show ?case using tool_name_word by (simp add: tool_word_def)
qed simp

section \<open>The preamble\<close>

text \<open>What a mode does not show does not matter.\<close>

lemma omap_ok_filter: "omap_ok c \<Longrightarrow> omap_ok (filter P c)"
  by (induction c) (auto simp: omap_ok_def)

lemma map_of_filter_key: "map_of (filter (\<lambda>kv. P (fst kv)) c) k = (if P k then map_of c k else None)"
  by (induction c) auto

lemma shown_items_cong:
  assumes "omap_ok c" "omap_ok c'" and "\<And>k. shown_key mode k \<Longrightarrow> map_of c k = map_of c' k"
  shows "shown_items mode item c = shown_items mode item c'"
proof -
  have "filter (\<lambda>kv. shown_key mode (fst kv)) c = filter (\<lambda>kv. shown_key mode (fst kv)) c'"
  proof (rule omap_ext)
    show "map_of (filter (\<lambda>kv. shown_key mode (fst kv)) c) = map_of (filter (\<lambda>kv. shown_key mode (fst kv)) c')"
      using assms(3) by (auto simp: fun_eq_iff map_of_filter_key)
  qed (rule omap_ok_filter [OF assms(1)] omap_ok_filter [OF assms(2)])+
  then show ?thesis by (simp add: shown_items_def)
qed

lemma var_key_not_internal: "starts_with ''var.'' k \<Longrightarrow> \<not> is_internal_key k"
  by (auto simp: is_internal_key_def starts_with_iff_prefix prefix_def)

lemma shown_outside:
  "mode \<in> {''truncate'', ''summary:high'', ''summary:medium'', ''summary:low''} \<Longrightarrow> shown_key mode k \<Longrightarrow> \<not> is_internal_key k"
  by (auto simp: shown_key_def var_key_not_internal)

text \<open>Fact: the agent is not told about the engine. In the modes \<open>truncate\<close> and \<open>summary\<close> two contexts that agree on the
  goal and on all keys that do not begin with \<open>needle.\<close> or \<open>internal.\<close> give the same preamble, whatever else differs;
  in the mode \<open>full\<close> the keys beginning with \<open>needle.\<close> other than the goal do not matter.\<close>

theorem preamble_hides_engine:
  assumes "omap_ok c" "omap_ok c'" and "ctx_get c ''needle.goal'' = ctx_get c' ''needle.goal''"
    and "\<forall>k. hidden k \<or> map_of c k = map_of c' k"
    and "mode \<in> {''truncate'', ''summary:high'', ''summary:medium'', ''summary:low''} \<and>
           hidden = (\<lambda>k. starts_with ''needle.'' k \<or> starts_with ''internal.'' k) \<or>
         mode = ''full'' \<and> hidden = starts_with ''needle.''"
  shows "build_fidelity_preamble mode n c = build_fidelity_preamble mode n c'"
proof -
  have "\<not> hidden k" if "shown_key mode k" for k
    using assms(5)
  proof (elim disjE conjE)
    assume "mode \<in> {''truncate'', ''summary:high'', ''summary:medium'', ''summary:low''}"
      "hidden = (\<lambda>k. starts_with ''needle.'' k \<or> starts_with ''internal.'' k)"
    with shown_outside [of mode k] that show ?thesis by (simp add: is_internal_key_def)
  next
    assume "mode = ''full''" "hidden = starts_with ''needle.''"
    with that show ?thesis by (simp add: shown_key_def)
  qed
  with assms(4) have items: "shown_items mode item c = shown_items mode item c'" for item
    by (intro shown_items_cong [OF assms(1,2)]) blast
  have "mode = ''truncate'' \<or> mode = ''summary:high'' \<or> mode = ''summary:medium'' \<or> mode = ''summary:low'' \<or> mode = ''full''"
    using assms(5) by (elim disjE conjE insertE emptyE) simp_all
  then show ?thesis
  proof (elim disjE)
    assume "mode = ''truncate''"
    then show ?thesis using assms(3) by (simp add: build_fidelity_preamble_def effective_mode_def)
  next
    assume m: "mode = ''summary:high''"
    show ?thesis using assms(3) items [unfolded m] by (simp add: m build_fidelity_preamble_def effective_mode_def)
  next
    assume m: "mode = ''summary:medium''"
    show ?thesis using assms(3) items [unfolded m] by (simp add: m build_fidelity_preamble_def effective_mode_def)
  next
    assume m: "mode = ''summary:low''"
    show ?thesis using assms(3) items [unfolded m] by (simp add: m build_fidelity_preamble_def effective_mode_def)
  next
    assume m: "mode = ''full''"
    show ?thesis using assms(3) items [unfolded m] by (simp add: m build_fidelity_preamble_def effective_mode_def)
  qed
qed

section \<open>References in the prompt\<close>

lemma expand_plain_text: "CHR ''$'' \<notin> set a \<Longrightarrow> expand_context_refs c (a @ s) = a @ expand_context_refs c s"
  by (induction a) (auto simp: context_ref_def)

lemma takeWhile_key:
  assumes "\<forall>x \<in> set k. key_char x" and "b = [] \<or> \<not> key_char (hd b)"
  shows "takeWhile key_char (k @ b) = k"
  using assms by (cases b) (auto simp: takeWhile_append2)

text \<open>A known key is replaced by its value, once: the value is not searched again.\<close>

lemma expand_known_key:
  assumes "CHR ''$'' \<notin> set a" "k \<noteq> []" "\<forall>x \<in> set k. key_char x" "ctx_has c k" "b = [] \<or> \<not> key_char (hd b)"
  shows "expand_context_refs c (a @ ''$context.'' @ k @ b) = a @ ctx_get c k @ expand_context_refs c b"
proof -
  have "plain_ref c (''context.'' @ k @ b) = Some (ctx_get c k, 8 + length k)"
    using assms takeWhile_key [OF assms(3,5)] by (simp add: plain_ref_def starts_with_def)
  then have "context_ref c (CHR ''$'') (''context.'' @ k @ b) = Some (ctx_get c k, 8 + length k)"
    by (simp add: context_ref_def)
  moreover have "drop (8 + length k) (''context.'' @ k @ b) = b" by (simp add: eval_nat_numeral)
  ultimately have "expand_context_refs c (CHR ''$'' # (''context.'' @ k @ b)) = ctx_get c k @ expand_context_refs c b"
    by (simp only: expand_context_refs.simps option.case prod.case)
  then show ?thesis using expand_plain_text [OF assms(1), of c "CHR ''$'' # (''context.'' @ k @ b)"] by simp
qed

text \<open>The full stop of a sentence is taken for a part of the key, and the reference stays as it is.\<close>

lemma sentence_end_not_expanded:
  "expand_context_refs [(''a'', ''value'')] ''See $context.a.'' = ''See $context.a.''"
  "expand_context_refs [(''a'', ''value'')] ''See $context.a, '' = ''See value, ''"
  by code_simp+

section \<open>The prompt and the diagnosis\<close>

lemma policy_cases:
  "policy_for cls \<in> {coding_policy, coding_policy\<lparr>inject_human_feedback := True\<rparr>} \<or>
   (\<exists>role \<in> {''reviewer'', ''documenter'', ''troubleshooter''}. policy_for cls = reading_policy role)"
  by (simp add: policy_for_def)

section \<open>Prompts that are too long\<close>

lemma archive_file_run: "archive_file (env\<lparr>cb_run := f\<rparr>) = archive_file env"
  by (intro ext) (simp add: archive_file_def Let_def split: option.split)

lemma archive_run: "archive_stage_files (env\<lparr>cb_run := f\<rparr>) sdir w = archive_stage_files env sdir w"
  by (simp add: archive_stage_files_def archive_file_run)

text \<open>Fact: an oversized prompt never reaches an agent. If the prompt has at least the configured number of kilobytes, the stage
  fails and no process is started: any other process runner gives the same result.\<close>

theorem oversized_prompt_never_runs:
  assumes "\<forall>w. cb_config_int env ''defaults.prompt_fail_kb'' 500 w = fail_kb" and "0 < fail_kb"
    and "nat fail_kb * 1024 \<le> length (assemble_prompt (resolve_template ts n) n c)"
  shows "(\<exists>e. fst (cli_execute env ts n c sdir w) = Inl e) \<and>
    cli_execute (env\<lparr>cb_run := f\<rparr>) ts n c sdir w = cli_execute env ts n c sdir w"
proof -
  define prompt where "prompt = assemble_prompt (resolve_template ts n) n c"
  have "nat fail_kb \<le> length prompt div 1024"
    using assms(3) by (simp add: prompt_def less_eq_div_iff_mult_less_eq)
  then have big: "\<exists>e. prompt_too_large env n prompt w = Some e" for w
    using assms(1,2) by (simp add: prompt_too_large_def Let_def)
  have same: "prompt_too_large (env\<lparr>cb_run := f\<rparr>) n prompt w = prompt_too_large env n prompt w" for w
    by (simp add: prompt_too_large_def)
  obtain ok w1 where w1: "cb_write env (sdir @ ''/prompt.md'') prompt (archive_stage_files env sdir (cb_mkdir env sdir w)) = (ok, w1)"
    by (rule prod.exhaust)
  obtain e where e: "prompt_too_large env n prompt w1 = Some e" using big by blast
  have x: "cli_execute env ts n c sdir w =
      (if \<not> ok then (failure (''failed to write prompt file: '' @ sdir @ ''/prompt.md''), w1) else (failure e, w1))"
    unfolding cli_execute_def Let_def prompt_def [symmetric] w1 by (simp add: e)
  have "cli_execute (env\<lparr>cb_run := f\<rparr>) ts n c sdir w =
      (if \<not> ok then (failure (''failed to write prompt file: '' @ sdir @ ''/prompt.md''), w1) else (failure e, w1))"
    unfolding cli_execute_def Let_def prompt_def [symmetric] archive_run by (simp add: w1 same e)
  with x show ?thesis by simp
qed

section \<open>Concrete runs\<close>

definition silent_env :: "unit cli_env" where
  "silent_env = \<lparr>cb_run = (\<lambda>_ _ _ _ _ w. (Inr \<lparr>exit_code = 0, stdout_output = [], stderr_output = [], timed_out = False,
       idle_timeout = False\<rparr>, w)),
     cb_read = (\<lambda>_ _. None), cb_write = (\<lambda>_ _ w. (True, w)), cb_mkdir = (\<lambda>_ w. w), cb_exists = (\<lambda>_ _. False),
     cb_rename = (\<lambda>_ _ w. w), cb_mtime = (\<lambda>_ _. None), cb_uuid = (\<lambda>w. (''id'', w)), cb_config_int = (\<lambda>_ d _. d),
     cb_json = (\<lambda>_. None), cb_millis = (\<lambda>_. None), cb_until = (\<lambda>_ _. None), cb_clock = (\<lambda>_ _. []), cb_wrapper = None\<rparr>"

definition review_node :: "(string \<times> string) list \<Rightarrow> node" where
  "review_node attrs = \<lparr>node_id = ''r'', ntype = CODERGEN, nattrs = attrs\<rparr>"

theorem oversized_prompt_never_runs_witness:
  "\<exists>e. fst (cli_execute silent_env (claude_default, Map.empty) (review_node [(''prompt'', replicate 512000 (CHR ''a''))]) [] ''s'' ()) = Inl e"
proof -
  let ?n = "review_node [(''prompt'', replicate 512000 (CHR ''a''))]"
  have e: "expand_context_refs c (replicate k (CHR ''a'')) = replicate k (CHR ''a'')" for c k
    using expand_plain_text [of "replicate k (CHR ''a'')" c "[]"] by simp
  have "nat 500 * 1024 \<le> length (assemble_prompt (resolve_template (claude_default, Map.empty) ?n) ?n [])"
    by (simp add: assemble_prompt_def Let_def review_node_def node_prompt_def attr_get_or_def e)
  then show ?thesis
    using oversized_prompt_never_runs [of silent_env 500 "(claude_default, Map.empty)" ?n "[]" "''s''" "()"]
    by (simp add: silent_env_def)
qed

theorem tools_enforced_witness:
  "\<exists>rest denied. snd (the (cli_command claude_default (review_node [(''allowed_tools'', ''Read, Write'')]) ''s'' ''id'')) =
     rest @ ''--allowedTools'' # tool_names ''Read, Write'' [] @ denied \<and>
     (\<forall>t \<in> {''Edit'', ''Write'', ''NotebookEdit''}. t \<in> set (tool_names ''Read, Write'' []) \<longleftrightarrow> t \<notin> set denied)"
proof -
  let ?n = "review_node [(''allowed_tools'', ''Read, Write'')]"
  have l: "attr_get (nattrs ?n) ''allowed_tools'' = ''Read, Write''" "provider claude_default = ''claude''"
    by (simp_all add: review_node_def attr_get_or_def claude_default_def)
  have "cli_command claude_default ?n ''s'' ''id'' \<noteq> None" by code_simp
  then obtain cmd args where c: "cli_command claude_default ?n ''s'' ''id'' = Some (cmd, args)" by fastforce
  have "\<exists>rest denied. args = rest @ ''--allowedTools'' # tool_names ''Read, Write'' [] @ denied \<and>
     (\<forall>t \<in> {''Edit'', ''Write'', ''NotebookEdit''}. t \<in> set (tool_names ''Read, Write'' []) \<longleftrightarrow> t \<notin> set denied)"
    using tools_enforced [OF c l(2)] unfolding l by blast
  then show ?thesis by (simp only: c option.sel snd_conv)
qed

theorem preamble_hides_engine_witness:
  "build_fidelity_preamble ''summary:low'' (review_node []) [(''needle.run_id'', ''1''), (''var.a'', ''x'')] =
   build_fidelity_preamble ''summary:low'' (review_node []) [(''var.a'', ''x'')]"
proof (rule preamble_hides_engine)
  show "omap_ok [(''needle.run_id'', ''1''), (''var.a'', ''x'')]" "omap_ok [(''var.a'', ''x'')]" by code_simp+
  show "ctx_get [(''needle.run_id'', ''1''), (''var.a'', ''x'')] ''needle.goal'' = ctx_get [(''var.a'', ''x'')] ''needle.goal''"
    by (simp add: ctx_get_def)
  show "\<forall>k. (starts_with ''needle.'' k \<or> starts_with ''internal.'' k) \<or>
      map_of [(''needle.run_id'', ''1''), (''var.a'', ''x'')] k = map_of [(''var.a'', ''x'')] k"
    by (simp add: starts_with_def)
qed simp

end
