(* ===== verification/Git_State.thy ===== *)
theory Git_State
  imports Cli_Backend
begin

text \<open>
  \<open>src/util/git_state.cpp\<close>: the state of the repository before and after a stage, their difference, and the JSON
  object that goes into the context and the status file. Git is a parameter.
\<close>

section \<open>Git\<close>

type_synonym 'w git = "string list \<Rightarrow> string \<Rightarrow> int \<Rightarrow> 'w \<Rightarrow> proc_result result \<times> 'w"

definition run_git_cmd :: "'w git \<Rightarrow> string \<Rightarrow> string \<Rightarrow> 'w \<Rightarrow> string \<times> 'w" where
  "run_git_cmd git cwd args w =
     (let (r, w) = git (tokens_of args []) cwd 10000 w
      in (case r of Inl _ \<Rightarrow> [] | Inr p \<Rightarrow> if exit_code p \<noteq> 0 then [] else rtrim is_line_end (stdout_output p), w))"

fun git_lines :: "string \<Rightarrow> string \<Rightarrow> string list" where
  "git_lines [] acc = (if acc = [] then [] else [acc])"
| "git_lines (c # cs) acc =
     (if c = newline then acc # git_lines cs [] else git_lines cs (if c = CHR 0x0D then acc else acc @ [c]))"

section \<open>Snapshots\<close>

record git_snapshot =
  gs_valid :: bool
  gs_head :: string
  gs_untracked :: "string list"
  gs_modified :: "string list"

definition no_snapshot :: git_snapshot where
  "no_snapshot = \<lparr>gs_valid = False, gs_head = [], gs_untracked = [], gs_modified = []\<rparr>"

definition changed_mark :: "string \<Rightarrow> bool" where
  "changed_mark xy = list_ex (\<lambda>c. c \<in> {CHR ''M'', CHR ''A'', CHR ''D'', CHR ''R''}) xy"

definition add_status_line :: "string \<Rightarrow> git_snapshot \<Rightarrow> git_snapshot" where
  "add_status_line ln snap =
     (if length ln < 4 then snap
      else let xy = take 2 ln; path = drop 3 ln in
        if xy = ''??'' then snap\<lparr>gs_untracked := gs_untracked snap @ [path]\<rparr>
        else if changed_mark xy then snap\<lparr>gs_modified := gs_modified snap @ [path]\<rparr>
        else snap)"

definition git_capture :: "'w git \<Rightarrow> string \<Rightarrow> 'w \<Rightarrow> git_snapshot \<times> 'w" where
  "git_capture git cwd w =
     (let (head, w) = run_git_cmd git cwd ''rev-parse HEAD'' w in
      if head = [] then (no_snapshot, w)
      else let (porcelain, w) = run_git_cmd git cwd ''status --porcelain'' w
           in (fold add_status_line (git_lines porcelain []) (no_snapshot\<lparr>gs_head := head, gs_valid := True\<rparr>), w))"

section \<open>The difference\<close>

record git_delta =
  gd_commits :: "commit_entry list"
  gd_untracked :: "string list"
  gd_modified :: "string list"

definition commit_of :: "string \<Rightarrow> commit_entry" where
  "commit_of ln =
     (case find_char (CHR 0x09) ln of
        None \<Rightarrow> \<lparr>commit_hash = ln, subject = []\<rparr>
      | Some n \<Rightarrow> \<lparr>commit_hash = take n ln, subject = drop (n + 1) ln\<rparr>)"

definition new_files :: "string list \<Rightarrow> string list \<Rightarrow> string list" where
  "new_files before after = filter (\<lambda>p. p \<notin> set before) after"

definition git_diff :: "'w git \<Rightarrow> git_snapshot \<Rightarrow> git_snapshot \<Rightarrow> string \<Rightarrow> 'w \<Rightarrow> git_delta \<times> 'w" where
  "git_diff git before after cwd w =
     (if \<not> gs_valid before \<or> \<not> gs_valid after then (\<lparr>gd_commits = [], gd_untracked = [], gd_modified = []\<rparr>, w)
      else
        let (log, w) = (if gs_head before \<noteq> gs_head after
              then run_git_cmd git cwd (''log '' @ gs_head before @ ''..'' @ gs_head after @ '' --pretty=format:%H%x09%s'') w
              else ([], w))
        in (\<lparr>gd_commits = map commit_of (git_lines log []), gd_untracked = new_files (gs_untracked before) (gs_untracked after),
              gd_modified = new_files (gs_modified before) (gs_modified after)\<rparr>, w))"

definition commit_json :: "commit_entry \<Rightarrow> json" where
  "commit_json c = json_set ''subject'' (JStr (subject c)) (json_set ''hash'' (JStr (commit_hash c)) JNull)"

definition delta_json :: "git_delta \<Rightarrow> json" where
  "delta_json d = json_set ''files_modified_uncommitted'' (JArr (map JStr (gd_modified d)))
     (json_set ''files_added_untracked'' (JArr (map JStr (gd_untracked d)))
       (json_set ''commits_added'' (JArr (map commit_json (gd_commits d))) JNull))"

section \<open>What git prints\<close>

definition plain_line :: "string \<Rightarrow> bool" where
  "plain_line s = (newline \<notin> set s \<and> CHR 0x0D \<notin> set s)"

definition printed_commit :: "commit_entry \<Rightarrow> string" where
  "printed_commit c = commit_hash c @ CHR 0x09 # subject c"

definition commit_plain :: "commit_entry \<Rightarrow> bool" where
  "commit_plain c = (plain_line (commit_hash c) \<and> plain_line (subject c) \<and> CHR 0x09 \<notin> set (commit_hash c))"

lemma git_lines_plain: "plain_line l \<Longrightarrow> git_lines (l @ s) acc = git_lines s (acc @ l)"
  by (induction l arbitrary: acc) (auto simp: plain_line_def)

lemma git_lines_join: "\<forall>l \<in> set ls. plain_line l \<and> l \<noteq> [] \<Longrightarrow> git_lines (join [newline] ls) [] = ls"
proof (induction ls rule: induct_list012)
  case (2 l)
  then show ?case using git_lines_plain [of l "[]" "[]"] by simp
next
  case (3 l m ls)
  then have "git_lines (join [newline] (l # m # ls)) [] = git_lines ([newline] @ join [newline] (m # ls)) l"
    using git_lines_plain [of l "[newline] @ join [newline] (m # ls)" "[]"] by simp
  with 3 show ?case by simp
qed simp

lemma commit_of_printed: "commit_plain c \<Longrightarrow> commit_of (printed_commit c) = c"
proof -
  assume c: "commit_plain c"
  have "find_char (CHR 0x09) (h @ CHR 0x09 # t) = Some (length h)" if "CHR 0x09 \<notin> set h" for h t
    using that by (induction h) auto
  with c show ?thesis by (simp add: commit_of_def printed_commit_def commit_plain_def)
qed

lemma join_end_line: "\<forall>l \<in> set ls. l \<noteq> [] \<and> \<not> p (last l) \<Longrightarrow> rtrim p (join sep ls) = join sep ls"
proof (induction ls rule: induct_list012)
  case (3 l m ls)
  then have "join sep (m # ls) \<noteq> []" "rtrim p (join sep (m # ls)) = join sep (m # ls)"
    by (cases ls; simp)+
  then have "\<not> p (last (join sep (m # ls)))" using rtrim_last [of p "join sep (m # ls)"] by simp
  with \<open>join sep (m # ls) \<noteq> []\<close> show ?case by (simp add: rtrim_id)
next
  case (2 l)
  then show ?case using rtrim_id [of l p] by simp
qed (simp add: rtrim_def)

section \<open>What the diagnosis reads\<close>

lemma read_commit_json: "read_commit (commit_json c) s = (s\<lparr>d_commits := d_commits s @ [c]\<rparr>, True)"
  by (simp add: read_commit_def commit_json_def json_set_def)

lemma read_commits: "try_all (map (\<lambda>c. read_commit (commit_json c)) cs) s = (s\<lparr>d_commits := d_commits s @ cs\<rparr>, True)"
  by (induction cs arbitrary: s) (simp_all add: and_then_def read_commit_json)

lemma read_text_array:
  assumes "\<And>v w s. upd (v @ w) s = upd w (upd v s)" "\<And>s. upd [] s = s"
  shows "try_all (map (\<lambda>v. read_text (JStr v) (\<lambda>v. upd [v])) vs) s = (upd vs s, True)"
proof (induction vs arbitrary: s)
  case (Cons v vs)
  then show ?case using assms(1) [of "[v]" vs s] by (simp add: and_then_def read_text_def)
qed (simp add: assms(2))

lemma read_delta:
  "read_git_state (obj_items (delta_json d)) s =
     (s\<lparr>d_commits := d_commits s @ gd_commits d, d_untracked := d_untracked s @ gd_untracked d,
        d_modified := d_modified s @ gd_modified d\<rparr>, True)"
proof -
  have u: "try_all (map (\<lambda>v. read_text (JStr v) (\<lambda>v s. s\<lparr>d_untracked := d_untracked s @ [v]\<rparr>)) vs) s =
      (s\<lparr>d_untracked := d_untracked s @ vs\<rparr>, True)" for vs s
    by (rule read_text_array [where upd = "\<lambda>v s. s\<lparr>d_untracked := d_untracked s @ v\<rparr>"]) simp_all
  have m: "try_all (map (\<lambda>v. read_text (JStr v) (\<lambda>v s. s\<lparr>d_modified := d_modified s @ [v]\<rparr>)) vs) s =
      (s\<lparr>d_modified := d_modified s @ vs\<rparr>, True)" for vs s
    by (rule read_text_array [where upd = "\<lambda>v s. s\<lparr>d_modified := d_modified s @ v\<rparr>"]) simp_all
  have f: "map_of (obj_items (delta_json d)) ''commits_added'' = Some (JArr (map commit_json (gd_commits d)))"
    "map_of (obj_items (delta_json d)) ''files_added_untracked'' = Some (JArr (map JStr (gd_untracked d)))"
    "map_of (obj_items (delta_json d)) ''files_modified_uncommitted'' = Some (JArr (map JStr (gd_modified d)))"
    by (simp_all add: delta_json_def json_set_def)
  show ?thesis
    unfolding read_git_state_def f read_each_def option.case json_elems.simps map_map o_def
    by (simp add: and_then_def read_commits u m)
qed

text \<open>Fact: what a stage did to the repository reaches the diagnosis. If both snapshots are valid, the head moved and git prints
  the new commits as the format asks for, then the diagnosis that reads the recorded object adds exactly those commits,
  the files untracked only afterwards and the files modified only afterwards, in git's order.\<close>

theorem git_state_reaches_diagnosis:
  assumes "gs_valid before" "gs_valid after" "gs_head before \<noteq> gs_head after"
    and "git (tokens_of (''log '' @ gs_head before @ ''..'' @ gs_head after @ '' --pretty=format:%H%x09%s'') []) cwd 10000 w =
      (Inr \<lparr>exit_code = 0, stdout_output = join [newline] (map printed_commit cs), stderr_output = [], timed_out = False,
        idle_timeout = False\<rparr>, w')"
    and "\<forall>c \<in> set cs. commit_plain c"
  shows "read_git_state (obj_items (delta_json (fst (git_diff git before after cwd w)))) s =
    (s\<lparr>d_commits := d_commits s @ cs,
       d_untracked := d_untracked s @ filter (\<lambda>f. f \<notin> set (gs_untracked before)) (gs_untracked after),
       d_modified := d_modified s @ filter (\<lambda>f. f \<notin> set (gs_modified before)) (gs_modified after)\<rparr>, True)"
proof -
  define out where "out = join [newline] (map printed_commit cs)"
  have plain: "\<forall>l \<in> set (map printed_commit cs). plain_line l \<and> l \<noteq> []"
    using assms(5) by (auto simp: printed_commit_def commit_plain_def plain_line_def)
  then have "\<forall>l \<in> set (map printed_commit cs). l \<noteq> [] \<and> \<not> is_line_end (last l)"
    by (metis is_line_end_def last_in_set plain_line_def)
  then have "rtrim is_line_end out = out" unfolding out_def by (rule join_end_line)
  moreover have "git_lines out [] = map printed_commit cs" unfolding out_def using plain by (rule git_lines_join)
  moreover have "map commit_of (map printed_commit cs) = cs"
    using assms(5) by (auto intro!: map_idI simp: commit_of_printed)
  ultimately have "fst (git_diff git before after cwd w) =
      \<lparr>gd_commits = cs, gd_untracked = new_files (gs_untracked before) (gs_untracked after),
       gd_modified = new_files (gs_modified before) (gs_modified after)\<rparr>"
    using assms(1-4) unfolding out_def [symmetric]
    by (simp add: git_diff_def run_git_cmd_def)
  then show ?thesis by (simp add: read_delta new_files_def)
qed

definition one_commit_git :: "unit git" where
  "one_commit_git args cwd t w =
     (Inr \<lparr>exit_code = 0, stdout_output = (if take 1 args = [''log''] then ''b'' @ [CHR 0x09] @ ''Add file'' else ''b''),
        stderr_output = [], timed_out = False, idle_timeout = False\<rparr>, w)"

theorem git_state_reaches_diagnosis_witness:
  "d_commits (fst (read_git_state (obj_items (delta_json (fst (git_diff one_commit_git
      (no_snapshot\<lparr>gs_valid := True, gs_head := ''a''\<rparr>) (no_snapshot\<lparr>gs_valid := True, gs_head := ''b''\<rparr>) ''.'' ()))))
      no_signals)) = [\<lparr>commit_hash = ''b'', subject = ''Add file''\<rparr>]"
proof -
  let ?c = "\<lparr>commit_hash = ''b'', subject = ''Add file''\<rparr>"
  have t: "tokens_of ''log a..b --pretty=format:%H%x09%s'' [] = [''log'', ''a..b'', ''--pretty=format:%H%x09%s'']" by code_simp
  have g: "one_commit_git (tokens_of (''log '' @ ''a'' @ ''..'' @ ''b'' @ '' --pretty=format:%H%x09%s'') []) ''.'' 10000 () =
      (Inr \<lparr>exit_code = 0, stdout_output = join [newline] (map printed_commit [?c]), stderr_output = [], timed_out = False,
        idle_timeout = False\<rparr>, ())"
    using t by (simp add: one_commit_git_def printed_commit_def)
  have "commit_plain ?c" by code_simp
  then show ?thesis
    using git_state_reaches_diagnosis [where git = one_commit_git and w = "()" and w' = "()" and cwd = "''.''" and cs = "[?c]"
        and before = "no_snapshot\<lparr>gs_valid := True, gs_head := ''a''\<rparr>" and after = "no_snapshot\<lparr>gs_valid := True, gs_head := ''b''\<rparr>"
        and s = no_signals] g
    by (simp add: no_signals_def)
qed

end
