(* ===== verification/Stage_Status.thy ===== *)
theory Stage_Status
  imports Git_State
begin

text \<open>
  \<open>PipelineEngine::write_stage_directory\<close>: the files of a finished stage, and in particular its \<open>status.json\<close>, which the
  diagnosis reads when the stage has failed. The JSON parser, the printer and the files are parameters.
\<close>

section \<open>The status\<close>

definition has_suffix :: "string \<Rightarrow> string \<Rightarrow> bool" where
  "has_suffix suf k = (length suf \<le> length k \<and> drop (length k - length suf) k = suf)"

text \<open>The value of the first key with a suffix; the updates are in the order of their keys.\<close>

definition suffix_value :: "string \<Rightarrow> (string, string) omap \<Rightarrow> string option" where
  "suffix_value suf u = map_option snd (find (\<lambda>kv. has_suffix suf (fst kv)) u)"

definition status_base :: "node \<Rightarrow> outcome \<Rightarrow> json" where
  "status_base n out =
     json_set ''context_updates'' (map_to_json JStr (context_updates out))
       (json_set ''preferred_label'' (JStr (preferred_label out))
         (json_set ''output'' (JStr (out_text out))
           (json_set ''status'' (JStr (status_to_string (status out))) (json_set ''node_id'' (JStr (node_id n)) JNull))))"

definition add_git_state :: "(string \<Rightarrow> json option) \<Rightarrow> outcome \<Rightarrow> json \<Rightarrow> json" where
  "add_git_state parse out j =
     (case suffix_value ''.git_state'' (context_updates out) of
        None \<Rightarrow> j
      | Some t \<Rightarrow> (case parse t of None \<Rightarrow> j | Some v \<Rightarrow> json_set ''git_state'' v j))"

definition add_timeout_kind :: "outcome \<Rightarrow> json \<Rightarrow> json" where
  "add_timeout_kind out j =
     (case suffix_value ''.timeout_kind'' (context_updates out) of None \<Rightarrow> j | Some k \<Rightarrow> json_set ''timeout_kind'' (JStr k) j)"

definition add_conflict :: "(string \<Rightarrow> json option) \<Rightarrow> outcome \<Rightarrow> json \<Rightarrow> json" where
  "add_conflict parse out j =
     (case suffix_value ''.cherry_pick_conflict'' (context_updates out) of
        None \<Rightarrow> j
      | Some t \<Rightarrow> json_set ''cherry_pick_conflict'' (case parse t of None \<Rightarrow> JStr t | Some v \<Rightarrow> v) j)"

definition stage_status_json :: "(string \<Rightarrow> json option) \<Rightarrow> node \<Rightarrow> outcome \<Rightarrow> json" where
  "stage_status_json parse n out =
     add_conflict parse out (add_timeout_kind out (add_git_state parse out (status_base n out)))"

section \<open>The directory\<close>

record 'w stage_host =
  sh_write :: "string \<Rightarrow> string \<Rightarrow> 'w \<Rightarrow> 'w"
  sh_exists :: "string \<Rightarrow> 'w \<Rightarrow> bool"
  sh_mkdir :: "string \<Rightarrow> 'w \<Rightarrow> 'w"
  sh_parse :: "string \<Rightarrow> json option"
  sh_dump :: "json \<Rightarrow> string"

definition write_if_absent :: "'w stage_host \<Rightarrow> string \<Rightarrow> string \<Rightarrow> 'w \<Rightarrow> 'w" where
  "write_if_absent host path txt w = (if txt \<noteq> [] \<and> \<not> sh_exists host path w then sh_write host path txt w else w)"

definition write_stage_files :: "'w stage_host \<Rightarrow> string \<Rightarrow> node \<Rightarrow> outcome \<Rightarrow> 'w \<Rightarrow> 'w" where
  "write_stage_files host root n out w =
     (let dir = root @ ''/stages/'' @ node_id n; w = sh_mkdir host dir w;
          w = sh_write host (dir @ ''/status.json'') (sh_dump host (stage_status_json (sh_parse host) n out)) w;
          w = write_if_absent host (dir @ ''/prompt.md'') (node_prompt n) w
      in write_if_absent host (dir @ ''/response.md'') (out_text out) w)"

section \<open>Reading the status back\<close>

definition is_object :: "json \<Rightarrow> bool" where
  "is_object j = (j = JObj (obj_items j))"

lemma json_set_object: "is_object (json_set k v j)"
  by (simp add: json_set_def is_object_def)

lemma status_is_object: "is_object (stage_status_json parse n out)"
proof -
  have "is_object (status_base n out)" unfolding status_base_def by (rule json_set_object)
  then have "is_object (add_git_state parse out (status_base n out))"
    by (auto simp: add_git_state_def intro: json_set_object split: option.split)
  then have "is_object (add_timeout_kind out (add_git_state parse out (status_base n out)))"
    by (auto simp: add_timeout_kind_def intro: json_set_object split: option.split)
  then show ?thesis
    unfolding stage_status_json_def by (auto simp: add_conflict_def intro: json_set_object split: option.split)
qed

text \<open>Each step sets its own key.\<close>

lemma add_steps_find:
  "json_find (add_git_state parse out j) k =
     (if k = ''git_state'' then
        (case suffix_value ''.git_state'' (context_updates out) of
           None \<Rightarrow> json_find j k | Some t \<Rightarrow> (case parse t of None \<Rightarrow> json_find j k | Some v \<Rightarrow> Some v))
      else json_find j k)"
  "json_find (add_timeout_kind out j) k =
     (if k = ''timeout_kind'' then
        (case suffix_value ''.timeout_kind'' (context_updates out) of None \<Rightarrow> json_find j k | Some t \<Rightarrow> Some (JStr t))
      else json_find j k)"
  "json_find (add_conflict parse out j) k =
     (if k = ''cherry_pick_conflict'' then
        (case suffix_value ''.cherry_pick_conflict'' (context_updates out) of
           None \<Rightarrow> json_find j k | Some t \<Rightarrow> Some (case parse t of None \<Rightarrow> JStr t | Some v \<Rightarrow> v))
      else json_find j k)"
  by (auto simp: add_git_state_def add_timeout_kind_def add_conflict_def split: option.split)

lemma json_find_null: "json_find JNull k = None"
  by (simp add: json_find_def)

lemma status_base_find:
  "json_find (status_base n out) ''status'' = Some (JStr (status_to_string (status out)))"
  "json_find (status_base n out) ''output'' = Some (JStr (out_text out))"
  "json_find (status_base n out) ''timeout_kind'' = None" "json_find (status_base n out) ''cherry_pick_conflict'' = None"
  "json_find (status_base n out) ''git_state'' = None"
  unfolding status_base_def by (simp_all add: json_find_null)

lemma status_fields:
  "json_find (stage_status_json parse n out) ''status'' = Some (JStr (status_to_string (status out)))"
  "json_find (stage_status_json parse n out) ''output'' = Some (JStr (out_text out))"
  "json_find (stage_status_json parse n out) ''timeout_kind'' = map_option JStr (suffix_value ''.timeout_kind'' (context_updates out))"
  "json_find (stage_status_json parse n out) ''cherry_pick_conflict'' \<noteq> None \<longleftrightarrow>
     suffix_value ''.cherry_pick_conflict'' (context_updates out) \<noteq> None"
  "json_find (stage_status_json parse n out) ''git_state'' =
     (case suffix_value ''.git_state'' (context_updates out) of None \<Rightarrow> None | Some t \<Rightarrow> parse t)"
  unfolding stage_status_json_def by (simp_all add: add_steps_find status_base_find split: option.split)

lemma value_string_find:
  "json_value_string (JObj kvs) k = (case json_find (JObj kvs) k of None \<Rightarrow> Inr [] | Some v \<Rightarrow> json_string v)"
  by (simp add: json_find_def)

text \<open>What the engine says of the outcome.\<close>

definition told :: "outcome \<Rightarrow> signals \<Rightarrow> signals" where
  "told out s =
     (let kind = (case suffix_value ''.timeout_kind'' (context_updates out) of None \<Rightarrow> [] | Some k \<Rightarrow> k) in
      s\<lparr>d_status := status_to_string (status out), d_output := out_text out, d_timeout_kind := kind, d_timed_out := kind \<noteq> [],
        d_conflict := suffix_value ''.cherry_pick_conflict'' (context_updates out) \<noteq> None\<rparr>)"

lemma read_status_told:
  "fst (read_status (stage_status_json parse n out) s) =
     (case json_find (stage_status_json parse n out) ''git_state'' of
        Some (JObj gs) \<Rightarrow> fst (read_git_state gs (told out s)) | _ \<Rightarrow> told out s)"
proof -
  define j where "j = stage_status_json parse n out"
  obtain kvs where kvs: "j = JObj kvs" using status_is_object [of parse n out] unfolding is_object_def j_def by blast
  have v: "json_value_string j ''status'' = Inr (status_to_string (status out))"
    "json_value_string j ''output'' = Inr (out_text out)"
    "json_value_string j ''timeout_kind'' = Inr (case suffix_value ''.timeout_kind'' (context_updates out) of None \<Rightarrow> [] | Some k \<Rightarrow> k)"
    using status_fields [of parse n out] unfolding j_def [symmetric]
    unfolding kvs value_string_find by (simp_all split: option.split)
  have c: "json_find j ''cherry_pick_conflict'' \<noteq> None \<longleftrightarrow> suffix_value ''.cherry_pick_conflict'' (context_updates out) \<noteq> None"
    using status_fields(4) unfolding j_def .
  have t: "s\<lparr>d_status := status_to_string (status out), d_output := out_text out,
      d_timeout_kind := (case suffix_value ''.timeout_kind'' (context_updates out) of None \<Rightarrow> [] | Some k \<Rightarrow> k),
      d_timed_out := (case suffix_value ''.timeout_kind'' (context_updates out) of None \<Rightarrow> [] | Some k \<Rightarrow> k) \<noteq> [],
      d_conflict := json_find j ''cherry_pick_conflict'' \<noteq> None\<rparr> = told out s"
    by (simp only: told_def c Let_def)
  show ?thesis unfolding j_def [symmetric]
    by (auto simp: read_status_def and_then_def read_value_def v t [symmetric] split: option.split json.split prod.split bool.split)
qed


definition timed_out_tool :: proc_result where
  "timed_out_tool = \<lparr>exit_code = 1, stdout_output = ''part'', stderr_output = [], timed_out = True, idle_timeout = False\<rparr>"


section \<open>A timeout of an agent\<close>

text \<open>
  The command-line backend records a timeout under \<open>cli.timeout_kind.<node>\<close>, but the engine looks for a key that
  ends with \<open>.timeout_kind\<close>: the kind does not reach the status file, and the diagnosis takes the stage for one whose
  process failed by itself, while the same timeout of a tool is diagnosed.
\<close>

definition cli_timeout_outcome :: "string \<Rightarrow> outcome" where
  "cli_timeout_outcome i = put_update (''cli.session_id.'' @ i) ''id''
     (process_outcome silent_env claude_default \<lparr>node_id = i, ntype = CODERGEN, nattrs = []\<rparr> timed_out_tool ())"

lemma agent_timeout_not_diagnosed:
  "classify (fst (read_status (stage_status_json (\<lambda>_. None) n (cli_timeout_outcome ''build'')) no_signals)) = SelfExitError"
  "classify (fst (read_status (stage_status_json (\<lambda>_. None) n (tool_outcome ''build'' timed_out_tool None)) no_signals)) =
     WallClockWithoutOwnProgress"
proof -
  have u: "status (cli_timeout_outcome ''build'') = FAILURE" "context_updates (cli_timeout_outcome ''build'') =
      [(''cli.session_id.build'', ''id''), (''cli.timeout_kind.build'', ''wall_clock'')]"
    by (simp_all add: cli_timeout_outcome_def put_update_def process_outcome_def timed_out_tool_def)
  have "suffix_value ''.timeout_kind'' [(''cli.session_id.build'', ''id''), (''cli.timeout_kind.build'', ''wall_clock'')] = None"
    "suffix_value ''.cherry_pick_conflict'' [(''cli.session_id.build'', ''id''), (''cli.timeout_kind.build'', ''wall_clock'')] = None"
    "suffix_value ''.git_state'' [(''cli.session_id.build'', ''id''), (''cli.timeout_kind.build'', ''wall_clock'')] = None" by code_simp+
  note a = u(1) this [folded u(2)]
  have t: "status (tool_outcome ''build'' timed_out_tool None) = FAILURE"
    "suffix_value ''.timeout_kind'' (context_updates (tool_outcome ''build'' timed_out_tool None)) = Some ''wall_clock''"
    "suffix_value ''.cherry_pick_conflict'' (context_updates (tool_outcome ''build'' timed_out_tool None)) = None"
    "suffix_value ''.git_state'' (context_updates (tool_outcome ''build'' timed_out_tool None)) = None" by code_simp+
  show "classify (fst (read_status (stage_status_json (\<lambda>_. None) n (cli_timeout_outcome ''build'')) no_signals)) = SelfExitError"
    using status_fields(5) [of "\<lambda>_. None" n "cli_timeout_outcome ''build''"]
    by (simp add: read_status_told a told_def classify_def no_signals_def)
  show "classify (fst (read_status (stage_status_json (\<lambda>_. None) n (tool_outcome ''build'' timed_out_tool None)) no_signals)) =
     WallClockWithoutOwnProgress"
    using status_fields(5) [of "\<lambda>_. None" n "tool_outcome ''build'' timed_out_tool None"]
    by (simp add: read_status_told t told_def classify_def no_signals_def)
qed

end
