(* ===== verification/Troubleshoot_Backup.thy ===== *)
theory Troubleshoot_Backup
  imports Worktree
begin

text \<open>
  \<open>src/engine/troubleshoot_backup.cpp\<close>: the backup branch made before the troubleshooting agent runs, the record of
  the files the agent touched, and the rollback. Git and the files of the session directory are parameters.
\<close>

section \<open>Git and files\<close>

record 'w backup_host =
  bk_git :: "string list \<Rightarrow> string \<Rightarrow> int \<Rightarrow> 'w \<Rightarrow> proc_result result \<times> 'w"
  bk_read :: "string \<Rightarrow> 'w \<Rightarrow> string option"
  bk_exists :: "string \<Rightarrow> 'w \<Rightarrow> bool"
  bk_write :: "string \<Rightarrow> string \<Rightarrow> 'w \<Rightarrow> bool \<times> 'w"
  bk_is_dir :: "string \<Rightarrow> 'w \<Rightarrow> bool"
  bk_mkdir :: "string \<Rightarrow> 'w \<Rightarrow> bool \<times> 'w"

record backup_info =
  backup_branch :: string
  base_sha :: string
  info_current_branch :: string
  pre_modified :: "string list"

record rollback_report =
  rb_branch :: string
  rb_base_sha :: string
  rb_current_branch :: string
  untracked_drift :: "string list"
  reset_pre_modified :: "string list"

definition branch_name_for :: "string \<Rightarrow> string \<Rightarrow> string" where
  "branch_name_for run session = ''auto/troubleshoot/backup/'' @ run @ ''-'' @ session"

definition is_valid_sha :: "string \<Rightarrow> bool" where
  "is_valid_sha sha = (length sha = 40 \<and> list_all (\<lambda>c. is_digit c \<or> 97 \<le> byte c \<and> byte c \<le> 102) sha)"

definition git_ok_capture_stdout ::
  "'w backup_host \<Rightarrow> string \<Rightarrow> string list \<Rightarrow> string \<Rightarrow> 'w \<Rightarrow> string result \<times> 'w" where
  "git_ok_capture_stdout host dir args action w =
     (let (r, w) = bk_git host args dir 60000 w in
      case r of
        Inl e \<Rightarrow> (failure (action @ '': '' @ e), w)
      | Inr p \<Rightarrow>
          if exit_code p \<noteq> 0 then (failure (action @ '': '' @ stderr_output p), w)
          else (success (rtrim is_line_end (stdout_output p)), w))"

definition git_ok :: "'w backup_host \<Rightarrow> string \<Rightarrow> string list \<Rightarrow> string \<Rightarrow> 'w \<Rightarrow> unit result \<times> 'w" where
  "git_ok host dir args action w =
     (let (r, w) = bk_git host args dir 60000 w in
      case r of
        Inl e \<Rightarrow> (failure (action @ '': '' @ e), w)
      | Inr p \<Rightarrow> if exit_code p \<noteq> 0 then (failure (action @ '': '' @ stderr_output p), w) else (success (), w))"

definition is_git_repo :: "'w backup_host \<Rightarrow> string \<Rightarrow> 'w \<Rightarrow> bool \<times> 'w" where
  "is_git_repo host dir w =
     (let (r, w) = bk_git host [''rev-parse'', ''--git-dir''] dir 10000 w
      in (case r of Inl e \<Rightarrow> False | Inr p \<Rightarrow> exit_code p = 0, w))"

definition drop_cr :: "string \<Rightarrow> string" where
  "drop_cr l = (if l \<noteq> [] \<and> last l = CHR 0x0D then butlast l else l)"

fun split_lines :: "string \<Rightarrow> string \<Rightarrow> string list" where
  "split_lines [] acc = (if acc = [] then [] else [drop_cr acc])"
| "split_lines (c # cs) acc =
     (if c = newline then (if drop_cr acc = [] then [] else [drop_cr acc]) @ split_lines cs []
      else split_lines cs (acc @ [c]))"

definition detached_state :: "string \<Rightarrow> string result" where
  "detached_state sha =
     (if \<not> is_valid_sha sha then failure (''SHA validation failed for detached HEAD: '' @ sha)
      else success (''__detached__:'' @ sha))"

definition current_branch_state :: "'w backup_host \<Rightarrow> string \<Rightarrow> string \<Rightarrow> 'w \<Rightarrow> string result \<times> 'w" where
  "current_branch_state host dir detached_sha w =
     (let (r, w) = bk_git host [''symbolic-ref'', ''--short'', ''HEAD''] dir 10000 w in
      case r of
        Inl e \<Rightarrow> (failure (''git symbolic-ref --short HEAD: '' @ e), w)
      | Inr p \<Rightarrow>
          if exit_code p = 0 \<and> rtrim is_line_end (stdout_output p) \<noteq> [] then
            (success (rtrim is_line_end (stdout_output p)), w)
          else if detached_sha \<noteq> [] then (detached_state detached_sha, w)
          else
            let (s, w) = git_ok_capture_stdout host dir [''rev-parse'', ''HEAD''] ''git rev-parse HEAD'' w in
            case s of Inl e \<Rightarrow> (failure e, w) | Inr sha \<Rightarrow> (detached_state sha, w))"

definition file_lines :: "string list \<Rightarrow> string" where
  "file_lines ls = concat (map (\<lambda>l. l @ [newline]) ls)"

definition write_lines :: "'w backup_host \<Rightarrow> string \<Rightarrow> string list \<Rightarrow> 'w \<Rightarrow> bool \<times> 'w" where
  "write_lines host path ls w = bk_write host path (file_lines ls) w"

definition read_lines :: "'w backup_host \<Rightarrow> string \<Rightarrow> 'w \<Rightarrow> string list option" where
  "read_lines host path w =
     map_option (\<lambda>txt. filter (\<lambda>l. l \<noteq> []) (map drop_cr (getlines txt []))) (bk_read host path w)"

definition read_first_line :: "'w backup_host \<Rightarrow> string \<Rightarrow> 'w \<Rightarrow> string option" where
  "read_first_line host path w =
     (case bk_read host path w of
        None \<Rightarrow> None
      | Some txt \<Rightarrow> if txt = [] then None else Some (drop_cr (takeWhile (\<lambda>c. c \<noteq> newline) txt)))"

section \<open>Capture\<close>

text \<open>The files of the record, written in order; the name of the one that cannot be written, if any.\<close>

fun write_record :: "'w backup_host \<Rightarrow> string \<Rightarrow> (string \<times> string list) list \<Rightarrow> 'w \<Rightarrow> string option \<times> 'w" where
  "write_record host sdir [] w = (None, w)"
| "write_record host sdir ((name, ls) # rest) w =
     (let (ok, w) = write_lines host (sdir @ ''/'' @ name) ls w in
      if \<not> ok then (Some name, w) else write_record host sdir rest w)"

definition abandon :: "'w backup_host \<Rightarrow> string \<Rightarrow> string \<Rightarrow> string \<Rightarrow> 'w \<Rightarrow> backup_info result \<times> 'w" where
  "abandon host dir branch e w = (failure e, snd (git_ok host dir [''branch'', ''-D'', branch] ''git branch -D'' w))"

definition ensure_session_dir :: "'w backup_host \<Rightarrow> string \<Rightarrow> 'w \<Rightarrow> bool \<times> 'w" where
  "ensure_session_dir host sdir w = (if bk_is_dir host sdir w then (True, w) else bk_mkdir host sdir w)"

text \<open>What follows the creation of the branch.\<close>

definition capture_state ::
  "'w backup_host \<Rightarrow> string \<Rightarrow> string \<Rightarrow> string \<Rightarrow> string \<Rightarrow> 'w \<Rightarrow> backup_info result \<times> 'w" where
  "capture_state host dir branch sha sdir w =
     (let (current, w) = current_branch_state host dir sha w in
      case current of
        Inl e \<Rightarrow> abandon host dir branch e w
      | Inr current \<Rightarrow>
      if \<not> is_valid_sha sha then abandon host dir branch (''SHA validation failed for backup base: '' @ sha) w
      else
      let (untracked, w) = git_ok_capture_stdout host dir [''ls-files'', ''--others'', ''--exclude-standard''] ''git ls-files --others'' w in
      case untracked of
        Inl e \<Rightarrow> abandon host dir branch e w
      | Inr untracked \<Rightarrow>
      let (modified, w) = git_ok_capture_stdout host dir [''diff'', ''--name-only'', ''HEAD''] ''git diff --name-only HEAD'' w in
      case modified of
        Inl e \<Rightarrow> abandon host dir branch e w
      | Inr modified \<Rightarrow>
      let (failed, w) = write_record host sdir
            [(''backup-base.txt'', [sha]), (''pre-untracked.txt'', split_lines untracked []), (''backup-branch.txt'', [branch]),
             (''current-branch.txt'', [current]), (''pre-modified.txt'', split_lines modified []), (''agent-modified.txt'', [])] w in
      case failed of
        Some name \<Rightarrow> abandon host dir branch (''cannot write '' @ name) w
      | None \<Rightarrow> (success \<lparr>backup_branch = branch, base_sha = sha, info_current_branch = current,
                   pre_modified = split_lines modified []\<rparr>, w))"

definition capture ::
  "'w backup_host \<Rightarrow> string \<Rightarrow> string \<Rightarrow> string \<Rightarrow> string \<Rightarrow> 'w \<Rightarrow> backup_info result \<times> 'w" where
  "capture host dir run session sdir w =
     (if dir = [] then (failure ''project_dir is required'', w)
      else
        let (repo, w) = is_git_repo host dir w in
        if \<not> repo then (failure (''backup-branch isolation requires a git repository at '' @ dir), w)
        else
          let (made, w) = ensure_session_dir host sdir w in
          if \<not> made then (failure (''cannot create session dir: '' @ sdir), w)
          else
            let (sha, w) = git_ok_capture_stdout host dir [''rev-parse'', ''HEAD''] ''git rev-parse HEAD'' w in
            case sha of
              Inl e \<Rightarrow> (failure e, w)
            | Inr sha \<Rightarrow>
                let branch = branch_name_for run session;
                    (created, w) = git_ok host dir [''branch'', branch, sha] (''git branch '' @ branch) w
                in case created of
                     Inl e \<Rightarrow> (failure e, w)
                   | Inr _ \<Rightarrow> capture_state host dir branch sha sdir w)"

definition record_agent_touch :: "'w backup_host \<Rightarrow> string \<Rightarrow> string \<Rightarrow> string \<Rightarrow> 'w \<Rightarrow> string list result \<times> 'w" where
  "record_agent_touch host dir base sdir w =
     (if \<not> is_valid_sha base then (failure (''SHA validation failed for backup base: '' @ base), w)
      else
        let (modified, w) = git_ok_capture_stdout host dir [''diff'', ''--name-only'', base] (''git diff --name-only '' @ base) w in
        case modified of
          Inl e \<Rightarrow> (failure e, w)
        | Inr txt \<Rightarrow>
            let (ok, w) = write_lines host (sdir @ ''/agent-modified.txt'') (split_lines txt []) w
            in if \<not> ok then (failure ''cannot write agent-modified.txt'', w) else (success (split_lines txt []), w))"

section \<open>Rollback\<close>

text \<open>The record as the rollback reads it: the recorded branch (\<open>None\<close> for a legacy session) and the modified files.\<close>

record session_record =
  sr_base :: string
  sr_branch :: string
  sr_recorded :: "string option"
  sr_untracked :: "string list"
  sr_modified :: "string list"

definition missing_files :: "'w backup_host \<Rightarrow> string \<Rightarrow> 'w \<Rightarrow> string list" where
  "missing_files host sdir w =
     filter (\<lambda>f. \<not> bk_exists host (sdir @ ''/'' @ f) w) [''current-branch.txt'', ''pre-modified.txt'', ''agent-modified.txt'']"

definition or_nil :: "'a list option \<Rightarrow> 'a list" where
  "or_nil x = (case x of None \<Rightarrow> [] | Some l \<Rightarrow> l)"

definition read_record :: "'w backup_host \<Rightarrow> string \<Rightarrow> 'w \<Rightarrow> session_record result" where
  "read_record host sdir w =
     (let base = or_nil (read_first_line host (sdir @ ''/backup-base.txt'') w);
          missing = missing_files host sdir w; legacy = (length missing = 3);
          recorded = or_nil (read_first_line host (sdir @ ''/current-branch.txt'') w) in
      if base = [] then failure (''no backup-base.txt under '' @ sdir @ ''; nothing to roll back'')
      else if \<not> is_valid_sha base then failure (''SHA validation failed for backup-base.txt: '' @ base)
      else if \<not> legacy \<and> missing \<noteq> [] then
        failure (''rollback refused: incomplete troubleshoot session artifacts; missing '' @ join '', '' missing)
      else if \<not> legacy \<and> recorded = [] then failure (''rollback refused: cannot read current-branch.txt under '' @ sdir)
      else case (if legacy then Some [] else read_lines host (sdir @ ''/pre-modified.txt'') w) of
          None \<Rightarrow> failure (''rollback refused: cannot read pre-modified.txt under '' @ sdir)
        | Some modified \<Rightarrow> success \<lparr>sr_base = base, sr_branch = or_nil (read_first_line host (sdir @ ''/backup-branch.txt'') w),
            sr_recorded = (if legacy then None else Some recorded),
            sr_untracked = or_nil (read_lines host (sdir @ ''/pre-untracked.txt'') w), sr_modified = modified\<rparr>)"

text \<open>The reset and what is reported of it.\<close>

definition do_reset ::
  "'w backup_host \<Rightarrow> string \<Rightarrow> session_record \<Rightarrow> string \<Rightarrow> string list \<Rightarrow> 'w \<Rightarrow> rollback_report result \<times> 'w" where
  "do_reset host dir sr recorded modified w =
     (let (r, w) = git_ok host dir [''reset'', ''--hard'', sr_base sr] (''git reset --hard '' @ sr_base sr) w in
      case r of
        Inl e \<Rightarrow> (failure e, w)
      | Inr _ \<Rightarrow>
          let (now, w) = git_ok_capture_stdout host dir [''ls-files'', ''--others'', ''--exclude-standard''] ''git ls-files --others'' w;
              drift = (case now of
                         Inl e \<Rightarrow> []
                       | Inr txt \<Rightarrow> filter (\<lambda>f. f \<noteq> [] \<and> f \<notin> set (sr_untracked sr)) (split_lines txt []));
              w = (if sr_branch sr \<noteq> [] then snd (git_ok host dir [''branch'', ''-D'', sr_branch sr] ''git branch -D'' w) else w)
          in (success \<lparr>rb_branch = sr_branch sr, rb_base_sha = sr_base sr, rb_current_branch = recorded,
                untracked_drift = drift,
                reset_pre_modified = filter (\<lambda>f. f \<noteq> [] \<and> f \<in> set (sr_modified sr)) modified\<rparr>, w))"

definition rollback :: "'w backup_host \<Rightarrow> string \<Rightarrow> string \<Rightarrow> 'w \<Rightarrow> rollback_report result \<times> 'w" where
  "rollback host dir sdir w =
     (if dir = [] then (failure ''project_dir is required'', w)
      else
        let (repo, w) = is_git_repo host dir w in
        if \<not> repo then (failure (''rollback requires a git repository at '' @ dir), w)
        else case read_record host sdir w of
            Inl e \<Rightarrow> (failure e, w)
          | Inr sr \<Rightarrow>
              let (current, w) = current_branch_state host dir [] w in
              case current of
                Inl e \<Rightarrow> (failure e, w)
              | Inr current \<Rightarrow>
                  if sr_recorded sr \<noteq> None \<and> sr_recorded sr \<noteq> Some current then
                    (failure (''rollback refused: current branch '' @ current @ '' does not match recorded branch '' @
                       (case sr_recorded sr of Some b \<Rightarrow> b | None \<Rightarrow> [])), w)
                  else
                    let (modified, w) = git_ok_capture_stdout host dir [''diff'', ''--name-only'', ''HEAD''] ''git diff --name-only HEAD'' w in
                    case modified of
                      Inl e \<Rightarrow> (failure e, w)
                    | Inr txt \<Rightarrow>
                        let modified = split_lines txt [];
                            touched = (if bk_exists host (sdir @ ''/agent-modified.txt'') w
                                       then read_lines host (sdir @ ''/agent-modified.txt'') w else Some [])
                        in case touched of
                             None \<Rightarrow> (failure (''cannot read agent-modified.txt under '' @ sdir), w)
                           | Some touched \<Rightarrow>
                               let divergent = filter (\<lambda>f. f \<notin> set (sr_modified sr) \<and> f \<notin> set touched) modified in
                               if divergent \<noteq> [] then
                                 (failure ((if sr_recorded sr = None
                                    then ''rollback refused: legacy session has no recorded baseline; commit or stash dirty files first. Divergent: ''
                                    else ''rollback refused: divergent dirty files: '') @ join '', '' divergent), w)
                               else do_reset host dir sr (case sr_recorded sr of Some b \<Rightarrow> b | None \<Rightarrow> current) modified w)"


declare write_record.simps [simp del]

section \<open>What git and the files promise\<close>

text \<open>
  Documented behaviour of git, seen through the branches of the repository and the files of its working tree:
  \<open>rev-parse\<close>, \<open>symbolic-ref\<close>, \<open>ls-files\<close> and \<open>diff\<close> only read; \<open>branch b sha\<close> makes a branch that was not there or
  does nothing; \<open>branch -D b\<close> removes a branch that is not checked out. The session directory is no part of the tree.
\<close>

definition is_query :: "string list \<Rightarrow> bool" where
  "is_query args = (args \<noteq> [] \<and> hd args \<in> {''rev-parse'', ''symbolic-ref'', ''ls-files'', ''diff''})"

definition exit_ok :: "proc_result result \<Rightarrow> bool" where
  "exit_ok r = (case r of Inl e \<Rightarrow> False | Inr p \<Rightarrow> exit_code p = 0)"

definition git_documents :: "'w backup_host \<Rightarrow> string \<Rightarrow> ('w \<Rightarrow> string set) \<Rightarrow> ('w \<Rightarrow> 't) \<Rightarrow> bool" where
  "git_documents host dir branches tree =
     ((\<forall>args t w. is_query args \<longrightarrow> snd (bk_git host args dir t w) = w) \<and>
      (\<forall>b sha t w. b \<noteq> ''-D'' \<longrightarrow>
         tree (snd (bk_git host [''branch'', b, sha] dir t w)) = tree w \<and>
         (exit_ok (fst (bk_git host [''branch'', b, sha] dir t w)) \<longrightarrow> b \<notin> branches w) \<and>
         branches (snd (bk_git host [''branch'', b, sha] dir t w)) =
           (if exit_ok (fst (bk_git host [''branch'', b, sha] dir t w)) then insert b (branches w) else branches w)) \<and>
      (\<forall>b t w. tree (snd (bk_git host [''branch'', ''-D'', b] dir t w)) = tree w \<and>
         branches (snd (bk_git host [''branch'', ''-D'', b] dir t w)) = branches w - {b}) \<and>
      (\<forall>path txt w. tree (snd (bk_write host path txt w)) = tree w \<and> branches (snd (bk_write host path txt w)) = branches w) \<and>
      (\<forall>path w. tree (snd (bk_mkdir host path w)) = tree w \<and> branches (snd (bk_mkdir host path w)) = branches w))"

named_theorems git_world

lemma git_query: "git_documents host dir branches tree \<Longrightarrow> is_query args \<Longrightarrow> snd (bk_git host args dir t w) = w"
  by (simp add: git_documents_def)

lemma capture_stdout_pure [git_world]:
  "git_documents host dir branches tree \<Longrightarrow> is_query args \<Longrightarrow> snd (git_ok_capture_stdout host dir args action w) = w"
  using git_query [of host dir branches tree args 60000 w]
  by (auto simp: git_ok_capture_stdout_def split: prod.splits sum.splits)

lemma queries [simp]: "is_query (''rev-parse'' # as)" "is_query (''symbolic-ref'' # as)" "is_query (''ls-files'' # as)" "is_query (''diff'' # as)"
  by (simp_all add: is_query_def)

lemma is_git_repo_pure [git_world]: "git_documents host dir branches tree \<Longrightarrow> snd (is_git_repo host dir w) = w"
  using git_query [of host dir branches tree "[''rev-parse'', ''--git-dir'']" 10000 w]
  by (auto simp: is_git_repo_def split: prod.splits)

lemma current_branch_pure [git_world]: "git_documents host dir branches tree \<Longrightarrow> snd (current_branch_state host dir sha w) = w"
  using git_query [of host dir branches tree "[''symbolic-ref'', ''--short'', ''HEAD'']" 10000 w]
    capture_stdout_pure [of host dir branches tree "[''rev-parse'', ''HEAD'']" "''git rev-parse HEAD''" w]
  by (auto simp: current_branch_state_def split: prod.splits sum.splits)

text \<open>The result of a query, and the state after it.\<close>

lemma pure_result: "snd (f w) = w \<Longrightarrow> f w = (fst (f w), w)"
  by (metis prod.collapse)

lemma git_ok_result: "snd (git_ok host dir args action w) = snd (bk_git host args dir 60000 w)"
  "is_ok (fst (git_ok host dir args action w)) = exit_ok (fst (bk_git host args dir 60000 w))"
  by (auto simp: git_ok_def exit_ok_def split: prod.splits sum.splits)

lemma branch_created:
  assumes "git_documents host dir branches tree" "b \<noteq> ''-D''" "git_ok host dir [''branch'', b, sha] action w = (r, w')"
  shows "tree w' = tree w" "is_ok r \<Longrightarrow> b \<notin> branches w" "branches w' = (if is_ok r then insert b (branches w) else branches w)"
proof -
  have r: "w' = snd (bk_git host [''branch'', b, sha] dir 60000 w)" "is_ok r = exit_ok (fst (bk_git host [''branch'', b, sha] dir 60000 w))"
    using git_ok_result [of host dir "[''branch'', b, sha]" action w] assms(3) by simp_all
  show "tree w' = tree w" "is_ok r \<Longrightarrow> b \<notin> branches w" "branches w' = (if is_ok r then insert b (branches w) else branches w)"
    unfolding r using assms(1,2) by (simp_all add: git_documents_def)
qed

lemma branch_deleted:
  assumes "git_documents host dir branches tree"
  shows "branches (snd (git_ok host dir [''branch'', ''-D'', b] action w)) = branches w - {b}"
    "tree (snd (git_ok host dir [''branch'', ''-D'', b] action w)) = tree w"
  unfolding git_ok_result using assms by (simp_all add: git_documents_def)

lemma write_lines_keeps:
  assumes "git_documents host dir branches tree" "write_lines host path ls w = (ok, v)"
  shows "tree v = tree w" "branches v = branches w"
proof -
  have "v = snd (bk_write host path (file_lines ls) w)" using assms(2) by (simp add: write_lines_def)
  then show "tree v = tree w" "branches v = branches w" using assms(1) by (simp_all add: git_documents_def)
qed

lemma write_record_keeps:
  assumes "git_documents host dir branches tree"
  shows "branches (snd (write_record host sdir fs w)) = branches w \<and> tree (snd (write_record host sdir fs w)) = tree w"
proof (induction fs arbitrary: w)
  case (Cons f fs)
  obtain name ls where f: "f = (name, ls)" by (rule prod.exhaust)
  obtain ok v where v: "write_lines host (sdir @ CHR ''/'' # name) ls w = (ok, v)" by (rule prod.exhaust)
  from write_lines_keeps [OF assms v] Cons.IH [of v] show ?case by (simp add: f v write_record.simps)
qed (simp add: write_record.simps)

section \<open>All or nothing\<close>

lemma capture_state_branches:
  assumes "git_documents host dir branches tree" and "capture_state host dir b sha sdir w = (r, w')"
  shows "tree w' = tree w \<and> (case r of Inl e \<Rightarrow> branches w' = branches w - {b}
    | Inr info \<Rightarrow> branches w' = branches w \<and> backup_branch info = b \<and> base_sha info = sha \<and> is_valid_sha sha)"
proof -
  have ab: "tree (snd (abandon host dir b e v)) = tree v \<and> branches (snd (abandon host dir b e v)) = branches v - {b} \<and>
      (\<exists>m. fst (abandon host dir b e v) = Inl m)" for e v
    by (simp add: abandon_def branch_deleted [OF assms(1)])
  note cur = pure_result [where f = "current_branch_state host dir sha", OF current_branch_pure [OF assms(1)]]
  note cap = pure_result [where f = "git_ok_capture_stdout host dir args action" for args action, OF capture_stdout_pure [OF assms(1)]]
  have keep: "branches (snd (write_record host sdir fs w)) = branches w \<and> tree (snd (write_record host sdir fs w)) = tree w" for fs
    by (rule write_record_keeps [OF assms(1)])
  define cs where "cs = fst (current_branch_state host dir sha w)"
  define us where "us = fst (git_ok_capture_stdout host dir [''ls-files'', ''--others'', ''--exclude-standard''] ''git ls-files --others'' w)"
  define ms where "ms = fst (git_ok_capture_stdout host dir [''diff'', ''--name-only'', ''HEAD''] ''git diff --name-only HEAD'' w)"
  have eqs: "current_branch_state host dir sha w = (cs, w)"
    "git_ok_capture_stdout host dir [''ls-files'', ''--others'', ''--exclude-standard''] ''git ls-files --others'' w = (us, w)"
    "git_ok_capture_stdout host dir [''diff'', ''--name-only'', ''HEAD''] ''git diff --name-only HEAD'' w = (ms, w)"
    using cur cap by (simp_all add: cs_def us_def ms_def)
  define fs where "fs c u m = [(''backup-base.txt'', [sha]), (''pre-untracked.txt'', split_lines u []), (''backup-branch.txt'', [b]),
             (''current-branch.txt'', [c]), (''pre-modified.txt'', split_lines m []), (''agent-modified.txt'', [])]" for c u m
  have run: "capture_state host dir b sha sdir w =
     (case cs of Inl e \<Rightarrow> abandon host dir b e w | Inr c \<Rightarrow>
      if \<not> is_valid_sha sha then abandon host dir b (''SHA validation failed for backup base: '' @ sha) w
      else case us of Inl e \<Rightarrow> abandon host dir b e w | Inr u \<Rightarrow>
      case ms of Inl e \<Rightarrow> abandon host dir b e w | Inr m \<Rightarrow>
      (let (failed, w) = write_record host sdir (fs c u m) w in
       case failed of
         Some name \<Rightarrow> abandon host dir b (''cannot write '' @ name) w
       | None \<Rightarrow> (success \<lparr>backup_branch = b, base_sha = sha, info_current_branch = c, pre_modified = split_lines m []\<rparr>, w)))"
    unfolding capture_state_def eqs(1) fs_def
    by (cases cs; cases us; cases ms) (simp_all add: eqs(2,3))
  show ?thesis
  proof (cases "(\<exists>c u m. cs = Inr c \<and> us = Inr u \<and> ms = Inr m) \<and> is_valid_sha sha")
    case False
    then have "\<exists>e. capture_state host dir b sha sdir w = abandon host dir b e w"
      unfolding run by (cases cs; cases us; cases ms) auto
    then obtain e where "abandon host dir b e w = (r, w')" using assms(2) by metis
    from ab [of e w, unfolded this fst_conv snd_conv]
    have "tree w' = tree w" "branches w' = branches w - {b}" "\<exists>m. r = Inl m" by blast+
    then show ?thesis by (elim exE) (simp only: sum.case simp_thms)
  next
    case True
    then obtain c u m where x: "cs = Inr c" "us = Inr u" "ms = Inr m" "is_valid_sha sha" by blast
    obtain failed v where v: "write_record host sdir (fs c u m) w = (failed, v)" by (rule prod.exhaust)
    have kept: "branches v = branches w" "tree v = tree w" using keep [of "fs c u m"] v by simp_all
    have r: "capture_state host dir b sha sdir w = (case failed of
        Some name \<Rightarrow> abandon host dir b (''cannot write '' @ name) v
      | None \<Rightarrow> (success \<lparr>backup_branch = b, base_sha = sha, info_current_branch = c, pre_modified = split_lines m []\<rparr>, v))"
      unfolding run using x v by simp
    show ?thesis
    proof (cases failed)
      case None
      then have "r = success \<lparr>backup_branch = b, base_sha = sha, info_current_branch = c, pre_modified = split_lines m []\<rparr>" "w' = v"
        using r assms(2) by simp_all
      with kept x(4) show ?thesis by simp
    next
      case (Some name)
      define e where "e = ''cannot write '' @ name"
      have "abandon host dir b e v = (r, w')" using Some r assms(2) unfolding e_def by (simp only: option.case)
      from ab [of e v, unfolded this fst_conv snd_conv]
      have "tree w' = tree v" "branches w' = branches v - {b}" "\<exists>m. r = Inl m" by blast+
      then show ?thesis by (elim exE) (simp only: kept sum.case simp_thms)
    qed
  qed
qed



section \<open>The rollback asks first\<close>

definition branch_now :: "'w backup_host \<Rightarrow> string \<Rightarrow> 'w \<Rightarrow> string result" where
  "branch_now host dir w = fst (current_branch_state host dir [] w)"

definition dirty_now :: "'w backup_host \<Rightarrow> string \<Rightarrow> 'w \<Rightarrow> string list result" where
  "dirty_now host dir w = map_sum id (\<lambda>txt. split_lines txt [])
     (fst (git_ok_capture_stdout host dir [''diff'', ''--name-only'', ''HEAD''] ''git diff --name-only HEAD'' w))"

definition touched_by_agent :: "'w backup_host \<Rightarrow> string \<Rightarrow> 'w \<Rightarrow> string list option" where
  "touched_by_agent host sdir w =
     (if bk_exists host (sdir @ ''/agent-modified.txt'') w then read_lines host (sdir @ ''/agent-modified.txt'') w else Some [])"

lemma rollback_resets:
  assumes "git_documents host dir branches tree" and "dir \<noteq> []" "fst (is_git_repo host dir w)"
    and sr: "read_record host sdir w = Inr sr" and "branch_now host dir w = Inr current" "dirty_now host dir w = Inr dirty"
    and "touched_by_agent host sdir w = Some touched" "sr_recorded sr = None \<or> sr_recorded sr = Some current"
    and sub: "set dirty \<subseteq> set (sr_modified sr) \<union> set touched"
  shows "rollback host dir sdir w = do_reset host dir sr (case sr_recorded sr of Some b \<Rightarrow> b | None \<Rightarrow> current) dirty w"
proof -
  have repo: "is_git_repo host dir w = (True, w)"
    using pure_result [where f = "is_git_repo host dir", OF is_git_repo_pure [OF assms(1)], of w] assms(3) by simp
  have cs: "current_branch_state host dir [] w = (Inr current, w)"
    using pure_result [where f = "current_branch_state host dir []", OF current_branch_pure [OF assms(1)], of w] assms(5)
    by (simp add: branch_now_def)
  obtain mt where mt: "fst (git_ok_capture_stdout host dir [''diff'', ''--name-only'', ''HEAD''] ''git diff --name-only HEAD'' w) = Inr mt"
    "dirty = split_lines mt []"
    using assms(6) unfolding dirty_now_def
    by (cases "fst (git_ok_capture_stdout host dir [''diff'', ''--name-only'', ''HEAD''] ''git diff --name-only HEAD'' w)") simp_all
  have ms: "git_ok_capture_stdout host dir [''diff'', ''--name-only'', ''HEAD''] ''git diff --name-only HEAD'' w = (Inr mt, w)"
    using pure_result [where f = "git_ok_capture_stdout host dir [''diff'', ''--name-only'', ''HEAD''] ''git diff --name-only HEAD''",
        OF capture_stdout_pure [OF assms(1)], of w] mt(1) by simp
  have "filter (\<lambda>f. f \<notin> set (sr_modified sr) \<and> f \<notin> set touched) (split_lines mt []) = []"
    using sub mt(2) by (auto simp: filter_empty_conv)
  with assms(2,4,7,8) show ?thesis
    unfolding rollback_def repo by (auto simp: cs ms mt(2) Let_def touched_by_agent_def [symmetric] simp del: filter_empty_conv)
qed

text \<open>Either the rollback refuses and changes nothing, or all its conditions hold and it resets.\<close>

lemma rollback_cases:
  assumes "git_documents host dir branches tree"
  obtains e where "rollback host dir sdir w = (Inl e, w)"
  | sr current dirty touched where
      "read_record host sdir w = Inr sr" "branch_now host dir w = Inr current" "dirty_now host dir w = Inr dirty"
      "touched_by_agent host sdir w = Some touched" "sr_recorded sr = None \<or> sr_recorded sr = Some current"
      "set dirty \<subseteq> set (sr_modified sr) \<union> set touched" "dir \<noteq> []"
      "rollback host dir sdir w = do_reset host dir sr (case sr_recorded sr of Some b \<Rightarrow> b | None \<Rightarrow> current) dirty w"
proof -
  obtain repo where repo: "is_git_repo host dir w = (repo, w)"
    using pure_result [where f = "is_git_repo host dir", OF is_git_repo_pure [OF assms]] by blast
  have cs: "current_branch_state host dir [] w = (branch_now host dir w, w)"
    using pure_result [where f = "current_branch_state host dir []", OF current_branch_pure [OF assms]] by (simp add: branch_now_def)
  define ms where "ms = fst (git_ok_capture_stdout host dir [''diff'', ''--name-only'', ''HEAD''] ''git diff --name-only HEAD'' w)"
  have ms: "git_ok_capture_stdout host dir [''diff'', ''--name-only'', ''HEAD''] ''git diff --name-only HEAD'' w = (ms, w)"
    using pure_result [where f = "git_ok_capture_stdout host dir [''diff'', ''--name-only'', ''HEAD''] ''git diff --name-only HEAD''",
        OF capture_stdout_pure [OF assms]] by (simp add: ms_def)
  note defs = rollback_def repo cs ms
  show ?thesis
  proof (cases "dir \<noteq> [] \<and> repo \<and> (\<exists>sr. read_record host sdir w = Inr sr) \<and> (\<exists>c. branch_now host dir w = Inr c)")
    case False
    then have "\<exists>e. rollback host dir sdir w = (Inl e, w)"
      by (cases "read_record host sdir w"; cases "branch_now host dir w") (auto simp: defs)
    then show ?thesis using that(1) by blast
  next
    case True
    then obtain sr current where x: "dir \<noteq> []" "repo" "read_record host sdir w = Inr sr" "branch_now host dir w = Inr current" by blast
    show ?thesis
    proof (cases "(sr_recorded sr = None \<or> sr_recorded sr = Some current) \<and> (\<exists>txt. ms = Inr txt) \<and> (\<exists>t. touched_by_agent host sdir w = Some t)")
      case False
      then have "\<exists>e. rollback host dir sdir w = (Inl e, w)"
        by (cases ms; cases "touched_by_agent host sdir w") (auto simp: defs x touched_by_agent_def [symmetric])
      then show ?thesis using that(1) by blast
    next
      case True
      then obtain mt touched where y: "sr_recorded sr = None \<or> sr_recorded sr = Some current" "ms = Inr mt"
        "touched_by_agent host sdir w = Some touched" by blast
      let ?div = "filter (\<lambda>f. f \<notin> set (sr_modified sr) \<and> f \<notin> set touched) (split_lines mt [])"
      have dirty: "dirty_now host dir w = Inr (split_lines mt [])" using y(2) by (simp add: dirty_now_def ms_def)
      show ?thesis
      proof (cases "?div = []")
        case False
        then have "\<exists>e. rollback host dir sdir w = (Inl e, w)"
          using y by (auto simp: defs x Let_def touched_by_agent_def [symmetric])
        then show ?thesis using that(1) by blast
      next
        case True
        then have "set (split_lines mt []) \<subseteq> set (sr_modified sr) \<union> set touched" by (auto simp: filter_empty_conv)
        moreover have "rollback host dir sdir w =
            do_reset host dir sr (case sr_recorded sr of Some b \<Rightarrow> b | None \<Rightarrow> current) (split_lines mt []) w"
          using y True by (auto simp: defs x Let_def touched_by_agent_def [symmetric] simp del: filter_empty_conv)
        ultimately show ?thesis using that(2) x y dirty by blast
      qed
    qed
  qed
qed

lemma read_record_valid: "read_record host sdir w = Inr sr \<Longrightarrow> is_valid_sha (sr_base sr)"
  by (auto simp: read_record_def Let_def split: if_splits option.splits)

text \<open>C29: the rollback does not destroy what it does not know. If a rollback changes the working tree, then the session
  record could be read and its base is a well-formed commit name, the branch checked out is the one recorded
  (unless the session is of the old format, which recorded none), and every file that is dirty now was dirty at
  the capture or was touched by the agent.\<close>

theorem rollback_protects:
  assumes "git_documents host dir branches tree" and "rollback host dir sdir w = (r, w')" and "tree w' \<noteq> tree w"
  shows "\<exists>sr current dirty touched. read_record host sdir w = Inr sr \<and> is_valid_sha (sr_base sr) \<and>
    branch_now host dir w = Inr current \<and> (sr_recorded sr = None \<or> sr_recorded sr = Some current) \<and>
    dirty_now host dir w = Inr dirty \<and> touched_by_agent host sdir w = Some touched \<and>
    set dirty \<subseteq> set (sr_modified sr) \<union> set touched"
  using assms(1)
proof (cases rule: rollback_cases [of host dir branches tree sdir w])
  case (1 e)
  with assms(2,3) show ?thesis by simp
next
  case (2 sr current dirty touched)
  with read_record_valid [OF 2(1)] show ?thesis
    by (intro exI [of _ sr] exI [of _ current] exI [of _ dirty] exI [of _ touched]) simp
qed

section \<open>Capture, agent, rollback\<close>

definition files_document :: "'w backup_host \<Rightarrow> bool" where
  "files_document host =
     (\<forall>path txt w w'. bk_write host path txt w = (True, w') \<longrightarrow>
        (\<forall>q. bk_read host q w' = (if q = path then Some txt else bk_read host q w) \<and>
             bk_exists host q w' = (q = path \<or> bk_exists host q w)))"

definition plain_name :: "string \<Rightarrow> bool" where
  "plain_name l = (l \<noteq> [] \<and> newline \<notin> set l \<and> CHR 0x0D \<notin> set l)"

lemma drop_cr_plain: "plain_name l \<Longrightarrow> drop_cr l = l"
  by (metis drop_cr_def last_in_set plain_name_def)

lemma getlines_file: "\<forall>l \<in> set ls. newline \<notin> set l \<Longrightarrow> getlines (file_lines ls) [] = ls"
proof -
  have "newline \<notin> set l \<Longrightarrow> getlines (l @ newline # rest) ln = (ln @ l) # getlines rest []" for l rest ln
    by (induction l arbitrary: ln) auto
  moreover assume "\<forall>l \<in> set ls. newline \<notin> set l"
  ultimately show ?thesis by (induction ls) (simp_all add: file_lines_def)
qed

lemma read_lines_file:
  assumes "\<forall>l \<in> set ls. plain_name l" "bk_read host path w = Some (file_lines ls)"
  shows "read_lines host path w = Some ls"
proof -
  have "getlines (file_lines ls) [] = ls" by (rule getlines_file) (use assms(1) in \<open>simp add: plain_name_def\<close>)
  moreover have "map drop_cr ls = ls" using assms(1) by (simp add: map_idI drop_cr_plain)
  moreover have "filter (\<lambda>l. l \<noteq> []) ls = ls" using assms(1) by (simp add: plain_name_def)
  ultimately show ?thesis using assms(2) by (simp add: read_lines_def)
qed

lemma read_first_file: "plain_name l \<Longrightarrow> bk_read host path w = Some (file_lines [l]) \<Longrightarrow> read_first_line host path w = Some l"
proof -
  assume l: "plain_name l" and r: "bk_read host path w = Some (file_lines [l])"
  have "takeWhile (\<lambda>c. c \<noteq> newline) (l @ [newline]) = l"
    using l by (simp add: plain_name_def takeWhile_append)
  then show ?thesis using r drop_cr_plain [OF l] by (simp add: read_first_line_def file_lines_def)
qed

lemma valid_sha_plain: "is_valid_sha s \<Longrightarrow> plain_name s"
  by (auto simp: is_valid_sha_def plain_name_def list_all_iff is_digit_def byte_def)


definition file_is :: "'w backup_host \<Rightarrow> string \<Rightarrow> 'w \<Rightarrow> string \<Rightarrow> string list \<Rightarrow> bool" where
  "file_is host sdir w name ls =
     (bk_read host (sdir @ ''/'' @ name) w = Some (file_lines ls) \<and> bk_exists host (sdir @ ''/'' @ name) w)"

lemma write_lines_file:
  assumes "files_document host" "write_lines host (sdir @ ''/'' @ name) ls w = (True, w')"
  shows "file_is host sdir w' name ls" "name' \<noteq> name \<Longrightarrow> file_is host sdir w name' ls' \<Longrightarrow> file_is host sdir w' name' ls'"
  using assms by (auto simp: files_document_def write_lines_def file_is_def)

lemma write_record_other:
  assumes "files_document host"
  shows "write_record host sdir fs w = (None, w') \<Longrightarrow> name \<notin> fst ` set fs \<Longrightarrow> file_is host sdir w name ls \<Longrightarrow> file_is host sdir w' name ls"
proof (induction fs arbitrary: w)
  case (Cons f fs)
  obtain n' ls' where f: "f = (n', ls')" by (rule prod.exhaust)
  obtain ok v where v: "write_lines host (sdir @ ''/'' @ n') ls' w = (ok, v)" by (rule prod.exhaust)
  with Cons.prems(1) have "ok" and rest: "write_record host sdir fs v = (None, w')"
    by (auto simp: f write_record.simps split: if_splits)
  with v have "write_lines host (sdir @ ''/'' @ n') ls' w = (True, v)" by simp
  from write_lines_file(2) [OF assms this] Cons.prems(2,3) have "file_is host sdir v name ls" by (simp add: f)
  with Cons.IH [OF rest] Cons.prems(2) show ?case by simp
qed (simp add: write_record.simps)

lemma write_record_files:
  assumes "files_document host"
  shows "write_record host sdir fs w = (None, w') \<Longrightarrow> distinct (map fst fs) \<Longrightarrow> (name, ls) \<in> set fs \<Longrightarrow> file_is host sdir w' name ls"
proof (induction fs arbitrary: w)
  case (Cons f fs)
  obtain n' ls' where f: "f = (n', ls')" by (rule prod.exhaust)
  obtain ok v where v: "write_lines host (sdir @ ''/'' @ n') ls' w = (ok, v)" by (rule prod.exhaust)
  with Cons.prems(1) have "ok" and rest: "write_record host sdir fs v = (None, w')"
    by (auto simp: f write_record.simps split: if_splits)
  with v have "write_lines host (sdir @ ''/'' @ n') ls' w = (True, v)" by simp
  note first = write_lines_file(1) [OF assms this]
  show ?case
  proof (cases "(name, ls) = f")
    case True
    then show ?thesis using write_record_other [OF assms rest] first Cons.prems(2) f by simp
  next
    case False
    then show ?thesis using Cons.IH [OF rest] Cons.prems(2,3) by simp
  qed
qed simp

text \<open>What a successful capture leaves in the session directory.\<close>

lemma capture_state_files:
  assumes "files_document host" "capture_state host dir b sha sdir w = (Inr info, w')"
  shows "backup_branch info = b \<and> base_sha info = sha \<and> is_valid_sha sha \<and>
    file_is host sdir w' ''backup-base.txt'' [sha] \<and> file_is host sdir w' ''backup-branch.txt'' [b] \<and>
    file_is host sdir w' ''current-branch.txt'' [info_current_branch info] \<and>
    file_is host sdir w' ''pre-modified.txt'' (pre_modified info)"
proof -
  have no: "abandon host dir b e v \<noteq> (Inr info, w')" for e v by (simp add: abandon_def)
  from assms(2) obtain c u m v where "is_valid_sha sha"
    and r: "write_record host sdir
            [(''backup-base.txt'', [sha]), (''pre-untracked.txt'', split_lines u []), (''backup-branch.txt'', [b]),
             (''current-branch.txt'', [c]), (''pre-modified.txt'', split_lines m []), (''agent-modified.txt'', [])] v = (None, w')"
    and "info = \<lparr>backup_branch = b, base_sha = sha, info_current_branch = c, pre_modified = split_lines m []\<rparr>"
    using no by (auto simp: capture_state_def Let_def split: prod.splits sum.splits if_splits option.splits)
  with write_record_files [OF assms(1) r] show ?thesis by simp
qed

lemma capture_files:
  assumes "files_document host" "capture host dir run session sdir w = (Inr info, w')"
  shows "dir \<noteq> [] \<and> is_valid_sha (base_sha info) \<and>
    file_is host sdir w' ''backup-base.txt'' [base_sha info] \<and> file_is host sdir w' ''backup-branch.txt'' [backup_branch info] \<and>
    file_is host sdir w' ''current-branch.txt'' [info_current_branch info] \<and>
    file_is host sdir w' ''pre-modified.txt'' (pre_modified info)"
proof -
  from assms(2) obtain b sha v where "dir \<noteq> []" "capture_state host dir b sha sdir v = (Inr info, w')"
    by (auto simp: capture_def Let_def split: prod.splits sum.splits if_splits)
  with capture_state_files [OF assms(1) this(2)] show ?thesis by auto
qed

lemma agent_touch_files:
  assumes "files_document host" "record_agent_touch host dir base sdir w = (Inr touched, w')"
  shows "file_is host sdir w' ''agent-modified.txt'' touched"
    "name \<noteq> ''agent-modified.txt'' \<Longrightarrow> \<exists>v. (\<forall>ls. file_is host sdir v name ls \<longrightarrow> file_is host sdir w' name ls) \<and>
       v = snd (git_ok_capture_stdout host dir [''diff'', ''--name-only'', base] (''git diff --name-only '' @ base) w)"
proof -
  from assms(2) obtain t v where g: "git_ok_capture_stdout host dir [''diff'', ''--name-only'', base] (''git diff --name-only '' @ base) w = (Inr t, v)"
    and wr: "write_lines host (sdir @ ''/'' @ ''agent-modified.txt'') (split_lines t []) v = (True, w')" and t: "touched = split_lines t []"
    by (auto simp: record_agent_touch_def Let_def split: prod.splits sum.splits if_splits)
  show "file_is host sdir w' ''agent-modified.txt'' touched" using write_lines_file(1) [OF assms(1) wr] t by simp
  assume "name \<noteq> ''agent-modified.txt''"
  with write_lines_file(2) [OF assms(1) wr] g
  show "\<exists>v. (\<forall>ls. file_is host sdir v name ls \<longrightarrow> file_is host sdir w' name ls) \<and>
       v = snd (git_ok_capture_stdout host dir [''diff'', ''--name-only'', base] (''git diff --name-only '' @ base) w)"
    by auto
qed

lemma read_record_session:
  assumes "file_is host sdir w ''backup-base.txt'' [base]" "file_is host sdir w ''backup-branch.txt'' [b]"
    "file_is host sdir w ''current-branch.txt'' [c]" "file_is host sdir w ''pre-modified.txt'' pre"
    "file_is host sdir w ''agent-modified.txt'' touched"
    and "is_valid_sha base" "plain_name b" "plain_name c" "\<forall>l \<in> set pre. plain_name l"
  shows "\<exists>un. read_record host sdir w = Inr \<lparr>sr_base = base, sr_branch = b, sr_recorded = Some c, sr_untracked = un, sr_modified = pre\<rparr>"
proof -
  have missing: "missing_files host sdir w = []" using assms(3-5) by (simp add: missing_files_def file_is_def)
  have "read_first_line host (sdir @ ''/backup-base.txt'') w = Some base"
    using assms(1) valid_sha_plain [OF assms(6)] by (intro read_first_file) (simp_all add: file_is_def)
  moreover have "read_first_line host (sdir @ ''/backup-branch.txt'') w = Some b"
    using assms(2,7) by (intro read_first_file) (simp_all add: file_is_def)
  moreover have "read_first_line host (sdir @ ''/current-branch.txt'') w = Some c"
    using assms(3,8) by (intro read_first_file) (simp_all add: file_is_def)
  moreover have "read_lines host (sdir @ ''/pre-modified.txt'') w = Some pre"
    using assms(4,9) by (intro read_lines_file) (simp_all add: file_is_def)
  moreover have "base \<noteq> []" "c \<noteq> []" using valid_sha_plain [OF assms(6)] assms(8) by (auto simp: plain_name_def)
  ultimately show ?thesis using assms(6) by (simp add: read_record_def missing or_nil_def)
qed


text \<open>Nobody but the code touches the session directory.\<close>

definition same_session :: "'w backup_host \<Rightarrow> string \<Rightarrow> 'w \<Rightarrow> 'w \<Rightarrow> bool" where
  "same_session host sdir w v =
     (\<forall>f. bk_read host (sdir @ ''/'' @ f) v = bk_read host (sdir @ ''/'' @ f) w \<and>
          bk_exists host (sdir @ ''/'' @ f) v = bk_exists host (sdir @ ''/'' @ f) w)"

lemma same_session_file: "same_session host sdir w v \<Longrightarrow> file_is host sdir v name ls = file_is host sdir w name ls"
  by (simp add: same_session_def file_is_def)

text \<open>C30: capture, agent, rollback. Capture succeeds; the agent does whatever it does outside the session directory; the
  files it touched are recorded; later the same branch is checked out and only files that were dirty at the
  capture or touched by the agent are dirty. Then the rollback resets to the commit of the capture, and reports
  it, the backup branch, the branch checked out and those dirty files of the operator that the reset discarded.\<close>

theorem capture_then_rollback:
  assumes "git_documents host dir branches tree" "files_document host"
    and "capture host dir run session sdir w0 = (Inr info, w1)" "same_session host sdir w1 w2"
    and "record_agent_touch host dir (base_sha info) sdir w2 = (Inr touched, w3)" "same_session host sdir w3 w4"
    and "fst (is_git_repo host dir w4)" "branch_now host dir w4 = Inr (info_current_branch info)"
    and "dirty_now host dir w4 = Inr dirty" "set dirty \<subseteq> set (pre_modified info) \<union> set touched"
    and "fst (git_ok host dir [''reset'', ''--hard'', base_sha info] (''git reset --hard '' @ base_sha info) w4) = Inr ()"
    and "\<forall>l \<in> {backup_branch info, info_current_branch info} \<union> set (pre_modified info) \<union> set touched. plain_name l"
    and "[] \<notin> set dirty"
  shows "\<exists>report w5. rollback host dir sdir w4 = (Inr report, w5) \<and> rb_base_sha report = base_sha info \<and>
    rb_branch report = backup_branch info \<and> rb_current_branch report = info_current_branch info \<and>
    reset_pre_modified report = filter (\<lambda>f. f \<in> set (pre_modified info)) dirty"
proof -
  note capture_files = capture_files [OF assms(2,3)]
  have pure: "snd (git_ok_capture_stdout host dir [''diff'', ''--name-only'', base_sha info] (''git diff --name-only '' @ base_sha info) w2) = w2"
    by (rule capture_stdout_pure [OF assms(1)]) simp
  have keep: "file_is host sdir w4 name ls" if "file_is host sdir w1 name ls" "name \<noteq> ''agent-modified.txt''" for name ls
    using agent_touch_files(2) [OF assms(2,5) that(2)] that(1) assms(4,6) pure by (auto simp: same_session_file)
  have agent: "file_is host sdir w4 ''agent-modified.txt'' touched"
    using agent_touch_files(1) [OF assms(2,5)] assms(6) by (simp add: same_session_file)
  obtain un where sr: "read_record host sdir w4 = Inr \<lparr>sr_base = base_sha info, sr_branch = backup_branch info,
      sr_recorded = Some (info_current_branch info), sr_untracked = un, sr_modified = pre_modified info\<rparr>"
    using read_record_session [of host sdir w4 "base_sha info" "backup_branch info" "info_current_branch info" "pre_modified info" touched]
      capture_files keep agent assms(12) by auto
  have touched: "touched_by_agent host sdir w4 = Some touched"
    using read_lines_file [of touched host "sdir @ ''/agent-modified.txt''" w4] agent assms(12)
    by (simp add: touched_by_agent_def file_is_def)
  have reset: "rollback host dir sdir w4 = do_reset host dir \<lparr>sr_base = base_sha info, sr_branch = backup_branch info,
      sr_recorded = Some (info_current_branch info), sr_untracked = un, sr_modified = pre_modified info\<rparr> (info_current_branch info) dirty w4"
    using rollback_resets [OF assms(1) _ assms(7) sr assms(8,9) touched _] assms(10) capture_files by simp
  obtain w5 where w5: "git_ok host dir [''reset'', ''--hard'', base_sha info] (''git reset --hard '' @ base_sha info) w4 = (Inr (), w5)"
    using assms(11) by (metis prod.collapse)
  have "filter (\<lambda>f. f \<noteq> [] \<and> f \<in> set (pre_modified info)) dirty = filter (\<lambda>f. f \<in> set (pre_modified info)) dirty"
    using assms(13) by (auto intro!: filter_cong)
  with reset w5 show ?thesis by (auto simp: do_reset_def Let_def split: prod.split)
qed


section \<open>A small repository\<close>

record toy_repo =
  t_branches :: "string list"
  t_dirty :: "string list"
  t_files :: "(string \<times> string) list"

definition toy_sha :: string where
  "toy_sha = replicate 40 (CHR ''a'')"

definition toy_exit :: "int \<Rightarrow> string \<Rightarrow> proc_result result" where
  "toy_exit n txt = Inr \<lparr>exit_code = n, stdout_output = txt, stderr_output = [], timed_out = False, idle_timeout = False\<rparr>"

definition toy_repo_git :: "string list \<Rightarrow> string \<Rightarrow> int \<Rightarrow> toy_repo \<Rightarrow> proc_result result \<times> toy_repo" where
  "toy_repo_git args dir t w =
     (if is_query args then
        (toy_exit 0 (if hd args = ''diff'' then file_lines (t_dirty w)
           else if args = [''rev-parse'', ''HEAD''] then toy_sha @ [newline]
           else if hd args = ''symbolic-ref'' then ''main'' @ [newline] else []), w)
      else if hd args = ''branch'' \<and> args ! 1 = ''-D'' then
        (toy_exit 0 [], w\<lparr>t_branches := filter (\<lambda>b. b \<noteq> args ! 2) (t_branches w)\<rparr>)
      else if hd args = ''branch'' then
        (if args ! 1 \<in> set (t_branches w) then (toy_exit 128 [], w)
         else (toy_exit 0 [], w\<lparr>t_branches := args ! 1 # t_branches w\<rparr>))
      else (toy_exit 0 [], w\<lparr>t_dirty := []\<rparr>))"

definition toy_backup :: "toy_repo backup_host" where
  "toy_backup = \<lparr>bk_git = toy_repo_git, bk_read = (\<lambda>p w. map_of (t_files w) p), bk_exists = (\<lambda>p w. map_of (t_files w) p \<noteq> None),
     bk_write = (\<lambda>p txt w. (True, w\<lparr>t_files := (p, txt) # t_files w\<rparr>)), bk_is_dir = (\<lambda>p w. True), bk_mkdir = (\<lambda>p w. (True, w))\<rparr>"

lemma toy_git_documents: "git_documents toy_backup dir (\<lambda>w. set (t_branches w)) t_dirty"
  unfolding git_documents_def
  by (auto simp: toy_backup_def toy_repo_git_def is_query_def toy_exit_def exit_ok_def)

lemma toy_files_document: "files_document toy_backup"
  by (simp add: files_document_def toy_backup_def)

definition toy_start :: toy_repo where
  "toy_start = \<lparr>t_branches = [''main''], t_dirty = [''op.txt''], t_files = []\<rparr>"

abbreviation toy_captured :: toy_repo where "toy_captured \<equiv> snd (capture toy_backup ''p'' ''r'' ''1'' ''s'' toy_start)"

definition toy_worked :: toy_repo where
  "toy_worked = toy_captured\<lparr>t_dirty := [''op.txt'', ''ag.txt'']\<rparr>"

abbreviation toy_recorded :: toy_repo where "toy_recorded \<equiv> snd (record_agent_touch toy_backup ''p'' toy_sha ''s'' toy_worked)"

lemma toy_capture: "fst (capture toy_backup ''p'' ''r'' ''1'' ''s'' toy_start) =
    Inr \<lparr>backup_branch = ''auto/troubleshoot/backup/r-1'', base_sha = toy_sha, info_current_branch = ''main'', pre_modified = [''op.txt'']\<rparr>"
  by code_simp

lemma toy_record: "fst (record_agent_touch toy_backup ''p'' toy_sha ''s'' toy_worked) = Inr [''op.txt'', ''ag.txt'']"
  by code_simp


theorem capture_then_rollback_witness:
  "\<exists>report w5. rollback toy_backup ''p'' ''s'' toy_recorded = (Inr report, w5) \<and> rb_base_sha report = toy_sha \<and>
    reset_pre_modified report = [''op.txt'']"
proof -
  let ?info = "\<lparr>backup_branch = ''auto/troubleshoot/backup/r-1'', base_sha = toy_sha, info_current_branch = ''main'', pre_modified = [''op.txt'']\<rparr>"
  have c: "capture toy_backup ''p'' ''r'' ''1'' ''s'' toy_start = (Inr ?info, toy_captured)" using toy_capture by (metis prod.collapse)
  have r: "record_agent_touch toy_backup ''p'' (base_sha ?info) ''s'' toy_worked = (Inr [''op.txt'', ''ag.txt''], toy_recorded)"
    using toy_record by (metis (no_types, lifting) prod.collapse backup_info.select_convs(2))
  have s: "same_session toy_backup ''s'' toy_captured toy_worked" by (simp add: same_session_def toy_worked_def toy_backup_def)
  have s': "same_session toy_backup ''s'' toy_recorded toy_recorded" by (simp add: same_session_def)
  have now: "fst (is_git_repo toy_backup ''p'' toy_recorded)" "branch_now toy_backup ''p'' toy_recorded = Inr ''main''"
    "dirty_now toy_backup ''p'' toy_recorded = Inr [''op.txt'', ''ag.txt'']"
    "fst (git_ok toy_backup ''p'' [''reset'', ''--hard'', toy_sha] (''git reset --hard '' @ toy_sha) toy_recorded) = Inr ()"
    by code_simp+
  have "\<forall>l \<in> {backup_branch ?info, info_current_branch ?info} \<union> set (pre_modified ?info) \<union> set [''op.txt'', ''ag.txt'']. plain_name l"
    by (simp add: plain_name_def)
  from capture_then_rollback [OF toy_git_documents toy_files_document c s r s' now(1) _ now(3) _ _ this] now
  have "\<exists>report. (\<exists>w5. rollback toy_backup ''p'' ''s'' toy_recorded = (Inr report, w5)) \<and> rb_base_sha report = toy_sha \<and>
    rb_branch report = ''auto/troubleshoot/backup/r-1'' \<and> rb_current_branch report = ''main'' \<and> reset_pre_modified report = [''op.txt'']"
    by simp
  then show ?thesis by blast
qed

theorem rollback_protects_witness:
  "t_dirty (snd (rollback toy_backup ''p'' ''s'' toy_recorded)) \<noteq> t_dirty toy_recorded \<and>
   (\<exists>sr dirty touched. read_record toy_backup ''s'' toy_recorded = Inr sr \<and> dirty_now toy_backup ''p'' toy_recorded = Inr dirty \<and>
      touched_by_agent toy_backup ''s'' toy_recorded = Some touched \<and> set dirty \<subseteq> set (sr_modified sr) \<union> set touched)"
proof -
  have "t_dirty (snd (rollback toy_backup ''p'' ''s'' toy_recorded)) = []" "t_dirty toy_recorded = [''op.txt'', ''ag.txt'']" by code_simp+
  then have d: "t_dirty (snd (rollback toy_backup ''p'' ''s'' toy_recorded)) \<noteq> t_dirty toy_recorded" by simp
  from rollback_protects [OF toy_git_documents prod.collapse [symmetric] this] d show ?thesis by blast
qed

end
