(* ===== verification/Stream_Parser.thy ===== *)
theory Stream_Parser
  imports Checkpoint
begin

text \<open>
  \<open>src/troubleshoot/stream_parser.cpp\<close>: the lines the agent prints, turned into events. The JSON parser and \<open>dump\<close>
  are parameters; the state is the flag that \<open>session_started\<close> has been emitted.
\<close>

section \<open>Values and previews\<close>

definition preview_limit :: nat where
  "preview_limit = 240"

definition truncate_preview :: "string \<Rightarrow> nat \<Rightarrow> string" where
  "truncate_preview s limit =
     (if length s \<le> limit then s
      else if limit \<le> 3 then truncate_front s limit
      else truncate_front s (limit - 3) @ ''...'')"

definition json_summary :: "(json \<Rightarrow> string) \<Rightarrow> json \<Rightarrow> string" where
  "json_summary dump j =
     (case j of JNull \<Rightarrow> [] | JStr s \<Rightarrow> truncate_preview s preview_limit | _ \<Rightarrow> truncate_preview (dump j) preview_limit)"

definition stream_content :: "json \<Rightarrow> json option" where
  "stream_content j =
     (case json_find j ''message'' of
        Some (JObj m) \<Rightarrow> (case map_of m ''content'' of Some c \<Rightarrow> Some c | None \<Rightarrow> json_find j ''content'')
      | _ \<Rightarrow> json_find j ''content'')"

definition bool_value :: "json \<Rightarrow> string \<Rightarrow> bool" where
  "bool_value j k = (case json_find j k of Some (JBool b) \<Rightarrow> b | _ \<Rightarrow> False)"

definition string_value :: "json \<Rightarrow> string \<Rightarrow> string \<Rightarrow> string" where
  "string_value j k fallback = (case json_find j k of Some (JStr s) \<Rightarrow> s | _ \<Rightarrow> fallback)"

section \<open>Events\<close>

record stream_event =
  ev_type :: string
  ev_payload :: json
  ev_raw :: string

definition event_of :: "string \<Rightarrow> string \<Rightarrow> (string \<times> json) list \<Rightarrow> stream_event" where
  "event_of ty raw kvs = \<lparr>ev_type = ty, ev_payload = fold (\<lambda>kv j. json_set (fst kv) (snd kv) j) kvs JNull, ev_raw = raw\<rparr>"

definition opt_field :: "string \<Rightarrow> json option \<Rightarrow> (string \<times> json) list" where
  "opt_field k v = (case v of None \<Rightarrow> [] | Some j \<Rightarrow> [(k, j)])"

text \<open>\<open>is_number\<close>: the numbers of the model are integers.\<close>

definition opt_number :: "string \<Rightarrow> json option \<Rightarrow> (string \<times> json) list" where
  "opt_number k v = (case v of Some (JInt n) \<Rightarrow> [(k, JInt n)] | _ \<Rightarrow> [])"

definition summary_field :: "(json \<Rightarrow> string) \<Rightarrow> json option \<Rightarrow> json" where
  "summary_field dump v = JStr (case v of None \<Rightarrow> [] | Some j \<Rightarrow> json_summary dump j)"

definition is_block :: "string \<Rightarrow> json \<Rightarrow> bool" where
  "is_block ty b = (case b of JObj _ \<Rightarrow> string_value b ''type'' [] = ty | _ \<Rightarrow> False)"

definition tool_call :: "(json \<Rightarrow> string) \<Rightarrow> string \<Rightarrow> json \<Rightarrow> json \<Rightarrow> stream_event" where
  "tool_call dump line j b = event_of ''tool_call'' line
     ([(''tool'', JStr (string_value b ''name'' ''tool'')), (''tool_use_id'', JStr (string_value b ''id'' [])),
       (''input_summary'', summary_field dump (json_find b ''input''))] @ opt_number ''elapsed_ms'' (json_find j ''elapsed_ms''))"

definition tool_result :: "(json \<Rightarrow> string) \<Rightarrow> string \<Rightarrow> json \<Rightarrow> stream_event" where
  "tool_result dump line b =
     (let is_error = bool_value b ''is_error'' in
      event_of ''tool_result'' line
        [(''tool'', JStr (string_value b ''name'' ''tool_result'')), (''tool_use_id'', JStr (string_value b ''tool_use_id'' [])),
         (''ok'', JBool (\<not> is_error)), (''status'', JStr (if is_error then ''err'' else ''ok'')),
         (''output_preview'', summary_field dump (json_find b ''content''))])"

definition blocks_of :: "string \<Rightarrow> json \<Rightarrow> json list" where
  "blocks_of ty j = (case stream_content j of Some (JArr bs) \<Rightarrow> filter (is_block ty) bs | _ \<Rightarrow> [])"

definition result_events :: "string \<Rightarrow> string \<Rightarrow> json \<Rightarrow> stream_event list" where
  "result_events line subtype j =
     (let turns = opt_field ''num_turns'' (json_find j ''num_turns''); usage = opt_field ''usage'' (json_find j ''usage'') in
      event_of ''session_completed'' line
        ([(''outcome'', JStr (if subtype = ''success'' \<and> \<not> bool_value j ''is_error'' then ''resumed'' else ''failed_agent'')),
          (''subtype'', JStr subtype),
          (''summary'', JStr (truncate_preview (string_value j ''result'' []) preview_limit))] @ turns @ usage) #
      (case json_find j ''total_cost_usd'' of
         Some (JInt n) \<Rightarrow> [event_of ''cost_update'' line ([(''cost_usd'', JInt n)] @ turns @ usage)]
       | _ \<Rightarrow> []))"

definition parse_object :: "(json \<Rightarrow> string) \<Rightarrow> string \<Rightarrow> json \<Rightarrow> bool \<Rightarrow> stream_event list \<times> bool" where
  "parse_object dump line j started =
     (let raw_type = string_value j ''type'' []; subtype = string_value j ''subtype'' [] in
      if raw_type = ''system'' \<and> subtype = ''init'' then
        (if started then []
         else [event_of ''session_started'' line
           [(''claude_session_id'', JStr (string_value j ''session_id'' [])), (''model'', JStr (string_value j ''model'' []))]], True)
      else if raw_type = ''assistant'' then (map (tool_call dump line j) (blocks_of ''tool_use'' j), started)
      else if raw_type = ''user'' then (map (tool_result dump line) (blocks_of ''tool_result'' j), started)
      else if raw_type = ''result'' then (result_events line subtype j, started)
      else ([event_of ''raw'' line [(''raw'', j)]], started))"

definition parse_line :: "(string \<Rightarrow> json option) \<Rightarrow> (json \<Rightarrow> string) \<Rightarrow> string \<Rightarrow> bool \<Rightarrow> stream_event list \<times> bool" where
  "parse_line parse dump line started =
     (if line = [] then ([], started)
      else case parse line of
          Some (JObj kvs) \<Rightarrow> parse_object dump line (JObj kvs) started
        | _ \<Rightarrow> ([], started))"

fun parse_lines :: "(string \<Rightarrow> json option) \<Rightarrow> (json \<Rightarrow> string) \<Rightarrow> string list \<Rightarrow> bool \<Rightarrow> stream_event list \<times> bool" where
  "parse_lines parse dump [] started = ([], started)"
| "parse_lines parse dump (l # ls) started =
     (let (es, started) = parse_line parse dump l started; (fs, started) = parse_lines parse dump ls started
      in (es @ fs, started))"

section \<open>Bounds\<close>

lemma truncate_preview_length: "length (truncate_preview s preview_limit) \<le> preview_limit"
  using truncate_front_length [of s "preview_limit - 3"] by (simp add: truncate_preview_def preview_limit_def)

lemma json_summary_length: "length (json_summary dump j) \<le> preview_limit"
  by (cases j) (simp_all add: json_summary_def truncate_preview_length)

lemma event_of_find:
  "json_find (ev_payload (event_of ty raw kvs)) k = map_of (rev kvs) k"
proof -
  have "json_find (fold (\<lambda>kv j. json_set (fst kv) (snd kv) j) kvs j) k =
      (case map_of (rev kvs) k of None \<Rightarrow> json_find j k | Some v \<Rightarrow> Some v)" for j
    by (induction kvs arbitrary: j) (auto simp: map_add_def split: option.split)
  from this [of JNull] show ?thesis by (simp add: event_of_def json_find_def split: option.split)
qed


definition preview_ok :: "stream_event \<Rightarrow> bool" where
  "preview_ok e = (\<forall>k v. k \<in> {''input_summary'', ''output_preview'', ''summary''} \<longrightarrow> json_find (ev_payload e) k = Some v \<longrightarrow>
     (\<exists>s. v = JStr s \<and> length s \<le> preview_limit))"

definition started_events :: "stream_event list \<Rightarrow> nat" where
  "started_events es = length (filter (\<lambda>e. ev_type e = ''session_started'') es)"

lemma event_type [simp]: "ev_type (event_of ty raw kvs) = ty"
  by (simp add: event_of_def)

lemma summary_field_ok: "summary_field dump v = JStr s \<Longrightarrow> length s \<le> preview_limit"
  using json_summary_length by (cases v) (auto simp: summary_field_def)

lemma opt_fields_find:
  "map_of (opt_field k v) k' = (if k' = k then v else None)"
  "map_of (opt_number k v) k' = (case v of Some (JInt n) \<Rightarrow> if k' = k then Some (JInt n) else None | _ \<Rightarrow> None)"
  "rev (opt_field k v) = opt_field k v" "rev (opt_number k v) = opt_number k v"
  by (auto simp: opt_field_def opt_number_def split: option.split json.split)

lemma summary_field_str: "\<exists>s. summary_field dump v = JStr s"
  by (simp add: summary_field_def)

lemma tool_events_ok: "preview_ok (tool_call dump line j b)" "preview_ok (tool_result dump line b)"
proof -
  obtain s where s: "summary_field dump (json_find b ''input'') = JStr s" using summary_field_str by blast
  show "preview_ok (tool_call dump line j b)"
    using summary_field_ok [OF s] unfolding preview_ok_def tool_call_def event_of_find
    by (auto simp: s map_add_def opt_fields_find split: option.splits json.splits if_splits)
  obtain t where t: "summary_field dump (json_find b ''content'') = JStr t" using summary_field_str by blast
  show "preview_ok (tool_result dump line b)"
    using summary_field_ok [OF t] unfolding preview_ok_def tool_result_def Let_def event_of_find
    by (auto simp: t)
qed

lemma result_events_ok: "e \<in> set (result_events line subtype j) \<Longrightarrow> preview_ok e \<and> ev_type e \<noteq> ''session_started''"
  using truncate_preview_length
  by (auto simp: result_events_def Let_def preview_ok_def event_of_find map_add_def opt_fields_find
      split: option.splits json.splits if_splits)

lemma parse_object_ok:
  assumes "parse_object dump line j started = (es, started')"
  shows "\<forall>e \<in> set es. preview_ok e" "started_events es \<le> (if started then 0 else 1)"
    "started' = (started \<or> 0 < started_events es)"
proof -
  have raw: "preview_ok (event_of ''raw'' line [(''raw'', j)])" by (simp add: preview_ok_def event_of_find)
  have init: "preview_ok (event_of ''session_started'' line [(''claude_session_id'', a), (''model'', b)])" for a b
    by (simp add: preview_ok_def event_of_find)
  have none: "started_events (map (tool_call dump line j) bs) = 0" "started_events (map (tool_result dump line) bs) = 0" for bs
    by (induction bs) (simp_all add: started_events_def tool_call_def tool_result_def Let_def)
  have res: "started_events (result_events line t j) = 0" for t
    using result_events_ok by (fastforce simp: started_events_def filter_empty_conv)
  show "\<forall>e \<in> set es. preview_ok e"
    using assms raw init tool_events_ok result_events_ok by (auto simp: parse_object_def Let_def split: if_splits)
  show "started_events es \<le> (if started then 0 else 1)" "started' = (started \<or> 0 < started_events es)"
    using assms none res by (auto simp: parse_object_def Let_def split: if_splits simp: started_events_def [of "[]"] started_events_def [of "[_]"])
qed

lemma started_append: "started_events (es @ fs) = started_events es + started_events fs"
  by (simp add: started_events_def)

definition line_object :: "(string \<Rightarrow> json option) \<Rightarrow> string \<Rightarrow> (string \<times> json) list option" where
  "line_object parse line = (if line = [] then None else case parse line of Some (JObj kvs) \<Rightarrow> Some kvs | _ \<Rightarrow> None)"

lemma parse_line_object:
  "parse_line parse dump line started =
     (case line_object parse line of None \<Rightarrow> ([], started) | Some kvs \<Rightarrow> parse_object dump line (JObj kvs) started)"
  by (auto simp: parse_line_def line_object_def split: option.split json.split)

lemma parse_lines_ok:
  "parse_lines parse dump ls started = (es, started') \<Longrightarrow>
   (\<forall>e \<in> set es. preview_ok e) \<and> started_events es \<le> (if started then 0 else 1) \<and> started' = (started \<or> 0 < started_events es)"
proof (induction ls arbitrary: started es started')
  case (Cons l ls)
  obtain fs s1 where l: "parse_line parse dump l started = (fs, s1)" by (rule prod.exhaust)
  obtain gs s2 where r: "parse_lines parse dump ls s1 = (gs, s2)" by (rule prod.exhaust)
  have "(\<forall>e \<in> set fs. preview_ok e) \<and> started_events fs \<le> (if started then 0 else 1) \<and> s1 = (started \<or> 0 < started_events fs)"
  proof (cases "\<exists>kvs. line_object parse l = Some kvs")
    case True
    then obtain kvs where "line_object parse l = Some kvs" by blast
    then have "parse_object dump l (JObj kvs) started = (fs, s1)" using l parse_line_object [of parse dump l started] by simp
    from parse_object_ok [OF this] show ?thesis by blast
  next
    case False
    then have "fs = []" "s1 = started" using l parse_line_object [of parse dump l started] by simp_all
    then show ?thesis by (simp add: started_events_def)
  qed
  with Cons.IH [OF r] Cons.prems l r show ?case by (auto simp: started_append split: if_splits)
qed (simp add: started_events_def)

text \<open>Fact: what the stream shows. Whatever lines the agent prints, at most one \<open>session_started\<close> event is emitted in a
  session, none after one has been; and a summary of a tool's input or output, or of the result, is a string of at
  most 240 bytes in every event.\<close>

theorem stream_bounded:
  "started_events (fst (parse_lines parse dump ls started)) \<le> (if started then 0 else 1) \<and>
   (\<forall>e \<in> set (fst (parse_lines parse dump ls started)). \<forall>k \<in> {''input_summary'', ''output_preview'', ''summary''}.
      case json_find (ev_payload e) k of None \<Rightarrow> True | Some (JStr s) \<Rightarrow> length s \<le> 240 | Some _ \<Rightarrow> False)"
proof -
  obtain es s where p: "parse_lines parse dump ls started = (es, s)" by (rule prod.exhaust)
  note ok = parse_lines_ok [OF p]
  have "case json_find (ev_payload e) k of None \<Rightarrow> True | Some (JStr s) \<Rightarrow> length s \<le> 240 | Some _ \<Rightarrow> False"
    if "e \<in> set es" "k \<in> {''input_summary'', ''output_preview'', ''summary''}" for e k
  proof (cases "json_find (ev_payload e) k")
    case (Some v)
    with ok that obtain s where "v = JStr s" "length s \<le> preview_limit" unfolding preview_ok_def by blast
    with Some show ?thesis by (simp add: preview_limit_def)
  qed simp
  with ok p show ?thesis by simp
qed

text \<open>The start of a session is announced twice by the agent, and its result is a text of a thousand letters.\<close>

definition long_stream :: "string \<Rightarrow> json option" where
  "long_stream l = (if l = ''i'' then Some (JObj [(''subtype'', JStr ''init''), (''type'', JStr ''system'')])
     else Some (JObj [(''result'', JStr (replicate 1000 (CHR ''a''))), (''type'', JStr ''result'')]))"

theorem stream_bounded_witness:
  "started_events (fst (parse_lines long_stream (\<lambda>_. []) [''i'', ''i'', ''r''] False)) \<le> 1 \<and>
   (\<forall>e \<in> set (fst (parse_lines long_stream (\<lambda>_. []) [''i'', ''i'', ''r''] False)).
      case json_find (ev_payload e) ''summary'' of None \<Rightarrow> True | Some (JStr s) \<Rightarrow> length s \<le> 240 | Some _ \<Rightarrow> False)"
  using stream_bounded [of long_stream "\<lambda>_. []" "[''i'', ''i'', ''r'']" False] by simp

end
