(* ===== verification/Write_Hook.thy ===== *)
theory Write_Hook
  imports Checkpoint "HOL-Library.Sublist"
begin

text \<open>
  \<open>src/troubleshoot/write_hook.cpp\<close> and \<open>src/troubleshoot/allowed_tools.cpp\<close>: the boundary of the troubleshooting
  agent. The tools it may call are listed for it; the files it wrote are audited after the run. \<open>realpath\<close>, the
  working directory and the parser of a line of the event log are parameters. The POSIX half of the code is
  modelled, with \<open>is_absolute_path\<close> and \<open>path_join\<close> of \<open>src/platform/platform_posix.cpp\<close>.
\<close>

section \<open>Paths as strings\<close>

definition is_absolute_path :: "string \<Rightarrow> bool" where
  "is_absolute_path path = (path \<noteq> [] \<and> hd path = CHR ''/'')"

definition path_join :: "string \<Rightarrow> string \<Rightarrow> string" where
  "path_join a b = (if a = [] then b else if b = [] then a else if last a = CHR ''/'' then a @ b else a @ ''/'' @ b)"

definition normalize_separators :: "string \<Rightarrow> string" where
  "normalize_separators path = map (\<lambda>c. if c = backslash then CHR ''/'' else c) path"

text \<open>The loop of \<open>trim_trailing_separators\<close>, on the reversed path.\<close>

fun trim_back :: "string \<Rightarrow> string" where
  "trim_back (c # d # e) = (if c = CHR ''/'' \<and> \<not> (length e = 1 \<and> d = CHR '':'') then trim_back (d # e) else c # d # e)"
| "trim_back p = p"

definition trim_trailing_separators :: "string \<Rightarrow> string" where
  "trim_trailing_separators path = rev (trim_back (rev (normalize_separators path)))"

text \<open>The parts between separators, empty ones included, as the loop over \<open>find\<close> meets them.\<close>

fun path_pieces :: "string \<Rightarrow> string \<Rightarrow> string list" where
  "path_pieces [] piece = [piece]"
| "path_pieces (c # cs) piece = (if c = CHR ''/'' then piece # path_pieces cs [] else path_pieces cs (piece @ [c]))"

definition push_part :: "bool \<Rightarrow> string list \<Rightarrow> string \<Rightarrow> string list" where
  "push_part rooted parts part =
     (if part = [] \<or> part = ''.'' then parts
      else if part = ''..'' then
        if parts \<noteq> [] then butlast parts else if \<not> rooted then parts @ [part] else parts
      else parts @ [part])"

definition root_prefix :: "string \<Rightarrow> string" where
  "root_prefix path =
     (if starts_with ''//'' path then ''//''
      else if 3 \<le> length path \<and> path ! 1 = CHR '':'' \<and> path ! 2 = CHR ''/'' then take 3 path
      else if starts_with ''/'' path then ''/'' else [])"

definition lexical_normalize :: "string \<Rightarrow> string" where
  "lexical_normalize input =
     (let path = normalize_separators input; root = root_prefix path;
          parts = foldl (push_part (root \<noteq> [])) [] (path_pieces (drop (length root) path) []);
          result = root @ join ''/'' parts
      in if result = [] then ''.'' else trim_trailing_separators result)"

definition real_path :: "(string \<Rightarrow> string option) \<Rightarrow> string \<Rightarrow> string option" where
  "real_path realpath path = map_option trim_trailing_separators (realpath path)"

text \<open>\<open>find_last_of('/', ...)\<close> before a position.\<close>

definition slash_before :: "string \<Rightarrow> nat \<Rightarrow> nat option" where
  "slash_before path n =
     (case find_char (CHR ''/'') (rev (take n path)) of None \<Rightarrow> None | Some k \<Rightarrow> Some (length (take n path) - 1 - k))"

lemma slash_before_less: "slash_before path n = Some m \<Longrightarrow> m < n"
  using find_char_Some [of "CHR ''/''" "rev (take n path)"] by (auto simp: slash_before_def split: option.splits)

text \<open>The loop over shorter and shorter ancestors until one exists.\<close>

function climb :: "(string \<Rightarrow> string option) \<Rightarrow> string \<Rightarrow> nat \<Rightarrow> string" where
  "climb realpath path n =
     (let candidate = trim_trailing_separators (if take n path = [] then ''/'' else take n path) in
      case real_path realpath candidate of
        Some resolved \<Rightarrow>
          let remainder = dropWhile (\<lambda>c. c = CHR ''/'') (drop n path) in
          lexical_normalize (if remainder = [] then resolved else trim_trailing_separators resolved @ ''/'' @ remainder)
      | None \<Rightarrow>
          if n = 0 then lexical_normalize path
          else case slash_before path n of None \<Rightarrow> lexical_normalize path | Some m \<Rightarrow> climb realpath path m)"
  by pat_completeness auto
termination by (relation "measure (\<lambda>(r, p, k). k)") (auto dest: slash_before_less)

declare climb.simps [simp del]

definition canonical_path_tolerant :: "(string \<Rightarrow> string option) \<Rightarrow> string \<Rightarrow> string \<Rightarrow> string" where
  "canonical_path_tolerant realpath cwd path =
     (if path = [] then []
      else case real_path realpath path of
          Some resolved \<Rightarrow> resolved
        | None \<Rightarrow>
            let p = normalize_separators path;
                normalized = (if is_absolute_path p then p else normalize_separators (path_join cwd p))
            in climb realpath normalized (length normalized))"

definition same_or_child :: "string \<Rightarrow> string \<Rightarrow> bool" where
  "same_or_child path root =
     (if path = [] \<or> root = [] then False
      else if path = root then True
      else if root = ''/'' then hd path = CHR ''/''
      else if length path \<le> length root then False
      else if take (length root) path \<noteq> root then False
      else path ! length root = CHR ''/'')"

section \<open>What may be written\<close>

text \<open>The loop of \<open>path_contains_tilde_segment\<close>, at every position.\<close>

fun slash_tilde :: "string \<Rightarrow> bool" where
  "slash_tilde (c # d # rest) =
     (c = CHR ''/'' \<and> d = CHR ''~'' \<and> (rest = [] \<or> hd rest = CHR ''/'') \<or> slash_tilde (d # rest))"
| "slash_tilde _ = False"

definition path_contains_tilde_segment :: "string \<Rightarrow> bool" where
  "path_contains_tilde_segment path =
     (let n = normalize_separators path in n \<noteq> [] \<and> (n = ''~'' \<or> starts_with ''~/'' n \<or> slash_tilde n))"

definition file_write_allowed :: "(string \<Rightarrow> string option) \<Rightarrow> string \<Rightarrow> string \<Rightarrow> string \<Rightarrow> string \<Rightarrow> bool" where
  "file_write_allowed realpath cwd abs_path project_dir session_dir =
     (if path_contains_tilde_segment abs_path then False
      else
        let path = canonical_path_tolerant realpath cwd abs_path;
            project = canonical_path_tolerant realpath cwd project_dir;
            session = canonical_path_tolerant realpath cwd session_dir
        in same_or_child path project \<or> same_or_child path session)"

section \<open>The audit of the event log\<close>

record hook_violation =
  tool :: string
  file_path :: string
  tool_use_id :: string

definition is_write_tool :: "string \<Rightarrow> bool" where
  "is_write_tool name = (name = ''Edit'' \<or> name = ''Write'')"

text \<open>The content blocks of an assistant message, in either of its two shapes.\<close>

definition message_content :: "json \<Rightarrow> json list" where
  "message_content j =
     (case (case json_find j ''message'' of Some (JObj m) \<Rightarrow> json_find (JObj m) ''content'' | _ \<Rightarrow> None) of
        Some (JArr blocks) \<Rightarrow> blocks
      | _ \<Rightarrow> (case json_find j ''content'' of Some (JArr blocks) \<Rightarrow> blocks | _ \<Rightarrow> []))"

text \<open>One block: an error of a \<open>value\<close> call leaves the whole audit.\<close>

definition audit_block :: "(string \<Rightarrow> bool) \<Rightarrow> string \<Rightarrow> json \<Rightarrow> json_error + hook_violation option" where
  "audit_block allowed project_dir block =
     (case block of
        JObj _ \<Rightarrow>
          bind_result (json_value_string block ''type'') (\<lambda>type.
          if type \<noteq> ''tool_use'' then Inr None
          else bind_result (json_value_string block ''name'') (\<lambda>name.
          if \<not> is_write_tool name then Inr None
          else case json_find block ''input'' of
              Some (JObj input) \<Rightarrow>
                (case map_of input ''file_path'' of
                   Some (JStr path) \<Rightarrow>
                     let abs_path = (if is_absolute_path path then path else path_join project_dir path) in
                     if allowed abs_path then Inr None
                     else bind_result (json_value_string block ''id'') (\<lambda>i.
                       Inr (Some \<lparr>tool = name, file_path = path, tool_use_id = i\<rparr>))
                 | _ \<Rightarrow> Inr None)
            | _ \<Rightarrow> Inr None))
      | _ \<Rightarrow> Inr None)"

fun audit_blocks :: "(string \<Rightarrow> bool) \<Rightarrow> string \<Rightarrow> json list \<Rightarrow> json_error + hook_violation list" where
  "audit_blocks allowed project_dir [] = Inr []"
| "audit_blocks allowed project_dir (b # bs) =
     bind_result (audit_block allowed project_dir b) (\<lambda>v.
     bind_result (audit_blocks allowed project_dir bs) (\<lambda>vs.
       Inr ((case v of None \<Rightarrow> [] | Some x \<Rightarrow> [x]) @ vs)))"

definition audit_line :: "(string \<Rightarrow> json option) \<Rightarrow> (string \<Rightarrow> bool) \<Rightarrow> string \<Rightarrow> string \<Rightarrow> json_error + hook_violation list" where
  "audit_line parse allowed project_dir line =
     (if line = [] then Inr []
      else case parse line of
          Some (JObj kvs) \<Rightarrow>
            bind_result (json_value_string (JObj kvs) ''type'') (\<lambda>type.
              if type \<noteq> ''assistant'' then Inr [] else audit_blocks allowed project_dir (message_content (JObj kvs)))
        | _ \<Rightarrow> Inr [])"

fun audit_lines :: "(string \<Rightarrow> json option) \<Rightarrow> (string \<Rightarrow> bool) \<Rightarrow> string \<Rightarrow> string list \<Rightarrow> json_error + hook_violation list" where
  "audit_lines parse allowed project_dir [] = Inr []"
| "audit_lines parse allowed project_dir (l # ls) =
     bind_result (audit_line parse allowed project_dir l) (\<lambda>vs.
     bind_result (audit_lines parse allowed project_dir ls) (\<lambda>ws. Inr (vs @ ws)))"

text \<open>\<open>None\<close>: the log cannot be opened.\<close>

definition audit_events_ndjson ::
  "(string \<Rightarrow> json option) \<Rightarrow> (string \<Rightarrow> string option) \<Rightarrow> string \<Rightarrow> string list option \<Rightarrow> string \<Rightarrow> string
    \<Rightarrow> json_error + hook_violation list" where
  "audit_events_ndjson parse realpath cwd log project_dir session_dir =
     (case log of
        None \<Rightarrow> Inr []
      | Some lines \<Rightarrow> audit_lines parse (\<lambda>p. file_write_allowed realpath cwd p project_dir session_dir) project_dir lines)"


section \<open>Segments\<close>

text \<open>The non-empty parts of a path.\<close>

definition segs :: "string \<Rightarrow> string list" where
  "segs path = filter (\<lambda>p. p \<noteq> []) (path_pieces path [])"

lemma path_pieces_slash: "path_pieces (a @ CHR ''/'' # b) q = path_pieces a q @ path_pieces b []"
  by (induction a arbitrary: q) auto

lemma path_pieces_word: "CHR ''/'' \<notin> set p \<Longrightarrow> path_pieces p q = [q @ p]"
  by (induction p arbitrary: q) auto

lemma segs_Nil [simp]: "segs [] = []"
  by (simp add: segs_def)

lemma segs_slash: "segs (a @ CHR ''/'' # b) = segs a @ segs b"
  by (simp add: segs_def path_pieces_slash)

lemma segs_Cons [simp]: "segs (CHR ''/'' # b) = segs b"
  using segs_slash [of "[]" b] by simp

lemma segs_word: "CHR ''/'' \<notin> set p \<Longrightarrow> p \<noteq> [] \<Longrightarrow> segs p = [p]"
  by (simp add: segs_def path_pieces_word)

lemma segs_join: "\<forall>p \<in> set ps. p \<noteq> [] \<and> CHR ''/'' \<notin> set p \<Longrightarrow> segs (join ''/'' ps) = ps"
proof (induction ps rule: induct_list012)
  case (3 x y zs)
  then show ?case using segs_slash [of x "join ''/'' (y # zs)"] by (simp add: segs_word)
qed (simp_all add: segs_word)

lemma path_pieces_sound:
  "piece \<in> set (path_pieces p q) \<Longrightarrow> CHR ''/'' \<notin> set q \<Longrightarrow> CHR ''/'' \<notin> set piece \<and> set piece \<subseteq> set p \<union> set q"
  by (induction p arbitrary: q) (fastforce split: if_splits)+

lemma segs_trim_back: "segs (rev (trim_back s)) = segs (rev s)"
proof (induction s rule: trim_back.induct)
  case (1 c d e)
  show ?case
  proof (cases "c = CHR ''/'' \<and> \<not> (length e = 1 \<and> d = CHR '':'')")
    case True
    with 1 segs_slash [of "rev e @ [d]" "[]"] show ?thesis by simp
  next
    case False
    then show ?thesis by (simp only: trim_back.simps if_False)
  qed
qed simp_all

lemma segs_trim: "segs (trim_trailing_separators p) = segs (normalize_separators p)"
  by (simp add: trim_trailing_separators_def segs_trim_back)

lemma normalize_separators_id: "backslash \<notin> set p \<Longrightarrow> normalize_separators p = p"
  by (induction p) (auto simp: normalize_separators_def)

lemma normalize_separators_no_backslash [simp]: "backslash \<notin> set (normalize_separators p)"
  by (auto simp: normalize_separators_def)

lemma trim_back_no_backslash: "set (trim_back s) \<subseteq> set s"
  by (induction s rule: trim_back.induct) auto

section \<open>Lexical normalisation\<close>

definition part_ok :: "string \<Rightarrow> bool" where
  "part_ok p = (p \<noteq> [] \<and> p \<noteq> ''.'' \<and> p \<noteq> ''..'' \<and> CHR ''/'' \<notin> set p \<and> backslash \<notin> set p)"

lemma push_parts_ok:
  "\<forall>p \<in> set pieces. CHR ''/'' \<notin> set p \<and> backslash \<notin> set p \<Longrightarrow> \<forall>p \<in> set parts. part_ok p \<Longrightarrow>
   \<forall>p \<in> set (foldl (push_part True) parts pieces). part_ok p"
proof (induction pieces arbitrary: parts)
  case (Cons x xs)
  have "\<forall>p \<in> set (push_part True parts x). part_ok p"
    using Cons.prems by (auto simp: push_part_def part_ok_def dest: in_set_butlastD)
  with Cons show ?case by simp
qed simp

lemma root_prefix_take: "take (length (root_prefix p)) p = root_prefix p"
  by (auto simp: root_prefix_def starts_with_def)

lemma root_prefix_segs:
  assumes "hd p = CHR ''/''" "p \<noteq> []"
  shows "root_prefix p \<noteq> []" "segs (root_prefix p) = [] \<or> segs (root_prefix p) = ['':'']" "last (root_prefix p) = CHR ''/''"
proof -
  obtain q where p: "p = CHR ''/'' # q" using assms by (cases p) auto
  show "root_prefix p \<noteq> []" by (auto simp: root_prefix_def p starts_with_def)
  have three: "take 3 p = ''/:/''" if "3 \<le> length p" "p ! 1 = CHR '':''" "p ! 2 = CHR ''/''"
  proof -
    from that p obtain a b r where "q = a # b # r" by (cases q; cases "tl q") auto
    with that p show ?thesis by simp
  qed
  have one: "segs ''/'' = []" "segs ''//'' = []" "segs ''/:/'' = ['':'']"
    using segs_slash [of "'':''" "[]"] by (simp_all add: segs_def)
  show "segs (root_prefix p) = [] \<or> segs (root_prefix p) = ['':'']" "last (root_prefix p) = CHR ''/''"
    using three one by (auto simp: root_prefix_def starts_with_def p)
qed

lemma lexical_normalize_segs:
  assumes "is_absolute_path (normalize_separators input)"
  shows "''..'' \<notin> set (segs (lexical_normalize input))"
proof -
  let ?p = "normalize_separators input"
  let ?r = "root_prefix ?p"
  define parts where "parts = foldl (push_part True) [] (path_pieces (drop (length ?r) ?p) [])"
  note root = root_prefix_segs [of ?p]
  have abs: "hd ?p = CHR ''/''" "?p \<noteq> []" using assms by (simp_all add: is_absolute_path_def)
  have "\<forall>x \<in> set (path_pieces (drop (length ?r) ?p) []). CHR ''/'' \<notin> set x \<and> backslash \<notin> set x"
  proof
    fix x assume "x \<in> set (path_pieces (drop (length ?r) ?p) [])"
    from path_pieces_sound [OF this] have "CHR ''/'' \<notin> set x" "set x \<subseteq> set (drop (length ?r) ?p)" by auto
    moreover from this(2) have "set x \<subseteq> set ?p" using set_drop_subset by fast
    ultimately show "CHR ''/'' \<notin> set x \<and> backslash \<notin> set x" using normalize_separators_no_backslash by blast
  qed
  then have parts: "\<forall>p \<in> set parts. part_ok p" unfolding parts_def by (intro push_parts_ok) simp_all
  have "lexical_normalize input = trim_trailing_separators (?r @ join ''/'' parts)"
    using root(1) abs by (simp add: lexical_normalize_def Let_def parts_def)
  moreover obtain r' where r': "?r = r' @ ''/''" using root(1,3) [OF abs] by (metis append_butlast_last_id)
  moreover have "backslash \<notin> set (?r @ join ''/'' parts)"
  proof -
    have "set (join ''/'' ps) \<subseteq> {CHR ''/''} \<union> \<Union> (set ` set ps)" for ps
      by (induction ps rule: induct_list012) auto
    then have "backslash \<notin> set (join ''/'' parts)" using parts part_ok_def by fastforce
    moreover have "set ?r \<subseteq> set ?p" using set_take_subset [of "length ?r" ?p] by (simp only: root_prefix_take)
    ultimately have "backslash \<notin> set ?r \<and> backslash \<notin> set (join ''/'' parts)"
      using normalize_separators_no_backslash [of input] by blast
    then show ?thesis by simp
  qed
  ultimately have "segs (lexical_normalize input) = segs r' @ segs (join ''/'' parts)"
    by (simp add: segs_trim normalize_separators_id segs_slash)
  moreover have "segs (join ''/'' parts) = parts" using parts by (intro segs_join) (auto simp: part_ok_def)
  moreover have "segs ?r = segs r'" using segs_slash [of r' "[]"] by (simp add: r')
  ultimately have eq: "segs (lexical_normalize input) = segs ?r @ parts" by (simp only:)
  have "''..'' \<notin> set (segs ?r)" using root(2) [OF abs] by (elim disjE) simp_all
  moreover have "''..'' \<notin> set parts" using parts by (meson part_ok_def)
  ultimately show ?thesis unfolding eq by (simp only: set_append Un_iff not_False_eq_True simp_thms)
qed


section \<open>The boundary\<close>

text \<open>A resolved path, as \<open>realpath\<close> documents it, in a file system without backslashes in names.\<close>

definition resolved_path :: "string \<Rightarrow> bool" where
  "resolved_path r = (\<exists>ps. r = CHR ''/'' # join ''/'' ps \<and> (\<forall>p \<in> set ps. part_ok p))"

lemma join_append: "ps \<noteq> [] \<Longrightarrow> qs \<noteq> [] \<Longrightarrow> join sep (ps @ qs) = join sep ps @ sep @ join sep qs"
proof (induction ps rule: induct_list012)
  case (2 x)
  then show ?case by (cases qs) simp_all
qed simp_all

lemma join_last: "ps \<noteq> [] \<Longrightarrow> \<forall>p \<in> set ps. part_ok p \<Longrightarrow> join ''/'' ps \<noteq> [] \<and> last (join ''/'' ps) \<noteq> CHR ''/''"
proof (induction ps rule: induct_list012)
  case (2 x)
  then show ?case by (auto simp: part_ok_def dest: last_in_set)
qed simp_all

lemma join_no_backslash: "\<forall>p \<in> set ps. part_ok p \<Longrightarrow> backslash \<notin> set (join ''/'' ps)"
  by (induction ps rule: induct_list012) (auto simp: part_ok_def)

lemma trim_id: "backslash \<notin> set p \<Longrightarrow> p = ''/'' \<or> p \<noteq> [] \<and> last p \<noteq> CHR ''/'' \<Longrightarrow> trim_trailing_separators p = p"
  by (cases p rule: rev_cases; cases "butlast p" rule: rev_cases)
     (auto simp: trim_trailing_separators_def normalize_separators_id)

lemma resolved_trim: "resolved_path r \<Longrightarrow> trim_trailing_separators r = r"
proof -
  assume "resolved_path r"
  then obtain ps where r: "r = CHR ''/'' # join ''/'' ps" and ps: "\<forall>p \<in> set ps. part_ok p" by (auto simp: resolved_path_def)
  have "r = ''/'' \<or> r \<noteq> [] \<and> last r \<noteq> CHR ''/''" using join_last [of ps] ps by (cases "ps = []") (simp_all add: r)
  moreover have "backslash \<notin> set r" using join_no_backslash [OF ps] by (simp add: r)
  ultimately show ?thesis by (intro trim_id)
qed

lemma resolved_segs: "resolved_path r \<Longrightarrow> r = CHR ''/'' # join ''/'' (segs r) \<and> (\<forall>p \<in> set (segs r). part_ok p)"
proof -
  assume "resolved_path r"
  then obtain ps where r: "r = CHR ''/'' # join ''/'' ps" and ps: "\<forall>p \<in> set ps. part_ok p" by (auto simp: resolved_path_def)
  have "segs r = ps" unfolding r using ps by (simp add: segs_join part_ok_def)
  with r ps show ?thesis by simp
qed

text \<open>The hypotheses on the system: what \<open>realpath\<close> and \<open>getcwd\<close> document.\<close>

definition system_ok :: "(string \<Rightarrow> string option) \<Rightarrow> string \<Rightarrow> bool" where
  "system_ok realpath cwd = ((\<forall>p r. realpath p = Some r \<longrightarrow> resolved_path r) \<and> is_absolute_path cwd)"

lemma resolved_absolute: "resolved_path r \<Longrightarrow> is_absolute_path r"
  by (auto simp: resolved_path_def is_absolute_path_def)

lemma absolute_normalize: "is_absolute_path p \<Longrightarrow> is_absolute_path (normalize_separators p)"
  by (cases p) (auto simp: is_absolute_path_def normalize_separators_def)

lemma climb_segs:
  "system_ok realpath cwd \<Longrightarrow> is_absolute_path path \<Longrightarrow> ''..'' \<notin> set (segs (climb realpath path n))"
proof (induction realpath path n rule: climb.induct)
  case (1 realpath path n)
  let ?c = "trim_trailing_separators (if take n path = [] then ''/'' else take n path)"
  show ?case
  proof (cases "real_path realpath ?c")
    case (Some res)
    then obtain r where "realpath ?c = Some r" and r: "res = trim_trailing_separators r" by (auto simp: real_path_def)
    with 1(2) have "resolved_path r" by (auto simp: system_ok_def)
    with r have res: "is_absolute_path res" by (simp add: resolved_trim resolved_absolute)
    then have "is_absolute_path (trim_trailing_separators res @ x)" for x
      using \<open>resolved_path r\<close> r by (simp add: resolved_trim is_absolute_path_def)
    with Some res show ?thesis
      by (subst climb.simps) (simp add: Let_def lexical_normalize_segs absolute_normalize)
  next
    case None
    show ?thesis
    proof (cases "n = 0 \<or> slash_before path n = None")
      case True
      with None 1(3) show ?thesis
        by (subst climb.simps) (auto simp: Let_def lexical_normalize_segs absolute_normalize)
    next
      case False
      then obtain m where "slash_before path n = Some m" by blast
      with None False 1 show ?thesis by (subst climb.simps) (auto simp: Let_def)
    qed
  qed
qed

lemma canonical_existing:
  "system_ok realpath cwd \<Longrightarrow> p \<noteq> [] \<Longrightarrow> realpath p = Some r \<Longrightarrow> canonical_path_tolerant realpath cwd p = r"
  by (auto simp: canonical_path_tolerant_def real_path_def system_ok_def resolved_trim)

lemma canonical_segs:
  assumes "system_ok realpath cwd"
  shows "''..'' \<notin> set (segs (canonical_path_tolerant realpath cwd p))"
proof (cases "p = []")
  case False
  show ?thesis
  proof (cases "realpath p")
    case None
    let ?n = "normalize_separators p"
    let ?full = "if is_absolute_path ?n then ?n else normalize_separators (path_join cwd ?n)"
    have "?n \<noteq> []" using False by (simp add: normalize_separators_def)
    then have "is_absolute_path (path_join cwd ?n)"
      using assms by (auto simp: system_ok_def path_join_def is_absolute_path_def)
    then have "is_absolute_path ?full" by (simp add: absolute_normalize)
    from climb_segs [OF assms this] show ?thesis
      using False None by (simp add: canonical_path_tolerant_def real_path_def Let_def)
  next
    case (Some r)
    with canonical_existing [OF assms False Some] assms resolved_segs show ?thesis
      by (auto simp: system_ok_def part_ok_def)
  qed
qed (simp add: canonical_path_tolerant_def)

lemma same_or_child_segs: "same_or_child path root \<Longrightarrow> prefix (segs root) (segs path)"
proof -
  assume soc: "same_or_child path root"
  show ?thesis
  proof (cases "path = root \<or> root = ''/''")
    case True
    then show ?thesis by auto
  next
    case False
    with soc have len: "length root < length path" and pre: "take (length root) path = root"
      and sep: "path ! length root = CHR ''/''" by (auto simp: same_or_child_def split: if_splits)
    have "path = root @ CHR ''/'' # drop (Suc (length root)) path"
      using id_take_nth_drop [OF len] by (simp add: pre sep)
    then have "segs path = segs root @ segs (drop (Suc (length root)) path)" using segs_slash by metis
    then show ?thesis by simp
  qed
qed

lemma same_or_child_resolved:
  assumes "resolved_path r" "resolved_path d"
  shows "same_or_child r d \<longleftrightarrow> prefix (segs d) (segs r)"
proof
  assume "prefix (segs d) (segs r)"
  then obtain zs where zs: "segs r = segs d @ zs" by (auto simp: prefix_def)
  from resolved_segs [OF assms(1)] resolved_segs [OF assms(2)]
  have r: "r = CHR ''/'' # join ''/'' (segs r)" and d: "d = CHR ''/'' # join ''/'' (segs d)" by auto
  show "same_or_child r d"
  proof (cases "zs = [] \<or> segs d = []")
    case True
    with r d zs have "r = d \<or> d = ''/''" by auto
    moreover have "r \<noteq> []" "d \<noteq> []" "hd r = CHR ''/''" using r d by (metis list.distinct(1), metis list.distinct(1), metis list.sel(1))
    ultimately show ?thesis by (auto simp: same_or_child_def)
  next
    case False
    then have "r = d @ CHR ''/'' # join ''/'' zs" using r d zs join_append [of "segs d" zs "''/''"] by simp
    moreover have "d \<noteq> []" using d by (metis list.distinct(1))
    ultimately show ?thesis by (simp add: same_or_child_def nth_append)
  qed
qed (rule same_or_child_segs)


text \<open>A small file system: three files, and what they resolve to.\<close>

definition toy_realpath :: "string \<Rightarrow> string option" where
  "toy_realpath =
     [''/p'' \<mapsto> ''/p'', ''/s'' \<mapsto> ''/s'', ''/p/link'' \<mapsto> ''/etc/x'', ''/p/a'' \<mapsto> ''/p/a'', ''/'' \<mapsto> ''/'']"

lemma toy_system: "system_ok toy_realpath ''/p''"
proof -
  have "resolved_path (CHR ''/'' # join ''/'' ps)" if "\<forall>p \<in> set ps. part_ok p" for ps
    using that by (auto simp: resolved_path_def)
  from this [of "[]"] this [of "[''p'']"] this [of "[''s'']"] this [of "[''etc'', ''x'']"] this [of "[''p'', ''a'']"]
  show ?thesis by (auto simp: system_ok_def toy_realpath_def is_absolute_path_def part_ok_def split: if_splits)
qed


text \<open>On a file system with backslashes in names the boundary does not hold: the sibling \<open>/p\evil\<close> of the project
  \<open>/p\<close> is taken for a file inside it.\<close>

lemma backslash_sibling_allowed:
  assumes "realpath (''/p'' @ [backslash] @ ''evil'') = Some (''/p'' @ [backslash] @ ''evil'')" "realpath ''/p'' = Some ''/p''"
  shows "file_write_allowed realpath cwd (''/p'' @ [backslash] @ ''evil'') ''/p'' session"
  using assms
  by (simp add: file_write_allowed_def path_contains_tilde_segment_def normalize_separators_def starts_with_def Let_def
      canonical_path_tolerant_def real_path_def trim_trailing_separators_def same_or_child_def)


section \<open>What the audit reports\<close>

text \<open>The log asks for a write: an assistant line with a block that calls a write tool on a path.\<close>

definition block_write :: "json \<Rightarrow> string \<Rightarrow> string \<Rightarrow> bool" where
  "block_write block name path =
     (\<exists>b input. block = JObj b \<and> map_of b ''type'' = Some (JStr ''tool_use'') \<and> map_of b ''name'' = Some (JStr name) \<and>
        is_write_tool name \<and> map_of b ''input'' = Some (JObj input) \<and> map_of input ''file_path'' = Some (JStr path))"

inductive log_write :: "(string \<Rightarrow> json option) \<Rightarrow> string list \<Rightarrow> string \<Rightarrow> string \<Rightarrow> bool" for parse lines where
  "line \<in> set lines \<Longrightarrow> line \<noteq> [] \<Longrightarrow> parse line = Some (JObj kvs) \<Longrightarrow>
   map_of kvs ''type'' = Some (JStr ''assistant'') \<Longrightarrow> block \<in> set (message_content (JObj kvs)) \<Longrightarrow>
   block_write block name path \<Longrightarrow> log_write parse lines name path"

definition written_path :: "string \<Rightarrow> string \<Rightarrow> string" where
  "written_path project_dir path = (if is_absolute_path path then path else path_join project_dir path)"

lemma json_value_string_Inr:
  "json_value_string (JObj kvs) k = Inr s \<longleftrightarrow>
     map_of kvs k = Some (JStr s) \<or> map_of kvs k = None \<and> s = []"
proof -
  have "json_string v = Inr s \<longleftrightarrow> v = JStr s" for v by (cases v) auto
  then show ?thesis by (auto split: option.split)
qed

lemma json_value_string_is:
  "json_value_string (JObj kvs) k = Inr s \<Longrightarrow> t \<noteq> [] \<Longrightarrow> map_of kvs k = Some (JStr t) \<longleftrightarrow> t = s"
  unfolding json_value_string_Inr by auto

lemma audit_block_reports:
  assumes "audit_block allowed project_dir block = Inr v"
  shows "block_write block name path \<and> \<not> allowed (written_path project_dir path) \<longleftrightarrow>
    (\<exists>x. v = Some x \<and> tool x = name \<and> file_path x = path)"
proof (cases "\<exists>b. block = JObj b")
  case False
  then show ?thesis using assms by (cases block) (auto simp: audit_block_def block_write_def)
next
  case True
  then obtain b where b: "block = JObj b" by blast
  note a = assms [unfolded b audit_block_def json.case bind_result_Inr json_find_def obj_items.simps]
  from a obtain ty where ty: "json_value_string (JObj b) ''type'' = Inr ty" by blast
  note is_ty = json_value_string_is [OF ty]
  show ?thesis
  proof (cases "ty = ''tool_use''")
    case False
    with a ty is_ty [of "''tool_use''"] show ?thesis by (auto simp: b block_write_def simp del: json_value_string.simps)
  next
    case True
    with a ty obtain nm where nm: "json_value_string (JObj b) ''name'' = Inr nm"
      by (auto simp: bind_result_Inr simp del: json_value_string.simps)
    have is_nm: "map_of b ''name'' = Some (JStr name) \<and> is_write_tool name \<longleftrightarrow> is_write_tool nm \<and> name = nm"
      using json_value_string_is [OF nm, of name] by (cases "name = []") (auto simp: is_write_tool_def)
    show ?thesis
    proof (cases "\<exists>input p. is_write_tool nm \<and> map_of b ''input'' = Some (JObj input) \<and> map_of input ''file_path'' = Some (JStr p)")
      case False
      with a ty nm True have "v = None"
        by (auto simp: bind_result_Inr simp del: json_value_string.simps split: if_splits option.splits json.splits)
      with False is_nm show ?thesis unfolding b block_write_def by blast
    next
      case isw: True
      then obtain input p where i: "is_write_tool nm" "map_of b ''input'' = Some (JObj input)" "map_of input ''file_path'' = Some (JStr p)"
        by blast
      have bw: "block_write block name path \<longleftrightarrow> name = nm \<and> path = p"
        using i is_nm is_ty [of "''tool_use''"] True unfolding b block_write_def by auto
      have "(if allowed (written_path project_dir p) then Inr None
          else bind_result (json_value_string (JObj b) ''id'') (\<lambda>i. Inr (Some \<lparr>tool = nm, file_path = p, tool_use_id = i\<rparr>))) = Inr v"
        using a ty nm True i by (simp add: Let_def written_path_def del: json_value_string.simps)
      then show ?thesis unfolding bw
        by (auto simp: bind_result_Inr simp del: json_value_string.simps split: if_splits)
    qed
  qed
qed

lemma audit_blocks_report:
  "audit_blocks allowed project_dir bs = Inr vs \<Longrightarrow>
   (\<exists>x \<in> set vs. tool x = name \<and> file_path x = path) \<longleftrightarrow>
   (\<exists>b \<in> set bs. block_write b name path) \<and> \<not> allowed (written_path project_dir path)"
proof (induction bs arbitrary: vs)
  case (Cons b bs)
  from Cons.prems obtain v ws where v: "audit_block allowed project_dir b = Inr v"
    and ws: "audit_blocks allowed project_dir bs = Inr ws" and vs: "vs = (case v of None \<Rightarrow> [] | Some x \<Rightarrow> [x]) @ ws"
    by (auto simp: bind_result_Inr)
  show ?case unfolding vs using audit_block_reports [OF v, of name path] Cons.IH [OF ws] by (cases v) auto
qed simp

lemma audit_line_reports:
  assumes "audit_line parse allowed project_dir line = Inr vs"
  shows "(\<exists>x \<in> set vs. tool x = name \<and> file_path x = path) \<longleftrightarrow>
    log_write parse [line] name path \<and> \<not> allowed (written_path project_dir path)"
proof -
  have wr: "log_write parse [line] name path \<longleftrightarrow> line \<noteq> [] \<and> (\<exists>kvs. parse line = Some (JObj kvs) \<and>
      map_of kvs ''type'' = Some (JStr ''assistant'') \<and> (\<exists>b \<in> set (message_content (JObj kvs)). block_write b name path))"
    by (auto simp: log_write.simps)
  show ?thesis
  proof (cases "line = [] \<or> (\<forall>kvs. parse line \<noteq> Some (JObj kvs))")
    case True
    then have "vs = []" using assms by (auto simp: audit_line_def split: option.splits json.splits)
    with True show ?thesis unfolding wr by auto
  next
    case False
    then obtain kvs where k: "line \<noteq> []" "parse line = Some (JObj kvs)" by blast
    with assms obtain type where type: "json_value_string (JObj kvs) ''type'' = Inr type"
      and vs: "(if type \<noteq> ''assistant'' then Inr [] else audit_blocks allowed project_dir (message_content (JObj kvs))) = Inr vs"
      by (auto simp: audit_line_def bind_result_Inr simp del: json_value_string.simps)
    have "map_of kvs ''type'' = Some (JStr ''assistant'') \<longleftrightarrow> type = ''assistant''"
      using type by (auto simp: json_value_string_Inr simp del: json_value_string.simps)
    with k vs audit_blocks_report [of allowed project_dir "message_content (JObj kvs)" vs name path]
    show ?thesis unfolding wr by (cases "type = ''assistant''") auto
  qed
qed

lemma log_write_Cons: "log_write parse (l # ls) name path \<longleftrightarrow> log_write parse [l] name path \<or> log_write parse ls name path"
  by (auto simp: log_write.simps)

lemma audit_lines_report:
  "audit_lines parse allowed project_dir ls = Inr vs \<Longrightarrow>
   (\<exists>x \<in> set vs. tool x = name \<and> file_path x = path) \<longleftrightarrow>
   log_write parse ls name path \<and> \<not> allowed (written_path project_dir path)"
proof (induction ls arbitrary: vs)
  case Nil
  then show ?case by (simp add: log_write.simps)
next
  case (Cons l ls)
  from Cons.prems obtain us ws where us: "audit_line parse allowed project_dir l = Inr us"
    and ws: "audit_lines parse allowed project_dir ls = Inr ws" and vs: "vs = us @ ws"
    by (auto simp: bind_result_Inr)
  show ?case unfolding vs log_write_Cons [of parse l ls] using audit_line_reports [OF us, of name path] Cons.IH [OF ws] by auto
qed

text \<open>Fact: the audit. An audit that returns reports a tool and a path exactly if some assistant line of the log calls
  that write tool on the path and the path, relative ones taken in the project directory, is not allowed.\<close>

theorem audit_reports_escapes:
  assumes "audit_events_ndjson parse realpath cwd (Some lines) project_dir session_dir = Inr vs"
  shows "(\<exists>v \<in> set vs. tool v = name \<and> file_path v = path) \<longleftrightarrow>
    log_write parse lines name path \<and>
    \<not> file_write_allowed realpath cwd (if is_absolute_path path then path else path_join project_dir path) project_dir session_dir"
  using audit_lines_report [of parse _ project_dir lines vs name path] assms
  by (simp add: audit_events_ndjson_def written_path_def)

definition toy_write :: json where
  "toy_write = JObj [(''content'', JArr [JObj [(''input'', JObj [(''file_path'', JStr ''~/x'')]), (''name'', JStr ''Write''),
     (''type'', JStr ''tool_use'')]]), (''type'', JStr ''assistant'')]"

theorem audit_reports_escapes_witness:
  "\<exists>vs. audit_events_ndjson (\<lambda>_. Some toy_write) toy_realpath ''/p'' (Some [''line'']) ''/p'' ''/s'' = Inr vs \<and>
     (\<exists>v \<in> set vs. tool v = ''Write'' \<and> file_path v = ''~/x'')"
proof -
  have tilde: "\<not> file_write_allowed toy_realpath ''/p'' ''/p/~/x'' ''/p'' ''/s''"
    by (simp add: file_write_allowed_def path_contains_tilde_segment_def normalize_separators_def starts_with_def)
  have content: "message_content toy_write = [JObj [(''input'', JObj [(''file_path'', JStr ''~/x'')]), (''name'', JStr ''Write''),
     (''type'', JStr ''tool_use'')]]"
    by (simp add: message_content_def toy_write_def json_find_def)
  have "\<exists>vs. audit_events_ndjson (\<lambda>_. Some toy_write) toy_realpath ''/p'' (Some [''line'']) ''/p'' ''/s'' = Inr vs"
    using content by (simp add: audit_events_ndjson_def audit_line_def toy_write_def audit_block_def json_find_def Let_def is_write_tool_def)
  then obtain vs where vs: "audit_events_ndjson (\<lambda>_. Some toy_write) toy_realpath ''/p'' (Some [''line'']) ''/p'' ''/s'' = Inr vs"
    by blast
  have "log_write (\<lambda>_. Some toy_write) [''line''] ''Write'' ''~/x''"
    unfolding log_write.simps block_write_def using content by (simp add: toy_write_def is_write_tool_def)
  with audit_reports_escapes [OF vs, of "''Write''" "''~/x''"] tilde vs show ?thesis
    by (auto simp: is_absolute_path_def path_join_def)
qed

text \<open>A line whose \<open>type\<close> is no string stops the audit: nothing is reported, whatever the other lines hold.\<close>

lemma audit_stops_at_odd_type:
  assumes "line \<noteq> []" "parse line = Some (JObj [(''type'', JInt n)])"
  shows "audit_events_ndjson parse realpath cwd (Some (line # lines)) project_dir session_dir = Inl Type_Error"
  using assms by (simp add: audit_events_ndjson_def audit_line_def)

end
