(* ===== verification/Troubleshooter.thy ===== *)
theory Troubleshooter
  imports Recovery_Report Troubleshoot_Backup Stream_Parser Write_Hook
begin

text \<open>
  \<open>src/engine/auto_troubleshoot.cpp\<close>, \<open>src/engine/troubleshoot_agent.cpp\<close> and \<open>src/engine/run_guard.cpp\<close>: a failed
  stage is handed to an agent. The session directory, the guard of the run, the backup, the agent and its event
  stream, the markers it may leave, the audit of what it wrote and the decision what the engine does next. The
  state is the engine's; what lies outside needle is in the environment. The text of the prompt is a parameter.
\<close>

section \<open>The environment\<close>

record 'w ts_env =
  te_host :: "'w backup_host"
  te_limit :: nat
  te_now :: "'w \<Rightarrow> string"
  te_config :: "string \<Rightarrow> 'w \<Rightarrow> string"
  te_session_id :: "'w \<Rightarrow> string \<times> 'w"
  te_agent :: "string \<Rightarrow> string list \<Rightarrow> string \<Rightarrow> int \<Rightarrow> 'w \<Rightarrow> (proc_result result \<times> string list) \<times> 'w"
  te_run_world :: "'w \<Rightarrow> run_world"
  te_prompt :: "string \<Rightarrow> string \<Rightarrow> 'w est \<Rightarrow> string"
  te_dump :: "json \<Rightarrow> string"
  te_realpath :: "'w \<Rightarrow> string \<Rightarrow> string option"
  te_getcwd :: "'w \<Rightarrow> string"
  te_active :: "'w \<Rightarrow> string list"
  te_set_active :: "string list \<Rightarrow> 'w \<Rightarrow> 'w"
  te_register :: "string \<Rightarrow> string \<Rightarrow> 'w \<Rightarrow> 'w"
  te_unregister :: "string \<Rightarrow> string \<Rightarrow> 'w \<Rightarrow> 'w"
  te_open_session :: "string \<Rightarrow> string \<Rightarrow> 'w \<Rightarrow> 'w"

definition on_world :: "('w \<Rightarrow> 'a \<times> 'w) \<Rightarrow> 'w est \<Rightarrow> 'a \<times> 'w est" where
  "on_world f st = (let (x, w) = f (world st) in (x, st\<lparr>world := w\<rparr>))"

definition upd_world :: "('w \<Rightarrow> 'w) \<Rightarrow> 'w est \<Rightarrow> 'w est" where
  "upd_world f st = st\<lparr>world := f (world st)\<rparr>"

section \<open>\<open>RunGuard\<close>\<close>

definition try_acquire :: "'w ts_env \<Rightarrow> string \<Rightarrow> 'w \<Rightarrow> bool \<times> 'w" where
  "try_acquire env run w =
     (if run = [] then (True, w)
      else if run \<in> set (te_active env w) then (False, w)
      else (True, te_set_active env (run # te_active env w) w))"

definition release :: "'w ts_env \<Rightarrow> string \<Rightarrow> 'w \<Rightarrow> 'w" where
  "release env run w = (if run = [] then w else te_set_active env (filter (\<lambda>r. r \<noteq> run) (te_active env w)) w)"

section \<open>The session directory\<close>

definition session_path :: "string \<Rightarrow> string \<Rightarrow> string" where
  "session_path rdir sid = rdir @ ''/troubleshoot/session-'' @ sid"

fun fresh_session :: "'w ts_env \<Rightarrow> string \<Rightarrow> nat \<Rightarrow> 'w \<Rightarrow> string \<times> 'w" where
  "fresh_session env rdir 0 w = te_session_id env w"
| "fresh_session env rdir (Suc k) w =
     (let (sid, w) = te_session_id env w in
      if bk_exists (te_host env) (session_path rdir sid) w \<or> bk_is_dir (te_host env) (session_path rdir sid) w
      then fresh_session env rdir k w else (sid, w))"

definition touch_file :: "'w ts_env \<Rightarrow> string \<Rightarrow> 'w \<Rightarrow> 'w" where
  "touch_file env path w =
     snd (bk_write (te_host env) path (case bk_read (te_host env) path w of None \<Rightarrow> [] | Some txt \<Rightarrow> txt) w)"

definition create_session_dir :: "'w ts_env \<Rightarrow> string \<Rightarrow> string \<Rightarrow> 'w \<Rightarrow> (string \<times> string) \<times> 'w" where
  "create_session_dir env rdir requested w =
     (let (sid, w) = (if requested = [] then fresh_session env rdir 3 w else (requested, w));
          sdir = session_path rdir sid; w = snd (bk_mkdir (te_host env) sdir w);
          w = touch_file env (sdir @ ''/events.ndjson'') w; w = touch_file env (sdir @ ''/agent.stdout.log'') w;
          w = touch_file env (sdir @ ''/agent.stderr.log'') w
      in ((sid, sdir), w))"

definition read_all :: "'w ts_env \<Rightarrow> string \<Rightarrow> 'w \<Rightarrow> string" where
  "read_all env path w = (case bk_read (te_host env) path w of None \<Rightarrow> [] | Some txt \<Rightarrow> txt)"

definition is_slash :: "char \<Rightarrow> bool" where
  "is_slash c = (c = CHR ''/'' \<or> c = backslash)"

definition basename_of :: "string \<Rightarrow> string" where
  "basename_of path =
     (let body = dropWhile is_slash (rev path) in
      if body = [] then path else rev (takeWhile (\<lambda>c. \<not> is_slash c) body))"

definition resolve_artifact_path :: "graph \<Rightarrow> string \<Rightarrow> string \<Rightarrow> string" where
  "resolve_artifact_path g i pdir =
     (case find_node g i of
        None \<Rightarrow> []
      | Some n \<Rightarrow>
          let artifact = attr_get (nattrs n) ''artifact'' in
          if artifact = [] then []
          else if is_absolute_path artifact then artifact
          else (if pdir = [] then ''.'' else pdir) @ ''/'' @ artifact)"

definition mutates_project :: "troubleshoot_mode \<Rightarrow> bool" where
  "mutates_project mode = (mode = Tweak \<or> mode = Full)"

definition manifest_path :: "'w ts_env \<Rightarrow> string \<Rightarrow> 'w \<Rightarrow> string" where
  "manifest_path env path w = (if path = [] \<or> is_absolute_path path then path else path_join (te_getcwd env w) path)"

definition write_hook_manifest :: "'w ts_env \<Rightarrow> string \<Rightarrow> string \<Rightarrow> 'w \<Rightarrow> 'w" where
  "write_hook_manifest env sdir pdir w =
     snd (bk_write (te_host env) (sdir @ ''/write-hook.json'')
       (te_dump env (json_set ''policy'' (JStr ''deny_outside'') (json_set ''session_dir'' (JStr (manifest_path env sdir w))
         (json_set ''project_dir'' (JStr (manifest_path env pdir w)) (json_set ''schema_version'' (JInt 1) JNull)))) @ [newline]) w)"

section \<open>The agent\<close>

record agent_result =
  ag_ok :: bool
  ag_timed_out :: bool
  ag_exit_code :: int
  ag_status :: session_status
  ag_cost :: int
  ag_stdout :: string
  ag_stderr :: string
  ag_reasoning :: string
  ag_error :: string

definition no_agent :: agent_result where
  "no_agent = \<lparr>ag_ok = False, ag_timed_out = False, ag_exit_code = - 1, ag_status = FailedAgent, ag_cost = 0,
     ag_stdout = [], ag_stderr = [], ag_reasoning = [], ag_error = []\<rparr>"

text \<open>\<open>j.value("is_error", false)\<close>.\<close>

definition json_value_bool :: "json \<Rightarrow> string \<Rightarrow> json_error + bool" where
  "json_value_bool j k = (case json_find j k of None \<Rightarrow> Inr False | Some (JBool b) \<Rightarrow> Inr b | Some _ \<Rightarrow> Inl Type_Error)"

text \<open>One line of the agent's output; what was set before an exception stays set.\<close>

definition result_event :: "json \<Rightarrow> agent_result \<Rightarrow> agent_result" where
  "result_event j out =
     (case json_value_string j ''type'' of
        Inl _ \<Rightarrow> out
      | Inr ty \<Rightarrow>
          if ty \<noteq> ''result'' then out
          else
            let out = (case json_find j ''total_cost_usd'' of Some (JInt n) \<Rightarrow> out\<lparr>ag_cost := n\<rparr> | _ \<Rightarrow> out);
                out = (case json_find j ''result'' of Some (JStr s) \<Rightarrow> out\<lparr>ag_reasoning := s\<rparr> | _ \<Rightarrow> out)
            in case json_value_string j ''subtype'' of
                 Inl _ \<Rightarrow> out
               | Inr subtype \<Rightarrow>
                   if subtype = ''success'' then
                     (case json_value_bool j ''is_error'' of
                        Inl _ \<Rightarrow> out
                      | Inr e \<Rightarrow> out\<lparr>ag_status := (if e then FailedAgent else Resumed)\<rparr>)
                   else if subtype = ''timeout'' \<or> subtype = ''failed_timeout'' then out\<lparr>ag_status := FailedTimeout\<rparr>
                   else out\<lparr>ag_status := FailedAgent\<rparr>)"

definition parse_final_result :: "(string \<Rightarrow> json option) \<Rightarrow> string \<Rightarrow> agent_result \<Rightarrow> agent_result" where
  "parse_final_result parse txt out =
     fold (\<lambda>l out. if l = [] then out else case parse l of None \<Rightarrow> out | Some j \<Rightarrow> result_event j out) (getlines txt []) out"

definition agent_args :: "troubleshoot_mode \<Rightarrow> string \<Rightarrow> string \<Rightarrow> string \<Rightarrow> string list" where
  "agent_args mode sdir model prompt =
     [''--permission-mode'', ''default'', ''--allowed-tools'', build_allowed_tools mode] @
     (if sdir \<noteq> [] then [''--add-dir'', sdir] else []) @
     [''--model'', model, ''--output-format'', ''stream-json'', ''--verbose'', ''-p'', prompt]"

definition agent_outcome :: "(string \<Rightarrow> json option) \<Rightarrow> proc_result result \<Rightarrow> agent_result" where
  "agent_outcome parse r =
     (case r of
        Inl e \<Rightarrow> no_agent\<lparr>ag_error := e\<rparr>
      | Inr p \<Rightarrow>
          let out = no_agent\<lparr>ag_exit_code := exit_code p, ag_stdout := stdout_output p, ag_stderr := stderr_output p,
                ag_timed_out := timed_out p\<rparr>
          in if timed_out p then out\<lparr>ag_status := FailedTimeout, ag_error := ''agent timed out''\<rparr>
             else
               let out = parse_final_result parse (stdout_output p) out;
                   out = (if ag_reasoning out = [] then out\<lparr>ag_reasoning := stdout_output p\<rparr> else out);
                   out = out\<lparr>ag_ok := (exit_code p = 0)\<rparr>
               in if ag_ok out then out
                  else out\<lparr>ag_status := FailedAgent,
                         ag_error := (if stderr_output p = [] then ''agent exited non-zero'' else stderr_output p)\<rparr>)"

definition config_or :: "'w ts_env \<Rightarrow> string \<Rightarrow> string \<Rightarrow> 'w \<Rightarrow> string" where
  "config_or env k fallback w = (let v = te_config env k w in if v = [] then fallback else v)"

definition agent_timeout :: "'w ts_env \<Rightarrow> 'w \<Rightarrow> int" where
  "agent_timeout env w = (let v = te_config env ''defaults.troubleshoot_agent_timeout'' w in if v = [] then 300000 else max 1000 (atoi v))"

definition ts_set :: "'w ts_env \<Rightarrow> string \<Rightarrow> string \<Rightarrow> 'w est \<Rightarrow> 'w est" where
  "ts_set env k v st = st\<lparr>ctx := ctx_set (te_limit env) k v (ctx st)\<rparr>"

definition run_agent ::
  "'w ts_env \<Rightarrow> string \<Rightarrow> string \<Rightarrow> string \<Rightarrow> string \<Rightarrow> troubleshoot_mode \<Rightarrow> 'w est \<Rightarrow> (agent_result \<times> string list) \<times> 'w est" where
  "run_agent env i sdir pdir gpath mode st =
     (let binary = config_or env ''defaults.troubleshoot_agent'' ''claude'' (world st);
          model = config_or env ''defaults.troubleshoot_model'' ''claude-opus-4-7'' (world st);
          prompt = te_prompt env i sdir st;
          st = ts_set env ''needle.project_dir'' pdir st;
          st = (if gpath \<noteq> [] then ts_set env ''needle.graph_path'' gpath st else st);
          ((r, chunks), st) = on_world (te_agent env binary (agent_args mode sdir model prompt)
             (if pdir = [] then ''.'' else pdir) (agent_timeout env (world st))) st
      in ((agent_outcome (parse_json (te_run_world env (world st))) r, chunks), st))"


section \<open>The event stream\<close>

text \<open>The complete lines of a buffer and what is left of it; the callback takes the lines out of buffer and chunk.\<close>

fun take_lines :: "string \<Rightarrow> string \<Rightarrow> string list \<times> string" where
  "take_lines [] acc = ([], acc)"
| "take_lines (c # cs) acc =
     (if c = newline then (let (ls, rest) = take_lines cs [] in (drop_cr acc # ls, rest)) else take_lines cs (acc @ [c]))"

text \<open>The flag of the parser, the lines written to \<open>events.ndjson\<close> and the engine's state.\<close>

type_synonym 'w stream_state = "bool \<times> string list \<times> 'w est"

definition activity :: "string \<Rightarrow> string \<Rightarrow> 'w est \<Rightarrow> 'w est" where
  "activity i ty st = emit TROUBLESHOOT_ACTIVITY i (''troubleshoot '' @ ty) st"

definition process_stream_line ::
  "(string \<Rightarrow> json option) \<Rightarrow> (json \<Rightarrow> string) \<Rightarrow> string \<Rightarrow> string \<Rightarrow> 'w stream_state \<Rightarrow> 'w stream_state" where
  "process_stream_line parse dump i ln s =
     (let (flag, written, st) = s in
      if ln = [] then s
      else let (events, flag) = parse_line parse dump ln flag
           in (flag, written @ [ln], fold (\<lambda>e. activity i (ev_type e)) events st))"

fun feed_chunks ::
  "(string \<Rightarrow> json option) \<Rightarrow> (json \<Rightarrow> string) \<Rightarrow> string \<Rightarrow> string \<Rightarrow> string list \<Rightarrow> 'w stream_state \<Rightarrow> 'w stream_state" where
  "feed_chunks parse dump i buf [] s =
     (if buf = [] then s else process_stream_line parse dump i (drop_cr buf) s)"
| "feed_chunks parse dump i buf (c # cs) s =
     (let (ls, rest) = take_lines (buf @ c) []
      in feed_chunks parse dump i rest cs (fold (process_stream_line parse dump i) ls s))"

section \<open>Escalation\<close>

record escalation_marker =
  reason :: string
  next_question :: string
  last_summary :: string

definition string_or :: "json \<Rightarrow> string \<Rightarrow> string \<Rightarrow> string" where
  "string_or j k fallback = (case json_find j k of Some (JStr s) \<Rightarrow> s | _ \<Rightarrow> fallback)"

definition read_escalation_marker :: "'w ts_env \<Rightarrow> string \<Rightarrow> 'w \<Rightarrow> escalation_marker option" where
  "read_escalation_marker env sdir w =
     (case bk_read (te_host env) (sdir @ ''/escalate.json'') w of
        None \<Rightarrow> None
      | Some txt \<Rightarrow> (case parse_json (te_run_world env w) txt of
          Some (JObj kvs) \<Rightarrow>
            let j = JObj kvs;
                m = \<lparr>reason = string_or j ''escalate_reason'' (string_or j ''reason'' []),
                     next_question = string_or j ''next_question'' [], last_summary = string_or j ''last_summary'' []\<rparr>
            in if reason m = [] then None else Some m
        | _ \<Rightarrow> None))"

definition file_tail :: "'w ts_env \<Rightarrow> string \<Rightarrow> nat \<Rightarrow> 'w \<Rightarrow> string" where
  "file_tail env path n w = (let v = read_all env path w in if length v \<le> n then v else truncate_back v n)"

text \<open>The loop that replaces each run of three backticks.\<close>

function sanitise :: "string \<Rightarrow> string" where
  "sanitise [] = []"
| "sanitise (c # cs) =
     (if starts_with ''```'' (c # cs) then [squote, squote, squote] @ sanitise (drop 3 (c # cs)) else c # sanitise cs)"
  by pat_completeness auto
termination by (relation "measure length") auto

definition escalation_opener :: "escalation_marker \<Rightarrow> string \<Rightarrow> string \<Rightarrow> string" where
  "escalation_opener m run i =
     ''Troubleshooter escalated.'' @ nl @ nl @ ''Run: '' @ run @ nl @ ''Failed node: '' @ i @ nl @ nl @ ''Reason: '' @ reason m @
     (if next_question m = [] then [] else nl @ nl @ ''Next question: '' @ next_question m) @
     (if last_summary m = [] then []
      else nl @ nl @ ''Agent summary:'' @ nl @ ''```'' @ nl @ sanitise (last_summary m) @ nl @ ''```'')"

section \<open>The decision\<close>

datatype ts_action = Act_Skipped | Act_Resumed | Act_Reported | Act_Escalated | Act_Cancelled | Act_Promoted

record ts_decision =
  dc_outcome :: session_status
  dc_action :: ts_action
  dc_message :: string
  dc_promoted :: string

text \<open>From the end of the agent to the end of the audit.\<close>

definition agent_decision :: "troubleshoot_mode \<Rightarrow> agent_result \<Rightarrow> string option \<Rightarrow> bool \<Rightarrow> ts_decision" where
  "agent_decision mode agent escalation was_cancelled =
     (case escalation of
        Some why \<Rightarrow> \<lparr>dc_outcome = Escalated, dc_action = Act_Escalated, dc_message = why, dc_promoted = []\<rparr>
      | None \<Rightarrow>
          if was_cancelled then
            \<lparr>dc_outcome = Cancelled, dc_action = Act_Cancelled, dc_message = ''session cancelled'', dc_promoted = []\<rparr>
          else if mode = Diagnose_Mode \<and> ag_ok agent \<and> ag_exit_code agent = 0 then
            \<lparr>dc_outcome = Reported, dc_action = Act_Reported, dc_message = ''diagnose report written'', dc_promoted = []\<rparr>
          else if ag_ok agent \<and> ag_exit_code agent = 0 \<and> ag_status agent = Resumed then
            \<lparr>dc_outcome = Resumed, dc_action = Act_Resumed, dc_message = ''agent session completed'', dc_promoted = []\<rparr>
          else
            \<lparr>dc_outcome = (if ag_status agent = Running \<or> ag_status agent = Resumed
                then if ag_timed_out agent then FailedTimeout else FailedAgent else ag_status agent),
             dc_action = Act_Skipped,
             dc_message = (if ag_error agent = [] then ''agent session did not complete'' else ag_error agent), dc_promoted = []\<rparr>)"

definition audit_decision :: "bool \<Rightarrow> ts_decision \<Rightarrow> ts_decision" where
  "audit_decision violated d =
     (if violated then d\<lparr>dc_outcome := FailedHookViolation, dc_action := Act_Skipped, dc_message := ''file write hook violation''\<rparr> else d)"

definition promote_decision :: "string \<Rightarrow> string \<Rightarrow> string \<Rightarrow> ts_decision \<Rightarrow> ts_decision" where
  "promote_decision apath before after d =
     (if dc_outcome d \<notin> {Escalated, Cancelled, FailedHookViolation} \<and> apath \<noteq> [] \<and> after \<noteq> [] \<and> after \<noteq> before
      then d\<lparr>dc_action := Act_Promoted, dc_promoted := after, dc_message := ''artifact authored by troubleshooter: '' @ apath,
             dc_outcome := Resumed\<rparr>
      else d)"

definition session_decision ::
  "troubleshoot_mode \<Rightarrow> agent_result \<Rightarrow> string option \<Rightarrow> bool \<Rightarrow> bool \<Rightarrow> string \<Rightarrow> string \<Rightarrow> string \<Rightarrow> ts_decision" where
  "session_decision mode agent escalation was_cancelled violated apath before after =
     promote_decision apath before after (audit_decision violated (agent_decision mode agent escalation was_cancelled))"

definition status_summary :: "session_status \<Rightarrow> string \<Rightarrow> string \<Rightarrow> string" where
  "status_summary t i detail =
     status_name t @ (if i \<noteq> [] then '' for '' @ i else []) @ (if detail \<noteq> [] then '': '' @ detail else [])"

section \<open>\<open>AutoTroubleshoot::handle\<close>\<close>

record ats_result =
  at_action :: ts_action
  at_session_id :: string
  at_report_path :: string
  at_message :: string
  at_promoted :: string

definition ats_none :: ats_result where
  "ats_none = \<lparr>at_action = Act_Skipped, at_session_id = [], at_report_path = [], at_message = [], at_promoted = []\<rparr>"

definition attempts_key :: "string \<Rightarrow> string" where
  "attempts_key i = ''troubleshoot.attempts.'' @ i"

definition prior_attempts :: "string \<Rightarrow> ctxt \<Rightarrow> int" where
  "prior_attempts i c = (if ctx_has c (attempts_key i) then atoi (ctx_get c (attempts_key i)) else 0)"

definition run_id_of :: "string \<Rightarrow> ctxt \<Rightarrow> string" where
  "run_id_of rdir c = (let r = ctx_get c ''needle.run_id'' in if r = [] then basename_of rdir else r)"

definition log_artifacts :: "string \<Rightarrow> string list" where
  "log_artifacts sdir = [''events: '' @ sdir @ ''/events.ndjson'', ''agent_stdout: '' @ sdir @ ''/agent.stdout.log'',
     ''agent_stderr: '' @ sdir @ ''/agent.stderr.log'']"

definition write_report :: "'w ts_env \<Rightarrow> recovery_input \<Rightarrow> string \<Rightarrow> 'w \<Rightarrow> string \<times> 'w" where
  "write_report env r path w =
     (let (ok, w) = bk_write (te_host env) path (report_text r) w in (if ok then path else [], w))"

text \<open>The fields of a report that every session fills in.\<close>

definition base_report :: "string \<Rightarrow> string \<Rightarrow> string \<Rightarrow> troubleshoot_mode \<Rightarrow> string \<Rightarrow> string \<Rightarrow> string \<Rightarrow> string \<Rightarrow> recovery_input" where
  "base_report sid run i mode agent model started ended =
     \<lparr>rr_session_id = sid, rr_run_id = run, rr_failed_node = i, rr_mode = mode, rr_agent = agent, rr_model = model,
      rr_started = started, rr_ended = ended, rr_cost = ''0.00'', rr_outcome = FailedAgent, rr_attempts_used = 0,
      rr_escalate_reason = [], rr_backup_branch = [], rr_backup_base = [], rr_diagnosis_body = [], rr_proposed_actions = [],
      rr_action_log = [], rr_outcome_summary = [], rr_security_audit = [], rr_artifacts = []\<rparr>"

definition cap_reached :: "'w ts_env \<Rightarrow> string \<Rightarrow> troubleshoot_mode \<Rightarrow> int \<Rightarrow> string \<Rightarrow> 'w est \<Rightarrow> ats_result \<times> 'w est" where
  "cap_reached env rdir mode prior i st =
     (let c = ctx st;
          ((sid, sdir), st) = on_world (create_session_dir env rdir (ctx_get c ''needle.troubleshoot_session_id'')) st;
          started = te_now env (world st);
          rep = (base_report sid (run_id_of rdir c) i mode ''claude'' ''claude-opus-4-7'' started (te_now env (world st)))
            \<lparr>rr_outcome := Escalated, rr_attempts_used := prior, rr_escalate_reason := ''retry cap reached'',
             rr_diagnosis_body := ''Retry cap reached before launching an agent session.'',
             rr_outcome_summary := status_summary Escalated i ''retry cap reached'', rr_artifacts := log_artifacts sdir\<rparr>;
          (path, st) = on_world (write_report env rep (sdir @ ''/recovery.md'')) st
      in (ats_none\<lparr>at_session_id := sid, at_report_path := path, at_action := Act_Escalated, at_message := ''retry cap reached''\<rparr>, st))"


definition end_activities :: "string \<Rightarrow> 'w est \<Rightarrow> 'w est" where
  "end_activities i st = activity i ''session_completed'' (activity i ''report_written'' st)"

text \<open>A backup that fails ends the session before the agent runs.\<close>

definition backup_failed ::
  "'w ts_env \<Rightarrow> recovery_input \<Rightarrow> int \<Rightarrow> string \<Rightarrow> string \<Rightarrow> string \<Rightarrow> string \<Rightarrow> 'w est \<Rightarrow> ats_result \<times> 'w est" where
  "backup_failed env rep prior i sid sdir e st =
     (let rep = rep\<lparr>rr_ended := te_now env (world st), rr_outcome := FailedAgent, rr_attempts_used := prior + 1, rr_outcome_summary := e\<rparr>;
          (path, st) = on_world (write_report env rep (sdir @ ''/recovery.md'')) st
      in (ats_none\<lparr>at_session_id := sid, at_message := e, at_report_path := path\<rparr>, end_activities i st))"

definition append_lines :: "'w ts_env \<Rightarrow> string \<Rightarrow> string list \<Rightarrow> 'w \<Rightarrow> 'w" where
  "append_lines env path ls w = snd (bk_write (te_host env) path (read_all env path w @ file_lines ls) w)"

definition write_log :: "'w ts_env \<Rightarrow> string \<Rightarrow> string \<Rightarrow> 'w \<Rightarrow> 'w" where
  "write_log env path txt w = snd (bk_write (te_host env) path txt w)"

text \<open>The agent and what it printed: its result, the event log, the two logs and the files it touched.\<close>

definition agent_session ::
  "'w ts_env \<Rightarrow> string \<Rightarrow> string \<Rightarrow> string \<Rightarrow> string \<Rightarrow> troubleshoot_mode \<Rightarrow> string \<Rightarrow> 'w est \<Rightarrow> agent_result \<times> 'w est" where
  "agent_session env i sdir pdir gpath mode base st =
     (let ((agent, chunks), st) = run_agent env i sdir pdir gpath mode st;
          (flag, written, st) = feed_chunks (parse_json (te_run_world env (world st))) (te_dump env) i [] chunks (False, [], st);
          st = upd_world (append_lines env (sdir @ ''/events.ndjson'') written) st;
          st = upd_world (write_log env (sdir @ ''/agent.stdout.log'') (ag_stdout agent)) st;
          st = upd_world (write_log env (sdir @ ''/agent.stderr.log'') (ag_stderr agent)) st;
          st = (if base \<noteq> [] then snd (on_world (record_agent_touch (te_host env) pdir base sdir) st) else st)
      in (agent, st))"

text \<open>The marker of an escalation: the chat session is opened with the tail of the agent's output.\<close>

definition escalate ::
  "'w ts_env \<Rightarrow> string \<Rightarrow> string \<Rightarrow> string \<Rightarrow> string \<Rightarrow> 'w est \<Rightarrow> string option \<times> 'w est" where
  "escalate env i sid sdir run st =
     (if \<not> bk_exists (te_host env) (sdir @ ''/escalate.json'') (world st) then (None, st)
      else case read_escalation_marker env sdir (world st) of
          None \<Rightarrow> (None, st)
        | Some m \<Rightarrow>
            let m = m\<lparr>last_summary := file_tail env (sdir @ ''/agent.stdout.log'') 500 (world st)\<rparr>;
                st = upd_world (te_open_session env (''troubleshoot-escalate-'' @ sid) (escalation_opener m run i)) st
            in (Some (reason m), activity i ''session_escalated'' st))"

definition audit_session :: "'w ts_env \<Rightarrow> string \<Rightarrow> string \<Rightarrow> 'w \<Rightarrow> json_error + hook_violation list" where
  "audit_session env sdir pdir w =
     audit_events_ndjson (parse_json (te_run_world env w)) (te_realpath env w) (te_getcwd env w)
       (map_option (\<lambda>txt. getlines txt []) (bk_read (te_host env) (sdir @ ''/events.ndjson'') w)) pdir sdir"

definition violation_line :: "hook_violation \<Rightarrow> string" where
  "violation_line v = tool v @ '' '' @ file_path v @ '' (tool_use_id='' @ tool_use_id v @ '')''"

definition final_report ::
  "recovery_input \<Rightarrow> run_world \<Rightarrow> diagnosis_report \<Rightarrow> agent_result \<Rightarrow> ts_decision \<Rightarrow> string option \<Rightarrow> backup_info option \<Rightarrow>
    hook_violation list \<Rightarrow> int \<Rightarrow> string \<Rightarrow> string \<Rightarrow> string \<Rightarrow> string \<Rightarrow> string \<Rightarrow> recovery_input" where
  "final_report rep rw report agent d why backup violations prior rdir i sid sdir ended =
     (let branch = (case backup of None \<Rightarrow> [] | Some b \<Rightarrow> backup_branch b); base = (case backup of None \<Rightarrow> [] | Some b \<Rightarrow> base_sha b);
          reason = (case why of None \<Rightarrow> [] | Some r \<Rightarrow> r)
      in rep\<lparr>rr_ended := ended, rr_cost := show_int (ag_cost agent) @ ''.00'', rr_outcome := dc_outcome d,
          rr_attempts_used := prior + 1, rr_escalate_reason := reason, rr_backup_branch := branch, rr_backup_base := base,
          rr_diagnosis_body := render_markdown rw report, rr_proposed_actions := render_proposed_actions report,
          rr_action_log := (''agent exit code '' @ show_int (ag_exit_code agent)) #
            (if ag_reasoning agent = [] then [] else [ag_reasoning agent]),
          rr_outcome_summary := (if dc_outcome d = Escalated then ''Escalated: '' @ reason
            else status_summary (dc_outcome d) i (dc_message d)),
          rr_security_audit := map violation_line violations,
          rr_artifacts := log_artifacts sdir @
            (if branch = [] then []
             else [''backup_branch: '' @ branch, ''rollback: needle troubleshoot rollback '' @ rdir @ '' '' @ sid])\<rparr>)"

text \<open>From the start of the agent to the result; \<open>Inl\<close> is an exception of the audit.\<close>

definition session_after_backup ::
  "'w ts_env \<Rightarrow> recovery_input \<Rightarrow> diagnosis_report \<Rightarrow> run_world \<Rightarrow> backup_info option \<Rightarrow> int \<Rightarrow> string \<Rightarrow> troubleshoot_mode \<Rightarrow>
    string \<Rightarrow> string \<Rightarrow> string \<Rightarrow> string \<Rightarrow> string \<Rightarrow> string \<Rightarrow> string \<Rightarrow> 'w est \<Rightarrow> (json_error + ats_result) \<times> 'w est" where
  "session_after_backup env rep report rw backup prior rdir mode i sid sdir run pdir apath before st =
     (let st = upd_world (te_register env run sid) st;
          (agent, st) = agent_session env i sdir pdir (ctx_get (ctx st) ''needle.graph_path'') mode
            (case backup of None \<Rightarrow> [] | Some b \<Rightarrow> base_sha b) st;
          was_cancelled = bk_exists (te_host env) (sdir @ ''/cancel.json'') (world st);
          (why, st) = escalate env i sid sdir run st
      in case audit_session env sdir pdir (world st) of
           Inl e \<Rightarrow> (Inl e, st)
         | Inr violations \<Rightarrow>
             let d = session_decision mode agent why was_cancelled (violations \<noteq> []) apath before
                       (if apath = [] then [] else read_all env apath (world st));
                 rep = final_report rep rw report agent d why backup violations prior rdir i sid sdir (te_now env (world st));
                 (path, st) = on_world (write_report env rep (sdir @ ''/recovery.md'')) st
             in (Inr \<lparr>at_action = dc_action d, at_session_id = sid, at_report_path = path, at_message = dc_message d,
                   at_promoted = dc_promoted d\<rparr>, end_activities i st))"

definition guarded_session ::
  "'w ts_env \<Rightarrow> string \<Rightarrow> graph \<Rightarrow> troubleshoot_mode \<Rightarrow> int \<Rightarrow> string \<Rightarrow> diagnosis_report \<Rightarrow> run_world \<Rightarrow> string \<Rightarrow> string \<Rightarrow> string \<Rightarrow> string \<Rightarrow>
    'w est \<Rightarrow> ((json_error + ats_result) \<times> bool) \<times> 'w est" where
  "guarded_session env rdir g mode prior i report rw sid sdir run started st =
     (let agent_name = config_or env ''defaults.troubleshoot_agent'' ''claude'' (world st);
          model = config_or env ''defaults.troubleshoot_model'' ''claude-opus-4-7'' (world st);
          pdir = (let p = ctx_get (ctx st) ''needle.project_dir'' in if p = [] then ''.'' else p);
          st = upd_world (write_hook_manifest env sdir pdir) st;
          apath = resolve_artifact_path g i pdir;
          before = (if apath = [] then [] else read_all env apath (world st));
          st = activity i ''session_started'' st;
          rep = base_report sid run i mode agent_name model started []
      in if mutates_project mode then
           let (captured, st) = on_world (capture (te_host env) pdir run sid sdir) st in
           case captured of
             Inl e \<Rightarrow> (let (r, st) = backup_failed env rep prior i sid sdir e st in ((Inr r, False), st))
           | Inr b \<Rightarrow> (let (r, st) = session_after_backup env rep report rw (Some b) prior rdir mode i sid sdir run pdir apath before st
               in ((r, True), st))
         else
           let (r, st) = session_after_backup env rep report rw None prior rdir mode i sid sdir run pdir apath before st
           in ((r, True), st))"

text \<open>\<open>RunnerRegistrationGuard\<close>: its destructor runs after the one of the run's guard.\<close>

definition end_runner :: "'w ts_env \<Rightarrow> string \<Rightarrow> string \<Rightarrow> bool \<Rightarrow> 'w est \<Rightarrow> 'w est" where
  "end_runner env run sid armed st = (if armed then upd_world (te_unregister env run sid) st else st)"

definition ats_handle ::
  "'w ts_env \<Rightarrow> string \<Rightarrow> int \<Rightarrow> troubleshoot_mode \<Rightarrow> string \<Rightarrow> graph \<Rightarrow> 'w est \<Rightarrow> (json_error + ats_result) \<times> 'w est" where
  "ats_handle env rdir max_attempts mode i g st =
     (if mode = Off then (Inr (ats_none\<lparr>at_message := ''troubleshoot mode off''\<rparr>), st)
      else
        let prior = prior_attempts i (ctx st) in
        if max_attempts \<le> prior then (let (r, st) = cap_reached env rdir mode prior i st in (Inr r, st))
        else
          let st = ts_set env (attempts_key i) (show_int (prior + 1)) st;
              rw = te_run_world env (world st); report = collect_report rw rdir i;
              ((sid, sdir), st) = on_world (create_session_dir env rdir (ctx_get (ctx st) ''needle.troubleshoot_session_id'')) st;
              started = te_now env (world st); run = run_id_of rdir (ctx st)
          in if ctx_get (ctx st) ''needle.run_guard_reserved'' \<noteq> ''true'' then
               let (got, st) = on_world (try_acquire env run) st in
               if \<not> got then
                 (Inr (ats_none\<lparr>at_session_id := sid, at_message := ''another troubleshoot session is in flight for run '' @ run\<rparr>), st)
               else
                 let ((r, armed), st) = guarded_session env rdir g mode prior i report rw sid sdir run started st
                 in (r, end_runner env run sid armed (upd_world (release env run) st))
             else
               let ((r, armed), st) = guarded_session env rdir g mode prior i report rw sid sdir run started st
               in (r, end_runner env run sid armed st))"

text \<open>What the engine takes from the result.\<close>

definition engine_action :: "ats_result \<Rightarrow> ats_action" where
  "engine_action r =
     (case at_action r of
        Act_Skipped \<Rightarrow> Ats_Skipped | Act_Resumed \<Rightarrow> Ats_Resumed | Act_Reported \<Rightarrow> Ats_Reported
      | Act_Escalated \<Rightarrow> Ats_Escalated (at_report_path r) | Act_Cancelled \<Rightarrow> Ats_Cancelled
      | Act_Promoted \<Rightarrow> Ats_Promoted (at_promoted r))"


section \<open>What a session leaves alone\<close>

text \<open>
  A session writes two keys of the context beside its counter, and adds events to the trace. All else of the
  engine's state is as it was.
\<close>

definition same_run :: "'w est \<Rightarrow> 'w est \<Rightarrow> bool" where
  "same_run st st' =
     (retries st' = retries st \<and> completed st' = completed st \<and> outcomes st' = outcomes st \<and>
      node_hashes st' = node_hashes st \<and> fail_sigs st' = fail_sigs st \<and> cycle_limit st' = cycle_limit st \<and>
      (omap_ok (ctx st) \<longrightarrow> omap_ok (ctx st')) \<and>
      (\<exists>es. trace st' = trace st @ es \<and> (\<forall>cp. Saved cp \<notin> set es)))"

definition session_keys :: "string set" where
  "session_keys = {''needle.project_dir'', ''needle.graph_path''}"

definition session_frame :: "'w est \<Rightarrow> 'w est \<Rightarrow> bool" where
  "session_frame st st' = (same_run st st' \<and> (\<forall>k. k \<notin> session_keys \<longrightarrow> map_of (ctx st') k = map_of (ctx st) k))"

named_theorems session_steps \<open>steps of a session keep the run\<close>

lemma added_trans: "(\<exists>es. b = a @ es \<and> (\<forall>cp. Saved cp \<notin> set es)) \<Longrightarrow> (\<exists>es. c = b @ es \<and> (\<forall>cp. Saved cp \<notin> set es)) \<Longrightarrow>
    \<exists>es. c = a @ es \<and> (\<forall>cp. Saved cp \<notin> set es)"
proof -
  assume "\<exists>es. b = a @ es \<and> (\<forall>cp. Saved cp \<notin> set es)" and "\<exists>es. c = b @ es \<and> (\<forall>cp. Saved cp \<notin> set es)"
  then obtain es fs where "b = a @ es" "c = b @ fs" "\<forall>cp. Saved cp \<notin> set es" "\<forall>cp. Saved cp \<notin> set fs" by blast
  then have "c = a @ (es @ fs) \<and> (\<forall>cp. Saved cp \<notin> set (es @ fs))" by simp
  then show ?thesis by blast
qed

lemma same_run_trans:
  assumes "same_run a b" and "same_run b c"
  shows "same_run a c"
proof -
  have "\<exists>es. trace c = trace a @ es \<and> (\<forall>cp. Saved cp \<notin> set es)"
    using assms added_trans [of "trace b" "trace a" "trace c"] by (simp add: same_run_def)
  with assms show ?thesis unfolding same_run_def by simp
qed

lemma frame_trans: "session_frame a b \<Longrightarrow> session_frame b c \<Longrightarrow> session_frame a c"
  using same_run_trans [of a b c] by (simp add: session_frame_def)

lemma frame_refl [session_steps]: "session_frame st st"
  by (simp add: session_frame_def same_run_def)

lemma frame_world [session_steps]: "session_frame st (st\<lparr>world := w\<rparr>)"
  by (simp add: session_frame_def same_run_def)

lemma frame_on_world: "on_world f st = (x, st') \<Longrightarrow> session_frame st st'"
  by (auto simp: on_world_def frame_world split: prod.splits)

lemma frame_upd_world [session_steps]: "session_frame a st \<Longrightarrow> session_frame a (upd_world f st)"
  unfolding upd_world_def by (blast intro: frame_trans frame_world)

lemma frame_activity [session_steps]: "session_frame a st \<Longrightarrow> session_frame a (activity i ty st)"
proof (rule frame_trans)
  show "session_frame st (activity i ty st)"
    by (simp add: activity_def emit_def session_frame_def same_run_def)
qed

lemma frame_activities: "session_frame a st \<Longrightarrow> session_frame a (fold (\<lambda>e. activity i (ev_type e)) es st)"
  by (induction es arbitrary: st) (simp_all add: frame_activity)

lemma frame_set [session_steps]: "k \<in> session_keys \<Longrightarrow> session_frame a st \<Longrightarrow> session_frame a (ts_set env k v st)"
proof (rule frame_trans)
  assume "k \<in> session_keys"
  then show "session_frame st (ts_set env k v st)"
    by (auto simp: ts_set_def session_frame_def same_run_def ctx_set_def)
qed

lemma frame_end [session_steps]: "session_frame a st \<Longrightarrow> session_frame a (end_activities i st)"
  by (simp add: end_activities_def session_steps)

lemma frame_line: "session_frame a (snd (snd s)) \<Longrightarrow> session_frame a (snd (snd (process_stream_line parse dump i ln s)))"
  by (auto simp: process_stream_line_def frame_activities split: prod.splits)

lemma frame_lines: "session_frame a (snd (snd s)) \<Longrightarrow> session_frame a (snd (snd (fold (process_stream_line parse dump i) ls s)))"
  by (induction ls arbitrary: s) (simp_all add: frame_line)

lemma frame_chunks: "session_frame a (snd (snd s)) \<Longrightarrow> session_frame a (snd (snd (feed_chunks parse dump i buf cs s)))"
  by (induction parse dump i buf cs s rule: feed_chunks.induct) (auto simp: frame_line frame_lines split: prod.splits)

lemma frame_agent: "run_agent env i sdir pdir gpath mode st = (r, st') \<Longrightarrow> session_frame st st'"
proof -
  assume r: "run_agent env i sdir pdir gpath mode st = (r, st')"
  define st1 where "st1 = ts_set env ''needle.project_dir'' pdir st"
  define st2 where "st2 = (if gpath \<noteq> [] then ts_set env ''needle.graph_path'' gpath st1 else st1)"
  have "session_frame st st2" by (simp add: st2_def st1_def session_steps session_keys_def)
  moreover have "session_frame st2 st'"
    using r by (auto simp: run_agent_def Let_def st1_def [symmetric] st2_def [symmetric] split: prod.splits intro: frame_on_world)
  ultimately show ?thesis by (rule frame_trans)
qed

lemma frame_touch: "session_frame a st \<Longrightarrow> session_frame a (snd (on_world f st))"
  by (metis frame_on_world frame_trans prod.collapse)

lemma frame_agent_session: "agent_session env i sdir pdir gpath mode base st = (agent, st') \<Longrightarrow> session_frame st st'"
proof -
  assume s: "agent_session env i sdir pdir gpath mode base st = (agent, st')"
  obtain ag chunks st1 where r: "run_agent env i sdir pdir gpath mode st = ((ag, chunks), st1)" by (metis prod.exhaust)
  obtain flag written st2 where
    f: "feed_chunks (parse_json (te_run_world env (world st1))) (te_dump env) i [] chunks (False, [], st1) = (flag, written, st2)"
    by (metis prod.exhaust)
  have "session_frame st st1" using frame_agent r by metis
  then have "session_frame st st2"
    using frame_chunks [of st "(False, [], st1)" "parse_json (te_run_world env (world st1))" "te_dump env" i "[]" chunks] f by simp
  then show ?thesis using s r f by (auto simp: agent_session_def Let_def session_steps frame_touch split: if_splits)
qed

lemma frame_escalate: "escalate env i sid sdir run st = (why, st') \<Longrightarrow> session_frame st st'"
  by (auto simp: escalate_def Let_def session_steps split: if_splits option.splits)

lemma frame_backup_failed: "backup_failed env rep prior i sid sdir e st = (r, st') \<Longrightarrow> session_frame st st'"
  unfolding backup_failed_def Let_def by (auto intro!: frame_end dest!: frame_on_world split: prod.splits)

lemma frame_after_backup:
  "session_after_backup env rep report rw backup prior rdir mode i sid sdir run pdir apath before st = (r, st') \<Longrightarrow> session_frame st st'"
proof -
  assume s: "session_after_backup env rep report rw backup prior rdir mode i sid sdir run pdir apath before st = (r, st')"
  define st1 where "st1 = upd_world (te_register env run sid) st"
  obtain agent st2 where a: "agent_session env i sdir pdir (ctx_get (ctx st1) ''needle.graph_path'') mode
      (case backup of None \<Rightarrow> [] | Some b \<Rightarrow> base_sha b) st1 = (agent, st2)" by (rule prod.exhaust)
  obtain why st3 where e: "escalate env i sid sdir run st2 = (why, st3)" by (rule prod.exhaust)
  have 1: "session_frame st st1" by (simp add: st1_def session_steps)
  have 3: "session_frame st st3" using frame_trans [OF frame_trans [OF 1 frame_agent_session [OF a]] frame_escalate [OF e]] .
  show ?thesis using s 3
    unfolding session_after_backup_def Let_def st1_def [symmetric] a prod.case e
    by (auto intro!: frame_end frame_trans [OF 3] intro: frame_on_world split: sum.splits prod.splits)
qed

lemma frame_guarded:
  "guarded_session env rdir g mode prior i report rw sid sdir run started st = (r, st') \<Longrightarrow> session_frame st st'"
proof -
  assume s: "guarded_session env rdir g mode prior i report rw sid sdir run started st = (r, st')"
  define pdir where "pdir = (if ctx_get (ctx st) ''needle.project_dir'' = [] then ''.'' else ctx_get (ctx st) ''needle.project_dir'')"
  define st1 where "st1 = activity i ''session_started'' (upd_world (write_hook_manifest env sdir pdir) st)"
  have 1: "session_frame st st1" by (simp add: st1_def session_steps)
  have after: "session_frame st st3" if "session_frame st st2"
    "session_after_backup env rep report rw b prior rdir mode i sid sdir run pdir apath before st2 = (x, st3)" for st2 st3 rep b apath before x
    using frame_trans [OF that(1) frame_after_backup [OF that(2)]] .
  show ?thesis using s 1
    unfolding guarded_session_def Let_def pdir_def [symmetric] st1_def [symmetric]
    by (auto split: if_splits prod.splits sum.splits
        intro: after frame_trans [OF _ frame_backup_failed] frame_trans [OF _ frame_on_world])
qed

lemma frame_runner: "session_frame a st \<Longrightarrow> session_frame a (end_runner env run sid armed st)"
  by (simp add: end_runner_def frame_upd_world)

lemma frame_cap: "cap_reached env rdir mode prior i st = (r, st') \<Longrightarrow> same_run st st' \<and> ctx st' = ctx st"
  by (auto simp: cap_reached_def on_world_def Let_def same_run_def split: prod.splits)

lemma same_run_set: "same_run st (ts_set env k v st)"
  by (simp add: same_run_def ts_set_def ctx_set_def)

text \<open>\<open>handle\<close> past the cap: the state with the counter set, then a session or none.\<close>

lemma handle_session:
  assumes "mode \<noteq> Off" "\<not> max_attempts \<le> prior_attempts i (ctx st)"
    and "ats_handle env rdir max_attempts mode i g st = (r, st')"
  shows "session_frame (ts_set env (attempts_key i) (show_int (prior_attempts i (ctx st) + 1)) st) st'"
proof -
  define st1 where "st1 = ts_set env (attempts_key i) (show_int (prior_attempts i (ctx st) + 1)) st"
  have ends: "session_frame st1 st3"
    if "on_world f st1 = (x, st2)" "session_frame st2 st3" for f x st2 st3
    using frame_trans [OF frame_on_world [OF that(1)] that(2)] .
  show ?thesis unfolding st1_def [symmetric]
    using assms unfolding ats_handle_def Let_def st1_def [symmetric]
    by (auto split: if_splits prod.splits intro!: frame_runner frame_upd_world ends intro: frame_on_world frame_guarded
        frame_trans [OF frame_on_world frame_guarded])
qed

lemma handle_same_run: "same_run st (snd (ats_handle env rdir max_attempts mode i g st))"
proof -
  obtain r st' where h: "ats_handle env rdir max_attempts mode i g st = (r, st')" by (rule prod.exhaust)
  consider "mode = Off" | "mode \<noteq> Off" "max_attempts \<le> prior_attempts i (ctx st)"
    | "mode \<noteq> Off" "\<not> max_attempts \<le> prior_attempts i (ctx st)" by blast
  then have "same_run st st'"
  proof cases
    case 1
    then show ?thesis using h by (simp add: ats_handle_def same_run_def)
  next
    case 2
    then show ?thesis using h by (auto simp: ats_handle_def Let_def dest: frame_cap split: prod.splits)
  next
    case 3
    then show ?thesis using handle_session [OF 3 h] same_run_set same_run_trans by (metis session_frame_def)
  qed
  then show ?thesis by (simp add: h)
qed

lemma same_run_est_ok: "same_run st st' \<Longrightarrow> est_ok st \<Longrightarrow> est_ok st'"
  by (auto simp: same_run_def est_ok_def)


section \<open>The cap\<close>

lemma show_nat_length: "n < 10 ^ Suc k \<Longrightarrow> length (show_nat n) \<le> Suc k"
proof (induction k arbitrary: n)
  case 0
  then show ?case by (subst show_nat.simps) simp
next
  case (Suc k)
  then have "n div 10 < 10 ^ Suc k" by (simp add: less_mult_imp_div_less)
  then have "length (show_nat (n div 10)) \<le> Suc k" by (rule Suc.IH)
  then show ?case by (subst show_nat.simps) simp
qed

lemma show_int_length: "in_int v \<Longrightarrow> length (show_int v) \<le> 11"
proof -
  assume "in_int v"
  then have "nat (- v) < 10 ^ Suc 9" "nat v < 10 ^ Suc 9" unfolding int_range_defs by (simp_all, arith+)
  then show ?thesis using show_nat_length [of "nat (- v)" 9] show_nat_length [of "nat v" 9] by (simp add: show_int_def)
qed

lemma atoi_show: "in_int v \<Longrightarrow> atoi (show_int v) = v"
  using stoi_show_int [of v "[]"] by (simp add: atoi_def)

lemma atoi_in_int: "in_int (atoi s)"
  by (auto simp: atoi_def stoi_def Let_def int_range_defs split: option.splits prod.splits if_splits)

lemma prior_counts:
  assumes "in_int n" "te_limit env = 0 \<or> 11 \<le> te_limit env"
  shows "prior_attempts i (ctx (ts_set env (attempts_key i) (show_int n) st)) = n"
proof -
  have "clip_value (te_limit env) (show_int n) = show_int n"
    using assms show_int_length [of n] by (auto intro: clip_value_short)
  with assms(1) show ?thesis
    by (simp add: prior_attempts_def ts_set_def ctx_set_def ctx_has_def ctx_get_def atoi_show)
qed

lemma attempts_key_own: "attempts_key i \<notin> session_keys"
  by (simp add: attempts_key_def session_keys_def)

lemma prior_frame: "session_frame st st' \<Longrightarrow> prior_attempts i (ctx st') = prior_attempts i (ctx st)"
  using attempts_key_own [of i] by (simp add: session_frame_def prior_attempts_def ctx_has_def ctx_get_def)

lemma fresh_session_agent: "fresh_session (env\<lparr>te_agent := a\<rparr>) rdir k w = fresh_session env rdir k w"
  by (induction k arbitrary: w) (simp_all split: prod.split)

lemma create_session_agent: "create_session_dir (env\<lparr>te_agent := a\<rparr>) rdir r w = create_session_dir env rdir r w"
  by (simp add: create_session_dir_def fresh_session_agent touch_file_def)

lemma cap_agent: "cap_reached (env\<lparr>te_agent := a\<rparr>) = cap_reached env"
  by (intro ext) (simp add: cap_reached_def create_session_agent write_report_def on_world_def Let_def)

text \<open>C25: the cap on the sessions of a stage. Mode \<open>off\<close> does nothing. At the cap the stage is escalated with the
  reason "retry cap reached", the context is left alone and the agent is never started: any other agent gives the same
  result. Below the cap the counter of the stage goes up by one, whatever becomes of the session, and so the cap is reached after
  that many calls.\<close>

theorem attempts_capped:
  assumes "in_int max_attempts" and "te_limit env = 0 \<or> 11 \<le> te_limit env"
  shows "(mode = Off \<longrightarrow> snd (ats_handle env rdir max_attempts mode i g st) = st) \<and>
    (mode \<noteq> Off \<and> max_attempts \<le> prior_attempts i (ctx st) \<longrightarrow>
       (\<exists>r. fst (ats_handle env rdir max_attempts mode i g st) = Inr r \<and> at_action r = Act_Escalated \<and>
          at_message r = ''retry cap reached'') \<and>
       ctx (snd (ats_handle env rdir max_attempts mode i g st)) = ctx st \<and>
       ats_handle (env\<lparr>te_agent := agent\<rparr>) rdir max_attempts mode i g st = ats_handle env rdir max_attempts mode i g st) \<and>
    (mode \<noteq> Off \<and> prior_attempts i (ctx st) < max_attempts \<longrightarrow>
       prior_attempts i (ctx (snd (ats_handle env rdir max_attempts mode i g st))) = prior_attempts i (ctx st) + 1)"
proof (intro conjI impI)
  show "snd (ats_handle env rdir max_attempts mode i g st) = st" if "mode = Off" using that by (simp add: ats_handle_def)
next
  assume m: "mode \<noteq> Off \<and> max_attempts \<le> prior_attempts i (ctx st)"
  obtain r st' where c: "cap_reached env rdir mode (prior_attempts i (ctx st)) i st = (r, st')" by (rule prod.exhaust)
  from m c have h: "ats_handle env rdir max_attempts mode i g st = (Inr r, st')" by (simp add: ats_handle_def)
  have "at_action r = Act_Escalated \<and> at_message r = ''retry cap reached''"
    using c by (auto simp: cap_reached_def Let_def split: prod.splits)
  with h show "\<exists>r. fst (ats_handle env rdir max_attempts mode i g st) = Inr r \<and> at_action r = Act_Escalated \<and>
      at_message r = ''retry cap reached''" by simp
  show "ctx (snd (ats_handle env rdir max_attempts mode i g st)) = ctx st" using frame_cap [OF c] h by simp
  show "ats_handle (env\<lparr>te_agent := agent\<rparr>) rdir max_attempts mode i g st = ats_handle env rdir max_attempts mode i g st"
    using m c h by (simp add: ats_handle_def cap_agent)
next
  assume m: "mode \<noteq> Off \<and> prior_attempts i (ctx st) < max_attempts"
  obtain r st' where h: "ats_handle env rdir max_attempts mode i g st = (r, st')" by (rule prod.exhaust)
  have p: "in_int (prior_attempts i (ctx st))" using atoi_in_int by (simp add: prior_attempts_def int_range_defs)
  have n: "in_int (prior_attempts i (ctx st) + 1)" using m assms(1) p by (simp add: int_range_defs)
  have "session_frame (ts_set env (attempts_key i) (show_int (prior_attempts i (ctx st) + 1)) st) st'"
    using m h by (intro handle_session) auto
  from prior_frame [OF this] show
    "prior_attempts i (ctx (snd (ats_handle env rdir max_attempts mode i g st))) = prior_attempts i (ctx st) + 1"
    using h prior_counts [OF n assms(2)] by simp
qed

text \<open>The agent's own status is never one of the others.\<close>

definition agent_status_ok :: "agent_result \<Rightarrow> bool" where
  "agent_status_ok out = (ag_status out \<in> {FailedAgent, FailedTimeout, Resumed})"

lemma result_event_status: "agent_status_ok out \<Longrightarrow> agent_status_ok (result_event j out)"
  by (auto simp: agent_status_ok_def result_event_def Let_def split: sum.split option.split json.split)

lemma parse_final_status: "agent_status_ok out \<Longrightarrow> agent_status_ok (parse_final_result parse t out)"
proof -
  have "agent_status_ok (fold (\<lambda>l out. if l = [] then out else case parse l of None \<Rightarrow> out | Some j \<Rightarrow> result_event j out) ls out)"
    if "agent_status_ok out" for ls out
    using that by (induction ls arbitrary: out) (simp_all add: result_event_status split: option.split)
  then show "agent_status_ok out \<Longrightarrow> ?thesis" by (simp add: parse_final_result_def)
qed

lemma agent_statuses: "agent_status_ok (agent_outcome parse r)"
proof (cases r)
  case (Inr p)
  define out where "out = no_agent\<lparr>ag_exit_code := exit_code p, ag_stdout := stdout_output p, ag_stderr := stderr_output p,
    ag_timed_out := timed_out p\<rparr>"
  define fin where "fin = parse_final_result parse (stdout_output p) out"
  have "agent_status_ok fin"
    unfolding fin_def by (rule parse_final_status) (simp add: out_def no_agent_def agent_status_ok_def)
  then show ?thesis unfolding agent_outcome_def Let_def Inr sum.case out_def [symmetric] fin_def [symmetric]
    by (simp add: agent_status_ok_def)
qed (simp add: agent_outcome_def no_agent_def agent_status_ok_def)

lemma agent_action:
  assumes "agent_status_ok agent"
  shows "dc_action (session_decision mode agent esc was_cancelled violated apath before after) =
    (if violated then Act_Skipped else if esc \<noteq> None then Act_Escalated else if was_cancelled then Act_Cancelled
     else if apath \<noteq> [] \<and> after \<noteq> [] \<and> after \<noteq> before then Act_Promoted
     else if ag_ok agent \<and> ag_exit_code agent = 0 then
       (if mode = Diagnose_Mode then Act_Reported else if ag_status agent = Resumed then Act_Resumed else Act_Skipped)
     else Act_Skipped)"
proof (cases "violated \<or> esc \<noteq> None \<or> was_cancelled")
  case True
  then show ?thesis
    by (cases violated; cases esc; cases was_cancelled)
      (simp_all add: session_decision_def promote_decision_def audit_decision_def agent_decision_def)
next
  case False
  with assms have "dc_outcome (agent_decision mode agent esc was_cancelled) \<notin> {Escalated, Cancelled, FailedHookViolation}"
    by (auto simp: agent_decision_def agent_status_ok_def)
  with False show ?thesis
    by (simp add: session_decision_def promote_decision_def audit_decision_def) (simp add: agent_decision_def)
qed

lemma decision_fields:
  assumes "agent_status_ok agent"
  shows "dc_outcome (session_decision mode agent esc was_cancelled violated apath before after) = Resumed \<longleftrightarrow>
      dc_action (session_decision mode agent esc was_cancelled violated apath before after) \<in> {Act_Promoted, Act_Resumed}"
    and "dc_promoted (session_decision mode agent esc was_cancelled violated apath before after) =
      (if dc_action (session_decision mode agent esc was_cancelled violated apath before after) = Act_Promoted then after else [])"
proof -
  define d where "d = agent_decision mode agent esc was_cancelled"
  have d: "dc_outcome d = Resumed \<longleftrightarrow> dc_action d = Act_Resumed" "dc_action d \<noteq> Act_Promoted" "dc_promoted d = []"
    using assms by (auto simp: d_def agent_decision_def agent_status_ok_def split: option.split)
  then show "dc_outcome (session_decision mode agent esc was_cancelled violated apath before after) = Resumed \<longleftrightarrow>
      dc_action (session_decision mode agent esc was_cancelled violated apath before after) \<in> {Act_Promoted, Act_Resumed}"
    "dc_promoted (session_decision mode agent esc was_cancelled violated apath before after) =
      (if dc_action (session_decision mode agent esc was_cancelled violated apath before after) = Act_Promoted then after else [])"
    unfolding session_decision_def d_def [symmetric] promote_decision_def audit_decision_def
    by (cases "dc_outcome d"; simp)+
qed

text \<open>C26: when the engine goes on after a session. Whatever the agent's process did, the result is promoted exactly if
  nobody escalated or cancelled, no write left the allowed directories, and the stage's artifact changed to something;
  the stage is run again exactly if it is not promoted, nobody escalated or cancelled, no write was out of bounds, the
  mode is not \<open>diagnose\<close>, and the agent exited with 0 and reported success. The report says \<open>resumed\<close> in these two
  cases only; an escalation stands unless there was a violation, and a violation always skips.\<close>

theorem engine_goes_on:
  "let agent = agent_outcome parse r; d = session_decision mode agent esc was_cancelled violated apath before after
   in dc_action d = (if violated then Act_Skipped else if esc \<noteq> None then Act_Escalated else if was_cancelled then Act_Cancelled
        else if apath \<noteq> [] \<and> after \<noteq> [] \<and> after \<noteq> before then Act_Promoted
        else if ag_ok agent \<and> ag_exit_code agent = 0 then
          (if mode = Diagnose_Mode then Act_Reported else if ag_status agent = Resumed then Act_Resumed else Act_Skipped)
        else Act_Skipped) \<and>
      (dc_outcome d = Resumed \<longleftrightarrow> dc_action d \<in> {Act_Promoted, Act_Resumed}) \<and>
      dc_promoted d = (if dc_action d = Act_Promoted then after else [])"
  unfolding Let_def by (intro conjI agent_action decision_fields) (rule agent_statuses)+

section \<open>The chunks of the stream\<close>

lemma take_lines_append:
  "take_lines (a @ b) acc =
     (let (ls, rest) = take_lines a acc; (ms, rest') = take_lines b rest in (ls @ ms, rest'))"
  by (induction a arbitrary: acc) (simp_all add: Let_def split: prod.split)

lemma take_lines_rest: "take_lines a acc = (ls, rest) \<Longrightarrow> newline \<notin> set acc \<Longrightarrow> newline \<notin> set rest"
  by (induction a arbitrary: acc ls rest) (auto split: if_splits prod.splits)

lemma take_lines_acc: "newline \<notin> set b \<Longrightarrow> take_lines (b @ a) acc = take_lines a (acc @ b)"
  by (induction b arbitrary: acc) auto

text \<open>C27: how the output of the agent is cut up does not matter. Chunks may end anywhere, in the middle of a line or between the two
  characters that end it: the lines logged, the events emitted and the parser's flag are those of the whole output
  read at once.\<close>

theorem chunks_do_not_matter: "feed_chunks parse dump i [] cs s = feed_chunks parse dump i [] [concat cs] s"
proof -
  have "feed_chunks parse dump i buf cs s = feed_chunks parse dump i buf [concat cs] s" if "newline \<notin> set buf" for buf
    using that
  proof (induction cs arbitrary: buf s)
    case Nil
    then show ?case using take_lines_acc [of buf "[]" "[]"] by simp
  next
    case (Cons c cs)
    obtain ls rest where l: "take_lines (buf @ c) [] = (ls, rest)" by (rule prod.exhaust)
    then have r: "newline \<notin> set rest" using take_lines_rest by fastforce
    obtain ms rest' where m: "take_lines (concat cs) rest = (ms, rest')" by (rule prod.exhaust)
    have "take_lines (buf @ c @ concat cs) [] = (ls @ ms, rest')"
      using take_lines_append [of "buf @ c" "concat cs" "[]"] l m by simp
    moreover have "take_lines (rest @ concat cs) [] = (ms, rest')" using take_lines_acc [OF r] m by simp
    ultimately show ?case using Cons.IH [OF r] l by simp
  qed
  then show ?thesis by simp
qed

section \<open>The opener of the chat\<close>

lemma sanitise_head: "sanitise x = CHR ''`'' # ys \<Longrightarrow> \<exists>xs. x = CHR ''`'' # xs \<and> sanitise xs = ys"
  by (cases x) (auto split: if_splits)

text \<open>Fact: the agent cannot break out of the quoted block. Wherever three backticks stand in the sanitised text there
  is a contradiction: none are left, however many the agent printed in a row.\<close>

theorem sanitise_no_fence: "sanitise x \<noteq> p @ ''```'' @ q"
proof (induction x arbitrary: p rule: sanitise.induct)
  case (2 c cs)
  show ?case
  proof (cases "starts_with ''```'' (c # cs)")
    case True
    have "sanitise (c # cs) = [squote, squote, squote] @ sanitise (drop 3 (c # cs))" using True by simp
    moreover have "[squote, squote, squote] @ s \<noteq> p @ ''```'' @ q" if "\<And>p. s \<noteq> p @ ''```'' @ q" for s
    proof
      assume e: "[squote, squote, squote] @ s = p @ ''```'' @ q"
      from e obtain a b c p' where "p = a # b # c # p'"
        by (cases p; cases "tl p"; cases "tl (tl p)") auto
      with e have "s = p' @ ''```'' @ q" by simp
      with that show False by blast
    qed
    ultimately show ?thesis using 2(1) [OF True] by metis
  next
    case False
    show ?thesis
    proof (cases p)
      case Nil
      show ?thesis
      proof
        assume "sanitise (c # cs) = p @ ''```'' @ q"
        with False Nil have c: "c = CHR ''`''" and "sanitise cs = CHR ''`'' # (CHR ''`'' # q)" by simp_all
        then obtain ds where ds: "cs = CHR ''`'' # ds" "sanitise ds = CHR ''`'' # q" using sanitise_head by blast
        then obtain es where "ds = CHR ''`'' # es" using sanitise_head by blast
        with c ds False show False by (simp add: starts_with_def)
      qed
    next
      case (Cons a p')
      with 2(2) [OF False, of p'] False show ?thesis by simp
    qed
  qed
qed simp

section \<open>Concrete sessions\<close>

text \<open>A machine without git, whose agent exits with 0 and says nothing.\<close>

definition sample_env :: "unit ts_env" where
  "sample_env = \<lparr>te_host = \<lparr>bk_git = (\<lambda>_ _ _ w. (failure ''no git'', w)), bk_read = (\<lambda>_ _. None), bk_exists = (\<lambda>_ _. False),
       bk_write = (\<lambda>_ _ w. (True, w)), bk_is_dir = (\<lambda>_ _. False), bk_mkdir = (\<lambda>_ w. (True, w))\<rparr>,
     te_limit = 0, te_now = (\<lambda>_. ''t''), te_config = (\<lambda>_ _. []), te_session_id = (\<lambda>w. (''s'', w)),
     te_agent = (\<lambda>_ _ _ _ w. ((Inr \<lparr>exit_code = 0, stdout_output = [], stderr_output = [], timed_out = False, idle_timeout = False\<rparr>, []), w)),
     te_run_world = (\<lambda>_. \<lparr>disk = (\<lambda>_. None), parse_json = (\<lambda>_. None), is_ancestor = (\<lambda>_ _ _. None), alive = (\<lambda>_. False),
       descendants = (\<lambda>_. [])\<rparr>),
     te_prompt = (\<lambda>_ _ _. []), te_dump = (\<lambda>_. []), te_realpath = (\<lambda>_ _. None), te_getcwd = (\<lambda>_. ''/''), te_active = (\<lambda>_. []),
     te_set_active = (\<lambda>_ w. w), te_register = (\<lambda>_ _ w. w), te_unregister = (\<lambda>_ _ w. w), te_open_session = (\<lambda>_ _ w. w)\<rparr>"


theorem attempts_capped_witness:
  "prior_attempts ''a'' (ctx (snd (ats_handle sample_env ''r'' 2 Full ''a'' sample_graph sample_state))) = 1 \<and>
   (\<exists>r. fst (ats_handle sample_env ''r'' 0 Full ''a'' sample_graph sample_state) = Inr r \<and> at_action r = Act_Escalated)"
proof
  have p: "prior_attempts ''a'' (ctx sample_state) = 0" by (simp add: prior_attempts_def sample_state_def ctx_has_def)
  have l: "te_limit sample_env = 0" by (simp add: sample_env_def)
  show "prior_attempts ''a'' (ctx (snd (ats_handle sample_env ''r'' 2 Full ''a'' sample_graph sample_state))) = 1"
    using attempts_capped [where env = sample_env and max_attempts = 2 and mode = Full and i = "''a''" and st = sample_state] p l
    by (simp add: in_int_def int_min_def int_max_def)
  show "\<exists>r. fst (ats_handle sample_env ''r'' 0 Full ''a'' sample_graph sample_state) = Inr r \<and> at_action r = Act_Escalated"
    using attempts_capped [where env = sample_env and max_attempts = 0 and mode = Full and i = "''a''" and st = sample_state
        and rdir = "''r''" and g = sample_graph] p l
    by (auto simp: in_int_def int_min_def int_max_def)
qed

text \<open>Fact: mode \<open>diagnose\<close> is called read-only, but a session of it is promoted when the artifact of the stage changed.\<close>

lemma diagnose_promotes:
  "dc_action (session_decision Diagnose_Mode (agent_outcome parse (Inr \<lparr>exit_code = 0, stdout_output = [],
     stderr_output = [], timed_out = False, idle_timeout = False\<rparr>)) None False False ''a.md'' ''old'' ''new'') = Act_Promoted"
  by (simp add: agent_action agent_statuses)

text \<open>Fact: a session refused because another one of the run is under way has used up one of the attempts all the same.\<close>

definition busy_env :: "unit ts_env" where
  "busy_env = sample_env\<lparr>te_active := (\<lambda>_. [''r''])\<rparr>"

lemma refused_session_counts:
  "fst (ats_handle busy_env ''runs/r'' 1 Full ''a'' sample_graph sample_state) =
     Inr (ats_none\<lparr>at_session_id := ''s'', at_message := ''another troubleshoot session is in flight for run r''\<rparr>)"
  "prior_attempts ''a'' (ctx (snd (ats_handle busy_env ''runs/r'' 1 Full ''a'' sample_graph sample_state))) = 1"
proof -
  define st where "st = ts_set busy_env (attempts_key ''a'') (show_int (0 + 1)) sample_state"
  have "show_int 1 = ''1''" by code_simp
  then have c: "ctx st = [(''troubleshoot.attempts.a'', ''1'')]" "world st = ()"
    by (simp_all add: st_def ts_set_def ctx_set_def busy_env_def sample_env_def sample_state_def attempts_key_def)
  have p: "prior_attempts ''a'' (ctx sample_state) = 0" by (simp add: prior_attempts_def sample_state_def ctx_has_def)
  have d: "on_world (create_session_dir busy_env ''runs/r'' []) st = ((''s'', ''runs/r/troubleshoot/session-s''), st)"
    by (simp add: on_world_def create_session_dir_def busy_env_def sample_env_def session_path_def numeral_3_eq_3 touch_file_def)
  have g: "ctx_get (ctx st) ''needle.troubleshoot_session_id'' = []" "ctx_get (ctx st) ''needle.run_guard_reserved'' = []"
    by (simp_all add: c ctx_get_def)
  have r: "run_id_of ''runs/r'' (ctx st) = ''r''" by (simp add: run_id_of_def c ctx_get_def basename_of_def is_slash_def)
  have t: "on_world (try_acquire busy_env ''r'') st = (False, st)"
    by (simp add: on_world_def try_acquire_def busy_env_def)
  have h: "ats_handle busy_env ''runs/r'' 1 Full ''a'' sample_graph sample_state =
     (Inr (ats_none\<lparr>at_session_id := ''s'', at_message := ''another troubleshoot session is in flight for run r''\<rparr>), st)"
    unfolding ats_handle_def Let_def p st_def [symmetric] g(1) d prod.case r t by (simp add: g)
  then show "fst (ats_handle busy_env ''runs/r'' 1 Full ''a'' sample_graph sample_state) =
     Inr (ats_none\<lparr>at_session_id := ''s'', at_message := ''another troubleshoot session is in flight for run r''\<rparr>)" by simp
  have "atoi ''1'' = 1" by code_simp
  then show "prior_attempts ''a'' (ctx (snd (ats_handle busy_env ''runs/r'' 1 Full ''a'' sample_graph sample_state))) = 1"
    by (simp add: h prior_attempts_def c attempts_key_def ctx_has_def ctx_get_def)
qed

end
