(* ===== verification/Pipeline_Run.thy ===== *)
theory Pipeline_Run
  imports Engine_Books
begin

text \<open>
  \<open>PipelineEngine::run\<close> and \<open>resume\<close> of \<open>src/engine/pipeline_engine.cpp\<close>: what happens before
  \<open>execute_loop\<close> starts (\<open>prepare_run\<close>, \<open>prepare_resume\<close>, which end the run or give its first
  session) and after it returned. The context \<open>run\<close> is called with is the state's \<open>ctx\<close>; \<open>resume\<close> makes
  its own from the checkpoint.
\<close>

section \<open>Setting a run up\<close>

definition emit_unresolved :: "unresolved \<Rightarrow> 'w est \<Rightarrow> 'w est" where
  "emit_unresolved u st =
     fold (\<lambda>(i, var). emit VARIABLE_UNRESOLVED i (''Unresolved variable $'' @ var @ '' in node '' @ i)) u st"

definition apply_transforms :: "graph \<Rightarrow> 'w est \<Rightarrow> graph \<times> unresolved \<times> 'w est" where
  "apply_transforms g st = (let (g', u) = apply_variable_expansion (ctx st) g in (g', u, emit_unresolved u st))"

definition is_early :: "string \<Rightarrow> bool" where
  "is_early v = (4 < length v \<and> take 4 v = ''var.'' \<or> starts_with ''context.config.'' v)"

definition read_cycle_limit :: "graph \<Rightarrow> 'w est \<Rightarrow> 'w est" where
  "read_cycle_limit g st =
     (case attr_get_int (gattrs g) ''loop_restart_signature_limit'' of
        Some limit \<Rightarrow> if limit > 0 then st\<lparr>cycle_limit := limit\<rparr> else st
      | None \<Rightarrow> st)"

definition set_graph_path :: "'w config \<Rightarrow> string \<Rightarrow> 'w est \<Rightarrow> 'w est" where
  "set_graph_path cfg other st =
     (if c_graph_file cfg \<noteq> [] then set_ctx cfg ''needle.graph_path'' (c_graph_file cfg) st
      else if other \<noteq> [] then set_ctx cfg ''needle.graph_path'' other st else st)"

definition prepare_run :: "'w config \<Rightarrow> graph \<Rightarrow> 'w est \<Rightarrow> 'w ctl" where
  "prepare_run cfg g st =
     (let st = st\<lparr>start_time := now cfg (world st), cancelled := False, completed := [], outcomes := [],
            fail_sigs := []\<rparr>;
          st = set_graph_path cfg [] st;
          (g', u, st) = apply_transforms g st;
          refs = map (\<lambda>(i, v). i @ '':$'' @ v) (filter (is_early \<circ> snd) u);
          msg = ''Unresolved variable references at run start: '' @ join '', '' refs
      in if \<not> allow_unresolved_vars cfg \<and> refs \<noteq> [] then
           Done (failure msg) (emit PIPELINE_FAILED [] msg st)
         else
           let st = st\<lparr>cur_graph_hash := compute_graph_hash g'\<rparr>;
               st = (if c_logs_root cfg \<noteq> [] then log_effect Pid_Written st else st);
               st = emit PIPELINE_STARTED [] ''Pipeline started'' st
           in case start_node g' of
                None \<Rightarrow> Done (failure ''no start node found'') (emit PIPELINE_FAILED [] ''No start node found'' st)
              | Some start \<Rightarrow>
                  (case exit_node g' of
                     None \<Rightarrow> Done (failure ''no exit node found'') (emit PIPELINE_FAILED [] ''No exit node found'' st)
                   | Some ex \<Rightarrow> goto g' (Some start) ex (read_cycle_limit g' st)))"

text \<open>The call of \<open>execute_loop\<close> at the end of both functions.\<close>

definition launch :: "'w config \<Rightarrow> nat \<Rightarrow> 'w ctl \<Rightarrow> (unit result \<times> 'w est) option" where
  "launch cfg fuel c =
     (case c of
        Done r st \<Rightarrow> Some (r, st)
      | Goto s \<Rightarrow>
          (case execute_loop cfg fuel s of
             None \<Rightarrow> None
           | Some (r, st) \<Rightarrow> Some (r, if c_logs_root cfg \<noteq> [] then log_effect Pid_Removed st else st)))"

definition run :: "'w config \<Rightarrow> nat \<Rightarrow> graph \<Rightarrow> 'w est \<Rightarrow> (unit result \<times> 'w est) option" where
  "run cfg fuel g st = launch cfg fuel (prepare_run cfg g st)"

section \<open>Resuming from a checkpoint\<close>

definition restore_state :: "'w config \<Rightarrow> checkpoint \<Rightarrow> 'w est \<Rightarrow> 'w est" where
  "restore_state cfg cp st =
     (let st = st\<lparr>completed := completed_nodes cp, node_hashes := completed_node_hashes cp,
            outcomes := fold (\<lambda>i. omap_set i SUCCESS) (completed_nodes cp) [],
            fail_sigs := [], start_time := timestamp cp, retries := [], ctx := cp_context cp\<rparr>
      in set_graph_path cfg (graph_file cp) st)"

definition strict_flag :: "'w config \<Rightarrow> graph \<Rightarrow> bool" where
  "strict_flag cfg g =
     (strict_graph_hash cfg \<or> (let s = attr_get (gattrs g) ''strict_hash_check'' in s = ''true'' \<or> s = ''1''))"

text \<open>Where to continue: a completed current node is left by the edge its success would take.\<close>

definition advance_past :: "checkpoint \<Rightarrow> graph \<Rightarrow> node \<Rightarrow> 'w est \<Rightarrow> node option \<times> 'w est" where
  "advance_past cp g n st =
     (if node_id n \<in> set (completed_nodes cp) then
        (let skip = (new_outcome SUCCESS)\<lparr>preferred_label := ctx_get (ctx st) ''human.gate.selected''\<rparr>
         in case select_next_edge n skip (ctx st) g of
              Inl _ \<Rightarrow> (Some n, st)
            | Inr e \<Rightarrow>
                (case find_node g (eto e) of
                   None \<Rightarrow> (None, st)
                 | Some m \<Rightarrow> (Some m, emit STAGE_STARTED []
                     (''Skipping already-completed node: '' @ current_node cp @ '', advancing to: '' @ node_id m) st)))
      else (Some n, st))"

definition announce_resume :: "checkpoint \<Rightarrow> graph \<Rightarrow> 'w est \<Rightarrow> 'w est" where
  "announce_resume cp g st =
     (let st = st\<lparr>cancelled := False\<rparr>;
          st = emit PIPELINE_STARTED [] (''Pipeline resumed from: '' @ current_node cp) st;
          st = fold (\<lambda>i. emit STAGE_COMPLETED i (''Previously completed: '' @ i)) (completed_nodes cp) st
      in read_cycle_limit g st)"

definition prepare_resume :: "'w config \<Rightarrow> checkpoint \<Rightarrow> graph \<Rightarrow> 'w est \<Rightarrow> 'w ctl" where
  "prepare_resume cfg cp g st =
     (let st = restore_state cfg cp st;
          (g', u, st) = apply_transforms g st
      in case (if allow_unresolved_vars cfg then None else find (\<lambda>(i, v). 4 < length v \<and> take 4 v = ''var.'') u) of
           Some (i, v) \<Rightarrow>
             let msg = ''Unresolved $var reference at resume start: '' @ i @ '':$'' @ v
             in Done (failure msg) (emit PIPELINE_FAILED [] msg st)
         | None \<Rightarrow>
             let st = st\<lparr>cur_graph_hash := compute_graph_hash g'\<rparr>;
                 diags = validate_resume cp g' (strict_flag cfg g')
             in case find (\<lambda>d. severity d = Error) diags of
                  Some d \<Rightarrow> Done (failure (''Resume blocked: '' @ message d)) (emit RESUME_WARNING [] (message d) st)
                | None \<Rightarrow>
                    let st = fold (\<lambda>d. emit RESUME_WARNING [] (message d)) diags st
                    in case find_node g' (current_node cp) of
                         None \<Rightarrow> Done (failure (''resume node not found: '' @ current_node cp))
                           (emit PIPELINE_FAILED [] (''Resume node not found: '' @ current_node cp) st)
                       | Some n \<Rightarrow>
                           (case exit_node g' of
                              None \<Rightarrow> Done (failure ''no exit node found'')
                                (emit PIPELINE_FAILED [] ''No exit node found'' st)
                            | Some ex \<Rightarrow>
                                let (cur', st) = advance_past cp g' n (announce_resume cp g' st)
                                in goto g' cur' ex st))"

definition resume :: "'w config \<Rightarrow> nat \<Rightarrow> checkpoint \<Rightarrow> graph \<Rightarrow> 'w est \<Rightarrow> (unit result \<times> 'w est) option" where
  "resume cfg fuel cp g st = launch cfg fuel (prepare_resume cfg cp g st)"

section \<open>Resuming where the run was\<close>

text \<open>The choice of the next edge sees only three fields of the outcome.\<close>

lemma evaluate_cong: "status out = status out' \<Longrightarrow> preferred_label out = preferred_label out' \<Longrightarrow>
    evaluate expr out c = evaluate expr out' c"
  by (simp add: evaluate_iff clause_actual_def)

lemma select_edge_cong:
  assumes "status out = status out'" and "preferred_label out = preferred_label out'"
    and "suggested_next out = suggested_next out'"
  shows "select_edge es out c = select_edge es out' c"
proof -
  have "condition_holds e out c = condition_holds e out' c" for e
    using evaluate_cong [OF assms(1,2)] by (simp add: condition_holds_def split: sum.split)
  then have "filter_by_condition es out c = filter_by_condition es out' c"
    by (simp add: filter_by_condition_eq)
  moreover have "match_preferred_label es out = match_preferred_label es out'"
    "match_suggested_next es out = match_suggested_next es out'" for es
    by (simp_all add: match_preferred_label_def match_suggested_next_def assms(2,3))
  ultimately show ?thesis by (simp only: select_edge_def)
qed

lemma fold_emit_keeps:
  "ctx (fold (\<lambda>x. emit (f x) (g x) (h x)) xs st) = ctx st"
  "completed (fold (\<lambda>x. emit (f x) (g x) (h x)) xs st) = completed st"
  "node_hashes (fold (\<lambda>x. emit (f x) (g x) (h x)) xs st) = node_hashes st"
  "outcomes (fold (\<lambda>x. emit (f x) (g x) (h x)) xs st) = outcomes st"
  "retries (fold (\<lambda>x. emit (f x) (g x) (h x)) xs st) = retries st"
  "fail_sigs (fold (\<lambda>x. emit (f x) (g x) (h x)) xs st) = fail_sigs st"
  "cur_graph_hash (fold (\<lambda>x. emit (f x) (g x) (h x)) xs st) = cur_graph_hash st"
  by (induction xs arbitrary: st) (simp_all add: emit_def)

lemma read_cycle_limit_keeps [simp]:
  "ctx (read_cycle_limit g st) = ctx st" "completed (read_cycle_limit g st) = completed st"
  "node_hashes (read_cycle_limit g st) = node_hashes st" "outcomes (read_cycle_limit g st) = outcomes st"
  "retries (read_cycle_limit g st) = retries st" "fail_sigs (read_cycle_limit g st) = fail_sigs st"
  "cur_graph_hash (read_cycle_limit g st) = cur_graph_hash st"
  by (simp_all add: read_cycle_limit_def split: option.split)

text \<open>The parts of the state a checkpoint carries over.\<close>

definition same_progress :: "'w est \<Rightarrow> 'w est \<Rightarrow> bool" where
  "same_progress st st' = (completed st' = completed st \<and> node_hashes st' = node_hashes st \<and> ctx st' = ctx st)"

text \<open>What it takes to resume from a checkpoint of this graph: the graph's attributes are already expanded,
  the context knows the graph's path, and every node the checkpoint names is in the graph.\<close>

definition resumable :: "'w config \<Rightarrow> checkpoint \<Rightarrow> graph \<Rightarrow> bool" where
  "resumable cfg cp g =
     (apply_variable_expansion (cp_context cp) g = (g, []) \<and> graph_hash cp = compute_graph_hash g \<and>
      (\<forall>i \<in> insert (current_node cp) (set (completed_nodes cp)). find_node g i \<noteq> None) \<and>
      (c_graph_file cfg = [] \<and> graph_file cp = [] \<or> c_graph_file cfg \<noteq> [] \<and>
        ctx_set (size_limit cfg) ''needle.graph_path'' (c_graph_file cfg) (cp_context cp) = cp_context cp))"

lemma resumable_validates: "resumable cfg cp g \<Longrightarrow> \<not> has_errors (validate_resume cp g b)"
  by (auto simp: resumable_def validate_resume_errors)

lemma no_errors_find: "\<not> has_errors ds \<Longrightarrow> find (\<lambda>d. severity d = Error) ds = None"
  by (auto simp: has_errors_def find_None_iff)

lemma prepare_resume_resumable:
  assumes r: "resumable cfg cp g" and n: "find_node g (current_node cp) = Some n" and ex: "exit_node g = Some ex"
  shows "\<exists>st1. prepare_resume cfg cp g st = goto g (fst (advance_past cp g n st1)) ex (snd (advance_past cp g n st1)) \<and>
    completed st1 = completed_nodes cp \<and> node_hashes st1 = completed_node_hashes cp \<and> ctx st1 = cp_context cp \<and>
    outcomes st1 = fold (\<lambda>i. omap_set i SUCCESS) (completed_nodes cp) [] \<and> retries st1 = [] \<and> fail_sigs st1 = [] \<and>
    cur_graph_hash st1 = compute_graph_hash g"
proof -
  define st0 where "st0 = restore_state cfg cp st"
  have st0: "completed st0 = completed_nodes cp" "node_hashes st0 = completed_node_hashes cp"
    "ctx st0 = cp_context cp" "outcomes st0 = fold (\<lambda>i. omap_set i SUCCESS) (completed_nodes cp) []"
    "retries st0 = []" "fail_sigs st0 = []"
    using r by (auto simp: st0_def restore_state_def Let_def set_graph_path_def set_ctx_def resumable_def)
  have tr: "apply_transforms g st0 = (g, [], st0)"
    using r by (simp add: apply_transforms_def st0 resumable_def emit_unresolved_def)
  have ok: "find (\<lambda>d. severity d = Error) (validate_resume cp g (strict_flag cfg g)) = None"
    using no_errors_find [OF resumable_validates [OF r]] .
  define st1 where "st1 = announce_resume cp g (fold (\<lambda>d. emit RESUME_WARNING [] (message d))
      (validate_resume cp g (strict_flag cfg g)) (st0\<lparr>cur_graph_hash := compute_graph_hash g\<rparr>))"
  have "prepare_resume cfg cp g st = goto g (fst (advance_past cp g n st1)) ex (snd (advance_past cp g n st1))"
    unfolding prepare_resume_def Let_def st0_def [symmetric] tr split_conv st1_def
    by (simp add: ok n ex split: prod.split)
  then show ?thesis
    by (intro exI [of _ st1]) (simp add: st1_def announce_resume_def Let_def fold_emit_keeps emit_def st0)
qed

text \<open>What \<open>complete_stage\<close> saves is the progress it leaves behind.\<close>

lemma stage_directory_progress [simp]:
  "same_progress st (write_stage_directory cfg n out st)" "retries (write_stage_directory cfg n out st) = retries st"
  "cur_graph_hash (write_stage_directory cfg n out st) = cur_graph_hash st"
  "Saved cp \<in> set (trace (write_stage_directory cfg n out st)) \<longleftrightarrow> Saved cp \<in> set (trace st)"
  by (auto simp: write_stage_directory_def same_progress_def)

lemma complete_stage_hash: "cur_graph_hash (complete_stage cfg n out st) = cur_graph_hash st"
  by (simp add: complete_stage_def Let_def save_checkpoint_def set_ctx_def apply_ctx_updates_def emit_def
      record_node_completion_def)

lemma complete_stage_saves:
  assumes "has_writer cfg"
  shows "\<exists>cp. Saved cp \<in> set (trace (complete_stage cfg n out st)) \<and> current_node cp = node_id n \<and>
    completed_nodes cp = completed (complete_stage cfg n out st) \<and>
    completed_node_hashes cp = node_hashes (complete_stage cfg n out st) \<and>
    cp_context cp = ctx (complete_stage cfg n out st) \<and> graph_file cp = c_graph_file cfg \<and>
    graph_hash cp = cur_graph_hash (complete_stage cfg n out st)"
proof -
  define st1 where "st1 = record_node_completion n (status out) (set_ctx cfg ''needle.last_outcome.status''
     (status_to_string (status out)) (apply_ctx_updates cfg (context_updates out)
       (emit STAGE_COMPLETED (node_id n) (''Stage completed: '' @ node_id n) st)))"
  have "complete_stage cfg n out st = (if auto_status cfg then write_stage_directory cfg n out else id)
      (log_effect (Saved (make_checkpoint cfg (node_id n) st1)) st1)"
    using assms by (simp add: complete_stage_def Let_def st1_def save_checkpoint_def)
  then show ?thesis
    by (intro exI [of _ "make_checkpoint cfg (node_id n) st1"])
      (simp add: make_checkpoint_def write_stage_directory_def)
qed

section \<open>Properties\<close>

text \<open>C4: a crash loses no work. After a stage that is not a fork has succeeded and the engine has moved on to
  \<open>m\<close>, there is a checkpoint among the effects so far from which \<open>resume\<close> starts at the same node \<open>m\<close>, with
  the same completed nodes, hashes and context, every completed node counted as successful, and fresh retry
  and failure budgets; so the completed stage does not run again. It is assumed that the graph's attributes are
  expanded and its nodes are those of the run, and that the stage's outcome names no next node of its own and
  prefers the label of the last human gate.\<close>

theorem resume_continues:
  assumes "has_writer cfg" and "ntype n \<noteq> PARALLEL" and "find_node g (node_id n) = Some n"
    and "exit_node g = Some ex" and "status out = SUCCESS" and "suggested_next out = []"
    and st1_def: "st1 = complete_stage cfg n out st"
    and "preferred_label out = ctx_get (ctx st1) ''human.gate.selected''"
    and "on_success cfg g n ex out st = goto g (Some m) ex st1"
    and "apply_variable_expansion (ctx st1) g = (g, [])" and "cur_graph_hash st = compute_graph_hash g"
    and "list_all (\<lambda>i. find_node g i \<noteq> None) (completed st1)"
    and "c_graph_file cfg = [] \<or> ctx_set (size_limit cfg) ''needle.graph_path'' (c_graph_file cfg) (ctx st1) = ctx st1"
  shows "\<exists>cp st2. Saved cp \<in> set (trace st1) \<and> prepare_resume cfg cp g st' = goto g (Some m) ex st2 \<and>
    same_progress st1 st2 \<and> retries st2 = [] \<and> fail_sigs st2 = [] \<and> node_id n \<in> set (completed st2) \<and>
    outcomes st2 = fold (\<lambda>i. omap_set i SUCCESS) (completed st2) []"
proof -
  obtain cp where cp: "Saved cp \<in> set (trace st1)" "current_node cp = node_id n" "completed_nodes cp = completed st1"
    "completed_node_hashes cp = node_hashes st1" "cp_context cp = ctx st1" "graph_file cp = c_graph_file cfg"
    "graph_hash cp = cur_graph_hash st1"
    using complete_stage_saves [OF assms(1), of n out st] unfolding st1_def by blast
  have r: "resumable cfg cp g"
    using assms(3,10-13) by (auto simp: resumable_def cp st1_def complete_stage_hash list_all_iff)
  have don: "node_id n \<in> set (completed_nodes cp)"
    unfolding cp st1_def using assms(5) by (auto simp: complete_stage_keeps)
  have "find_node g (current_node cp) = Some n" using assms(3) cp(2) by simp
  from prepare_resume_resumable [OF r this assms(4), of st'] obtain st2 where
    st2: "prepare_resume cfg cp g st' = goto g (fst (advance_past cp g n st2)) ex (snd (advance_past cp g n st2))"
    "completed st2 = completed_nodes cp" "node_hashes st2 = completed_node_hashes cp" "ctx st2 = cp_context cp"
    "outcomes st2 = fold (\<lambda>i. omap_set i SUCCESS) (completed_nodes cp) []" "retries st2 = []" "fail_sigs st2 = []"
    by blast
  have "follow_edge cfg g n ex out st1 = goto g (Some m) ex st1"
    using assms(2,9) by (simp add: on_success_def Let_def st1_def)
  then obtain e where e: "select_next_edge n out (ctx st1) g = Inr e" "find_node g (eto e) = Some m"
    by (auto simp: follow_edge_def goto_def Let_def split: sum.splits option.splits if_splits)
  let ?skip = "(new_outcome SUCCESS)\<lparr>preferred_label := ctx_get (ctx st2) ''human.gate.selected''\<rparr>"
  have "select_next_edge n ?skip (ctx st2) g = select_next_edge n out (ctx st1) g"
    using assms(5,6,8) select_edge_cong [of ?skip out] by (simp add: select_next_edge_def Let_def st2 cp)
  then obtain st3 where st3: "advance_past cp g n st2 = (Some m, st3)" "ctx st3 = ctx st2"
    "completed st3 = completed st2" "node_hashes st3 = node_hashes st2" "outcomes st3 = outcomes st2"
    "retries st3 = retries st2" "fail_sigs st3 = fail_sigs st2"
    using don e by (simp add: advance_past_def Let_def emit_def)
  have "prepare_resume cfg cp g st' = goto g (Some m) ex st3" using st2(1) by (simp add: st3(1))
  then show ?thesis
    using cp st2 st3 don by (intro exI [of _ cp] exI [of _ st3]) (simp add: same_progress_def)
qed

text \<open>Attributes without a dollar sign and without double braces are already expanded.\<close>

definition plain_text :: "string \<Rightarrow> bool" where
  "plain_text v = (CHR ''$'' \<notin> set v \<and> \<not> sublist ''{{'' v)"

lemma plain_attr_expanded:
  assumes "\<forall>v \<in> snd ` set (nattrs n). plain_text v"
  shows "expand_attr c g key (n, u) = (n, u)"
proof -
  have "plain_text (attr_get (nattrs n) key) \<or> attr_get (nattrs n) key = []"
  proof (cases "map_of (nattrs n) key")
    case (Some v)
    then have "v \<in> snd ` set (nattrs n)" by (metis image_eqI map_of_SomeD snd_conv)
    then have "plain_text v" using assms by blast
    with Some show ?thesis by (simp add: attr_get_or_def)
  qed (simp add: attr_get_or_def)
  then show ?thesis
    by (auto simp: expand_attr_def Let_def plain_text_def expand_placeholders_no_brace expand_variables_no_dollar)
qed

lemma plain_graph_expanded:
  assumes "\<forall>n \<in> set (gnodes g). \<forall>v \<in> snd ` set (nattrs n). plain_text v"
  shows "apply_variable_expansion c g = (g, [])"
proof -
  have "expand_node c g n = (n, [])" if "n \<in> set (gnodes g)" for n
  proof -
    have "fold (expand_attr c g) ks (n, []) = (n, [])" for ks
      using assms that by (induction ks) (simp_all add: plain_attr_expanded)
    then show ?thesis by (simp add: expand_node_def)
  qed
  then show ?thesis
    by (simp add: apply_variable_expansion_def map_idI cong: map_cong)
qed

theorem resume_continues_witness:
  "let b = \<lparr>node_id = ''b'', ntype = TOOL, nattrs = [(''goal_gate'', ''true'')]\<rparr>;
     st1 = complete_stage sample_config b (new_outcome SUCCESS)
             (sample_state\<lparr>cur_graph_hash := compute_graph_hash sample_graph\<rparr>)
   in \<exists>cp st2. Saved cp \<in> set (trace st1) \<and>
     prepare_resume sample_config cp sample_graph sample_state =
       goto sample_graph (find_node sample_graph ''z'') \<lparr>node_id = ''z'', ntype = EXIT, nattrs = []\<rparr> st2 \<and>
     node_id b \<in> set (completed st2)"
proof -
  define b :: node where "b = \<lparr>node_id = ''b'', ntype = TOOL, nattrs = [(''goal_gate'', ''true'')]\<rparr>"
  let ?z = "\<lparr>node_id = ''z'', ntype = EXIT, nattrs = []\<rparr>"
  let ?st = "sample_state\<lparr>cur_graph_hash := compute_graph_hash sample_graph\<rparr>"
  let ?st1 = "complete_stage sample_config b (new_outcome SUCCESS) ?st"
  have g: "find_node sample_graph (node_id b) = Some b" by (simp add: sample_nodes b_def)
  have cfg: "has_writer sample_config" "c_graph_file sample_config = []" by (simp_all add: sample_config_def)
  have "\<not> sublist ''{{'' ''true''" by (simp add: sublist_Cons_right)
  then have plain: "apply_variable_expansion c sample_graph = (sample_graph, [])" for c
    by (intro plain_graph_expanded) (simp add: sample_graph_def plain_text_def)
  have label: "preferred_label (new_outcome SUCCESS) = ctx_get (ctx ?st1) ''human.gate.selected''"
    by (simp add: complete_stage_def Let_def sample_config_def sample_state_def new_outcome_def save_checkpoint_def
        write_stage_directory_def emit_def set_ctx_def apply_ctx_updates_def record_node_completion_def ctx_get_def)
  have known: "list_all (\<lambda>i. find_node sample_graph i \<noteq> None) (completed ?st1)"
    by (simp add: complete_stage_keeps new_outcome_def sample_state_def g)
  have move: "on_success sample_config sample_graph b ?z (new_outcome SUCCESS) ?st
      = goto sample_graph (Some ?z) ?z ?st1"
    by (simp add: on_success_def Let_def follow_edge_def b_def sample_select sample_nodes attr_get_or_def)
  have "ntype b \<noteq> PARALLEL" "status (new_outcome SUCCESS) = SUCCESS" "suggested_next (new_outcome SUCCESS) = []"
    "cur_graph_hash ?st = compute_graph_hash sample_graph" "c_graph_file sample_config = []"
    by (simp_all add: b_def new_outcome_def cfg)
  note ok = this
  from resume_continues [OF cfg(1) ok(1) g sample_nodes(3) ok(2,3) refl label move plain ok(4) known disjI1 [OF ok(5)]]
  show ?thesis unfolding Let_def b_def [symmetric] sample_nodes(2) by blast
qed

text \<open>Fact: resuming behind a fork goes into a branch. After a \<open>PARALLEL\<close> stage the running engine jumps to the
  fan-in node; but the checkpoint it saved there is resumed by selecting one of the fork's own edges, so unless
  an edge leads straight to the fan-in node, the resumed run starts a branch that has already run.\<close>

theorem parallel_resume_diverges:
  assumes "ntype n = PARALLEL" and "find_node g (node_id n) = Some n" and "exit_node g = Some ex"
    and "map_of (context_updates out) ''parallel.fan_in_target'' = Some (node_id f)" and "node_id f \<noteq> []"
    and "find_node g (node_id f) = Some f"
    and "resumable cfg cp g" and "current_node cp = node_id n" and "node_id n \<in> set (completed_nodes cp)"
    and "select_next_edge n ((new_outcome SUCCESS)\<lparr>preferred_label := ctx_get (cp_context cp) ''human.gate.selected''\<rparr>)
           (cp_context cp) g = Inr e" and "eto e \<noteq> node_id f"
  shows "(\<exists>st1. on_success cfg g n ex out st = goto g (Some f) ex st1) \<and>
    (\<exists>st2. prepare_resume cfg cp g st' = goto g (find_node g (eto e)) ex st2) \<and>
    e \<in> set (outgoing_edges g (node_id n)) \<and> find_node g (eto e) \<noteq> Some f"
proof (intro conjI)
  show "\<exists>st1. on_success cfg g n ex out st = goto g (Some f) ex st1"
    using assms(1,4-6) by (auto simp: on_success_def Let_def fan_in_target_def)
  have "find_node g (current_node cp) = Some n" using assms(2,8) by simp
  from prepare_resume_resumable [OF assms(7) this assms(3), of st'] obtain st2 where
    "prepare_resume cfg cp g st' = goto g (fst (advance_past cp g n st2)) ex (snd (advance_past cp g n st2))"
    "ctx st2 = cp_context cp" by blast
  moreover from this(2) have "fst (advance_past cp g n st2) = find_node g (eto e)"
    using assms(9,10) by (simp add: advance_past_def Let_def split: option.split)
  ultimately show "\<exists>st2. prepare_resume cfg cp g st' = goto g (find_node g (eto e)) ex st2" by auto
  show "e \<in> set (outgoing_edges g (node_id n))" using select_next_edge_mem [OF assms(10)] by simp
  show "find_node g (eto e) \<noteq> Some f" using assms(11) by (auto dest: find_node_Some)
qed

definition fork_graph :: graph where
  "fork_graph = \<lparr>gname = ''g'',
     gnodes = [\<lparr>node_id = ''f'', ntype = PARALLEL, nattrs = []\<rparr>, \<lparr>node_id = ''x'', ntype = TOOL, nattrs = []\<rparr>,
       \<lparr>node_id = ''j'', ntype = FAN_IN, nattrs = []\<rparr>, \<lparr>node_id = ''z'', ntype = EXIT, nattrs = []\<rparr>],
     gedges = [\<lparr>efrom = ''f'', eto = ''x'', eattrs = []\<rparr>, \<lparr>efrom = ''x'', eto = ''j'', eattrs = []\<rparr>,
       \<lparr>efrom = ''j'', eto = ''z'', eattrs = []\<rparr>], gattrs = []\<rparr>"

theorem parallel_resume_diverges_witness:
  "\<exists>st2. prepare_resume sample_config (empty_checkpoint\<lparr>current_node := ''f'', completed_nodes := [''f''],
       graph_hash := compute_graph_hash fork_graph\<rparr>) fork_graph sample_state
     = goto fork_graph (Some \<lparr>node_id = ''x'', ntype = TOOL, nattrs = []\<rparr>) \<lparr>node_id = ''z'', ntype = EXIT, nattrs = []\<rparr> st2"
proof -
  let ?n = "\<lparr>node_id = ''f'', ntype = PARALLEL, nattrs = []\<rparr>"
  let ?f = "\<lparr>node_id = ''j'', ntype = FAN_IN, nattrs = []\<rparr>"
  let ?z = "\<lparr>node_id = ''z'', ntype = EXIT, nattrs = []\<rparr>"
  let ?cp = "empty_checkpoint\<lparr>current_node := ''f'', completed_nodes := [''f''], graph_hash := compute_graph_hash fork_graph\<rparr>"
  let ?out = "(new_outcome SUCCESS)\<lparr>context_updates := [(''parallel.fan_in_target'', ''j'')]\<rparr>"
  have nodes: "find_node fork_graph ''f'' = Some ?n" "find_node fork_graph ''j'' = Some ?f"
    "find_node fork_graph ''x'' = Some \<lparr>node_id = ''x'', ntype = TOOL, nattrs = []\<rparr>" "exit_node fork_graph = Some ?z"
    by (simp_all add: fork_graph_def find_node_def exit_node_def)
  have "apply_variable_expansion c fork_graph = (fork_graph, [])" for c
    by (rule plain_graph_expanded) (simp add: fork_graph_def)
  then have r: "resumable sample_config ?cp fork_graph"
    by (simp add: resumable_def nodes sample_config_def empty_checkpoint_def)
  have e: "select_next_edge ?n o' c fork_graph = Inr \<lparr>efrom = ''f'', eto = ''x'', eattrs = []\<rparr>" for o' c
    by (simp add: select_next_edge_def outgoing_edges_def fork_graph_def select_single edge_condition_def attr_get_or_def)
  show ?thesis
    using parallel_resume_diverges [of ?n fork_graph ?z ?out ?f sample_config ?cp, OF _ _ nodes(4) _ _ _ r _ _ e] nodes
    by simp
qed

text \<open>Fact: a stale gate decision steers a resumed run. Behind a completed stage that is not a human gate, the
  running engine takes the heavier edge; resumed from its checkpoint it takes the edge whose label is the
  answer an earlier human gate left in the context.\<close>

theorem stale_gate_label_steers_resume:
  "let n = \<lparr>node_id = ''t'', ntype = TOOL, nattrs = []\<rparr>;
     retry_edge = \<lparr>efrom = ''t'', eto = ''x'', eattrs = [(''label'', ''again'')]\<rparr>;
     main_edge = \<lparr>efrom = ''t'', eto = ''y'', eattrs = [(''weight'', ''5'')]\<rparr>;
     g = \<lparr>gname = ''g'', gnodes = [n, \<lparr>node_id = ''x'', ntype = TOOL, nattrs = []\<rparr>, \<lparr>node_id = ''y'', ntype = TOOL, nattrs = []\<rparr>],
       gedges = [retry_edge, main_edge], gattrs = []\<rparr>;
     c = [(''human.gate.selected'', ''again'')];
     cp = empty_checkpoint\<lparr>current_node := ''t'', completed_nodes := [''t''], cp_context := c\<rparr>
   in select_next_edge n (new_outcome SUCCESS) c g = Inr main_edge \<and>
     map_option node_id (fst (advance_past cp g n (sample_state\<lparr>ctx := c\<rparr>))) = Some ''x''"
proof -
  let ?n = "\<lparr>node_id = ''t'', ntype = TOOL, nattrs = []\<rparr>"
  let ?e1 = "\<lparr>efrom = ''t'', eto = ''x'', eattrs = [(''label'', ''again'')]\<rparr>"
  let ?e2 = "\<lparr>efrom = ''t'', eto = ''y'', eattrs = [(''weight'', ''5'')]\<rparr>"
  let ?c = "[(''human.gate.selected'', ''again'')]"
  have lw: "edge_label ?e1 = ''again''" "edge_label ?e2 = []" "edge_weight ?e1 = 0" "edge_weight ?e2 = 5"
    by (simp_all add: edge_label_def attr_get_or_def edge_weight_def attr_get_int_def, code_simp)
  have "edge_condition ?e1 = []" "edge_condition ?e2 = []" by (simp_all add: edge_condition_def attr_get_or_def)
  then have E: "filter_by_condition [?e1, ?e2] out c = [?e1, ?e2]" for out c
    by (simp add: filter_by_condition_def)
  have sel: "select_edge [?e1, ?e2] (new_outcome SUCCESS) ?c = Inr ?e2"
    "select_edge [?e1, ?e2] ((new_outcome SUCCESS)\<lparr>preferred_label := ''again''\<rparr>) ?c = Inr ?e1"
    unfolding select_edge_def E
    by (simp_all add: match_preferred_label_def match_suggested_next_def new_outcome_def pick_highest_weight_def lw)
  then show ?thesis
    by (simp add: Let_def select_next_edge_def outgoing_edges_def advance_past_def ctx_get_def empty_checkpoint_def
        find_node_def)
qed

text \<open>C5: a blocked resume runs nothing. If the validator reports an error for the expanded graph, \<open>resume\<close>
  fails whatever the fuel, no handler is called (the outside world is untouched), and all it does is emit
  events.\<close>

theorem resume_blocked_runs_nothing:
  assumes "apply_transforms g (restore_state cfg cp st) = (g', u, st1)"
    and "has_errors (validate_resume cp g' (strict_flag cfg g'))"
  shows "\<exists>msg st2. resume cfg fuel cp g st = Some (Inl msg, st2) \<and> world st2 = world st \<and>
    (\<exists>evs. trace st2 = trace st @ evs \<and> list_all (\<lambda>e. \<exists>ty i m. e = Event ty i m) evs)"
proof -
  let ?ext = "\<lambda>st2. world st2 = world st \<and>
    (\<exists>evs. trace st2 = trace st @ evs \<and> list_all (\<lambda>e. \<exists>ty i m. e = Event ty i m) evs)"
  have emits: "?ext (emit ty i m st2)" if "?ext st2" for ty i m st2
    using that by (auto simp: emit_def)
  have "?ext (restore_state cfg cp st)"
    by (simp add: restore_state_def Let_def set_graph_path_def set_ctx_def)
  then have "?ext (emit_unresolved v (restore_state cfg cp st))" for v
  proof (induction v rule: rev_induct)
    case (snoc iv v)
    then show ?case using emits by (cases iv) (simp add: emit_unresolved_def)
  qed (simp add: emit_unresolved_def)
  then have st1: "?ext st1" using assms(1) by (auto simp: apply_transforms_def Let_def split: prod.splits)
  obtain d where d: "find (\<lambda>d. severity d = Error) (validate_resume cp g' (strict_flag cfg g')) = Some d"
    using assms(2) by (cases "find (\<lambda>d. severity d = Error) (validate_resume cp g' (strict_flag cfg g'))")
      (auto simp: has_errors_def find_None_iff)
  have "?ext (st1\<lparr>cur_graph_hash := h\<rparr>)" for h using st1 by simp
  then show ?thesis
    using emits st1 unfolding resume_def prepare_resume_def Let_def assms(1) split_conv d
    by (auto simp: launch_def d split: option.splits)
qed

theorem resume_blocked_runs_nothing_witness:
  "\<exists>msg st2. resume sample_config 0 (empty_checkpoint\<lparr>current_node := ''q''\<rparr>) sample_graph sample_state = Some (Inl msg, st2) \<and>
     list_all (\<lambda>e. \<exists>ty i m. e = Event ty i m) (trace st2)"
proof -
  let ?cp = "empty_checkpoint\<lparr>current_node := ''q''\<rparr>"
  obtain g' u st1 where tr: "apply_transforms sample_graph (restore_state sample_config ?cp sample_state) = (g', u, st1)"
    by (metis prod.exhaust)
  have "apply_variable_expansion c sample_graph = (sample_graph, [])" for c
    by (rule plain_graph_expanded) (simp add: sample_graph_def plain_text_def sublist_Cons_right)
  with tr have "g' = sample_graph" by (simp add: apply_transforms_def)
  then have "has_errors (validate_resume ?cp g' (strict_flag sample_config g'))"
    by (simp add: validate_resume_errors find_node_def sample_graph_def)
  from resume_blocked_runs_nothing [OF tr this] show ?thesis by (auto simp: sample_state_def)
qed

end
