(* ===== verification/Engine_Termination.thy ===== *)
theory Engine_Termination
  imports Pipeline_Run
begin

text \<open>
  Nothing in the code bounds a run: retry targets, goal gates, restart edges and troubleshooting can all
  send it back. This theory gives the class of pipelines that always finish: every edge descends in some
  ranking of the nodes, no retry target is configured, and handlers leave the retry counters alone.
\<close>

section \<open>Descending pipelines\<close>

definition descends :: "(string \<Rightarrow> nat) \<Rightarrow> graph \<Rightarrow> bool" where
  "descends rank g =
     ((\<forall>e \<in> set (gedges g). rank (eto e) < rank (efrom e)) \<and>
      (\<forall>n \<in> set (gnodes g). ntype n \<noteq> PARALLEL \<and> list_all (\<lambda>t. t = []) (retry_candidates n g)) \<and>
      attr_get (gattrs g) ''retry_target'' = [] \<and> attr_get (gattrs g) ''fallback_retry_target'' = [])"

definition keeps_retries :: "'w config \<Rightarrow> bool" where
  "keeps_retries cfg =
     (\<not> troubleshoot_on cfg \<and>
      (\<forall>t h n g st. handlers cfg t = Some h \<longrightarrow> retries (snd (h n g st)) = retries st))"

definition remaining :: "node \<Rightarrow> retry_controller \<Rightarrow> nat" where
  "remaining n rc = nat (max_retries (policy_from_attributes (nattrs n)) - attempts rc (node_id n))"

text \<open>Closer to the end than node \<open>n\<close> with retry counters \<open>rc\<close>.\<close>

definition closer :: "(string \<Rightarrow> nat) \<Rightarrow> graph \<Rightarrow> node \<Rightarrow> retry_controller \<Rightarrow> 'w session \<Rightarrow> bool" where
  "closer rank g n rc s =
     (sgraph s = g \<and>
      (case scur s of
         None \<Rightarrow> True
       | Some m \<Rightarrow> m \<in> set (gnodes g) \<and>
           (rank (node_id m) < rank (node_id n) \<or> m = n \<and> remaining n (retries (sst s)) < remaining n rc)))"

abbreviation advances :: "(string \<Rightarrow> nat) \<Rightarrow> graph \<Rightarrow> node \<Rightarrow> retry_controller \<Rightarrow> 'w ctl \<Rightarrow> bool" where
  "advances rank g n rc \<equiv> ctl_all (closer rank g n rc) (\<lambda>r st. True)"

lemma advances_edge:
  assumes "descends rank g" and "select_next_edge n out c g = Inr e"
  shows "advances rank g n rc (goto g (find_node g (eto e)) ex st)"
proof -
  have "rank (eto e) < rank (node_id n)"
    using assms select_next_edge_mem [OF assms(2)] by (auto simp: descends_def)
  then show ?thesis
    by (auto simp: goto_def closer_def dest: find_node_Some split: option.split)
qed

lemma advances_edge_Some:
  "descends rank g \<Longrightarrow> select_next_edge n out c g = Inr e \<Longrightarrow> find_node g (eto e) = Some m \<Longrightarrow>
   advances rank g n rc (goto g (Some m) ex st)"
  using advances_edge [of rank g n out c e rc ex st] by simp

lemma advances_follow: "descends rank g \<Longrightarrow> advances rank g n rc (follow_edge cfg g n ex out st)"
  by (auto simp: follow_edge_def Let_def intro: advances_edge_Some split: sum.split option.split)

lemma advances_success:
  "descends rank g \<Longrightarrow> n \<in> set (gnodes g) \<Longrightarrow> advances rank g n rc (on_success cfg g n ex out st)"
  by (simp add: on_success_def Let_def advances_follow descends_def [THEN iffD1])

lemma first_target_empty: "list_all (\<lambda>t. t = []) ts \<Longrightarrow> first_target g ts = None"
  by (induction ts) auto

lemma advances_retry:
  assumes "descends rank g" and "n \<in> set (gnodes g)"
  shows "advances rank g n (retries st) (on_retry cfg g n ex out st)"
proof -
  have "remaining n (record_attempt (node_id n) (retries st)) < remaining n (retries st)"
    if "should_retry (retries st) (node_id n) (policy_from_attributes (nattrs n))"
    using that by (simp add: remaining_def should_retry_def attempts_record)
  with assms show ?thesis
    by (auto simp: on_retry_def Let_def goto_def closer_def emit_def intro: advances_success)
qed

lemma advances_recover:
  assumes "descends rank g" and "n \<in> set (gnodes g)"
  shows "advances rank g n rc (recover cfg g n ex out msg st)"
proof -
  have none: "first_target g (retry_candidates n g) = None"
    using assms by (intro first_target_empty) (simp add: descends_def)
  show ?thesis
    unfolding recover_def Let_def none
    by (auto intro: advances_edge [OF assms(1)] split: sum.split)
qed

lemma advances_stage:
  assumes d: "descends rank g" and n: "n \<in> set (gnodes g)" and k: "keeps_retries cfg"
  shows "advances rank g n (retries st) (run_stage cfg g n ex st)"
proof -
  define st1 where "st1 = emit STAGE_STARTED (node_id n) (''Stage started: '' @ node_id n) st"
  show ?thesis
  proof (cases "handlers cfg (handler_type n)")
    case None
    then show ?thesis by (simp add: run_stage_def Let_def)
  next
    case (Some h)
    obtain r st2 where h: "h n g (apply_common_node_context cfg n g st1) = (r, st2)" by (rule prod.exhaust)
    have "retries st2 = retries (apply_common_node_context cfg n g st1)"
      using k Some h unfolding keeps_retries_def by (metis snd_conv)
    then have rc: "retries st2 = retries st"
      by (simp add: st1_def apply_common_node_context_def Let_def set_ctx_def emit_def)
    have fail: "advances rank g n (retries st) (on_failure cfg g n ex out st2)" for out
      using k by (simp add: on_failure_def Let_def troubleshoot_enabled_def keeps_retries_def advances_recover [OF d n])
    show ?thesis
      using advances_retry [OF d n, of st2 cfg ex] fail
      unfolding run_stage_def Let_def st1_def [symmetric]
      by (simp add: Some h rc advances_success [OF d n] split: sum.split)
  qed
qed

lemma finish_ends:
  assumes "descends rank (sgraph s)"
  shows "\<exists>r st. finish cfg s = Done r st"
proof -
  have "list_all (\<lambda>t. t = []) (gate_candidates i (sgraph s))" for i
    using assms by (auto simp: gate_candidates_def descends_def dest: find_node_Some split: option.split)
  then have "first_target (sgraph s) (gate_candidates i (sgraph s)) = None" for i
    by (rule first_target_empty)
  then show ?thesis by (simp add: finish_def Let_def)
qed

lemma engine_step_ends_or_advances:
  assumes d: "descends rank (sgraph s)" and k: "keeps_retries cfg"
    and n: "scur s = Some n" "n \<in> set (gnodes (sgraph s))"
  shows "advances rank (sgraph s) n (retries (sst s)) (engine_step cfg s)"
proof -
  have fin: "advances rank (sgraph s) n rc (finish cfg (s\<lparr>sst := st\<rparr>))" for st rc
    using finish_ends [of rank "s\<lparr>sst := st\<rparr>" cfg] d by auto
  then have "advances rank (sgraph s) n rc (finish cfg s)" for rc
    using fin [of rc "sst s"] by simp
  moreover have "advances rank (sgraph s) n (retries (sst s)) (run_stage cfg (sgraph s) n ex st)"
    if "retries st = retries (sst s)" for ex st
    using advances_stage [OF d n(2) k, of st ex] that by simp
  ultimately show ?thesis
    by (simp add: engine_step_def n(1) Let_def fin poll_keeps emit_def split: option.split prod.split)
qed

theorem engine_ends_descending:
  assumes d: "descends rank g" and k: "keeps_retries cfg"
  shows "sgraph s = g \<Longrightarrow> (case scur s of None \<Rightarrow> True | Some n \<Rightarrow> n \<in> set (gnodes g)) \<Longrightarrow>
    \<exists>r st. engine_ends cfg s r st"
proof (induction s rule: wf_induct_rule [OF wf_measures [of "[\<lambda>s. case scur s of None \<Rightarrow> 0 | Some n \<Rightarrow> Suc (rank (node_id n)),
      \<lambda>s. case scur s of None \<Rightarrow> 0 | Some n \<Rightarrow> remaining n (retries (sst s))]"]])
  case (1 s)
  show ?case
  proof (cases "scur s")
    case None
    then have "\<exists>r st. engine_step cfg s = Done r st"
      using finish_ends [of rank s cfg] d 1(2) by (simp add: engine_step_def)
    then show ?thesis by (auto intro: ends_now)
  next
    case (Some n)
    with 1(2,3) have "advances rank g n (retries (sst s)) (engine_step cfg s)"
      using engine_step_ends_or_advances [of rank s cfg n] d k by simp
    then show ?thesis
    proof (cases "engine_step cfg s")
      case (Done r st)
      then show ?thesis by (auto intro: ends_now)
    next
      case (Goto s')
      with \<open>advances rank g n _ _\<close> have c: "closer rank g n (retries (sst s)) s'" by simp
      have "\<exists>r st. engine_ends cfg s' r st"
        using c Some by (intro 1(1)) (auto simp: closer_def split: option.splits)
      with Goto show ?thesis by (auto intro: ends_later)
    qed
  qed
qed

text \<open>C2: descending pipelines finish. If every edge leads to a node of smaller rank, no retry target is
  configured, there is no fork, and the handlers leave the retry counters alone, then whatever outcomes the
  handlers return, enough fuel gives the result of \<open>run\<close>.\<close>

theorem run_terminates:
  assumes "descends rank (fst (apply_transforms g (set_graph_path cfg [] (st\<lparr>start_time := now cfg (world st),
      cancelled := False, completed := [], outcomes := [], fail_sigs := []\<rparr>))))"
    and "keeps_retries cfg"
  shows "\<exists>k r st'. run cfg k g st = Some (r, st')"
proof (cases "prepare_run cfg g st")
  case (Done r st1)
  then show ?thesis by (simp add: run_def launch_def)
next
  case (Goto s)
  then have s: "sgraph s = fst (apply_transforms g (set_graph_path cfg [] (st\<lparr>start_time := now cfg (world st),
      cancelled := False, completed := [], outcomes := [], fail_sigs := []\<rparr>)))"
    "\<exists>n. scur s = Some n \<and> n \<in> set (gnodes (sgraph s))"
    by (auto simp: prepare_run_def Let_def goto_def dest: start_node_Some split: prod.splits option.splits if_splits)
  then obtain r st1 where "engine_ends cfg s r st1"
    using engine_ends_descending [OF assms, of s] by auto
  then obtain k where "execute_loop cfg k s = Some (r, st1)" using execute_loop_iff by blast
  with Goto show ?thesis by (auto simp: run_def launch_def intro: exI [of _ k])
qed

theorem run_terminates_witness: "\<exists>k r st'. run sample_config k sample_graph sample_state = Some (r, st')"
proof (rule run_terminates)
  have "apply_variable_expansion c sample_graph = (sample_graph, [])" for c
    by (rule plain_graph_expanded) (simp add: sample_graph_def plain_text_def sublist_Cons_right)
  then show "descends (\<lambda>i. if i = ''a'' then 2 else if i = ''b'' then 1 else 0) (fst (apply_transforms sample_graph (set_graph_path sample_config []
      (sample_state\<lparr>start_time := now sample_config (world sample_state), cancelled := False, completed := [],
         outcomes := [], fail_sigs := []\<rparr>))))"
    by (simp add: apply_transforms_def descends_def sample_graph_def retry_candidates_def attr_get_or_def)
  show "keeps_retries sample_config" by (simp add: keeps_retries_def sample_config_def)
qed

end
