(* ===== verification/Subgraph.thy ===== *)
theory Subgraph
  imports Engine_Termination
begin

text \<open>
  \<open>PipelineEngine::execute_subgraph\<close> of \<open>src/engine/pipeline_engine.cpp\<close>, the loop that fork branches and
  manager loops run. The context it works on is an argument in the code and the \<open>ctx\<close> field of the state
  here (the handler it is called from puts the branch's context there); the retry controller is the branch's
  own (\<open>Some rc\<close>) or the engine's (\<open>None\<close>).
\<close>

section \<open>The loop\<close>

type_synonym branch_retry = "retry_controller option"

definition rc_of :: "branch_retry \<Rightarrow> 'w est \<Rightarrow> retry_controller" where
  "rc_of brc st = (case brc of Some rc \<Rightarrow> rc | None \<Rightarrow> retries st)"

definition rc_record :: "string \<Rightarrow> branch_retry \<Rightarrow> 'w est \<Rightarrow> branch_retry \<times> 'w est" where
  "rc_record i brc st =
     (case brc of
        Some rc \<Rightarrow> (Some (record_attempt i rc), st)
      | None \<Rightarrow> (None, st\<lparr>retries := record_attempt i (retries st)\<rparr>))"

datatype sub_ctl = Return "outcome result" | Continue "node option" outcome

type_synonym 'w sub_state = "branch_retry \<times> 'w est"

text \<open>A stage that has returned \<open>FAILURE\<close>, and one that has succeeded.\<close>

definition sub_fail :: "'w config \<Rightarrow> node \<Rightarrow> outcome \<Rightarrow> 'w est \<Rightarrow> 'w est" where
  "sub_fail cfg n out st =
     record_node_completion n (status out)
       (emit STAGE_FAILED (node_id n) (''Stage failed: '' @ node_id n @ '': '' @ out_text out)
         (write_stage_directory cfg n out st))"

definition sub_complete :: "'w config \<Rightarrow> node \<Rightarrow> outcome \<Rightarrow> 'w est \<Rightarrow> 'w est" where
  "sub_complete cfg n out st =
     (let st = emit STAGE_COMPLETED (node_id n) (''Stage completed: '' @ node_id n) st;
          st = apply_ctx_updates cfg (context_updates out) st;
          st = record_node_completion n (status out) st
      in if auto_status cfg then write_stage_directory cfg n out st else st)"

text \<open>The first part of both stages of the loop: the handler is looked up and called.\<close>

definition sub_call :: "'w config \<Rightarrow> graph \<Rightarrow> node \<Rightarrow> 'w est \<Rightarrow> outcome result \<times> 'w est" where
  "sub_call cfg g n st =
     (let st = emit STAGE_STARTED (node_id n) (''Stage started: '' @ node_id n) st in
      case handlers cfg (handler_type n) of
        None \<Rightarrow> (failure (''no handler for type: '' @ handler_type n),
                 emit STAGE_FAILED (node_id n) (''No handler for type: '' @ handler_type n) st)
      | Some handle \<Rightarrow>
          (case handle n g st of
             (Inl e, st) \<Rightarrow> (Inl e, emit STAGE_FAILED (node_id n) (''Handler error: '' @ e) st)
           | (Inr out, st) \<Rightarrow> (Inr out, st)))"

definition sub_step :: "'w config \<Rightarrow> graph \<Rightarrow> node \<Rightarrow> outcome \<Rightarrow> 'w sub_state \<Rightarrow> sub_ctl \<times> 'w sub_state" where
  "sub_step cfg g n last_outcome s =
     (let (brc, st) = s; (r, st) = sub_call cfg g n st in
      case r of
        Inl e \<Rightarrow> (Return (Inl e), brc, st)
      | Inr out \<Rightarrow>
          if status out = FAILURE then (Return (Inr out), brc, sub_fail cfg n out st)
          else if status out = RETRY then
            if should_retry (rc_of brc st) (node_id n) (policy_from_attributes (nattrs n)) then
              let (brc, st) = rc_record (node_id n) brc st;
                  st = emit STAGE_RETRYING (node_id n) (''Retrying: '' @ node_id n) st;
                  st = log_effect (Backed_Off (node_id n) (attempts (rc_of brc st) (node_id n))) st
              in (Continue (Some n) last_outcome, brc, st)
            else
              let msg = ''retries exhausted for node: '' @ node_id n
              in (Return (Inr ((new_outcome FAILURE)\<lparr>out_text := msg\<rparr>)), brc,
                  emit STAGE_FAILED (node_id n) msg st)
          else
            let st = sub_complete cfg n out st in
            case select_next_edge n out (ctx st) g of
              Inl e \<Rightarrow> (Return (Inl (''edge selection failed: '' @ e)), brc, st)
            | Inr e \<Rightarrow> (Continue (find_node g (eto e)) out, brc, st))"

text \<open>Inclusive end-node execution: no retries here.\<close>

definition sub_end :: "'w config \<Rightarrow> graph \<Rightarrow> node \<Rightarrow> 'w est \<Rightarrow> outcome result \<times> 'w est" where
  "sub_end cfg g n st =
     (let (r, st) = sub_call cfg g n st in
      case r of
        Inl e \<Rightarrow> (Inl e, st)
      | Inr out \<Rightarrow>
          if status out = FAILURE then (Inr out, sub_fail cfg n out st)
          else (Inr out, sub_complete cfg n out st))"

definition sub_finish ::
  "'w config \<Rightarrow> graph \<Rightarrow> string \<Rightarrow> bool \<Rightarrow> node option \<Rightarrow> outcome \<Rightarrow> 'w est \<Rightarrow> outcome result \<times> 'w est" where
  "sub_finish cfg g end_id inclusive_end c last_outcome st =
     (case c of
        None \<Rightarrow> (Inr last_outcome, st)
      | Some n \<Rightarrow>
          if inclusive_end \<and> node_id n = end_id then
            let st = poll cfg st in
            if cancelled st then (Inr last_outcome, st) else sub_end cfg g n st
          else (Inr last_outcome, st))"

fun sub_loop ::
  "'w config \<Rightarrow> graph \<Rightarrow> string \<Rightarrow> bool \<Rightarrow> nat \<Rightarrow> node option \<Rightarrow> outcome \<Rightarrow> 'w sub_state \<Rightarrow>
   (outcome result \<times> 'w sub_state) option" where
  "sub_loop cfg g end_id incl 0 c last_outcome s = None"
| "sub_loop cfg g end_id incl (Suc k) c last_outcome (brc, st) =
     (let st = (case c of Some n \<Rightarrow> if node_id n \<noteq> end_id then poll cfg st else st | None \<Rightarrow> st);
          fin = (let (r, st) = sub_finish cfg g end_id incl c last_outcome st in Some (r, brc, st))
      in case c of
           None \<Rightarrow> fin
         | Some n \<Rightarrow>
             if node_id n = end_id \<or> cancelled st then fin
             else (case sub_step cfg g n last_outcome (brc, st) of
                     (Return r, s) \<Rightarrow> Some (r, s)
                   | (Continue c' out, s) \<Rightarrow> sub_loop cfg g end_id incl k c' out s))"

definition execute_subgraph ::
  "'w config \<Rightarrow> nat \<Rightarrow> graph \<Rightarrow> string \<Rightarrow> string \<Rightarrow> branch_retry \<Rightarrow> bool \<Rightarrow> 'w est \<Rightarrow>
   (outcome result \<times> 'w sub_state) option" where
  "execute_subgraph cfg fuel g start_id end_id brc incl st =
     (case find_node g start_id of
        None \<Rightarrow> Some (Inl (''start node not found: '' @ start_id), brc, st)
      | Some n \<Rightarrow> sub_loop cfg g end_id incl fuel (Some n) (new_outcome SUCCESS) (brc, st))"

section \<open>The interface of a subgraph executor\<close>

text \<open>
  What \<open>ParallelHandler\<close> and \<open>ManagerLoopHandler\<close> rely on: the bookkeeping is kept, and a run that stops before
  its end node reports no \<open>RETRY\<close>. \<open>P\<close> is the invariant of the executor's state.
\<close>

locale subgraph_executor =
  fixes exec :: "graph \<Rightarrow> string \<Rightarrow> string \<Rightarrow> branch_retry \<Rightarrow> bool \<Rightarrow> 'w est \<Rightarrow> (outcome result \<times> 'w sub_state) option"
    and P :: "'w est \<Rightarrow> bool" and C :: "retry_controller \<Rightarrow> bool"
  assumes keeps: "P st \<Longrightarrow> (\<forall>rc. brc = Some rc \<longrightarrow> C rc) \<Longrightarrow> exec g a b brc incl st = Some (r, brc', st') \<Longrightarrow> P st'"
    and no_retry: "exec g a b brc False st = Some (Inr out, brc', st') \<Longrightarrow> status out \<noteq> RETRY"
begin

lemma keeps_fresh: "P st \<Longrightarrow> C [] \<Longrightarrow> exec g a b (Some []) incl st = Some (r, brc', st') \<Longrightarrow> P st'"
  by (rule keeps) auto

lemma keeps_shared: "P st \<Longrightarrow> exec g a b None incl st = Some (r, brc', st') \<Longrightarrow> P st'"
  by (rule keeps) auto

end

section \<open>The engine is such an executor\<close>

lemma est_ok_sub_call:
  assumes k: "keeps_books cfg" and st: "est_ok st" and c: "sub_call cfg g n st = (r, st')"
  shows "est_ok st'"
proof -
  define st1 where "st1 = emit STAGE_STARTED (node_id n) (''Stage started: '' @ node_id n) st"
  have st1: "est_ok st1" using st by (simp add: st1_def)
  show ?thesis
  proof (cases "handlers cfg (handler_type n)")
    case None
    with c st1 show ?thesis unfolding sub_call_def Let_def st1_def [symmetric] by auto
  next
    case (Some h)
    obtain r2 st2 where h: "h n g st1 = (r2, st2)" by (rule prod.exhaust)
    then have "est_ok st2" using k Some st1 unfolding keeps_books_def by (metis snd_conv)
    with c Some h show ?thesis
      unfolding sub_call_def Let_def st1_def [symmetric] by (auto split: sum.splits)
  qed
qed

lemma est_ok_sub_fail [est_intros]: "est_ok st \<Longrightarrow> est_ok (sub_fail cfg n out st)"
  by (simp add: sub_fail_def est_intros)

lemma est_ok_sub_complete [est_intros]: "est_ok st \<Longrightarrow> est_ok (sub_complete cfg n out st)"
  by (simp add: sub_complete_def Let_def est_intros)

definition sub_ok :: "'w sub_state \<Rightarrow> bool" where
  "sub_ok s = (est_ok (snd s) \<and> (case fst s of Some rc \<Rightarrow> counters_ok rc | None \<Rightarrow> True))"

lemma sub_ok_step:
  assumes k: "keeps_books cfg" and s: "sub_ok (brc, st)"
  shows "sub_ok (snd (sub_step cfg g n out (brc, st)))"
proof -
  obtain r st1 where c: "sub_call cfg g n st = (r, st1)" by (rule prod.exhaust)
  have st1: "est_ok st1" using est_ok_sub_call [OF k _ c] s by (simp add: sub_ok_def)
  have log: "est_ok (log_effect (Backed_Off i a) st)" if "est_ok st" for i a and st :: "'a est"
    using that by (intro est_ok_log) auto
  show ?thesis
    using s st1
    by (auto simp: sub_step_def c Let_def sub_ok_def rc_record_def rc_of_def intro!: log est_intros counters_ok_record
        split: sum.split option.splits)
qed

lemma sub_ok_finish:
  assumes k: "keeps_books cfg" and st: "est_ok st" and f: "sub_finish cfg g b incl c out st = (r, st')"
  shows "est_ok st'"
proof -
  have "est_ok (snd (sub_end cfg g n st))" if "est_ok st" for n st
  proof -
    obtain r st1 where c: "sub_call cfg g n st = (r, st1)" by (rule prod.exhaust)
    from est_ok_sub_call [OF k that c] show ?thesis
      by (auto simp: sub_end_def c intro: est_intros split: sum.split)
  qed
  then have "est_ok (snd (sub_finish cfg g b incl c out st))"
    using st by (simp add: sub_finish_def Let_def est_ok_poll split: option.split)
  with f show ?thesis by simp
qed

lemma sub_loop_ok:
  "sub_loop cfg g b incl k c out s = Some (r, s') \<Longrightarrow> keeps_books cfg \<Longrightarrow> sub_ok s \<Longrightarrow> sub_ok s'"
proof (induction cfg g b incl k c out s rule: sub_loop.induct)
  case (2 cfg g b incl k c out brc st)
  define st1 where "st1 = (case c of Some n \<Rightarrow> if node_id n \<noteq> b then poll cfg st else st | None \<Rightarrow> st)"
  have st1: "sub_ok (brc, st1)"
    using "2.prems"(3) by (simp add: st1_def sub_ok_def est_ok_poll split: option.split)
  have fin: "sub_ok s'" if "(let (r, st) = sub_finish cfg g b incl c out st1 in Some (r, brc, st)) = Some (r, s')"
    using that sub_ok_finish [OF "2.prems"(2), of st1 g b incl c out] st1
    by (auto simp: sub_ok_def split: prod.splits)
  note eq = "2.prems"(1) [unfolded sub_loop.simps(2) Let_def [of "case c of _ \<Rightarrow> _"], folded st1_def]
  show ?case
  proof (cases c)
    case None
    with eq fin show ?thesis by simp
  next
    case (Some n)
    show ?thesis
    proof (cases "node_id n = b \<or> cancelled st1")
      case True
      with eq fin Some show ?thesis by auto
    next
      case False
      obtain ctl s1 where step: "sub_step cfg g n out (brc, st1) = (ctl, s1)" by (rule prod.exhaust)
      have s1: "sub_ok s1" using sub_ok_step [OF "2.prems"(2) st1, of g n out] step by simp
      show ?thesis
      proof (cases ctl)
        case (Return r')
        with eq Some False step s1 show ?thesis by (simp add: Let_def)
      next
        case (Continue c' out')
        with eq Some False step have "sub_loop cfg g b incl k c' out' s1 = Some (r, s')" by (simp add: Let_def)
        then show ?thesis
          using "2.IH" [OF st1_def refl Some _ step [symmetric] Continue] False "2.prems"(2) s1 by simp
      qed
    qed
  qed
qed simp

lemma execute_subgraph_ok:
  assumes "execute_subgraph cfg fuel g a b brc incl st = Some (r, s')" and "keeps_books cfg" and "sub_ok (brc, st)"
  shows "sub_ok s'"
proof (cases "find_node g a")
  case (Some n)
  with assms(1) have "sub_loop cfg g b incl fuel (Some n) (new_outcome SUCCESS) (brc, st) = Some (r, s')"
    by (simp add: execute_subgraph_def)
  then show ?thesis using assms(2,3) by (rule sub_loop_ok)
qed (use assms in \<open>simp add: execute_subgraph_def sub_ok_def\<close>)

text \<open>The outcomes a loop carries along and returns.\<close>

lemma sub_step_outcome:
  "fst (sub_step cfg g n out s) = Return (Inr out') \<Longrightarrow> status out' \<noteq> RETRY"
  "fst (sub_step cfg g n out s) = Continue c out' \<Longrightarrow> status out \<noteq> RETRY \<Longrightarrow> status out' \<noteq> RETRY"
  by (auto simp: sub_step_def Let_def split: prod.splits sum.splits if_splits)

lemma sub_loop_outcome:
  "sub_loop cfg g b incl k c out s = Some (Inr out', s') \<Longrightarrow> incl = False \<Longrightarrow> status out \<noteq> RETRY \<Longrightarrow> status out' \<noteq> RETRY"
proof (induction cfg g b incl k c out s rule: sub_loop.induct)
  case (2 cfg g b incl k c out brc st)
  define st1 where "st1 = (case c of Some n \<Rightarrow> if node_id n \<noteq> b then poll cfg st else st | None \<Rightarrow> st)"
  have fin: "sub_finish cfg g b incl c out st1 = (Inr out, st1)"
    using "2.prems"(2) by (simp add: sub_finish_def split: option.split)
  note eq = "2.prems"(1) [unfolded sub_loop.simps(2) Let_def [of "case c of _ \<Rightarrow> _"], folded st1_def,
    unfolded fin Let_def split_conv]
  show ?case
  proof (cases c)
    case None
    with eq "2.prems"(3) show ?thesis by simp
  next
    case (Some n)
    show ?thesis
    proof (cases "node_id n = b \<or> cancelled st1")
      case True
      with eq Some "2.prems"(3) show ?thesis by auto
    next
      case False
      obtain ctl s1 where step: "sub_step cfg g n out (brc, st1) = (ctl, s1)" by (rule prod.exhaust)
      note o = sub_step_outcome [of cfg g n out "(brc, st1)", unfolded step fst_conv]
      show ?thesis
      proof (cases ctl)
        case (Return r')
        with eq Some False step o(1) show ?thesis by auto
      next
        case (Continue c' next_out)
        with eq Some False step have "sub_loop cfg g b incl k c' next_out s1 = Some (Inr out', s')" by auto
        then show ?thesis
          using "2.IH" [OF st1_def refl Some _ step [symmetric] Continue] False "2.prems"(2,3) o(2) Continue by auto
      qed
    qed
  qed
qed simp

lemma execute_subgraph_outcome:
  "execute_subgraph cfg fuel g a b brc False st = Some (Inr out, s') \<Longrightarrow> status out \<noteq> RETRY"
  by (auto simp: execute_subgraph_def new_outcome_def split: option.splits
      dest!: sub_loop_outcome [where incl = False, OF _ refl])

interpretation engine_executor: subgraph_executor "execute_subgraph cfg fuel" "\<lambda>st. keeps_books cfg \<and> est_ok st" counters_ok
  for cfg fuel
proof
  fix brc and st st' :: "'a est" and g a b incl r brc'
  assume "keeps_books cfg \<and> est_ok st" "\<forall>rc. brc = Some rc \<longrightarrow> counters_ok rc"
    and e: "execute_subgraph cfg fuel g a b brc incl st = Some (r, brc', st')"
  then have "sub_ok (brc, st)" "keeps_books cfg" by (auto simp: sub_ok_def split: option.split)
  with execute_subgraph_ok [OF e] show "keeps_books cfg \<and> est_ok st'" by (simp add: sub_ok_def)
qed (rule execute_subgraph_outcome)

section \<open>Properties\<close>

text \<open>C6: a branch's run keeps the engine's bookkeeping (no node completed twice, hashes and outcomes for all
  completed nodes, failure counts below the limit, consistent checkpoints), keeps its retry counters within
  \<open>int\<close>, and, as it stops before the fan-in, reports no \<open>RETRY\<close>.\<close>

theorem branch_run_contract:
  assumes "keeps_books cfg" and "est_ok st"
    and "execute_subgraph cfg fuel g a b (Some []) incl st = Some (r, brc', st')"
  shows "est_ok st' \<and> (case r of Inl e \<Rightarrow> True | Inr out \<Rightarrow> incl \<or> status out \<noteq> RETRY)"
proof
  show "est_ok st'"
    using engine_executor.keeps_fresh [OF _ _ assms(3)] assms(1,2) by (simp add: counters_ok_def)
  show "case r of Inl e \<Rightarrow> True | Inr out \<Rightarrow> incl \<or> status out \<noteq> RETRY"
    using assms(3) by (cases incl) (auto split: sum.split dest: engine_executor.no_retry)
qed

text \<open>Fact: a cancelled branch counts as a success. If the run is cancelled before the branch's first stage,
  \<open>execute_subgraph\<close> runs nothing, records nothing and returns \<open>SUCCESS\<close>, which the fork's handler stores as
  the branch's status.\<close>

theorem cancelled_branch_succeeds:
  assumes "cancelled st" and "find_node g a = Some n" and "a \<noteq> b"
  shows "\<exists>st'. execute_subgraph cfg (Suc k) g a b brc incl st = Some (Inr (new_outcome SUCCESS), brc, st') \<and>
    trace st' = trace st \<and> completed st' = completed st"
proof -
  have "node_id n \<noteq> b" using assms(2,3) by (auto dest: find_node_Some)
  with assms(1,2) poll_keeps [where cfg = cfg and st = st] show ?thesis
    by (simp add: execute_subgraph_def sub_finish_def)
qed

text \<open>Fact: inside a branch or a manager loop a fork is left through one of its own edges. The main loop jumps
  from a \<open>PARALLEL\<close> stage to the fan-in node its handler reports; \<open>execute_subgraph\<close> selects an edge of the
  fork instead and so runs a branch a second time.\<close>

theorem nested_fork_reruns_branch:
  assumes "ntype n = PARALLEL" and "handlers cfg (handler_type n) = Some h"
    and "h n g (emit STAGE_STARTED (node_id n) (''Stage started: '' @ node_id n) st) = (Inr out, st1)"
    and "status out = SUCCESS" and "map_of (context_updates out) ''parallel.fan_in_target'' = Some (node_id f)"
    and "node_id f \<noteq> []" and "find_node g (node_id f) = Some f"
    and "select_next_edge n out (ctx (sub_complete cfg n out st1)) g = Inr e"
  shows "fst (sub_step cfg g n last_outcome (brc, st)) = Continue (find_node g (eto e)) out \<and>
    efrom e = node_id n \<and> e \<in> set (gedges g) \<and>
    (\<exists>st2. on_success cfg g n ex out st1 = goto g (Some f) ex st2)"
proof (intro conjI)
  have "sub_call cfg g n st = (Inr out, st1)" using assms(2,3) by (simp add: sub_call_def Let_def del: append.simps)
  then show "fst (sub_step cfg g n last_outcome (brc, st)) = Continue (find_node g (eto e)) out"
    using assms(4,8) by (simp add: sub_step_def Let_def)
  show "efrom e = node_id n" "e \<in> set (gedges g)" using select_next_edge_mem [OF assms(8)] by simp_all
  show "\<exists>st2. on_success cfg g n ex out st1 = goto g (Some f) ex st2"
    using assms(1,5-7) by (auto simp: on_success_def Let_def fan_in_target_def)
qed

section \<open>Branches finish\<close>

definition ranked :: "(string \<Rightarrow> nat) \<Rightarrow> graph \<Rightarrow> bool" where
  "ranked rank g = list_all (\<lambda>e. rank (eto e) < rank (efrom e)) (gedges g)"

lemma sub_step_advances:
  assumes "ranked rank g" and "sub_step cfg g n out (Some rc, st) = (Continue c out', s')"
  shows "\<exists>rc' st'. s' = (Some rc', st') \<and>
    (case c of None \<Rightarrow> True
     | Some m \<Rightarrow> rank (node_id m) < rank (node_id n) \<or> m = n \<and> remaining n rc' < remaining n rc)"
proof -
  have edge: "rank (eto e) < rank (node_id n)" if "select_next_edge n o' c' g = Inr e" for e o' c'
    using assms(1) select_next_edge_mem [OF that] by (auto simp: ranked_def list_all_iff)
  show ?thesis
    using assms(2)
    by (auto simp: sub_step_def Let_def rc_record_def rc_of_def remaining_def should_retry_def attempts_record
        dest!: edge find_node_Some split: prod.splits sum.splits if_splits option.splits)
qed

lemma sub_loop_returns:
  assumes "ranked rank g"
  shows "\<exists>k r s'. sub_loop cfg g b incl k c out (Some rc, st) = Some (r, s')"
proof (induction "(c, rc)" arbitrary: c rc out st rule: wf_induct_rule [OF wf_measures
    [of "[\<lambda>(c, rc). case c of None \<Rightarrow> 0 | Some n \<Rightarrow> Suc (rank (node_id n)),
          \<lambda>(c, rc). case c of None \<Rightarrow> 0 | Some n \<Rightarrow> remaining n rc]"]])
  case (1 c rc)
  define st1 where "st1 = (case c of Some n \<Rightarrow> if node_id n \<noteq> b then poll cfg st else st | None \<Rightarrow> st)"
  obtain r2 st2 where fin: "sub_finish cfg g b incl c out st1 = (r2, st2)" by (rule prod.exhaust)
  have unf: "sub_loop cfg g b incl (Suc k) c out (Some rc, st) = (case c of
      None \<Rightarrow> Some (r2, Some rc, st2)
    | Some n \<Rightarrow> if node_id n = b \<or> cancelled st1 then Some (r2, Some rc, st2)
        else (case sub_step cfg g n out (Some rc, st1) of (Return r, s) \<Rightarrow> Some (r, s)
          | (Continue c' out, s) \<Rightarrow> sub_loop cfg g b incl k c' out s))" for k
    unfolding sub_loop.simps(2) Let_def [of "case c of _ \<Rightarrow> _"] st1_def [symmetric] fin Let_def split_conv by (rule refl)
  show ?case
  proof (cases "\<exists>n c' out' s'. c = Some n \<and> node_id n \<noteq> b \<and> \<not> cancelled st1 \<and>
      sub_step cfg g n out (Some rc, st1) = (Continue c' out', s')")
    case True
    then obtain n c' out' s' where n: "c = Some n" "node_id n \<noteq> b" "\<not> cancelled st1"
      "sub_step cfg g n out (Some rc, st1) = (Continue c' out', s')" by blast
    obtain rc' st' where s': "s' = (Some rc', st')" "case c' of None \<Rightarrow> True
       | Some m \<Rightarrow> rank (node_id m) < rank (node_id n) \<or> m = n \<and> remaining n rc' < remaining n rc"
      using sub_step_advances [OF assms n(4)] by blast
    have "\<exists>k r s'. sub_loop cfg g b incl k c' out' (Some rc', st') = Some (r, s')"
      using s'(2) n(1) by (intro 1) (auto split: option.splits)
    then obtain k r s2 where "sub_loop cfg g b incl k c' out' (Some rc', st') = Some (r, s2)" by blast
    then have "sub_loop cfg g b incl (Suc k) c out (Some rc, st) = Some (r, s2)"
      unfolding unf by (simp add: n s'(1))
    then show ?thesis by blast
  next
    case False
    then have "\<exists>r s'. sub_loop cfg g b incl (Suc 0) c out (Some rc, st) = Some (r, s')"
      unfolding unf by (auto split: option.split prod.split sub_ctl.split)
    then show ?thesis by blast
  qed
qed

lemma execute_subgraph_returns:
  assumes "ranked rank g"
  shows "\<exists>k r s'. execute_subgraph cfg k g a b (Some []) incl st = Some (r, s')"
proof (cases "find_node g a")
  case (Some n)
  obtain k r s' where "sub_loop cfg g b incl k (Some n) (new_outcome SUCCESS) (Some [], st) = Some (r, s')"
    by (rule exE [OF sub_loop_returns [OF assms, of cfg b incl "Some n" "new_outcome SUCCESS" "[]" st]]) blast
  then show ?thesis by (intro exI) (simp add: execute_subgraph_def Some)
qed (simp add: execute_subgraph_def)

text \<open>C7: branches finish. In a graph whose edges descend in some ranking, \<open>execute_subgraph\<close> with the fresh
  retry controller a fork gives each branch returns a result, whatever the handlers do.\<close>

theorem branch_terminates:
  assumes "ranked rank g"
  shows "\<exists>k r s'. execute_subgraph cfg k g a b (Some []) incl st = Some (r, s')"
  using assms by (rule execute_subgraph_returns)

section \<open>Concrete branches\<close>

definition fork_ranks :: "string \<Rightarrow> nat" where
  "fork_ranks i = (if i = ''f'' then 3 else if i = ''x'' then 2 else if i = ''j'' then 1 else 0)"

lemma fork_ranked: "ranked fork_ranks fork_graph"
  by (simp add: ranked_def fork_ranks_def fork_graph_def)

lemma fork_nodes:
  "find_node fork_graph ''f'' = Some \<lparr>node_id = ''f'', ntype = PARALLEL, nattrs = []\<rparr>"
  "find_node fork_graph ''x'' = Some \<lparr>node_id = ''x'', ntype = TOOL, nattrs = []\<rparr>"
  "find_node fork_graph ''j'' = Some \<lparr>node_id = ''j'', ntype = FAN_IN, nattrs = []\<rparr>"
  by (simp_all add: fork_graph_def find_node_def)

lemma fork_select:
  "select_next_edge \<lparr>node_id = ''f'', ntype = PARALLEL, nattrs = []\<rparr> out c fork_graph
     = Inr \<lparr>efrom = ''f'', eto = ''x'', eattrs = []\<rparr>"
  "select_next_edge \<lparr>node_id = ''x'', ntype = TOOL, nattrs = []\<rparr> out c fork_graph
     = Inr \<lparr>efrom = ''x'', eto = ''j'', eattrs = []\<rparr>"
  by (simp_all add: select_next_edge_def outgoing_edges_def fork_graph_def select_single edge_condition_def attr_get_or_def)

lemma sample_est_ok: "est_ok sample_state"
  using sample_keeps_books(2) by (simp add: sample_session_def)

theorem branch_terminates_witness:
  "\<exists>k r s'. execute_subgraph sample_config k fork_graph ''x'' ''j'' (Some []) False sample_state = Some (r, s')"
  by (rule branch_terminates [OF fork_ranked])

lemma fork_branch:
  obtains k r brc st where
    "execute_subgraph sample_config k fork_graph ''x'' ''j'' (Some []) False sample_state = Some (r, brc, st)"
  using execute_subgraph_returns [OF fork_ranked, of sample_config "''x''" "''j''" False sample_state]
  by (metis prod.exhaust)

theorem branch_run_contract_witness:
  "\<exists>k r brc st. execute_subgraph sample_config k fork_graph ''x'' ''j'' (Some []) False sample_state = Some (r, brc, st) \<and>
     est_ok st"
proof -
  obtain k r brc st where
    e: "execute_subgraph sample_config k fork_graph ''x'' ''j'' (Some []) False sample_state = Some (r, brc, st)"
    by (rule fork_branch)
  from branch_run_contract [OF sample_keeps_books(1) sample_est_ok e] e show ?thesis by blast
qed

theorem cancelled_branch_succeeds_witness:
  "\<exists>st'. execute_subgraph sample_config 1 fork_graph ''x'' ''j'' (Some []) False (sample_state\<lparr>cancelled := True\<rparr>)
     = Some (Inr (new_outcome SUCCESS), Some [], st') \<and> completed st' = []"
  using cancelled_branch_succeeds [of "sample_state\<lparr>cancelled := True\<rparr>" fork_graph "''x''" _ "''j''" sample_config 0 "Some []" False]
  by (auto simp: fork_nodes sample_state_def)

theorem nested_fork_reruns_branch_witness:
  "let n = \<lparr>node_id = ''f'', ntype = PARALLEL, nattrs = []\<rparr>;
       out = (new_outcome SUCCESS)\<lparr>context_updates := [(''parallel.fan_in_target'', ''j'')]\<rparr>;
       cfg = sample_config\<lparr>handlers := (\<lambda>_. Some (\<lambda>n g st. (Inr out, st)))\<rparr>
   in fst (sub_step cfg fork_graph n out (Some [], sample_state)) = Continue (find_node fork_graph ''x'') out"
  unfolding Let_def
  by (rule nested_fork_reruns_branch [OF _ _ refl _ _ _ _ fork_select(1), where f = "\<lparr>node_id = ''j'', ntype = FAN_IN, nattrs = []\<rparr>",
        THEN conjunct1, unfolded edge.simps]) (simp_all add: fork_nodes new_outcome_def)

end
