(* ===== verification/Graph_Search.thy ===== *)
theory Graph_Search
  imports Graph_Model
begin

text \<open>
  The graph searches of the program: \<open>Graph::reachable_from\<close> (\<open>src/model/graph.cpp\<close>), the
  breadth-first searches of \<open>src/engine/subgraph_topology.cpp\<close> (repeated in
  \<open>src/handlers/parallel_handler.cpp\<close>) and of the validation rules. Each is proved to compute the
  set of nodes reachable along its own step relation, through one locale.
\<close>

section \<open>What a search promises\<close>

locale search =
  fixes succ :: "'a \<Rightarrow> 'a set" and start :: 'a and found :: "'a set"
  assumes start_found: "start \<in> found"
    and found_closed: "x \<in> found \<Longrightarrow> succ x \<subseteq> found"
    and found_sound: "x \<in> found \<Longrightarrow> (\<lambda>a b. b \<in> succ a)\<^sup>*\<^sup>* start x"
begin

lemma found_step: "(\<lambda>a b. b \<in> succ a)\<^sup>*\<^sup>* x y \<Longrightarrow> x \<in> found \<Longrightarrow> y \<in> found"
  by (induction rule: rtranclp_induct) (use found_closed in blast)+

lemma found_iff: "x \<in> found \<longleftrightarrow> (\<lambda>a b. b \<in> succ a)\<^sup>*\<^sup>* start x"
  using found_sound found_step start_found by blast

lemma found_least:
  assumes "start \<in> S" and "\<And>x. x \<in> S \<Longrightarrow> succ x \<subseteq> S"
  shows "found \<subseteq> S"
proof
  fix x
  assume "x \<in> found"
  then have "(\<lambda>a b. b \<in> succ a)\<^sup>*\<^sup>* start x" by (rule found_sound)
  then show "x \<in> S"
    by (induction rule: rtranclp_induct) (use assms in blast)+
qed

end

section \<open>Depth first: \<open>Graph::reachable_from\<close>\<close>

text \<open>\<open>visited\<close> and the work list, whose last element (here its head) is taken next.\<close>

function reach_loop :: "edge list \<Rightarrow> string set \<Rightarrow> string list \<Rightarrow> string set" where
  "reach_loop es vis [] = vis"
| "reach_loop es vis (x # st) =
     (if x \<in> vis then reach_loop es vis st
      else reach_loop es (insert x vis)
        (rev (map eto (filter (\<lambda>e. efrom e = x \<and> eto e \<notin> insert x vis) es)) @ st))"
  by pat_completeness auto
termination
proof (relation "inv_image (finite_psubset <*lex*> less_than)
    (\<lambda>(es, vis, st). (efrom ` set es - vis, length st))", goal_cases)
  case 1
  show ?case by (intro wf_inv_image wf_lex_prod wf_finite_psubset wf_less_than)
next
  case (3 es vis x st)
  then show ?case
    by (cases "x \<in> efrom ` set es") (auto simp: finite_psubset_def filter_empty_conv)
qed simp_all

definition reachable_from :: "graph \<Rightarrow> string \<Rightarrow> string set" where
  "reachable_from g i = reach_loop (gedges g) {} [i]"

lemma reach_loop_grows: "vis \<union> set st \<subseteq> reach_loop es vis st"
  by (induction es vis st rule: reach_loop.induct) auto

lemma reach_loop_closed:
  assumes "\<And>e. e \<in> set es \<Longrightarrow> efrom e \<in> vis \<Longrightarrow> eto e \<in> vis \<union> set st"
  shows "e \<in> set es \<Longrightarrow> efrom e \<in> reach_loop es vis st \<Longrightarrow> eto e \<in> reach_loop es vis st"
  using assms
proof (induction es vis st rule: reach_loop.induct)
  case (2 es vis x st)
  show ?case
  proof (cases "x \<in> vis")
    case True
    with 2 show ?thesis by auto
  next
    case False
    let ?st = "rev (map eto (filter (\<lambda>e. efrom e = x \<and> eto e \<notin> insert x vis) es)) @ st"
    have "eto e' \<in> insert x vis \<union> set ?st" if "e' \<in> set es" "efrom e' \<in> insert x vis" for e'
      using that 2(5) by auto
    with False "2.IH"(2) "2.prems"(1,2) show ?thesis by simp
  qed
qed auto

lemma reach_loop_least:
  assumes "vis \<union> set st \<subseteq> S" and "\<And>e. e \<in> set es \<Longrightarrow> efrom e \<in> S \<Longrightarrow> eto e \<in> S"
  shows "reach_loop es vis st \<subseteq> S"
  using assms by (induction es vis st rule: reach_loop.induct) auto

interpretation reach: search "\<lambda>i. set (succs g i)" i "reachable_from g i" for g i
proof
  show "i \<in> reachable_from g i"
    using reach_loop_grows [of "{}" "[i]"] by (auto simp: reachable_from_def)
next
  fix x
  assume "x \<in> reachable_from g i"
  then show "set (succs g x) \<subseteq> reachable_from g i"
    using reach_loop_closed [of "gedges g" "{}" "[i]"] by (auto simp: reachable_from_def set_succs)
next
  fix x
  let ?S = "{y. (\<lambda>a b. b \<in> set (succs g a))\<^sup>*\<^sup>* i y}"
  have "eto e \<in> ?S" if "e \<in> set (gedges g)" "efrom e \<in> ?S" for e
    using that by (auto simp: set_succs intro: rtranclp.rtrancl_into_rtrancl)
  then have "reachable_from g i \<subseteq> ?S"
    unfolding reachable_from_def by (intro reach_loop_least) auto
  then show "x \<in> reachable_from g i \<Longrightarrow> (\<lambda>a b. b \<in> set (succs g a))\<^sup>*\<^sup>* i x" by blast
qed

section \<open>Breadth first\<close>

text \<open>
  The queue loops: a node is marked visited when it is pushed; a popped node is recorded in the
  result if \<open>emit\<close> holds and its successors are pushed if \<open>expand\<close> holds.
\<close>

fun push_new :: "string list \<Rightarrow> string set \<Rightarrow> string list \<Rightarrow> string set \<times> string list" where
  "push_new [] vis q = (vis, q)"
| "push_new (y # ys) vis q =
     (if y \<in> vis then push_new ys vis q else push_new ys (insert y vis) (q @ [y]))"

lemma push_new_spec:
  "push_new ys vis q = (vis', q') \<Longrightarrow>
   vis' = vis \<union> set ys \<and> set q' = set q \<union> (set ys - vis) \<and> (set ys \<subseteq> vis \<longrightarrow> q' = q)"
  by (induction ys vis q rule: push_new.induct) (auto split: if_splits)

function bfs ::
  "graph \<Rightarrow> (string \<Rightarrow> bool) \<Rightarrow> (string \<Rightarrow> bool) \<Rightarrow> string set \<Rightarrow> string list \<Rightarrow> string set \<Rightarrow>
   string set \<times> string set" where
  "bfs g expand emit vis [] out = (vis, out)"
| "bfs g expand emit vis (x # q) out =
     (let out' = (if emit x then insert x out else out);
          (vis', q') = (if expand x then push_new (succs g x) vis q else (vis, q))
      in bfs g expand emit vis' q' out')"
  by pat_completeness auto
termination
proof (relation "inv_image (finite_psubset <*lex*> less_than)
    (\<lambda>(g, expand, emit, vis, q, out). (eto ` set (gedges g) - vis, length q))", goal_cases)
  case 1
  show ?case by (intro wf_inv_image wf_lex_prod wf_finite_psubset wf_less_than)
next
  case (2 g expand emit vis x q out out' y vis' q')
  show ?case
  proof (cases "expand x \<and> \<not> set (succs g x) \<subseteq> vis")
    case True
    with 2 have "vis' = vis \<union> set (succs g x)" using push_new_spec by (metis)
    with True show ?thesis by (auto simp: finite_psubset_def set_succs)
  next
    case False
    with 2 have "vis' = vis \<and> q' = q" using push_new_spec [of "succs g x" vis q vis' q']
      by (auto split: if_splits)
    then show ?thesis by simp
  qed
qed

text \<open>The search state is consistent: queued nodes are visited, popped ones are done.\<close>

definition bfs_inv ::
  "graph \<Rightarrow> (string \<Rightarrow> bool) \<Rightarrow> (string \<Rightarrow> bool) \<Rightarrow> string \<Rightarrow> string set \<Rightarrow> string list \<Rightarrow> string set \<Rightarrow> bool"
where
  "bfs_inv g expand emit s vis q out =
     (s \<in> vis \<and> set q \<subseteq> vis \<and>
      (\<forall>x \<in> vis. (\<lambda>a b. expand a \<and> b \<in> set (succs g a))\<^sup>*\<^sup>* s x) \<and>
      (\<forall>x \<in> vis - set q. (expand x \<longrightarrow> set (succs g x) \<subseteq> vis) \<and> (emit x \<longrightarrow> x \<in> out)) \<and>
      (\<forall>x \<in> out. x \<in> vis \<and> emit x))"

lemma bfs_inv_start: "bfs_inv g expand emit s {s} [s] {}"
  by (simp add: bfs_inv_def)

lemma bfs_inv_sound: "bfs_inv g expand emit s vis q out \<Longrightarrow> \<forall>y \<in> out. y \<in> vis \<and> emit y"
  by (simp add: bfs_inv_def)

lemma bfs_inv_step:
  assumes inv: "bfs_inv g expand emit s vis (x # q) out"
    and step: "(if expand x then push_new (succs g x) vis q else (vis, q)) = (vis', q')"
  shows "bfs_inv g expand emit s vis' q' (if emit x then insert x out else out)"
proof -
  have x: "x \<in> vis" "(\<lambda>a b. expand a \<and> b \<in> set (succs g a))\<^sup>*\<^sup>* s x"
    using inv by (auto simp: bfs_inv_def)
  show ?thesis
  proof (cases "expand x")
    case True
    with step have new: "vis' = vis \<union> set (succs g x)" "set q' = set q \<union> (set (succs g x) - vis)"
      using push_new_spec by auto
    have "(\<lambda>a b. expand a \<and> b \<in> set (succs g a))\<^sup>*\<^sup>* s y" if "y \<in> set (succs g x)" for y
      using x(2) True that by (auto intro: rtranclp.rtrancl_into_rtrancl)
    then have path: "\<forall>y \<in> vis'. (\<lambda>a b. expand a \<and> b \<in> set (succs g a))\<^sup>*\<^sup>* s y"
      using inv by (auto simp: bfs_inv_def new(1))
    have popped: "(expand y \<longrightarrow> set (succs g y) \<subseteq> vis')
        \<and> (emit y \<longrightarrow> y \<in> (if emit x then insert x out else out))" if "y \<in> vis' - set q'" for y
    proof (cases "y = x")
      case False
      with that have "y \<in> vis - set (x # q)" by (auto simp: new)
      with inv have "expand y \<longrightarrow> set (succs g y) \<subseteq> vis" "emit y \<longrightarrow> y \<in> out"
        unfolding bfs_inv_def by blast+
      then show ?thesis by (auto simp: new(1))
    qed (simp add: new(1))
    have sound: "\<forall>y \<in> (if emit x then insert x out else out). y \<in> vis' \<and> emit y"
      using bfs_inv_sound [OF inv] x(1) new(1) by (auto split: if_splits)
    have "s \<in> vis'" "set q' \<subseteq> vis'"
      using inv by (auto simp: bfs_inv_def new)
    with path popped sound show ?thesis unfolding bfs_inv_def by (intro conjI ballI) blast+
  next
    case False
    with step inv x show ?thesis by (auto simp: bfs_inv_def)
  qed
qed

lemma bfs_inv_run:
  "bfs_inv g expand emit s vis q out \<Longrightarrow> bfs g expand emit vis q out = (vis', out') \<Longrightarrow>
   bfs_inv g expand emit s vis' [] out'"
proof (induction g expand emit vis q out rule: bfs.induct)
  case (2 g expand emit vis x q out)
  obtain vis1 q1 where st: "(if expand x then push_new (succs g x) vis q else (vis, q)) = (vis1, q1)"
    by fastforce
  from "2.IH" [OF refl st [symmetric] refl] bfs_inv_step [OF "2.prems"(1) st] "2.prems"(2) st
  show ?case by (simp add: Let_def)
qed simp

definition bfs_visited :: "graph \<Rightarrow> (string \<Rightarrow> bool) \<Rightarrow> string \<Rightarrow> string set" where
  "bfs_visited g expand s = fst (bfs g expand (\<lambda>_. False) {s} [s] {})"

definition bfs_emitted :: "graph \<Rightarrow> (string \<Rightarrow> bool) \<Rightarrow> (string \<Rightarrow> bool) \<Rightarrow> string \<Rightarrow> string set" where
  "bfs_emitted g expand emit s = snd (bfs g expand emit {s} [s] {})"

lemma bfs_final:
  assumes "bfs g expand emit {s} [s] {} = (vis, out)"
  shows "search (\<lambda>x. if expand x then set (succs g x) else {}) s vis \<and> out = {x \<in> vis. emit x}"
proof -
  have fin: "bfs_inv g expand emit s vis [] out"
    using bfs_inv_run [OF bfs_inv_start assms] .
  have rel: "(\<lambda>a b. b \<in> (if expand a then set (succs g a) else {})) = (\<lambda>a b. expand a \<and> b \<in> set (succs g a))"
    by (auto simp: fun_eq_iff)
  from fin show ?thesis unfolding search_def bfs_inv_def rel by auto
qed

interpretation bfs: search "\<lambda>x. if expand x then set (succs g x) else {}" s "bfs_visited g expand s"
  for g expand s
  unfolding bfs_visited_def by (rule bfs_final [THEN conjunct1]) (rule prod.collapse [symmetric])

lemma bfs_emitted_iff:
  "x \<in> bfs_emitted g expand emit s \<longleftrightarrow>
   emit x \<and> (\<lambda>a b. b \<in> (if expand a then set (succs g a) else {}))\<^sup>*\<^sup>* s x"
proof -
  obtain vis out where r: "bfs g expand emit {s} [s] {} = (vis, out)" by fastforce
  note fin = bfs_final [OF r]
  then have "x \<in> vis \<longleftrightarrow> (\<lambda>a b. b \<in> (if expand a then set (succs g a) else {}))\<^sup>*\<^sup>* s x"
    using search.found_iff by fastforce
  with fin r show ?thesis by (auto simp: bfs_emitted_def)
qed

end
