(* ===== verification/Topology.thy ===== *)
theory Topology
  imports Graph_Search
begin

text \<open>
  \<open>SubgraphTopology\<close> of \<open>src/engine/subgraph_topology.cpp\<close>: the nodes of a region, the fan-in node of a
  fork, the body of a manager loop. The search for the fan-in node is repeated word for word in
  \<open>src/handlers/parallel_handler.cpp\<close>.
\<close>

section \<open>Regions\<close>

definition collect_reachable :: "graph \<Rightarrow> string \<Rightarrow> string set \<Rightarrow> string set" where
  "collect_reachable g start stop_nodes = bfs_emitted g (\<lambda>x. x \<notin> stop_nodes) (\<lambda>x. x \<notin> stop_nodes) start"

definition collect_loop_body :: "graph \<Rightarrow> string \<Rightarrow> string \<Rightarrow> string set" where
  "collect_loop_body g manager_id first_body_node = collect_reachable g first_body_node {manager_id}"

section \<open>The fan-in nodes of a branch\<close>

definition is_fan_in :: "graph \<Rightarrow> string \<Rightarrow> bool" where
  "is_fan_in g i = (case find_node g i of Some n \<Rightarrow> ntype n = FAN_IN | None \<Rightarrow> False)"

definition is_inner :: "graph \<Rightarrow> string \<Rightarrow> bool" where
  "is_inner g i = (case find_node g i of Some n \<Rightarrow> ntype n \<noteq> FAN_IN | None \<Rightarrow> False)"

definition branch_fan_ins :: "graph \<Rightarrow> string \<Rightarrow> string set" where
  "branch_fan_ins g start = bfs_emitted g (is_inner g) (is_fan_in g) start"

fun common_fan_ins :: "graph \<Rightarrow> string list \<Rightarrow> string set" where
  "common_fan_ins g [] = {}"
| "common_fan_ins g (s # ss) =
     fold (\<lambda>start common. {i \<in> common. i \<in> branch_fan_ins g start}) ss (branch_fan_ins g s)"

section \<open>Distances\<close>

text \<open>The queue of nodes with their distances; \<open>Some d\<close> when the target is popped at distance \<open>d\<close>.\<close>

fun push_new_at :: "int \<Rightarrow> string list \<Rightarrow> string set \<Rightarrow> (string \<times> int) list \<Rightarrow> string set \<times> (string \<times> int) list" where
  "push_new_at d [] vis q = (vis, q)"
| "push_new_at d (y # ys) vis q =
     (if y \<in> vis then push_new_at d ys vis q else push_new_at d ys (insert y vis) (q @ [(y, d)]))"

lemma push_new_at_spec:
  "push_new_at d ys vis q = (vis', q') \<Longrightarrow>
   vis' = vis \<union> set ys \<and> (\<exists>new. q' = q @ map (\<lambda>y. (y, d)) new \<and> set new = set ys - vis)"
proof (induction d ys vis q rule: push_new_at.induct)
  case (2 d y ys vis q)
  show ?case
  proof (cases "y \<in> vis")
    case False
    with 2 obtain new where "vis' = insert y vis \<union> set ys" "q' = (q @ [(y, d)]) @ map (\<lambda>y. (y, d)) new"
      "set new = set ys - insert y vis" by auto
    with False show ?thesis by (intro conjI exI [of _ "y # new"]) auto
  qed (use 2 in auto)
qed auto

function bfs_distance :: "graph \<Rightarrow> string \<Rightarrow> string set \<Rightarrow> (string \<times> int) list \<Rightarrow> int option" where
  "bfs_distance g t vis [] = None"
| "bfs_distance g t vis ((x, d) # q) =
     (if x = t then Some d
      else let (vis', q') = push_new_at (d + 1) (succs g x) vis q in bfs_distance g t vis' q')"
  by pat_completeness auto
termination
proof (relation "inv_image (finite_psubset <*lex*> less_than)
    (\<lambda>(g, t, vis, q). (eto ` set (gedges g) - vis, length q))", goal_cases)
  case 1
  show ?case by (intro wf_inv_image wf_lex_prod wf_finite_psubset wf_less_than)
next
  case (2 g t vis x d q y vis' q')
  then have "push_new_at (d + 1) (succs g x) vis q = (vis', q')" by metis
  from push_new_at_spec [OF this] obtain new where new: "vis' = vis \<union> set (succs g x)" "q' = q @ map (\<lambda>y. (y, d + 1)) new"
    "set new = set (succs g x) - vis" by blast
  show ?case
  proof (cases "set (succs g x) \<subseteq> vis")
    case True
    with new have "vis' = vis" "set new = {}" by auto
    with new(2) show ?thesis by simp
  next
    case False
    with new(1) show ?thesis by (auto simp: finite_psubset_def set_succs)
  qed
qed

definition distance :: "graph \<Rightarrow> string \<Rightarrow> string \<Rightarrow> int option" where
  "distance g start t = bfs_distance g t {start} [(start, 0)]"

text \<open>What a breadth-first search computes: the length of a shortest path.\<close>

definition arrows :: "graph \<Rightarrow> (string \<times> string) set" where
  "arrows g = {(a, b). b \<in> set (succs g a)}"

definition is_distance :: "graph \<Rightarrow> string \<Rightarrow> string \<Rightarrow> nat \<Rightarrow> bool" where
  "is_distance g a b d = ((a, b) \<in> arrows g ^^ d \<and> (\<forall>k < d. (a, b) \<notin> arrows g ^^ k))"

lemma is_distance_unique: "is_distance g a b d \<Longrightarrow> is_distance g a b d' \<Longrightarrow> d = d'"
  by (meson is_distance_def linorder_neqE_nat)

lemma is_distance_exists: "(a, b) \<in> arrows g ^^ k \<Longrightarrow> \<exists>d \<le> k. is_distance g a b d"
proof (intro exI conjI)
  assume p: "(a, b) \<in> arrows g ^^ k"
  show "(LEAST d. (a, b) \<in> arrows g ^^ d) \<le> k" using p by (rule Least_le)
  show "is_distance g a b (LEAST d. (a, b) \<in> arrows g ^^ d)"
    unfolding is_distance_def using LeastI [of "\<lambda>d. (a, b) \<in> arrows g ^^ d", OF p] not_less_Least by blast
qed

lemma is_distance_pred:
  assumes "is_distance g a b (Suc d)"
  obtains z where "is_distance g a z d" "b \<in> set (succs g z)"
proof -
  from assms obtain z where z: "(a, z) \<in> arrows g ^^ d" "(z, b) \<in> arrows g"
    by (auto simp: is_distance_def)
  have "(a, z) \<notin> arrows g ^^ k" if "k < d" for k
  proof
    assume "(a, z) \<in> arrows g ^^ k"
    with z(2) have "(a, b) \<in> arrows g ^^ Suc k" by auto
    with that assms show False unfolding is_distance_def by blast
  qed
  with z show ?thesis by (intro that [of z]) (auto simp: is_distance_def arrows_def)
qed

definition distance_inv :: "graph \<Rightarrow> string \<Rightarrow> string \<Rightarrow> string set \<Rightarrow> (string \<times> int) list \<Rightarrow> bool" where
  "distance_inv g a t vis q =
     (a \<in> vis \<and> fst ` set q \<subseteq> vis \<and>
      (\<forall>(x, d) \<in> set q. 0 \<le> d \<and> is_distance g a x (nat d)) \<and> sorted (map snd q) \<and>
      (\<forall>(x, d) \<in> set q. d \<le> snd (hd q) + 1) \<and>
      (\<forall>x \<in> vis - fst ` set q. set (succs g x) \<subseteq> vis \<and> x \<noteq> t) \<and>
      (\<forall>y k. is_distance g a y k \<longrightarrow> q \<noteq> [] \<longrightarrow> int k \<le> snd (hd q) \<longrightarrow> y \<in> vis))"

lemma distance_inv_start: "distance_inv g a t {a} [(a, 0)]"
  by (auto simp: distance_inv_def is_distance_def)

lemma distance_inv_step:
  assumes inv: "distance_inv g a t vis ((x, d) # q)" and x: "x \<noteq> t"
    and step: "push_new_at (d + 1) (succs g x) vis q = (vis', q')"
  shows "distance_inv g a t vis' q'"
proof -
  obtain new where new: "vis' = vis \<union> set (succs g x)" "q' = q @ map (\<lambda>y. (y, d + 1)) new"
    "set new = set (succs g x) - vis" using push_new_at_spec [OF step] by blast
  have d: "0 \<le> d" "is_distance g a x (nat d)" using inv by (auto simp: distance_inv_def)
  have near: "y \<in> vis" if "is_distance g a y k" "int k \<le> d" for y k
    using inv that by (auto simp: distance_inv_def)
  have bound: "d \<le> e" "e \<le> d + 1" if "(y, e) \<in> set q" for y e
    using inv that by (auto simp: distance_inv_def)
  have far: "is_distance g a y (nat (d + 1))" if "y \<in> set new" for y
  proof -
    have "y \<in> set (succs g x)" "y \<notin> vis" using that new(3) by auto
    then have p: "(a, y) \<in> arrows g ^^ Suc (nat d)" using d(2) by (auto simp: is_distance_def arrows_def)
    have "(a, y) \<notin> arrows g ^^ k" if "k < Suc (nat d)" for k
    proof
      assume "(a, y) \<in> arrows g ^^ k"
      then obtain k' where "k' \<le> k" "is_distance g a y k'" using is_distance_exists by blast
      with that d(1) have "int k' \<le> d" by linarith
      with near [OF \<open>is_distance g a y k'\<close>] \<open>y \<notin> vis\<close> show False by blast
    qed
    with p d(1) show ?thesis by (simp add: is_distance_def nat_add_distrib)
  qed
  have queued: "0 \<le> e \<and> is_distance g a y (nat e) \<and> d \<le> e \<and> e \<le> d + 1" if "(y, e) \<in> set q'" for y e
  proof (cases "(y, e) \<in> set q")
    case True
    then show ?thesis using inv bound by (auto simp: distance_inv_def)
  next
    case False
    with that new(2) have "e = d + 1" "y \<in> set new" by auto
    with far d(1) show ?thesis by simp
  qed
  have srt: "sorted (map snd q')"
    using inv bound by (auto simp: new(2) sorted_append distance_inv_def comp_def map_replicate_const)
  have hd_le: "snd (hd q') \<le> e" if "(y, e) \<in> set q'" for y e
    using srt that by (cases q') force+
  have hd_ge: "d \<le> snd (hd q')" if "q' \<noteq> []"
    using queued [of "fst (hd q')" "snd (hd q')"] that by simp
  have popped: "set (succs g y) \<subseteq> vis' \<and> y \<noteq> t" if "y \<in> vis' - fst ` set q'" for y
  proof (cases "y = x")
    case False
    have "fst ` set q' = fst ` set q \<union> set new" by (force simp: new(2))
    with that new(1,3) have "y \<in> vis" by blast
    moreover from that False have "y \<notin> fst ` set ((x, d) # q)" by (auto simp: new(2))
    ultimately have "set (succs g y) \<subseteq> vis \<and> y \<noteq> t" using inv unfolding distance_inv_def by blast
    with new(1) show ?thesis by blast
  qed (use x new(1) in auto)
  have seen: "y \<in> vis'" if "is_distance g a y k" "q' \<noteq> []" "int k \<le> snd (hd q')" for y k
  proof (cases "int k \<le> d")
    case True
    with near [OF that(1)] new(1) show ?thesis by blast
  next
    case False
    obtain y0 e0 where "(y0, e0) \<in> set q'" "e0 = snd (hd q')" using \<open>q' \<noteq> []\<close> by (metis hd_in_set prod.collapse)
    then have "d \<le> snd (hd q') \<and> snd (hd q') \<le> d + 1" using queued by blast
    with False that(3) d(1) have k: "k = Suc (nat d)" "snd (hd q') = d + 1" by linarith+
    from that(1) [unfolded k(1)] obtain z where z: "is_distance g a z (nat d)" "y \<in> set (succs g z)"
      by (rule is_distance_pred)
    have "z \<notin> fst ` set q'"
    proof
      assume "z \<in> fst ` set q'"
      then obtain e where e: "(z, e) \<in> set q'" by auto
      with hd_le [OF e] k(2) queued [OF e] is_distance_unique [OF z(1)] d(1) show False by fastforce
    qed
    moreover have "z \<in> vis'" using near [OF z(1)] d(1) new(1) by auto
    ultimately show ?thesis using popped z(2) by blast
  qed
  have "fst ` set q' \<subseteq> vis'" using inv new by (auto simp: distance_inv_def)
  moreover have "e \<le> snd (hd q') + 1" if "(y, e) \<in> set q'" for y e
    using queued [OF that] hd_ge that by (cases q') auto
  moreover have "a \<in> vis'" using inv new(1) by (simp add: distance_inv_def)
  ultimately show ?thesis
    using queued srt popped seen unfolding distance_inv_def by (intro conjI) blast+
qed

lemma bfs_distance_correct:
  "distance_inv g a t vis q \<Longrightarrow>
   (case bfs_distance g t vis q of
      None \<Rightarrow> \<forall>k. (a, t) \<notin> arrows g ^^ k
    | Some d \<Rightarrow> 0 \<le> d \<and> is_distance g a t (nat d))"
proof (induction g t vis q rule: bfs_distance.induct)
  case (1 g t vis)
  have "y \<in> vis" if "(a, y) \<in> arrows g ^^ k" for y k
    using that
  proof (induction k arbitrary: y)
    case 0
    with 1 show ?case by (simp add: distance_inv_def)
  next
    case (Suc k)
    then obtain z where "z \<in> vis" "y \<in> set (succs g z)" by (auto simp: arrows_def)
    with 1 show ?case by (auto simp: distance_inv_def)
  qed
  with 1 show ?case by (auto simp: distance_inv_def)
next
  case (2 g t vis x d q)
  show ?case
  proof (cases "x = t")
    case True
    with 2(2) show ?thesis by (auto simp: distance_inv_def)
  next
    case False
    obtain vis' q' where step: "push_new_at (d + 1) (succs g x) vis q = (vis', q')" by (rule prod.exhaust)
    from 2(1) [OF False refl] step distance_inv_step [OF 2(2) False step] False show ?thesis by (simp add: Let_def)
  qed
qed

lemma distance_correct:
  "distance g a t = Some d \<longleftrightarrow> 0 \<le> d \<and> is_distance g a t (nat d)"
  "distance g a t = None \<longleftrightarrow> (\<forall>k. (a, t) \<notin> arrows g ^^ k)"
proof -
  have c: "case distance g a t of None \<Rightarrow> \<forall>k. (a, t) \<notin> arrows g ^^ k
      | Some d \<Rightarrow> 0 \<le> d \<and> is_distance g a t (nat d)"
    unfolding distance_def by (rule bfs_distance_correct [OF distance_inv_start])
  show "distance g a t = Some d \<longleftrightarrow> 0 \<le> d \<and> is_distance g a t (nat d)"
  proof (cases "distance g a t")
    case None
    with c show ?thesis by (simp add: is_distance_def)
  next
    case (Some e)
    with c is_distance_unique [of g a t "nat e" "nat d"] show ?thesis by auto
  qed
  show "distance g a t = None \<longleftrightarrow> (\<forall>k. (a, t) \<notin> arrows g ^^ k)"
    using c by (cases "distance g a t") (auto simp: is_distance_def)
qed

section \<open>The fan-in node of a fork\<close>

definition closer_fan_in :: "graph \<Rightarrow> string \<Rightarrow> string \<Rightarrow> int \<times> string \<Rightarrow> int \<times> string" where
  "closer_fan_in g i start best =
     (let (best_dist, best_id) = best in
      case distance g start i of
        None \<Rightarrow> best
      | Some d \<Rightarrow> if d < best_dist \<or> d = best_dist \<and> i < best_id then (d, i) else best)"

definition find_common_fan_in :: "graph \<Rightarrow> string list \<Rightarrow> string" where
  "find_common_fan_in g branch_starts =
     (let common = sorted_list_of_set (common_fan_ins g branch_starts) in
      case common of
        [] \<Rightarrow> []
      | [i] \<Rightarrow> i
      | _ \<Rightarrow> snd (fold (\<lambda>i. fold (closer_fan_in g i) branch_starts) common (999999, [])))"

lemma distance_bounded: "distance g a t = Some d \<Longrightarrow> d \<le> int (length (gedges g))"
proof -
  assume "distance g a t = Some d"
  then have d: "0 \<le> d" "is_distance g a t (nat d)" by (simp_all add: distance_correct)
  have R: "arrows g = (\<lambda>e. (efrom e, eto e)) ` set (gedges g)" by (auto simp: arrows_def set_succs image_iff)
  then have fin: "finite (arrows g)" by simp
  have "card (arrows g) \<le> length (gedges g)"
    unfolding R by (rule order_trans [OF card_image_le card_length]) simp
  moreover have "nat d \<le> card (arrows g)"
  proof (rule ccontr)
    assume l: "\<not> nat d \<le> card (arrows g)"
    have "0 < nat d" using l by simp
    from relpow_finite_bounded [OF fin, of "nat d"] d(2) obtain k where "k \<le> card (arrows g)" "(a, t) \<in> arrows g ^^ k"
      unfolding is_distance_def by blast
    with l d(2) show False unfolding is_distance_def by auto
  qed
  ultimately show ?thesis by linarith
qed

text \<open>\<open>i\<close> is a fan-in node the branch from \<open>s\<close> reaches without passing another one.\<close>

definition joins_at :: "graph \<Rightarrow> string \<Rightarrow> string \<Rightarrow> bool" where
  "joins_at g s i = (is_fan_in g i \<and> (\<lambda>a b. is_inner g a \<and> b \<in> set (succs g a))\<^sup>*\<^sup>* s i)"

lemma branch_fan_ins_iff: "i \<in> branch_fan_ins g s \<longleftrightarrow> joins_at g s i"
proof -
  have rel: "(\<lambda>a b. b \<in> (if is_inner g a then set (succs g a) else {})) = (\<lambda>a b. is_inner g a \<and> b \<in> set (succs g a))"
    by (auto simp: fun_eq_iff)
  show ?thesis by (simp add: branch_fan_ins_def bfs_emitted_iff joins_at_def rel)
qed

lemma common_fan_ins_iff:
  "i \<in> common_fan_ins g starts \<longleftrightarrow> starts \<noteq> [] \<and> (\<forall>s \<in> set starts. joins_at g s i)"
proof -
  have "i \<in> fold (\<lambda>start common. {i \<in> common. i \<in> branch_fan_ins g start}) ss C \<longleftrightarrow>
    i \<in> C \<and> (\<forall>s \<in> set ss. joins_at g s i)" for ss C
    by (induction ss arbitrary: C) (auto simp: branch_fan_ins_iff)
  then show ?thesis by (cases starts) (auto simp: branch_fan_ins_iff)
qed

lemma finite_common_fan_ins: "finite (common_fan_ins g starts)"
proof (rule finite_subset)
  show "common_fan_ins g starts \<subseteq> node_id ` set (gnodes g)"
  proof
    fix i
    assume "i \<in> common_fan_ins g starts"
    then have "\<exists>s. joins_at g s i" by (cases starts) (auto simp: common_fan_ins_iff simp del: common_fan_ins.simps)
    then have "find_node g i \<noteq> None" by (auto simp: joins_at_def is_fan_in_def split: option.splits)
    then show "i \<in> node_id ` set (gnodes g)" by (simp add: find_node_None)
  qed
qed simp

lemma joins_at_distance: "joins_at g s i \<Longrightarrow> \<exists>d. distance g s i = Some d"
proof -
  assume "joins_at g s i"
  then have "(\<lambda>a b. is_inner g a \<and> b \<in> set (succs g a))\<^sup>*\<^sup>* s i" by (simp add: joins_at_def)
  then have "(s, i) \<in> (arrows g)\<^sup>*"
    by (induction rule: rtranclp_induct) (auto simp: arrows_def intro: rtrancl_into_rtrancl)
  then obtain k where "(s, i) \<in> arrows g ^^ k" using rtrancl_imp_relpow by blast
  with distance_correct(2) [of g s i] show ?thesis by (cases "distance g s i") auto
qed

text \<open>The candidates, and the fold over them: it ends with the least one.\<close>

definition candidate :: "graph \<Rightarrow> string list \<Rightarrow> string list \<Rightarrow> int \<Rightarrow> string \<Rightarrow> bool" where
  "candidate g ids starts d i = (i \<in> set ids \<and> (\<exists>s \<in> set starts. distance g s i = Some d))"

lemma candidate_Cons: "candidate g ids starts d j \<Longrightarrow> candidate g (i # ids) starts d j"
  by (simp add: candidate_def)

definition no_worse :: "int \<times> string \<Rightarrow> int \<times> string \<Rightarrow> bool" where
  "no_worse p q = (fst p < fst q \<or> fst p = fst q \<and> snd p \<le> snd q)"

lemma no_worse_refl [simp]: "no_worse p p"
  by (simp add: no_worse_def)

lemma no_worse_trans: "no_worse p q \<Longrightarrow> no_worse q r \<Longrightarrow> no_worse p r"
  by (auto simp: no_worse_def)

lemma closer_fan_in_least:
  "no_worse (closer_fan_in g i s best) best"
  "distance g s i = Some d \<Longrightarrow> no_worse (closer_fan_in g i s best) (d, i)"
  "closer_fan_in g i s best = best \<or> (\<exists>d. distance g s i = Some d \<and> closer_fan_in g i s best = (d, i))"
  by (auto simp: closer_fan_in_def no_worse_def split: option.split prod.split)

lemma closer_fan_in_no_worse:
  assumes "no_worse r (closer_fan_in g i s best)"
  shows "no_worse r best" and "distance g s i = Some d \<Longrightarrow> no_worse r (d, i)"
  using assms closer_fan_in_least by (blast intro: no_worse_trans)+

lemma fold_starts_least:
  fixes g i starts best
  defines "r \<equiv> fold (closer_fan_in g i) starts best"
  shows "no_worse r best \<and> (\<forall>s \<in> set starts. \<forall>d. distance g s i = Some d \<longrightarrow> no_worse r (d, i)) \<and>
    (r = best \<or> (\<exists>s \<in> set starts. distance g s i = Some (fst r) \<and> snd r = i))"
  unfolding r_def
proof (induction starts arbitrary: best)
  case (Cons s starts)
  let ?b = "closer_fan_in g i s best"
  let ?r = "fold (closer_fan_in g i) starts ?b"
  have "?r = ?b \<or> (\<exists>s \<in> set starts. distance g s i = Some (fst ?r) \<and> snd ?r = i)" using Cons.IH by blast
  moreover have "?b = best \<or> distance g s i = Some (fst ?b) \<and> snd ?b = i"
    using closer_fan_in_least(3) [of g i s best] by auto
  ultimately have "?r = best \<or> (\<exists>s' \<in> set (s # starts). distance g s' i = Some (fst ?r) \<and> snd ?r = i)"
    by (metis list.set_intros)
  with Cons.IH closer_fan_in_no_worse [of ?r g i s best] show ?case by simp
qed simp

lemma fold_starts_no_worse:
  assumes "no_worse r (fold (closer_fan_in g i) starts best)"
  shows "no_worse r best" and "s \<in> set starts \<Longrightarrow> distance g s i = Some d \<Longrightarrow> no_worse r (d, i)"
  using assms fold_starts_least [of g i starts best] by (blast intro: no_worse_trans)+

lemma fold_ids_least:
  fixes g ids starts best
  defines "r \<equiv> fold (\<lambda>i. fold (closer_fan_in g i) starts) ids best"
  shows "no_worse r best \<and> (\<forall>d i. candidate g ids starts d i \<longrightarrow> no_worse r (d, i)) \<and>
    (r = best \<or> candidate g ids starts (fst r) (snd r))"
  unfolding r_def
proof (induction ids arbitrary: best)
  case (Cons i ids)
  let ?b = "fold (closer_fan_in g i) starts best"
  let ?r = "fold (\<lambda>i. fold (closer_fan_in g i) starts) ids ?b"
  have "?r = ?b \<or> candidate g ids starts (fst ?r) (snd ?r)" using Cons.IH by blast
  moreover have "?b = best \<or> candidate g (i # ids) starts (fst ?b) (snd ?b)"
    using fold_starts_least [of g i starts best] by (auto simp: candidate_def)
  ultimately have "?r = best \<or> candidate g (i # ids) starts (fst ?r) (snd ?r)"
    using candidate_Cons [of g ids starts "fst ?r" "snd ?r" i] by (elim disjE) simp_all
  moreover have "no_worse ?r (d, j)" if "candidate g (i # ids) starts d j" for d j
    using that Cons.IH [of ?b] fold_starts_no_worse(2) [of ?r g i starts best _ d] by (auto simp: candidate_def)
  moreover have "no_worse ?r best"
    using Cons.IH [of ?b] fold_starts_no_worse(1) [of ?r g i starts best] by blast
  ultimately show ?case by simp
qed (simp add: candidate_def)

lemma least_candidate:
  assumes ids: "set ids = common_fan_ins g starts" and ne: "ids \<noteq> []" and small: "length (gedges g) < 999999"
  defines "r \<equiv> (case ids of [] \<Rightarrow> [] | [i] \<Rightarrow> i
      | _ \<Rightarrow> snd (fold (\<lambda>i. fold (closer_fan_in g i) starts) ids (999999, [])))"
  shows "\<exists>d. candidate g ids starts d r \<and> (\<forall>d' i. candidate g ids starts d' i \<longrightarrow> no_worse (d, r) (d', i))"
proof -
  have "ids ! 0 \<in> common_fan_ins g starts" using ids ne by (metis length_greater_0_conv nth_mem)
  then obtain s where "s \<in> set starts" "joins_at g s (ids ! 0)"
    by (metis common_fan_ins_iff list.set_intros(1) neq_Nil_conv)
  then obtain d0 where d0: "candidate g ids starts d0 (ids ! 0)"
    using joins_at_distance ne by (metis candidate_def length_greater_0_conv nth_mem)
  let ?f = "fold (\<lambda>i. fold (closer_fan_in g i) starts) ids (999999, [])"
  have "no_worse ?f (d0, ids ! 0)" using d0 fold_ids_least by blast
  moreover have "d0 < 999999" using d0 small distance_bounded by (fastforce simp: candidate_def)
  ultimately have "?f \<noteq> (999999, [])" by (auto simp: no_worse_def)
  then have f: "candidate g ids starts (fst ?f) (snd ?f)"
    "\<And>d i. candidate g ids starts d i \<Longrightarrow> no_worse ?f (d, i)"
    using fold_ids_least [of g starts ids "(999999, [])"] by blast+
  have "r = snd ?f"
  proof (cases "\<exists>i. ids = [i]")
    case True
    with f(1) show ?thesis by (auto simp: r_def candidate_def)
  next
    case False
    with ne show ?thesis by (auto simp: r_def split: list.splits)
  qed
  with f show ?thesis by (metis prod.collapse)
qed

section \<open>Properties\<close>

text \<open>C12: the fan-in node of a fork. In a graph with less than 999999 edges, \<open>find_common_fan_in\<close> returns a
  \<open>FAN_IN\<close> node that every branch reaches before any other fan-in node, if there is one, and the empty id
  otherwise. Among several it returns one that is nearest to some branch start by the length of a shortest
  path, and the smallest id among the nearest.\<close>

theorem find_common_fan_in_nearest:
  fixes g :: graph and starts :: "string list"
  defines "r \<equiv> find_common_fan_in g starts"
  assumes "length (gedges g) < 999999"
  shows "if starts \<noteq> [] \<and> (\<exists>i. \<forall>s \<in> set starts. joins_at g s i) then
      (\<forall>s \<in> set starts. joins_at g s r) \<and>
      (\<exists>s \<in> set starts. \<exists>d. is_distance g s r d \<and>
         (\<forall>s' \<in> set starts. \<forall>i d'. (\<forall>s \<in> set starts. joins_at g s i) \<longrightarrow> is_distance g s' i d' \<longrightarrow>
            d < d' \<or> d = d' \<and> r \<le> i))
    else r = []"
proof -
  define ids where "ids = sorted_list_of_set (common_fan_ins g starts)"
  have ids: "set ids = common_fan_ins g starts" by (simp add: ids_def finite_common_fan_ins)
  have r: "r = (case ids of [] \<Rightarrow> [] | [i] \<Rightarrow> i
      | _ \<Rightarrow> snd (fold (\<lambda>i. fold (closer_fan_in g i) starts) ids (999999, [])))"
    unfolding r_def find_common_fan_in_def ids_def [symmetric] Let_def ..
  show ?thesis
  proof (cases "common_fan_ins g starts = {}")
    case True
    with ids r have "r = []" by simp
    moreover have "\<not> (starts \<noteq> [] \<and> (\<exists>i. \<forall>s \<in> set starts. joins_at g s i))"
      using True common_fan_ins_iff [of _ g starts] by blast
    ultimately show ?thesis by (simp only: if_False)
  next
    case False
    then have ex: "starts \<noteq> [] \<and> (\<exists>i. \<forall>s \<in> set starts. joins_at g s i)"
      using common_fan_ins_iff [of _ g starts] by blast
    have ne: "ids \<noteq> []" using False ids by auto
    obtain d where d: "candidate g ids starts d r" "\<And>d' i. candidate g ids starts d' i \<Longrightarrow> no_worse (d, r) (d', i)"
      using least_candidate [OF ids ne assms(2), folded r] by blast
    obtain s where s: "s \<in> set starts" "distance g s r = Some d" using d(1) by (auto simp: candidate_def)
    have "\<forall>s \<in> set starts. joins_at g s r"
      using d(1) ids common_fan_ins_iff [of r g starts] by (simp add: candidate_def)
    moreover have "is_distance g s r (nat d)" "0 \<le> d" using s(2) by (simp_all add: distance_correct)
    moreover have "nat d < d' \<or> nat d = d' \<and> r \<le> i"
      if "s' \<in> set starts" "\<forall>s \<in> set starts. joins_at g s i" "is_distance g s' i d'" for s' i d'
    proof -
      have "distance g s' i = Some (int d')" using that(3) by (simp add: distance_correct)
      moreover have "i \<in> set ids" using that(2) ex ids common_fan_ins_iff by simp
      ultimately have "candidate g ids starts (int d') i" using that(1) by (auto simp: candidate_def)
      from d(2) [OF this] \<open>0 \<le> d\<close> show ?thesis by (auto simp: no_worse_def)
    qed
    ultimately show ?thesis using ex s(1) by (simp only: if_True simp_thms) blast
  qed
qed

definition two_joins :: graph where
  "two_joins = \<lparr>gname = ''g'',
     gnodes = [\<lparr>node_id = ''x'', ntype = TOOL, nattrs = []\<rparr>, \<lparr>node_id = ''k'', ntype = FAN_IN, nattrs = []\<rparr>,
       \<lparr>node_id = ''j'', ntype = FAN_IN, nattrs = []\<rparr>],
     gedges = [\<lparr>efrom = ''x'', eto = ''k'', eattrs = []\<rparr>, \<lparr>efrom = ''x'', eto = ''j'', eattrs = []\<rparr>], gattrs = []\<rparr>"

theorem find_common_fan_in_nearest_witness:
  "joins_at two_joins ''x'' (find_common_fan_in two_joins [''x'']) \<and> find_common_fan_in two_joins [''x''] = ''j''"
proof -
  have r: "find_common_fan_in two_joins [''x''] = ''j''" by code_simp
  have "''j'' \<in> common_fan_ins two_joins [''x'']" by code_simp
  then have "joins_at two_joins ''x'' ''j''" using branch_fan_ins_iff by simp
  then have "\<exists>i. \<forall>s \<in> set [''x'']. joins_at two_joins s i" by auto
  with find_common_fan_in_nearest [of two_joins "[''x'']"] r show ?thesis by (simp add: two_joins_def)
qed

end
