(* ===== verification/Parallel.thy ===== *)
theory Parallel
  imports Subgraph Topology Worktree
begin

text \<open>
  \<open>src/handlers/parallel_handler.cpp\<close>: a fork runs one subgraph per outgoing edge, each in a thread of its own
  with a copy of the context, up to the common fan-in node, and joins their results by a policy. The threads
  share the engine: an interleaving is a list of actors, the main thread (which sets up and starts the branches
  one by one) and the branches. A branch takes two steps per stage, the call of its handler and what the loop
  of \<open>execute_subgraph\<close> does with the result; each works on the shared state as it then is.
\<close>

section \<open>The two steps of a stage\<close>

definition sub_after ::
  "'w config \<Rightarrow> graph \<Rightarrow> node \<Rightarrow> outcome \<Rightarrow> outcome result \<Rightarrow> 'w sub_state \<Rightarrow> sub_ctl \<times> 'w sub_state" where
  "sub_after cfg g n last_outcome r s =
     (let (brc, st) = s in
      case r of
        Inl e \<Rightarrow> (Return (Inl e), brc, st)
      | Inr out \<Rightarrow>
          if status out = FAILURE then (Return (Inr out), brc, sub_fail cfg n out st)
          else if status out = RETRY then
            if should_retry (rc_of brc st) (node_id n) (policy_from_attributes (nattrs n)) then
              let (brc, st) = rc_record (node_id n) brc st;
                  st = emit STAGE_RETRYING (node_id n) (''Retrying: '' @ node_id n) st;
                  st = log_effect (Backed_Off (node_id n) (attempts (rc_of brc st) (node_id n))) st
              in (Continue (Some n) last_outcome, brc, st)
            else
              let msg = ''retries exhausted for node: '' @ node_id n
              in (Return (Inr ((new_outcome FAILURE)\<lparr>out_text := msg\<rparr>)), brc,
                  emit STAGE_FAILED (node_id n) msg st)
          else
            let st = sub_complete cfg n out st in
            case select_next_edge n out (ctx st) g of
              Inl e \<Rightarrow> (Return (Inl (''edge selection failed: '' @ e)), brc, st)
            | Inr e \<Rightarrow> (Continue (find_node g (eto e)) out, brc, st))"

lemma sub_step_after:
  "sub_step cfg g n out (brc, st) = (case sub_call cfg g n st of (r, st) \<Rightarrow> sub_after cfg g n out r (brc, st))"
  by (simp add: sub_step_def sub_after_def split: prod.split)

datatype progress = Running "node option" outcome | Called node outcome "outcome result" | Finished "outcome result"

record branch =
  b_target :: string
  b_ctx :: ctxt
  b_retries :: retry_controller
  b_progress :: progress

text \<open>The loop's test and the call of the handler; then the rest of the loop's body.\<close>

definition branch_call ::
  "'w config \<Rightarrow> graph \<Rightarrow> string \<Rightarrow> node option \<Rightarrow> outcome \<Rightarrow> 'w est \<Rightarrow> progress \<times> 'w est" where
  "branch_call cfg g fan_in c last_outcome st =
     (case c of
        None \<Rightarrow> (Finished (Inr last_outcome), st)
      | Some n \<Rightarrow>
          let st = (if node_id n \<noteq> fan_in then poll cfg st else st) in
          if node_id n = fan_in \<or> cancelled st then (Finished (Inr last_outcome), st)
          else let (r, st) = sub_call cfg g n st in (Called n last_outcome r, st))"

definition branch_rest ::
  "'w config \<Rightarrow> graph \<Rightarrow> node \<Rightarrow> outcome \<Rightarrow> outcome result \<Rightarrow> retry_controller \<Rightarrow> 'w est \<Rightarrow>
   progress \<times> retry_controller \<times> 'w est" where
  "branch_rest cfg g n last_outcome r rc st =
     (let (ctl, brc, st) = sub_after cfg g n last_outcome r (Some rc, st);
          p = (case ctl of Return r \<Rightarrow> Finished r | Continue c out \<Rightarrow> Running c out)
      in (p, rc_of brc st, st))"

definition branch_step :: "'w config \<Rightarrow> graph \<Rightarrow> string \<Rightarrow> branch \<Rightarrow> 'w est \<Rightarrow> branch \<times> 'w est" where
  "branch_step cfg g fan_in b st =
     (let own = st\<lparr>ctx := b_ctx b\<rparr>;
          (p, rc, own) =
            (case b_progress b of
               Running c out \<Rightarrow> (let (p, own) = branch_call cfg g fan_in c out own in (p, b_retries b, own))
             | Called n out r \<Rightarrow> branch_rest cfg g n out r (b_retries b) own
             | Finished r \<Rightarrow> (Finished r, b_retries b, own))
      in (b\<lparr>b_ctx := ctx own, b_retries := rc, b_progress := p\<rparr>, own\<lparr>ctx := ctx st\<rparr>))"

section \<open>Setting up the branches\<close>

definition find_common_fan_in_bfs :: "graph \<Rightarrow> string list \<Rightarrow> string" where
  "find_common_fan_in_bfs g branch_starts = find_common_fan_in g branch_starts"

definition launch_head_commit :: "'w worktree_host \<Rightarrow> string \<Rightarrow> 'w \<Rightarrow> string \<times> 'w" where
  "launch_head_commit host repo w =
     (let (r, w) = run_process host ''git'' [''-C'', repo, ''rev-parse'', ''HEAD''] repo 10000 0 w in
      case r of
        Inl e \<Rightarrow> ([], w)
      | Inr p \<Rightarrow> (if exit_code p \<noteq> 0 then [] else rtrim is_line_end (stdout_output p), w))"

text \<open>
  The fork while it runs: the targets not yet set up, the branches set up so far, and what the setup itself
  contributes to the outcome (\<open>pre_context_updates\<close>, \<open>pre_any_failure\<close>).
\<close>

record fork =
  pending :: "string list"
  branches :: "branch list"
  pre_updates :: "(string, string) omap"
  pre_failure :: bool

definition parallel_key :: "string \<Rightarrow> string \<Rightarrow> string" where
  "parallel_key t k = ''parallel.'' @ t @ ''.'' @ k"

definition worktree_failed :: "string \<Rightarrow> string \<Rightarrow> (string, string) omap \<Rightarrow> (string, string) omap" where
  "worktree_failed t msg u =
     omap_set (parallel_key t ''annotation'') ''worktree_setup_failed''
       (omap_set (parallel_key t ''output'') msg (omap_set (parallel_key t ''status'') ''FAILURE'' u))"

text \<open>The worktree of a branch, for the strategy \<open>Auto\<close>.\<close>

definition branch_worktree ::
  "'w worktree_host \<Rightarrow> worktree_config \<Rightarrow> string \<Rightarrow> ctxt \<Rightarrow> 'w \<Rightarrow> (string option + worktree_ready_info) \<times> 'w" where
  "branch_worktree host wt t c w =
     (let params = [(''branch_id'', t), (''repo_basename'', basename_of (h_project_dir host)),
                    (''run_id'', ctx_get c ''needle.run_id'')]
      in case (interpolate_template ''${repo_basename}-wt-${run_id}-${branch_id}'' params,
               interpolate_template (wt_branch wt @ ''/${branch_id}'') params) of
           (Inr path, Inr br) \<Rightarrow>
             (case ensure_ready host (h_project_dir host)
                     (wt\<lparr>wt_path := parent_of (h_project_dir host) @ ''/'' @ path, wt_branch := br\<rparr>) w of
                (Inl e, w) \<Rightarrow> (Inl (Some e), w)
              | (Inr info, w) \<Rightarrow> (Inr info, w))
         | _ \<Rightarrow> (Inl None, w))"

definition start_branch :: "graph \<Rightarrow> string \<Rightarrow> ctxt \<Rightarrow> branch" where
  "start_branch g t c =
     \<lparr>b_target = t, b_ctx = c, b_retries = [],
      b_progress = (case find_node g t of
          None \<Rightarrow> Finished (failure (''start node not found: '' @ t))
        | Some n \<Rightarrow> Running (Some n) (new_outcome SUCCESS))\<rparr>"

definition set_up ::
  "'w config \<Rightarrow> 'w worktree_host \<Rightarrow> worktree_config \<Rightarrow> string \<Rightarrow> graph \<Rightarrow> string \<Rightarrow> fork \<times> 'w est \<Rightarrow> fork \<times> 'w est" where
  "set_up cfg host wt fork_id g t s =
     (let (f, st) = s;
          c = ctx st;
          unstarted = (\<lambda>r. f\<lparr>branches := branches f @ [\<lparr>b_target = t, b_ctx = [], b_retries = [], b_progress = Finished r\<rparr>]\<rparr>);
          started = (\<lambda>c. f\<lparr>branches := branches f @ [start_branch g t c]\<rparr>)
      in if ctx_get c (parallel_key t ''status'') = ''SUCCESS'' then
           (unstarted (success ((new_outcome SUCCESS)\<lparr>out_text := ctx_get c (parallel_key t ''output'')\<rparr>)), st)
         else if strategy wt = Wt_Auto then
           case branch_worktree host wt t c (world st) of
             (Inl None, w) \<Rightarrow>
               ((unstarted (failure ''not started''))
                  \<lparr>pre_updates := worktree_failed t ''worktree_setup_failed'' (pre_updates f), pre_failure := True\<rparr>,
                st\<lparr>world := w\<rparr>)
           | (Inl (Some e), w) \<Rightarrow>
               ((unstarted (failure ''not started''))
                  \<lparr>pre_updates := worktree_failed t (''worktree_setup_failed: '' @ e) (pre_updates f), pre_failure := True\<rparr>,
                st\<lparr>world := w\<rparr>)
           | (Inr info, w) \<Rightarrow>
               let c = ctx_set (size_limit cfg) ''needle.branch.cwd'' (ready_path info) c;
                   c = ctx_set (size_limit cfg) ''needle.branch.worktree'' (ready_path info) c;
                   c = ctx_set (size_limit cfg) ''needle.branch.git_branch'' (ready_branch info) c
               in ((started c)\<lparr>pre_updates := omap_set (''needle.branch_worktree.'' @ t) (ready_path info) (pre_updates f)\<rparr>,
                   emit STAGE_WARNING fork_id ''worktree_ready'' (st\<lparr>world := w\<rparr>))
         else (started c, st))"

section \<open>Interleavings\<close>

datatype actor = Main | Branch nat

fun fork_step ::
  "'w config \<Rightarrow> 'w worktree_host \<Rightarrow> worktree_config \<Rightarrow> string \<Rightarrow> graph \<Rightarrow> string \<Rightarrow> actor \<Rightarrow> fork \<times> 'w est \<Rightarrow> fork \<times> 'w est" where
  "fork_step cfg host wt fork_id g fan_in Main (f, st) =
     (case pending f of
        [] \<Rightarrow> (f, st)
      | t # ts \<Rightarrow> set_up cfg host wt fork_id g t (f\<lparr>pending := ts\<rparr>, st))"
| "fork_step cfg host wt fork_id g fan_in (Branch i) (f, st) =
     (if i < length (branches f) then
        let (b, st) = branch_step cfg g fan_in (branches f ! i) st in (f\<lparr>branches := (branches f)[i := b]\<rparr>, st)
      else (f, st))"

definition run_schedule ::
  "'w config \<Rightarrow> 'w worktree_host \<Rightarrow> worktree_config \<Rightarrow> string \<Rightarrow> graph \<Rightarrow> string \<Rightarrow> actor list \<Rightarrow> fork \<times> 'w est \<Rightarrow> fork \<times> 'w est" where
  "run_schedule cfg host wt fork_id g fan_in sched s = fold (fork_step cfg host wt fork_id g fan_in) sched s"

text \<open>What \<open>join\<close> waits for: every branch has been set up and every thread has ended.\<close>

fun finished_result :: "progress \<Rightarrow> outcome result option" where
  "finished_result (Finished r) = Some r"
| "finished_result _ = None"

definition branch_results :: "fork \<Rightarrow> (string \<times> outcome result) list option" where
  "branch_results f =
     (if pending f = [] then those (map (\<lambda>b. map_option (Pair (b_target b)) (finished_result (b_progress b))) (branches f))
      else None)"

section \<open>Joining\<close>

definition merge_branch :: "string \<times> outcome result \<Rightarrow> (string, string) omap \<Rightarrow> (string, string) omap" where
  "merge_branch tr u =
     (case snd tr of
        Inl e \<Rightarrow> u
      | Inr out \<Rightarrow>
          let u = fold (\<lambda>kv. omap_set (fst tr @ ''.'' @ fst kv) (snd kv)) (context_updates out) u;
              u = omap_set (parallel_key (fst tr) ''status'') (status_to_string (status out)) u
          in omap_set (parallel_key (fst tr) ''output'') (out_text out) u)"

definition branch_failed :: "outcome result \<Rightarrow> bool" where
  "branch_failed r = (case r of Inl e \<Rightarrow> True | Inr out \<Rightarrow> status out = FAILURE)"

definition has_status :: "stage_status list \<Rightarrow> outcome result \<Rightarrow> bool" where
  "has_status ss r = (case r of Inl e \<Rightarrow> False | Inr out \<Rightarrow> status out \<in> set ss)"

definition join_status :: "node \<Rightarrow> outcome result list \<Rightarrow> bool \<Rightarrow> stage_status" where
  "join_status n rs any_failure =
     (let join_policy = attr_get_or (nattrs n) ''join_policy'' ''wait_all'' in
      if join_policy = ''first_success'' then
        if \<exists>r \<in> set rs. has_status [SUCCESS] r then SUCCESS else FAILURE
      else if join_policy = ''threshold'' then
        let threshold = (case attr_get_int (nattrs n) ''join_threshold'' of Some t \<Rightarrow> t | None \<Rightarrow> 2);
            success_count = int (length (filter (has_status [SUCCESS, PARTIAL_SUCCESS]) rs))
        in if success_count < threshold then FAILURE else SUCCESS
      else if any_failure then FAILURE else SUCCESS)"

definition branch_list :: "string list \<Rightarrow> string" where
  "branch_list ts = fold (\<lambda>t acc. (if acc = [] then t else acc @ '','' @ t)) ts []"

definition join_branches :: "node \<Rightarrow> string \<Rightarrow> (string \<times> outcome result) list \<Rightarrow> fork \<Rightarrow> outcome" where
  "join_branches n fan_in results f =
     (let u = fold merge_branch results (pre_updates f);
          any_failure = (pre_failure f \<or> (\<exists>tr \<in> set results. branch_failed (snd tr)));
          u = omap_set ''parallel.fan_in_target'' fan_in u;
          u = omap_set ''parallel.branch_count'' (show_int (int (length results))) u;
          u = omap_set ''parallel.join_policy'' (attr_get_or (nattrs n) ''join_policy'' ''wait_all'') u;
          u = omap_set ''parallel.branches'' (branch_list (map fst results)) u
      in (new_outcome (join_status n (map snd results) any_failure))\<lparr>context_updates := u\<rparr>)"

section \<open>The handler\<close>

definition fork_start :: "'w worktree_host \<Rightarrow> worktree_config \<Rightarrow> string list \<Rightarrow> 'w est \<Rightarrow> fork \<times> 'w est" where
  "fork_start host wt targets st =
     (let f = \<lparr>pending = targets, branches = [], pre_updates = [], pre_failure = False\<rparr> in
      if strategy wt = Wt_Auto \<and> ctx_get (ctx st) ''needle.launch_commit'' = [] then
        let (commit, w) = launch_head_commit host (h_project_dir host) (world st)
        in (if commit \<noteq> [] then f\<lparr>pre_updates := [(''needle.launch_commit'', commit)]\<rparr> else f, st\<lparr>world := w\<rparr>)
      else (f, st))"

definition parallel_handler ::
  "'w config \<Rightarrow> 'w worktree_host \<Rightarrow> worktree_config \<Rightarrow> actor list \<Rightarrow> node \<Rightarrow> graph \<Rightarrow> 'w est \<Rightarrow>
   (outcome result \<times> 'w est) option" where
  "parallel_handler cfg host wt sched n g st =
     (let targets = map eto (outgoing_edges g (node_id n)) in
      if targets = [] then Some (success (new_outcome SUCCESS), st)
      else
        let fan_in = find_common_fan_in_bfs g targets in
        if fan_in = [] then Some (failure (''no fan-in node found for parallel: '' @ node_id n), st)
        else
          let (f, st) = run_schedule cfg host wt (node_id n) g fan_in sched (fork_start host wt targets st) in
          map_option (\<lambda>results. (success (join_branches n fan_in results f), st)) (branch_results f))"

section \<open>The bookkeeping under every interleaving\<close>

definition branch_ok :: "branch \<Rightarrow> bool" where
  "branch_ok b = (omap_ok (b_ctx b) \<and> counters_ok (b_retries b))"

definition fork_ok :: "fork \<times> 'w est \<Rightarrow> bool" where
  "fork_ok s = (est_ok (snd s) \<and> (\<forall>b \<in> set (branches (fst s)). branch_ok b))"

lemma est_ok_swap_ctx: "est_ok st \<Longrightarrow> omap_ok c \<Longrightarrow> est_ok (st\<lparr>ctx := c\<rparr>)"
  by (simp add: est_ok_def)

lemma est_ok_ctx: "est_ok st \<Longrightarrow> omap_ok (ctx st)"
  by (simp add: est_ok_def)

lemma est_ok_world: "est_ok (st\<lparr>world := w\<rparr>) = est_ok st"
  by (simp add: est_ok_def)

lemma ctx_emit [simp]: "ctx (emit ty i msg st) = ctx st"
  by (simp add: emit_def)

lemma sub_ok_after:
  assumes s: "sub_ok (brc, st)"
  shows "sub_ok (snd (sub_after cfg g n out r (brc, st)))"
proof -
  have log: "est_ok (log_effect (Backed_Off i a) st)" if "est_ok st" for i a and st :: "'a est"
    using that by (intro est_ok_log) auto
  show ?thesis
    using s
    by (auto simp: sub_after_def Let_def sub_ok_def rc_record_def rc_of_def intro!: log est_intros counters_ok_record
        split: sum.split option.splits)
qed

lemma rc_record_own: "rc_record i (Some rc) st = (Some (record_attempt i rc), st)"
  by (simp add: rc_record_def)

lemma sub_after_own:
  "\<exists>rc'. fst (snd (sub_after cfg g n out r (Some rc, st))) = Some rc'"
  by (auto simp: sub_after_def Let_def rc_record_own split: sum.split)

lemma branch_call_ok:
  assumes "keeps_books cfg" and "est_ok st"
  shows "est_ok (snd (branch_call cfg g fan_in c out st))"
  using assms est_ok_sub_call [OF assms(1)] est_ok_poll [OF assms(2), of cfg]
  by (auto simp: branch_call_def Let_def split: option.split prod.split)

lemma branch_rest_ok:
  assumes "est_ok st" and "counters_ok rc" and "branch_rest cfg g n out r rc st = (p, rc', st')"
  shows "est_ok st' \<and> counters_ok rc'"
proof -
  obtain ctl brc st1 where a: "sub_after cfg g n out r (Some rc, st) = (ctl, brc, st1)" by (rule prod_cases3)
  moreover obtain rc1 where "brc = Some rc1" using sub_after_own [of cfg g n out r rc st] a by auto
  moreover have "sub_ok (snd (sub_after cfg g n out r (Some rc, st)))"
    using assms(1,2) by (intro sub_ok_after) (simp add: sub_ok_def)
  ultimately show ?thesis using assms(3) by (auto simp: branch_rest_def rc_of_def sub_ok_def)
qed

lemma branch_step_ok:
  assumes k: "keeps_books cfg" and b: "branch_ok b" and st: "est_ok st" and e: "branch_step cfg g fan_in b st = (b', st')"
  shows "branch_ok b' \<and> est_ok st' \<and> ctx st' = ctx st"
proof -
  define own where "own = st\<lparr>ctx := b_ctx b\<rparr>"
  have own: "est_ok own" using b st by (simp add: own_def branch_ok_def est_ok_swap_ctx)
  have rc: "counters_ok (b_retries b)" using b by (simp add: branch_ok_def)
  have fin: "branch_ok b' \<and> est_ok st' \<and> ctx st' = ctx st"
    if "est_ok own'" "counters_ok rc'" "b' = b\<lparr>b_ctx := ctx own', b_retries := rc', b_progress := p\<rparr>"
      "st' = own'\<lparr>ctx := ctx st\<rparr>" for p rc' own'
    using that est_ok_ctx [OF st] est_ok_ctx [OF that(1)] by (simp add: branch_ok_def est_ok_swap_ctx)
  show ?thesis
  proof (cases "b_progress b")
    case (Running c out)
    obtain p own' where c: "branch_call cfg g fan_in c out own = (p, own')" by (rule prod.exhaust)
    have "est_ok own'" using branch_call_ok [OF k own, of g fan_in c out] c by simp
    moreover have "b' = b\<lparr>b_ctx := ctx own', b_retries := b_retries b, b_progress := p\<rparr>" "st' = own'\<lparr>ctx := ctx st\<rparr>"
      using e Running c by (simp_all add: branch_step_def Let_def own_def [symmetric])
    ultimately show ?thesis by (rule fin [OF _ rc])
  next
    case (Called n out r)
    obtain p rc' own' where c: "branch_rest cfg g n out r (b_retries b) own = (p, rc', own')" by (rule prod_cases3)
    note ok = branch_rest_ok [OF own rc c]
    have "b' = b\<lparr>b_ctx := ctx own', b_retries := rc', b_progress := p\<rparr>" "st' = own'\<lparr>ctx := ctx st\<rparr>"
      using e Called c by (simp_all add: branch_step_def Let_def own_def [symmetric])
    then show ?thesis using ok by (intro fin) simp_all
  next
    case (Finished r)
    have "b' = b\<lparr>b_ctx := ctx own, b_retries := b_retries b, b_progress := Finished r\<rparr>" "st' = own\<lparr>ctx := ctx st\<rparr>"
      using e Finished by (simp_all add: branch_step_def Let_def own_def [symmetric])
    then show ?thesis by (rule fin [OF own rc])
  qed
qed

lemma start_branch_ok: "omap_ok c \<Longrightarrow> branch_ok (start_branch g t c)"
  by (simp add: start_branch_def branch_ok_def counters_ok_def)

lemma set_up_ok:
  assumes "fork_ok s"
  shows "fork_ok (set_up cfg host wt i g t s) \<and> ctx (snd (set_up cfg host wt i g t s)) = ctx (snd s)"
proof -
  have c: "omap_ok (ctx (snd s))" using assms by (simp add: fork_ok_def est_ok_ctx)
  have e: "branch_ok \<lparr>b_target = t, b_ctx = [], b_retries = [], b_progress = p\<rparr>" for p
    by (simp add: branch_ok_def counters_ok_def)
  show ?thesis
    using assms c
    by (auto simp: set_up_def Let_def fork_ok_def est_ok_world e start_branch_ok ctx_emit
        split: prod.splits sum.splits option.splits)
qed

lemma fork_step_ok:
  assumes k: "keeps_books cfg" and s: "fork_ok s"
  shows "fork_ok (fork_step cfg host wt i g fan_in a s) \<and> ctx (snd (fork_step cfg host wt i g fan_in a s)) = ctx (snd s)"
proof (cases a)
  case Main
  obtain f st where [simp]: "s = (f, st)" by (rule prod.exhaust)
  have "fork_ok (f\<lparr>pending := ts\<rparr>, st)" for ts using s by (simp add: fork_ok_def)
  from set_up_ok [OF this] Main s show ?thesis by (auto split: list.split)
next
  case (Branch j)
  obtain f st where [simp]: "s = (f, st)" by (rule prod.exhaust)
  show ?thesis
  proof (cases "j < length (branches f)")
    case True
    obtain b st' where b: "branch_step cfg g fan_in (branches f ! j) st = (b, st')" by (rule prod.exhaust)
    have "branch_ok b \<and> est_ok st' \<and> ctx st' = ctx st"
      using branch_step_ok [OF k _ _ b] s True by (simp add: fork_ok_def)
    with Branch b True s show ?thesis
      by (auto simp: fork_ok_def dest!: subsetD [OF set_update_subset_insert])
  qed (use s Branch in simp)
qed

lemma run_schedule_ok:
  assumes "keeps_books cfg" and "fork_ok s"
  shows "fork_ok (run_schedule cfg host wt i g fan_in sched s) \<and>
    ctx (snd (run_schedule cfg host wt i g fan_in sched s)) = ctx (snd s)"
  using assms(2)
proof (induction sched arbitrary: s)
  case (Cons a sched)
  from fork_step_ok [OF assms(1) Cons.prems, of host wt i g fan_in a] Cons.IH show ?case by (simp add: run_schedule_def)
qed (simp add: run_schedule_def)

lemma fork_start_ok:
  "est_ok st \<Longrightarrow> fork_ok (fork_start host wt ts st) \<and> ctx (snd (fork_start host wt ts st)) = ctx st"
  by (auto simp: fork_start_def Let_def fork_ok_def est_ok_world split: prod.split)

lemma parallel_handler_ok:
  assumes "keeps_books cfg" and "est_ok st" and "parallel_handler cfg host wt sched n g st = Some (r, st')"
  shows "est_ok st' \<and> ctx st' = ctx st \<and> (case r of Inr out \<Rightarrow> status out = SUCCESS \<or> status out = FAILURE | Inl e \<Rightarrow> True)"
proof -
  define ts where "ts = map eto (outgoing_edges g (node_id n))"
  define fan_in where "fan_in = find_common_fan_in_bfs g ts"
  note e = assms(3) [unfolded parallel_handler_def, folded ts_def, unfolded Let_def, folded fan_in_def]
  obtain f st1 where f: "run_schedule cfg host wt (node_id n) g fan_in sched (fork_start host wt ts st) = (f, st1)"
    by (rule prod.exhaust)
  have ok: "est_ok st1 \<and> ctx st1 = ctx st"
    using run_schedule_ok [OF assms(1), of "fork_start host wt ts st" host wt "node_id n" g fan_in sched]
      fork_start_ok [OF assms(2), of host wt ts] f
    by (simp add: fork_ok_def)
  have j: "status (join_branches n fan_in rs f) = SUCCESS \<or> status (join_branches n fan_in rs f) = FAILURE" for rs
    by (simp add: join_branches_def Let_def new_outcome_def join_status_def)
  show ?thesis
    using e ok assms(2) j unfolding f by (auto simp: new_outcome_def split: if_splits)
qed

text \<open>C9: forks keep the books. Whatever the interleaving of its branches, a fork that returns leaves the engine
  state well formed (maps without duplicate keys, every completed node with a hash and an outcome, every saved
  checkpoint consistent) and its own context untouched, and its outcome is \<open>SUCCESS\<close> or \<open>FAILURE\<close>.\<close>

theorem parallel_keeps_books:
  assumes "keeps_books cfg" and "est_ok st" and "parallel_handler cfg host wt sched n g st = Some (r, st')"
  shows "est_ok st' \<and> ctx st' = ctx st \<and> (case r of Inr out \<Rightarrow> status out = SUCCESS \<or> status out = FAILURE | Inl e \<Rightarrow> True)"
  using assms by (rule parallel_handler_ok)

section \<open>Fair interleavings end\<close>

lemma sub_after_advances:
  assumes "ranked rank g" and "sub_after cfg g n out r (Some rc, st) = (Continue c out', s')"
  shows "\<exists>rc' st'. s' = (Some rc', st') \<and>
    (case c of None \<Rightarrow> True
     | Some m \<Rightarrow> rank (node_id m) < rank (node_id n) \<or> m = n \<and> remaining n rc' < remaining n rc)"
proof -
  have edge: "rank (eto e) < rank (node_id n)" if "select_next_edge n o' c' g = Inr e" for e o' c'
    using assms(1) select_next_edge_mem [OF that] by (auto simp: ranked_def list_all_iff)
  show ?thesis
    using assms(2)
    by (auto simp: sub_after_def Let_def rc_record_def rc_of_def remaining_def should_retry_def attempts_record
        dest!: edge find_node_Some split: prod.splits sum.splits if_splits option.splits)
qed

fun stage_rank :: "(string \<Rightarrow> nat) \<Rightarrow> progress \<Rightarrow> nat" where
  "stage_rank rank (Finished r) = 0"
| "stage_rank rank (Running None out) = 1"
| "stage_rank rank (Running (Some n) out) = rank (node_id n) + 2"
| "stage_rank rank (Called n out r) = rank (node_id n) + 2"

fun stage_retries :: "retry_controller \<Rightarrow> progress \<Rightarrow> nat" where
  "stage_retries rc (Running (Some n) out) = remaining n rc"
| "stage_retries rc (Called n out r) = remaining n rc"
| "stage_retries rc _ = 0"

fun to_call :: "progress \<Rightarrow> nat" where
  "to_call (Running c out) = 1"
| "to_call _ = 0"

definition branch_order :: "(string \<Rightarrow> nat) \<Rightarrow> (branch \<times> branch) set" where
  "branch_order rank = measures
     [\<lambda>b. stage_rank rank (b_progress b), \<lambda>b. stage_retries (b_retries b) (b_progress b), \<lambda>b. to_call (b_progress b)]"

lemma wf_branch_order: "wf (branch_order rank)"
  by (simp add: branch_order_def)

abbreviation done_branch :: "branch \<Rightarrow> bool" where
  "done_branch b \<equiv> finished_result (b_progress b) \<noteq> None"

lemma finished_result_iff [simp]: "finished_result p = Some r \<longleftrightarrow> p = Finished r"
  by (cases p) auto

lemma branch_step_done: "done_branch b \<Longrightarrow> branch_step cfg g fan_in b st = (b, st)"
  by (auto simp: branch_step_def Let_def)

lemma branch_step_decreases:
  assumes g: "ranked rank g" and nd: "\<not> done_branch b" and e: "branch_step cfg g fan_in b st = (b', st')"
  shows "(b', b) \<in> branch_order rank"
proof (cases "b_progress b")
  case (Running c out)
  obtain p own where c: "branch_call cfg g fan_in c out (st\<lparr>ctx := b_ctx b\<rparr>) = (p, own)" by (rule prod.exhaust)
  then have b': "b_progress b' = p" "b_retries b' = b_retries b"
    using e Running by (auto simp: branch_step_def Let_def)
  have "(\<exists>r. p = Finished r) \<or> (\<exists>n r. c = Some n \<and> p = Called n out r)"
    using c by (auto simp: branch_call_def Let_def split: option.splits if_splits prod.splits)
  then show ?thesis using b' Running by (cases c) (auto simp: branch_order_def)
next
  case (Called n out r)
  obtain ctl brc st1 where a: "sub_after cfg g n out r (Some (b_retries b), st\<lparr>ctx := b_ctx b\<rparr>) = (ctl, brc, st1)"
    by (rule prod_cases3)
  obtain rc1 where rc1: "brc = Some rc1" using sub_after_own [of cfg g n out r "b_retries b" "st\<lparr>ctx := b_ctx b\<rparr>"] a by auto
  have b': "b_progress b' = (case ctl of Return r \<Rightarrow> Finished r | Continue c out \<Rightarrow> Running c out)" "b_retries b' = rc1"
    using e Called a rc1 by (auto simp: branch_step_def Let_def branch_rest_def rc_of_def)
  show ?thesis
  proof (cases ctl)
    case (Return r')
    with b' Called show ?thesis by (simp add: branch_order_def)
  next
    case (Continue c' out')
    have "case c' of None \<Rightarrow> True
       | Some m \<Rightarrow> rank (node_id m) < rank (node_id n) \<or> m = n \<and> remaining n rc1 < remaining n (b_retries b)"
      using sub_after_advances [OF g a [unfolded Continue rc1]] by simp
    then show ?thesis using b' Called Continue by (cases c') (auto simp: branch_order_def)
  qed
qed (use nd in simp)

text \<open>What one actor, and what a round of them, does to a branch.\<close>

abbreviation branch_at :: "fork \<times> 'w est \<Rightarrow> nat \<Rightarrow> branch" where
  "branch_at s i \<equiv> branches (fst s) ! i"

abbreviation n_branches :: "fork \<times> 'w est \<Rightarrow> nat" where
  "n_branches s \<equiv> length (branches (fst s))"

lemma set_up_branches:
  "\<exists>b. branches (fst (set_up cfg host wt k g t (f, st))) = branches f @ [b] \<and>
    pending (fst (set_up cfg host wt k g t (f, st))) = pending f"
  by (auto simp: set_up_def Let_def split: prod.split sum.split option.split)

lemma fork_step_branches:
  assumes s'_def: "s' = fork_step cfg host wt k g fan_in a s" and g: "ranked rank g" and i: "i < n_branches s"
  shows "i < n_branches s'" "a \<noteq> Branch i \<or> done_branch (branch_at s i) \<Longrightarrow> branch_at s' i = branch_at s i"
    "a = Branch i \<Longrightarrow> \<not> done_branch (branch_at s i) \<Longrightarrow> (branch_at s' i, branch_at s i) \<in> branch_order rank"
proof -
  obtain f st where s: "s = (f, st)" by (rule prod.exhaust)
  have main: "i < n_branches s' \<and> branch_at s' i = branch_at s i" if "a = Main"
  proof (cases "pending f")
    case Nil
    then show ?thesis using that s i by (simp add: s'_def)
  next
    case (Cons t ts)
    then show ?thesis
      using that s i set_up_branches [of cfg host wt k g t "f\<lparr>pending := ts\<rparr>" st] by (auto simp: s'_def nth_append)
  qed
  have other: "i < n_branches s' \<and> (j \<noteq> i \<longrightarrow> branch_at s' i = branch_at s i)" if "a = Branch j" for j
    using that s i by (auto simp: s'_def split: prod.split)
  show "i < n_branches s'" using main other by (cases a) auto
  show "branch_at s' i = branch_at s i" if "a \<noteq> Branch i \<or> done_branch (branch_at s i)"
  proof (cases "a = Branch i")
    case True
    with that s i show ?thesis by (simp add: s'_def branch_step_done)
  qed (use main other in \<open>cases a; auto\<close>)
  show "(branch_at s' i, branch_at s i) \<in> branch_order rank" if "a = Branch i" "\<not> done_branch (branch_at s i)"
    using branch_step_decreases [OF g that(2), of cfg fan_in st] that(1) s i
    by (cases "branch_step cfg g fan_in (branch_at s i) st") (simp add: s'_def)
qed

lemma fork_step_pending:
  "length (pending (fst (fork_step cfg host wt k g fan_in a s))) =
     (if a = Main then length (pending (fst s)) - 1 else length (pending (fst s)))"
proof (cases s)
  case (Pair f st)
  show ?thesis
  proof (cases a)
    case Main
    then show ?thesis
      using Pair set_up_branches [of cfg host wt k g "hd (pending f)" "f\<lparr>pending := tl (pending f)\<rparr>" st]
      by (auto split: list.split)
  qed (use Pair in \<open>auto split: prod.split\<close>)
qed

lemma fork_step_total:
  "n_branches (fork_step cfg host wt k g fan_in a s) + length (pending (fst (fork_step cfg host wt k g fan_in a s))) =
     n_branches s + length (pending (fst s))"
proof (cases s)
  case (Pair f st)
  show ?thesis
  proof (cases a)
    case Main
    then show ?thesis
      using Pair set_up_branches [of cfg host wt k g "hd (pending f)" "f\<lparr>pending := tl (pending f)\<rparr>" st]
      by (auto split: list.split)
  qed (use Pair in \<open>auto split: prod.split\<close>)
qed

lemma run_schedule_Cons:
  "run_schedule cfg host wt k g fan_in (a # sched) s = run_schedule cfg host wt k g fan_in sched (fork_step cfg host wt k g fan_in a s)"
  "run_schedule cfg host wt k g fan_in [] s = s"
  by (simp_all add: run_schedule_def)

lemma run_schedule_branches:
  assumes "ranked rank g" and "i < n_branches s"
  shows "i < n_branches (run_schedule cfg host wt k g fan_in sched s) \<and>
    (done_branch (branch_at s i) \<longrightarrow> branch_at (run_schedule cfg host wt k g fan_in sched s) i = branch_at s i) \<and>
    (branch_at (run_schedule cfg host wt k g fan_in sched s) i, branch_at s i) \<in> (branch_order rank)\<^sup>* \<and>
    (Branch i \<in> set sched \<longrightarrow> \<not> done_branch (branch_at s i) \<longrightarrow>
      (branch_at (run_schedule cfg host wt k g fan_in sched s) i, branch_at s i) \<in> (branch_order rank)\<^sup>+)"
  using assms(2)
proof (induction sched arbitrary: s)
  case (Cons a sched)
  note step = fork_step_branches [OF refl assms(1) Cons.prems, where cfg = cfg and host = host and wt = wt and k = k and fan_in = fan_in and a = a]
  note IH = Cons.IH [OF step(1)]
  show ?case
  proof (cases "a = Branch i \<and> \<not> done_branch (branch_at s i)")
    case True
    with step(3) have "(branch_at (fork_step cfg host wt k g fan_in a s) i, branch_at s i) \<in> branch_order rank" by blast
    with IH True show ?thesis unfolding run_schedule_Cons by (meson r_into_rtrancl rtrancl_into_trancl1 rtrancl_trans)
  next
    case False
    with step(2) have "branch_at (fork_step cfg host wt k g fan_in a s) i = branch_at s i" by blast
    with IH False show ?thesis unfolding run_schedule_Cons by auto
  qed
qed (simp add: run_schedule_def)

lemma run_schedule_total:
  "n_branches (run_schedule cfg host wt k g fan_in sched s) + length (pending (fst (run_schedule cfg host wt k g fan_in sched s))) =
     n_branches s + length (pending (fst s))"
  by (induction sched arbitrary: s) (simp_all add: run_schedule_Cons fork_step_total)

lemma run_schedule_pending:
  "length (pending (fst (run_schedule cfg host wt k g fan_in sched s))) \<le>
     length (pending (fst s)) - (if Main \<in> set sched then 1 else 0)"
proof (induction sched arbitrary: s)
  case (Cons a sched)
  have "length (pending (fst (run_schedule cfg host wt k g fan_in sched (fork_step cfg host wt k g fan_in a s)))) \<le>
      length (pending (fst (fork_step cfg host wt k g fan_in a s)))"
    using Cons.IH [of "fork_step cfg host wt k g fan_in a s"] by linarith
  then show ?case
    using Cons.IH [of "fork_step cfg host wt k g fan_in a s"] fork_step_pending [of cfg host wt k g fan_in a s]
    by (auto simp: run_schedule_Cons split: if_splits)
qed (simp add: run_schedule_Cons)

text \<open>A schedule in rounds, in each of which every actor has a turn.\<close>

definition schedule :: "(nat \<Rightarrow> actor list) \<Rightarrow> nat \<Rightarrow> actor list" where
  "schedule rounds m = concat (map rounds [0..<m])"

definition fair :: "nat \<Rightarrow> (nat \<Rightarrow> actor list) \<Rightarrow> bool" where
  "fair n_edges rounds = (\<forall>k. Main \<in> set (rounds k) \<and> (\<forall>i < n_edges. Branch i \<in> set (rounds k)))"

lemma run_schedule_Suc:
  "run_schedule cfg host wt j g fan_in (schedule rounds (Suc m)) s =
     run_schedule cfg host wt j g fan_in (rounds m) (run_schedule cfg host wt j g fan_in (schedule rounds m) s)"
  by (simp add: run_schedule_def schedule_def)

lemma pending_after:
  assumes "fair n_edges rounds"
  shows "length (pending (fst (run_schedule cfg host wt j g fan_in (schedule rounds m) s))) \<le> length (pending (fst s)) - m"
proof (induction m)
  case (Suc m)
  have "Main \<in> set (rounds m)" using assms by (simp add: fair_def)
  with run_schedule_pending [of cfg host wt j g fan_in "rounds m" "run_schedule cfg host wt j g fan_in (schedule rounds m) s"] Suc
  show ?case by (simp add: run_schedule_Suc)
qed (simp add: schedule_def run_schedule_def)

lemma branch_ends:
  assumes S_def: "S = (\<lambda>m. run_schedule cfg host wt j g fan_in (schedule rounds m) s)"
    and g: "ranked rank g" and fair: "fair n_edges rounds" and i: "i < n_branches (S k)" "i < n_edges"
  shows "\<exists>m. \<forall>m' \<ge> m. i < n_branches (S m') \<and> done_branch (branch_at (S m') i)"
  using i(1)
proof (induction "branch_at (S k) i" arbitrary: k rule: wf_induct_rule [OF wf_trancl [OF wf_branch_order [of rank]]])
  case (1 k)
  note step = run_schedule_branches [OF g, of i _ cfg host wt j fan_in]
  have S: "S (Suc k) = run_schedule cfg host wt j g fan_in (rounds k) (S k)" for k
    by (simp add: S_def run_schedule_Suc)
  show ?case
  proof (cases "done_branch (branch_at (S k) i)")
    case True
    have "i < n_branches (S (k + d)) \<and> branch_at (S (k + d)) i = branch_at (S k) i" for d
    proof (induction d)
      case (Suc d)
      with step [of "S (k + d)" "rounds (k + d)"] S [of "k + d"] True show ?case by simp
    qed (simp add: 1)
    with True have "i < n_branches (S m') \<and> done_branch (branch_at (S m') i)" if "m' \<ge> k" for m'
      using that by (metis le_add_diff_inverse)
    then show ?thesis by blast
  next
    case False
    have "Branch i \<in> set (rounds k)" using fair i(2) by (simp add: fair_def)
    with step [OF 1(2), of "rounds k"] False
    have "i < n_branches (S (Suc k))" "(branch_at (S (Suc k)) i, branch_at (S k) i) \<in> (branch_order rank)\<^sup>+"
      by (simp_all add: S)
    then show ?thesis by (intro 1(1))
  qed
qed

lemma those_Some: "list_all (\<lambda>x. x \<noteq> None) xs \<Longrightarrow> \<exists>ys. those xs = Some ys"
  by (induction xs) auto

lemma fair_schedule_results:
  assumes g: "ranked rank g" and fair: "fair n_edges rounds" and t: "n_branches s + length (pending (fst s)) = n_edges"
  shows "\<exists>m. \<forall>m' \<ge> m. \<exists>rs. branch_results (fst (run_schedule cfg host wt j g fan_in (schedule rounds m') s)) = Some rs"
proof -
  let ?S = "\<lambda>m. run_schedule cfg host wt j g fan_in (schedule rounds m) s"
  have pend: "pending (fst (?S m)) = []" if "m \<ge> n_edges" for m
    using pending_after [OF fair, of cfg host wt j g fan_in m s] t that by simp
  have n: "n_branches (?S m) = n_edges" if "m \<ge> n_edges" for m
    using run_schedule_total [of cfg host wt j g fan_in "schedule rounds m" s] t pend [OF that] by simp
  have "\<exists>m. \<forall>m' \<ge> m. done_branch (branch_at (?S m') i)" if "i < n_edges" for i
  proof -
    have "i < n_branches (?S n_edges)" using n [OF order_refl] that by simp
    from branch_ends [OF refl g fair this that] show ?thesis by blast
  qed
  then obtain M where M: "\<And>i m'. i < n_edges \<Longrightarrow> m' \<ge> M i \<Longrightarrow> done_branch (branch_at (?S m') i)" by metis
  have "\<exists>rs. branch_results (fst (?S m)) = Some rs" if "m \<ge> Max (insert n_edges (M ` {..<n_edges}))" for m
  proof -
    have "m \<ge> n_edges" using that by simp
    moreover have "done_branch (branch_at (?S m) i)" if "i < n_edges" for i
    proof -
      have "M i \<le> Max (insert n_edges (M ` {..<n_edges}))" using that by (intro Max_ge) auto
      also have "\<dots> \<le> m" by (rule \<open>m \<ge> Max _\<close>)
      finally show ?thesis by (rule M [OF that])
    qed
    ultimately have "list_all done_branch (branches (fst (?S m)))" using n by (simp add: list_all_length)
    then have "list_all (\<lambda>x. x \<noteq> None) (map (\<lambda>b. map_option (Pair (b_target b)) (finished_result (b_progress b)))
        (branches (fst (?S m))))"
      by (simp add: list_all_iff)
    from those_Some [OF this] pend [OF \<open>m \<ge> n_edges\<close>] show ?thesis by (simp only: branch_results_def if_True simp_thms)
  qed
  then show ?thesis by blast
qed

lemma parallel_handler_returns:
  assumes "ranked rank g" and "fair (length (outgoing_edges g (node_id n))) rounds"
  shows "\<exists>m. \<forall>m' \<ge> m. \<exists>r st'. parallel_handler cfg host wt (schedule rounds m') n g st = Some (r, st')"
proof -
  define ts where "ts = map eto (outgoing_edges g (node_id n))"
  let ?s = "fork_start host wt ts st"
  have t: "n_branches ?s + length (pending (fst ?s)) = length (outgoing_edges g (node_id n))"
    by (simp add: fork_start_def Let_def ts_def split: prod.split)
  from fair_schedule_results [OF assms t, of cfg host wt "node_id n" "find_common_fan_in_bfs g ts"]
  show ?thesis
    unfolding parallel_handler_def ts_def [symmetric] Let_def
    by (auto split: prod.split) (metis fst_conv)
qed

text \<open>C8: forks end. In a graph whose edges descend in some ranking, a fork returns under every fair schedule,
  that is one in rounds in each of which the main thread and every branch have a turn: from some round on, all
  branches have been set up and have ended, whatever the handlers do and whatever else is scheduled.\<close>

theorem parallel_returns:
  assumes "ranked rank g" and "fair (length (outgoing_edges g (node_id n))) rounds"
  shows "\<exists>m. \<forall>m' \<ge> m. \<exists>r st'. parallel_handler cfg host wt (schedule rounds m') n g st = Some (r, st')"
  using assms by (rule parallel_handler_returns)

section \<open>A branch on its own\<close>

lemma branch_step_call:
  assumes "b_progress b = Running c out" and "branch_call cfg g fan_in c out (st\<lparr>ctx := b_ctx b\<rparr>) = (p, own)"
  shows "branch_step cfg g fan_in b st = (b\<lparr>b_ctx := ctx own, b_progress := p\<rparr>, own\<lparr>ctx := ctx st\<rparr>)"
  using assms by (simp add: branch_step_def Let_def)

lemma branch_step_rest:
  assumes "b_progress b = Called n out r"
    and "branch_rest cfg g n out r (b_retries b) (st\<lparr>ctx := b_ctx b\<rparr>) = (p, rc, own)"
  shows "branch_step cfg g fan_in b st = (b\<lparr>b_ctx := ctx own, b_retries := rc, b_progress := p\<rparr>, own\<lparr>ctx := ctx st\<rparr>)"
  using assms by (simp add: branch_step_def Let_def)

definition alone :: "'w config \<Rightarrow> graph \<Rightarrow> string \<Rightarrow> nat \<Rightarrow> branch \<times> 'w est \<Rightarrow> branch \<times> 'w est" where
  "alone cfg g fan_in m = ((\<lambda>(b, st). branch_step cfg g fan_in b st) ^^ m)"

lemma alone_Suc: "alone cfg g fan_in (Suc m) (b, st) = alone cfg g fan_in m (branch_step cfg g fan_in b st)"
  by (simp add: alone_def funpow_swap1)

lemma sub_finish_exclusive: "sub_finish cfg g e False c out st = (Inr out, st)"
  by (simp add: sub_finish_def split: option.split)

lemma sub_loop_alone:
  assumes "sub_loop cfg g fan_in False k c out (Some rc, st\<lparr>ctx := b_ctx b\<rparr>) = Some (r, Some rc', st')"
    and "b_progress b = Running c out" and "b_retries b = rc"
  shows "\<exists>m. alone cfg g fan_in m (b, st) =
    (b\<lparr>b_ctx := ctx st', b_retries := rc', b_progress := Finished r\<rparr>, st'\<lparr>ctx := ctx st\<rparr>)"
  using assms
proof (induction k arbitrary: c out rc b st)
  case (Suc k)
  define own where "own = st\<lparr>ctx := b_ctx b\<rparr>"
  define own1 where "own1 = (case c of Some n \<Rightarrow> if node_id n \<noteq> fan_in then poll cfg own else own | None \<Rightarrow> own)"
  note eq = Suc.prems(1) [folded own_def, unfolded sub_loop.simps(2) Let_def [of "case c of _ \<Rightarrow> _"], folded own1_def,
    unfolded sub_finish_exclusive Let_def split_conv]
  have one: ?case if "branch_step cfg g fan_in b st =
      (b\<lparr>b_ctx := ctx st', b_retries := rc', b_progress := Finished r\<rparr>, st'\<lparr>ctx := ctx st\<rparr>)"
    using that by (intro exI [of _ 1]) (simp add: alone_def)
  show ?case
  proof (cases "c = None \<or> (\<exists>n. c = Some n \<and> (node_id n = fan_in \<or> cancelled own1))")
    case True
    then have "st' = own1" "r = Inr out" "rc' = rc"
      using eq by (auto split: option.splits)
    moreover have "branch_call cfg g fan_in c out own = (Finished (Inr out), own1)"
      using True by (auto simp: branch_call_def Let_def own1_def split: option.splits if_splits)
    ultimately show ?thesis
      using branch_step_call [OF Suc.prems(2), of cfg g fan_in st "Finished (Inr out)" own1] Suc.prems(3)
      by (intro one) (simp add: own_def)
  next
    case False
    then obtain n where n: "c = Some n" "node_id n \<noteq> fan_in" "\<not> cancelled own1" by (cases c) auto
    obtain r1 own2 where call: "sub_call cfg g n own1 = (r1, own2)" by (rule prod.exhaust)
    define b1 where "b1 = b\<lparr>b_ctx := ctx own2, b_progress := Called n out r1\<rparr>"
    have b1: "branch_step cfg g fan_in b st = (b1, own2\<lparr>ctx := ctx st\<rparr>)"
      using n call unfolding b1_def
      by (intro branch_step_call [OF Suc.prems(2)]) (simp add: branch_call_def Let_def own1_def own_def)
    obtain ctl brc own3 where after: "sub_after cfg g n out r1 (Some rc, own2) = (ctl, brc, own3)" by (rule prod_cases3)
    obtain rc1 where rc1: "brc = Some rc1" using sub_after_own [of cfg g n out r1 rc own2] after by auto
    have step: "sub_step cfg g n out (Some rc, own1) = (ctl, Some rc1, own3)"
      by (simp add: sub_step_after call after rc1)
    define b2 where "b2 = b\<lparr>b_ctx := ctx own3, b_retries := rc1,
      b_progress := (case ctl of Return r \<Rightarrow> Finished r | Continue c out \<Rightarrow> Running c out)\<rparr>"
    have "branch_rest cfg g n out r1 rc own2 = (b_progress b2, rc1, own3)"
      by (simp add: branch_rest_def after rc1 rc_of_def b2_def)
    then have b2: "branch_step cfg g fan_in b1 (own2\<lparr>ctx := ctx st\<rparr>) = (b2, own3\<lparr>ctx := ctx st\<rparr>)"
      using branch_step_rest [of b1 n out r1 cfg g "own2\<lparr>ctx := ctx st\<rparr>" "b_progress b2" rc1 own3 fan_in] Suc.prems(3)
      by (simp add: b1_def b2_def)
    have two: "alone cfg g fan_in (Suc (Suc m)) (b, st) = alone cfg g fan_in m (b2, own3\<lparr>ctx := ctx st\<rparr>)" for m
      by (simp add: alone_Suc b1 b2)
    show ?thesis
    proof (cases ctl)
      case (Return r')
      then have "r = r'" "rc' = rc1" "st' = own3" using eq n step by auto
      with two [of 0] Return show ?thesis by (intro exI [of _ "Suc (Suc 0)"]) (simp add: b2_def alone_def)
    next
      case (Continue c' out')
      then have "sub_loop cfg g fan_in False k c' out' (Some rc1, own3) = Some (r, Some rc', st')" using eq n step by auto
      moreover have "own3 = (own3\<lparr>ctx := ctx st\<rparr>)\<lparr>ctx := b_ctx b2\<rparr>" by (simp add: b2_def)
      ultimately obtain m where "alone cfg g fan_in m (b2, own3\<lparr>ctx := ctx st\<rparr>) =
          (b2\<lparr>b_ctx := ctx st', b_retries := rc', b_progress := Finished r\<rparr>, st'\<lparr>ctx := ctx st\<rparr>)"
        using Suc.IH [where c = c' and out = out' and rc = rc1 and st = "own3\<lparr>ctx := ctx st\<rparr>" and b = b2] Continue
        by (auto simp: b2_def)
      with two [of m] show ?thesis by (intro exI [of _ "Suc (Suc m)"]) (simp add: b2_def)
    qed
  qed
qed simp

lemma branches_update_id: "f\<lparr>branches := (branches f)[i := branches f ! i]\<rparr> = f"
  by simp

lemma run_schedule_alone:
  assumes "i < length (branches f)" and "alone cfg g fan_in m (branches f ! i, st) = (b', st')"
  shows "run_schedule cfg host wt j g fan_in (replicate m (Branch i)) (f, st) = (f\<lparr>branches := (branches f)[i := b']\<rparr>, st')"
  using assms
proof (induction m arbitrary: f st)
  case (Suc m)
  obtain b1 st1 where b1: "branch_step cfg g fan_in (branches f ! i) st = (b1, st1)" by (rule prod.exhaust)
  have "alone cfg g fan_in m (branches (f\<lparr>branches := (branches f)[i := b1]\<rparr>) ! i, st1) = (b', st')"
    using Suc.prems b1 by (simp add: alone_Suc)
  from Suc.IH [OF _ this] Suc.prems(1) b1 show ?case by (simp add: run_schedule_Cons)
qed (auto simp: run_schedule_Cons alone_def branches_update_id)

lemma sub_loop_own:
  "sub_loop cfg g e incl k c out s = Some (r, s') \<Longrightarrow> fst s \<noteq> None \<Longrightarrow> fst s' \<noteq> None"
proof (induction cfg g e incl k c out s rule: sub_loop.induct)
  case (2 cfg g b incl k c out brc st)
  define st1 where "st1 = (case c of Some n \<Rightarrow> if node_id n \<noteq> b then poll cfg st else st | None \<Rightarrow> st)"
  obtain rc where rc: "brc = Some rc" using "2.prems"(2) by auto
  note eq = "2.prems"(1) [unfolded sub_loop.simps(2) Let_def [of "case c of _ \<Rightarrow> _"], folded st1_def]
  show ?case
  proof (cases "\<exists>n c' out' s1. c = Some n \<and> \<not> (node_id n = b \<or> cancelled st1) \<and>
      sub_step cfg g n out (brc, st1) = (Continue c' out', s1)")
    case True
    then obtain n c' out' s1 where n: "c = Some n" "\<not> (node_id n = b \<or> cancelled st1)"
      "sub_step cfg g n out (brc, st1) = (Continue c' out', s1)" by blast
    have "fst s1 \<noteq> None" using n(3) sub_after_own [of cfg g n out _ rc]
      by (auto simp: sub_step_after rc split: prod.splits) (metis fst_conv snd_conv option.distinct(1))
    moreover have "sub_loop cfg g b incl k c' out' s1 = Some (r, s')" using eq n by (auto simp: Let_def)
    ultimately show ?thesis using "2.IH" [OF st1_def refl n(1,2) n(3) [symmetric] refl] by blast
  next
    case False
    have "fst (snd (sub_step cfg g n out (Some rc, st1))) \<noteq> None" for n
      using sub_after_own [of cfg g n out _ rc]
      by (auto simp: sub_step_after split: prod.split)
    then show ?thesis using eq False rc
      by (auto simp: Let_def split: option.splits prod.splits if_splits sub_ctl.splits) (metis fst_conv snd_conv)+
  qed
qed simp

lemma sub_own_controller:
  "execute_subgraph cfg k g a e (Some rc) incl st = Some (r, brc, st') \<Longrightarrow> brc \<noteq> None"
  using sub_loop_own by (auto simp: execute_subgraph_def split: option.splits) fastforce

text \<open>C10: a branch is a subgraph run. If \<open>execute_subgraph\<close>, started on a branch's target with the branch's copy of
  the context and a fresh retry controller, returns, then so many uninterrupted steps of that branch leave the
  fork with exactly that result, that branch context and that state, and with the other branches and the
  context of the fork as they were.\<close>

theorem branch_alone_is_subgraph:
  assumes "execute_subgraph cfg k g t fan_in (Some []) False (st\<lparr>ctx := c\<rparr>) = Some (r, Some rc, st')"
    and "i < length (branches f)" and "branches f ! i = start_branch g t c"
  shows "\<exists>m. run_schedule cfg host wt j g fan_in (replicate m (Branch i)) (f, st) =
    (f\<lparr>branches := (branches f)[i := \<lparr>b_target = t, b_ctx = ctx st', b_retries = rc, b_progress = Finished r\<rparr>]\<rparr>,
     st'\<lparr>ctx := ctx st\<rparr>)"
proof (cases "find_node g t")
  case None
  then have "st' = st\<lparr>ctx := c\<rparr>" "rc = []" "branches f ! i = \<lparr>b_target = t, b_ctx = ctx st', b_retries = rc, b_progress = Finished r\<rparr>"
    using assms by (auto simp: execute_subgraph_def start_branch_def)
  moreover from this have "(branches f)[i := \<lparr>b_target = t, b_ctx = ctx st', b_retries = rc, b_progress = Finished r\<rparr>] = branches f"
    by (metis list_update_id)
  ultimately show ?thesis by (intro exI [of _ 0]) (simp add: run_schedule_Cons)
next
  case (Some n)
  define b where "b = start_branch g t c"
  have b: "b_ctx b = c" "b_progress b = Running (Some n) (new_outcome SUCCESS)" "b_retries b = []" "b_target b = t"
    by (simp_all add: b_def start_branch_def Some)
  have "sub_loop cfg g fan_in False k (Some n) (new_outcome SUCCESS) (Some [], st\<lparr>ctx := b_ctx b\<rparr>) = Some (r, Some rc, st')"
    using assms(1) Some b(1) by (simp add: execute_subgraph_def)
  from sub_loop_alone [OF this b(2,3)] obtain m where
    "alone cfg g fan_in m (b, st) = (b\<lparr>b_ctx := ctx st', b_retries := rc, b_progress := Finished r\<rparr>, st'\<lparr>ctx := ctx st\<rparr>)"
    by blast
  then have "alone cfg g fan_in m (branches f ! i, st) =
      (\<lparr>b_target = t, b_ctx = ctx st', b_retries = rc, b_progress = Finished r\<rparr>, st'\<lparr>ctx := ctx st\<rparr>)"
    using assms(3) b by (simp add: b_def)
  from run_schedule_alone [OF assms(2) this] show ?thesis by blast
qed

section \<open>What a fork reports\<close>

text \<open>The branches are set up in the order of the edges, and a failed setup is one failed branch.\<close>

definition fork_shape :: "string list \<Rightarrow> fork \<Rightarrow> bool" where
  "fork_shape targets f =
     (map b_target (branches f) @ pending f = targets \<and> omap_ok (pre_updates f) \<and>
      (pre_failure f \<longrightarrow> (\<exists>b \<in> set (branches f). \<exists>e. b_progress b = Finished (Inl e))))"

lemma branch_step_target [simp]: "b_target (fst (branch_step cfg g fan_in b st)) = b_target b"
  by (simp add: branch_step_def Let_def split: prod.split)

lemma start_branch_target [simp]: "b_target (start_branch g t c) = t"
  by (simp add: start_branch_def)

lemma fork_shape_set_up:
  assumes "fork_shape ts f" and "pending f = t # rest"
  shows "fork_shape ts (fst (set_up cfg host wt j g t (f\<lparr>pending := rest\<rparr>, st)))"
  using assms by (auto simp: set_up_def Let_def fork_shape_def worktree_failed_def split: prod.split sum.split option.split)

lemma fork_shape_step:
  assumes "fork_shape ts (fst s)"
  shows "fork_shape ts (fst (fork_step cfg host wt j g fan_in a s))"
proof (cases s)
  case (Pair f st)
  show ?thesis
  proof (cases a)
    case Main
    with Pair assms show ?thesis by (auto intro: fork_shape_set_up split: list.split)
  next
    case (Branch i)
    obtain b st' where b: "branch_step cfg g fan_in (branches f ! i) st = (b, st')" by (rule prod.exhaust)
    have t: "b_target b = b_target (branches f ! i)" using branch_step_target [of cfg g fan_in "branches f ! i" st] b by simp
    have same: "b = branches f ! i" if "b_progress (branches f ! i) = Finished e" for e
      using branch_step_done [of "branches f ! i" cfg g fan_in st] that b by simp
    have "\<exists>x \<in> set ((branches f)[i := b]). \<exists>e. b_progress x = Finished (Inl e)"
      if "\<exists>x \<in> set (branches f). \<exists>e. b_progress x = Finished (Inl e)" "i < length (branches f)"
    proof -
      from that(1) obtain x e where x: "x \<in> set (branches f)" "b_progress x = Finished (Inl e)" by blast
      from x(1) obtain l where "l < length (branches f)" "x = branches f ! l" by (metis in_set_conv_nth)
      with x(2) have l: "l < length (branches f)" "b_progress (branches f ! l) = Finished (Inl e)" by simp_all
      then have "(branches f)[i := b] ! l = branches f ! l" using same by (cases "l = i") auto
      with l(1) have "branches f ! l \<in> set ((branches f)[i := b])" by (metis length_list_update nth_mem)
      with l(2) show ?thesis by blast
    qed
    moreover have "map b_target ((branches f)[i := b]) = map b_target (branches f)"
      using t by (metis list_update_id map_update)
    ultimately show ?thesis using Pair Branch b assms by (auto simp: fork_shape_def)
  qed
qed

lemma fork_shape_run: "fork_shape ts (fst s) \<Longrightarrow> fork_shape ts (fst (run_schedule cfg host wt j g fan_in sched s))"
  by (induction sched arbitrary: s) (simp_all add: run_schedule_Cons fork_shape_step)

lemma omap_ok_single: "omap_ok [(k, v)]"
  by (simp add: omap_ok_Cons)

lemma fork_shape_start: "fork_shape ts (fst (fork_start host wt ts st))"
  by (simp add: fork_start_def Let_def fork_shape_def omap_ok_single split: prod.split)

lemma those_map_fst:
  "those (map (\<lambda>b. map_option (Pair (f b)) (p b)) bs) = Some rs \<Longrightarrow>
     map fst rs = map f bs \<and> (\<forall>b \<in> set bs. \<forall>r. p b = Some r \<longrightarrow> (f b, r) \<in> set rs) \<and>
     (\<forall>tr \<in> set rs. \<exists>b \<in> set bs. tr = (f b, the (p b)) \<and> p b \<noteq> None)"
proof (induction bs arbitrary: rs)
  case (Cons b bs)
  then obtain x rs' where x: "p b = Some x" "rs = (f b, x) # rs'"
    "those (map (\<lambda>b. map_option (Pair (f b)) (p b)) bs) = Some rs'" by (auto split: option.splits)
  from Cons.IH [OF x(3)] x(1,2) show ?case by auto
qed simp

definition own_names :: "string list \<Rightarrow> bool" where
  "own_names ts = (distinct ts \<and> (\<forall>t \<in> set ts. CHR ''.'' \<notin> set t \<and> t \<noteq> ''parallel''))"

lemma namespaced_key:
  assumes "CHR ''.'' \<notin> set t'" and "t' \<noteq> ''parallel''"
  shows "t' @ ''.'' @ k \<noteq> parallel_key t x"
proof
  assume eq: "t' @ ''.'' @ k = parallel_key t x"
  have "takeWhile (\<lambda>c. c \<noteq> CHR ''.'') (t' @ ''.'' @ k) = t'"
    using assms(1) by (subst takeWhile_append2) auto
  moreover have "takeWhile (\<lambda>c. c \<noteq> CHR ''.'') (parallel_key t x) = ''parallel''"
    by (simp add: parallel_key_def)
  ultimately show False using eq assms(2) by metis
qed

lemma parallel_key_inj: "parallel_key t ''status'' = parallel_key t' ''status'' \<longleftrightarrow> t = t'"
  "parallel_key t ''output'' = parallel_key t' ''output'' \<longleftrightarrow> t = t'"
  by (simp_all add: parallel_key_def)

lemma parallel_key_status_output: "parallel_key t ''status'' \<noteq> parallel_key t' ''output''"
proof
  assume "parallel_key t ''status'' = parallel_key t' ''output''"
  then have "last (parallel_key t ''status'') = last (parallel_key t' ''output'')"
    and "last (butlast (parallel_key t ''status'')) = last (butlast (parallel_key t' ''output''))" by simp_all
  then show False by (simp add: parallel_key_def butlast_append)
qed

lemma map_of_fold_update:
  "(\<And>kv. kv \<in> set kvs \<Longrightarrow> f kv \<noteq> k) \<Longrightarrow> map_of (fold (\<lambda>kv. omap_set (f kv) (v kv)) kvs u) k = map_of u k"
  by (induction kvs arbitrary: u) auto

lemma merge_branch_other:
  assumes "CHR ''.'' \<notin> set t" "t \<noteq> ''parallel''" "t \<noteq> t'" and "x = ''status'' \<or> x = ''output''"
  shows "map_of (merge_branch (t, r) u) (parallel_key t' x) = map_of u (parallel_key t' x)"
proof (cases r)
  case (Inr out)
  have "map_of (fold (\<lambda>kv. omap_set (t @ ''.'' @ fst kv) (snd kv)) (context_updates out) u) (parallel_key t' x) = map_of u (parallel_key t' x)"
    by (rule map_of_fold_update) (rule namespaced_key [OF assms(1,2)])
  then show ?thesis
    using Inr assms(3,4) parallel_key_status_output [of t t'] parallel_key_status_output [of t' t]
    by (auto simp: merge_branch_def Let_def parallel_key_inj)
qed (simp add: merge_branch_def)

lemma merge_branch_own:
  "map_of (merge_branch (t, Inr out) u) (parallel_key t ''status'') = Some (status_to_string (status out))"
  "map_of (merge_branch (t, Inr out) u) (parallel_key t ''output'') = Some (out_text out)"
  using parallel_key_status_output [of t t] by (simp_all add: merge_branch_def Let_def)

lemma merge_branches_at:
  assumes "own_names (map fst rs)" and "(t, Inr out) \<in> set rs"
  shows "map_of (fold merge_branch rs u) (parallel_key t ''status'') = Some (status_to_string (status out)) \<and>
    map_of (fold merge_branch rs u) (parallel_key t ''output'') = Some (out_text out)"
  using assms
proof (induction rs arbitrary: u)
  case (Cons tr rs)
  obtain t' r' where tr: "tr = (t', r')" by (rule prod.exhaust)
  have rest: "map_of (fold merge_branch rs u) (parallel_key t x) = map_of u (parallel_key t x)"
    if "t \<notin> set (map fst rs)" "own_names (map fst rs)" "x = ''status'' \<or> x = ''output''" for u x and rs :: "(string \<times> outcome result) list"
    using that
  proof (induction rs arbitrary: u)
    case (Cons tr rs)
    then show ?case
      using merge_branch_other [of "fst tr" t x "snd tr" u] by (auto simp: own_names_def)
  qed simp
  have own: "own_names (map fst rs)" using Cons.prems(1) by (simp add: own_names_def)
  show ?case
  proof (cases "(t, Inr out) \<in> set rs")
    case True
    from Cons.IH [OF own this] show ?thesis by simp
  next
    case False
    with Cons.prems tr have "tr = (t, Inr out)" "t \<notin> set (map fst rs)" by (auto simp: own_names_def)
    with rest [OF _ own] show ?thesis by (simp add: merge_branch_own)
  qed
qed simp

lemma parallel_key_no_meta:
  assumes "CHR ''.'' \<notin> set x"
  shows "parallel_key t y \<noteq> ''parallel.'' @ x"
proof
  assume "parallel_key t y = ''parallel.'' @ x"
  then have "x = t @ ''.'' @ y" by (simp add: parallel_key_def)
  with assms show False by simp
qed

lemmas parallel_key_meta =
  parallel_key_no_meta [of "''fan_in_target''", simplified] parallel_key_no_meta [of "''branch_count''", simplified]
  parallel_key_no_meta [of "''join_policy''", simplified] parallel_key_no_meta [of "''branches''", simplified]

text \<open>When a join succeeds, by the results of the branches.\<close>

definition join_rule :: "node \<Rightarrow> outcome result list \<Rightarrow> bool" where
  "join_rule n rs =
     (let policy = attr_get_or (nattrs n) ''join_policy'' ''wait_all'' in
      if policy = ''first_success'' then list_ex (has_status [SUCCESS]) rs
      else if policy = ''threshold'' then
        or_else 2 (attr_get_int (nattrs n) ''join_threshold'') \<le> int (length (filter (has_status [SUCCESS, PARTIAL_SUCCESS]) rs))
      else list_all (\<lambda>r. \<not> branch_failed r) rs)"

lemma join_status_rule:
  assumes "any_failure \<longleftrightarrow> (\<exists>r \<in> set rs. branch_failed r)"
  shows "join_status n rs any_failure = (if join_rule n rs then SUCCESS else FAILURE)"
  using assms
  by (auto simp: join_status_def join_rule_def Let_def list_ex_iff list_all_iff or_else_def split: option.split)

lemma join_branches_updates:
  "map_of (context_updates (join_branches n fan_in rs f)) (parallel_key t x) =
     map_of (fold merge_branch rs (pre_updates f)) (parallel_key t x)"
  using parallel_key_meta [of t x] by (simp add: join_branches_def Let_def new_outcome_def)

lemma join_branches_meta:
  "map_of (context_updates (join_branches n fan_in rs f)) ''parallel.branches'' = Some (branch_list (map fst rs))"
  "map_of (context_updates (join_branches n fan_in rs f)) ''parallel.fan_in_target'' = Some fan_in"
  by (simp_all add: join_branches_def Let_def new_outcome_def)

lemma parallel_handler_result:
  assumes h: "parallel_handler cfg host wt sched n g st = Some (Inr out, st')"
    and ne: "outgoing_edges g (node_id n) \<noteq> []"
  shows "\<exists>rs f. map fst rs = map eto (outgoing_edges g (node_id n)) \<and>
    out = join_branches n (find_common_fan_in_bfs g (map eto (outgoing_edges g (node_id n)))) rs f \<and>
    omap_ok (pre_updates f) \<and> (pre_failure f \<longrightarrow> (\<exists>r \<in> set (map snd rs). branch_failed r))"
proof -
  define ts where "ts = map eto (outgoing_edges g (node_id n))"
  define fan_in where "fan_in = find_common_fan_in_bfs g ts"
  obtain f st1 where f: "run_schedule cfg host wt (node_id n) g fan_in sched (fork_start host wt ts st) = (f, st1)"
    by (rule prod.exhaust)
  have shape: "fork_shape ts f"
    using fork_shape_run [of ts "fork_start host wt ts st" cfg host wt "node_id n" g fan_in sched, OF fork_shape_start] f
    by simp
  note e = h [unfolded parallel_handler_def, folded ts_def, unfolded Let_def, folded fan_in_def, unfolded f]
  then obtain rs where rs: "branch_results f = Some rs" "out = join_branches n fan_in rs f"
    using ne by (auto simp: ts_def split: if_splits)
  then have "pending f = []" and those: "those (map (\<lambda>b. map_option (Pair (b_target b)) (finished_result (b_progress b))) (branches f)) = Some rs"
    by (auto simp: branch_results_def split: if_splits)
  with shape have "map fst rs = ts" using those_map_fst [OF those] by (simp add: fork_shape_def)
  moreover have "\<exists>r \<in> set (map snd rs). branch_failed r" if "pre_failure f"
  proof -
    from that shape obtain b e where b: "b \<in> set (branches f)" "b_progress b = Finished (Inl e)"
      by (auto simp: fork_shape_def)
    with those_map_fst [OF those] have "(b_target b, Inl e) \<in> set rs" by auto
    then have "Inl e \<in> set (map snd rs)" by force
    then show ?thesis by (intro bexI [of _ "Inl e"]) (simp add: branch_failed_def)
  qed
  moreover have "omap_ok (pre_updates f)" using shape by (simp add: fork_shape_def)
  ultimately show ?thesis using rs(2) unfolding ts_def fan_in_def by blast
qed

lemma omap_ok_join_branches: "omap_ok (pre_updates f) \<Longrightarrow> omap_ok (context_updates (join_branches n fan_in rs f))"
proof -
  have upd: "omap_ok u \<Longrightarrow> omap_ok (fold (\<lambda>kv. omap_set (h kv) (v kv)) kvs u)" for u :: "(string, string) omap"
    and h v :: "string \<times> string \<Rightarrow> string" and kvs by (induction kvs arbitrary: u) auto
  have "omap_ok u \<Longrightarrow> omap_ok (merge_branch tr u)" for tr u
    by (auto simp: merge_branch_def Let_def upd split: sum.split)
  then have "omap_ok u \<Longrightarrow> omap_ok (fold merge_branch rs u)" for u by (induction rs arbitrary: u) auto
  then show "omap_ok (pre_updates f) \<Longrightarrow> omap_ok (context_updates (join_branches n fan_in rs f))"
    by (simp add: join_branches_def Let_def new_outcome_def)
qed


section \<open>A fork that is executed again\<close>

definition all_skipped :: "string list \<Rightarrow> fork \<Rightarrow> bool" where
  "all_skipped targets f =
     (set (pending f) \<subseteq> set targets \<and> \<not> pre_failure f \<and>
      (\<forall>b \<in> set (branches f). \<exists>out. b_progress b = Finished (Inr out) \<and> status out = SUCCESS))"

lemma all_skipped_step:
  assumes "all_skipped ts (fst s)" and "\<forall>t \<in> set ts. ctx_get (ctx (snd s)) (parallel_key t ''status'') = ''SUCCESS''"
  shows "all_skipped ts (fst (fork_step cfg host wt j g fan_in a s)) \<and> snd (fork_step cfg host wt j g fan_in a s) = snd s"
proof (cases s)
  case (Pair f st)
  show ?thesis
  proof (cases a)
    case Main
    with Pair assms show ?thesis
      by (auto simp: all_skipped_def set_up_def Let_def new_outcome_def split: list.split)
  next
    case (Branch i)
    have "branch_step cfg g fan_in (branches f ! i) st = (branches f ! i, st)" if "i < length (branches f)"
      using Pair assms that by (intro branch_step_done) (auto simp: all_skipped_def in_set_conv_nth Ball_def)
    with Pair Branch assms show ?thesis by (simp add: branches_update_id)
  qed
qed

lemma all_skipped_run:
  assumes "all_skipped ts (fst s)" and "\<forall>t \<in> set ts. ctx_get (ctx (snd s)) (parallel_key t ''status'') = ''SUCCESS''"
  shows "all_skipped ts (fst (run_schedule cfg host wt j g fan_in sched s)) \<and> snd (run_schedule cfg host wt j g fan_in sched s) = snd s"
  using assms
proof (induction sched arbitrary: s)
  case (Cons a sched)
  from all_skipped_step [OF Cons.prems, of cfg host wt j g fan_in a] Cons show ?case by (simp add: run_schedule_Cons)
qed (simp add: run_schedule_Cons)

lemma skipped_join:
  assumes "\<forall>r \<in> set rs. \<exists>out. r = Inr out \<and> status out = SUCCESS" and "rs \<noteq> []"
    and "attr_get_or (nattrs n) ''join_policy'' ''wait_all'' \<noteq> ''threshold''"
  shows "join_rule n rs"
  using assms by (cases rs) (auto simp: join_rule_def Let_def list_ex_iff list_all_iff has_status_def branch_failed_def)

text \<open>Fact: a fork reached again runs nothing. If the context says of every branch of a fork that it succeeded, as it
  does after any earlier execution in which they did, the fork returns \<open>SUCCESS\<close> (unless its policy is a
  threshold) without running a stage, emitting an event or changing the engine state in any way.\<close>

theorem fork_runs_once:
  assumes "parallel_handler cfg host wt sched n g st = Some (Inr out, st')"
    and "strategy wt \<noteq> Wt_Auto" and "outgoing_edges g (node_id n) \<noteq> []"
    and "\<forall>e \<in> set (outgoing_edges g (node_id n)). ctx_get (ctx st) (parallel_key (eto e) ''status'') = ''SUCCESS''"
    and "attr_get_or (nattrs n) ''join_policy'' ''wait_all'' \<noteq> ''threshold''"
  shows "status out = SUCCESS \<and> st' = st"
proof -
  define ts where "ts = map eto (outgoing_edges g (node_id n))"
  define fan_in where "fan_in = find_common_fan_in_bfs g ts"
  have start: "fork_start host wt ts st = (\<lparr>pending = ts, branches = [], pre_updates = [], pre_failure = False\<rparr>, st)"
    using assms(2) by (simp add: fork_start_def)
  obtain f st1 where f: "run_schedule cfg host wt (node_id n) g fan_in sched (fork_start host wt ts st) = (f, st1)"
    by (rule prod.exhaust)
  have "all_skipped ts (fst (fork_start host wt ts st))" by (simp add: start all_skipped_def)
  moreover have "\<forall>t \<in> set ts. ctx_get (ctx (snd (fork_start host wt ts st))) (parallel_key t ''status'') = ''SUCCESS''"
    using assms(4) by (simp add: start) (simp add: ts_def)
  ultimately have inv: "all_skipped ts f" "st1 = st"
    using all_skipped_run [of ts "fork_start host wt ts st" cfg host wt "node_id n" g fan_in sched] f by (simp_all add: start)
  note e = assms(1) [unfolded parallel_handler_def, folded ts_def, unfolded Let_def, folded fan_in_def, unfolded f]
  then obtain rs where rs: "branch_results f = Some rs" "out = join_branches n fan_in rs f" "st' = st1"
    using assms(3) by (auto simp: ts_def split: if_splits)
  then have p: "pending f = []" and those: "those (map (\<lambda>b. map_option (Pair (b_target b)) (finished_result (b_progress b))) (branches f)) = Some rs"
    by (auto simp: branch_results_def split: if_splits)
  have succ: "\<exists>out. r = Inr out \<and> status out = SUCCESS" if r: "r \<in> set (map snd rs)" for r
    using r inv(1) those_map_fst [OF those] by (fastforce simp: all_skipped_def)
  have "fork_shape ts f"
    using fork_shape_run [of ts "fork_start host wt ts st" cfg host wt "node_id n" g fan_in sched, OF fork_shape_start] f
    by simp
  then have "map fst rs = ts" using p those_map_fst [OF those] by (simp add: fork_shape_def)
  then have "map snd rs \<noteq> []" using assms(3) by (auto simp: ts_def)
  then have "join_rule n (map snd rs)" using skipped_join succ assms(5) by blast
  moreover have "(pre_failure f \<or> (\<exists>tr \<in> set rs. branch_failed (snd tr))) \<longleftrightarrow> (\<exists>r \<in> set (map snd rs). branch_failed r)"
    using inv(1) by (auto simp: all_skipped_def)
  ultimately have "join_status n (map snd rs) (pre_failure f \<or> (\<exists>tr \<in> set rs. branch_failed (snd tr))) = SUCCESS"
    by (subst join_status_rule) simp_all
  then show ?thesis using rs(2,3) inv(2) by (simp add: join_branches_def Let_def new_outcome_def)
qed

section \<open>A fork with two branches\<close>

definition wide_graph :: graph where
  "wide_graph = \<lparr>gname = ''g'',
     gnodes = [\<lparr>node_id = ''f'', ntype = PARALLEL, nattrs = []\<rparr>, \<lparr>node_id = ''j'', ntype = FAN_IN, nattrs = []\<rparr>,
       \<lparr>node_id = ''x'', ntype = TOOL, nattrs = []\<rparr>, \<lparr>node_id = ''y'', ntype = TOOL, nattrs = []\<rparr>],
     gedges = [\<lparr>efrom = ''f'', eto = ''x'', eattrs = []\<rparr>, \<lparr>efrom = ''f'', eto = ''y'', eattrs = []\<rparr>,
       \<lparr>efrom = ''x'', eto = ''j'', eattrs = []\<rparr>, \<lparr>efrom = ''y'', eto = ''j'', eattrs = []\<rparr>], gattrs = []\<rparr>"

definition wide_fork :: node where
  "wide_fork = \<lparr>node_id = ''f'', ntype = PARALLEL, nattrs = []\<rparr>"

definition wide_rank :: "string \<Rightarrow> nat" where
  "wide_rank i = (if i = ''f'' then 2 else if i = ''j'' then 0 else 1)"

definition sample_host :: "unit worktree_host" where
  "sample_host = \<lparr>h_project_dir = ''p'', h_logs_root = [],
     run_process = (\<lambda>cmd args dir t idle w. (Inl ''not found'', w)), run_backend = (\<lambda>n c dir w. (Inr (new_outcome SUCCESS), w)),
     git_delta = (\<lambda>dir w w'. None), file_exists = (\<lambda>p w. False), copy_file = (\<lambda>p q w. w), remove_file = (\<lambda>p w. w),
     new_run_id = (\<lambda>w. (''r'', w)), canonical = (\<lambda>p w. p), dir_exists = (\<lambda>p w. False)\<rparr>"

definition no_worktrees :: worktree_config where
  "no_worktrees = \<lparr>strategy = Wt_Off, wt_branch = [], wt_path = []\<rparr>"

definition round_robin :: "nat \<Rightarrow> actor list" where
  "round_robin k = [Branch 1, Main, Branch 0]"

lemma wide_edges:
  "outgoing_edges wide_graph (node_id wide_fork) =
     [\<lparr>efrom = ''f'', eto = ''x'', eattrs = []\<rparr>, \<lparr>efrom = ''f'', eto = ''y'', eattrs = []\<rparr>]"
  by (simp add: wide_graph_def wide_fork_def outgoing_edges_def)

lemma wide_ranked: "ranked wide_rank wide_graph"
  by (simp add: ranked_def wide_rank_def wide_graph_def)

lemma wide_fair: "fair (length (outgoing_edges wide_graph (node_id wide_fork))) round_robin"
  by (auto simp: fair_def wide_edges round_robin_def less_Suc_eq)

lemma wide_fan_in: "find_common_fan_in_bfs wide_graph (map eto (outgoing_edges wide_graph (node_id wide_fork))) = ''j''"
  by code_simp

lemma wide_run:
  "\<exists>m out st'. parallel_handler sample_config sample_host no_worktrees (schedule round_robin m) wide_fork wide_graph st =
     Some (Inr out, st')"
proof -
  obtain m r st' where
    h: "parallel_handler sample_config sample_host no_worktrees (schedule round_robin m) wide_fork wide_graph st = Some (r, st')"
    using parallel_handler_returns [OF wide_ranked wide_fair] by blast
  then have "\<exists>out. r = Inr out"
    by (auto simp: parallel_handler_def Let_def wide_fan_in split: if_splits prod.splits)
  with h show ?thesis by blast
qed

theorem parallel_returns_witness:
  "\<exists>m. \<forall>m' \<ge> m. \<exists>r st'. parallel_handler sample_config sample_host no_worktrees (schedule round_robin m') wide_fork
     wide_graph sample_state = Some (r, st')"
  by (rule parallel_returns [OF wide_ranked wide_fair])

theorem parallel_keeps_books_witness:
  "\<exists>m out st'. parallel_handler sample_config sample_host no_worktrees (schedule round_robin m) wide_fork wide_graph
     sample_state = Some (Inr out, st') \<and> est_ok st' \<and> ctx st' = []"
proof -
  obtain m out st' where
    h: "parallel_handler sample_config sample_host no_worktrees (schedule round_robin m) wide_fork wide_graph sample_state
      = Some (Inr out, st')"
    using wide_run [of sample_state] by blast
  from parallel_keeps_books [OF sample_keeps_books(1) sample_est_ok h] h show ?thesis
    by (auto simp: sample_state_def)
qed


theorem branch_alone_is_subgraph_witness:
  "\<exists>m r st' f. run_schedule sample_config sample_host no_worktrees ''f'' wide_graph ''j'' (replicate m (Branch 0))
     (\<lparr>pending = [], branches = [start_branch wide_graph ''x'' []], pre_updates = [], pre_failure = False\<rparr>, sample_state)
     = (f, st') \<and> branch_results f = Some [(''x'', r)]"
proof -
  obtain k r s' where e: "execute_subgraph sample_config k wide_graph ''x'' ''j'' (Some []) False (sample_state\<lparr>ctx := []\<rparr>)
      = Some (r, s')"
    using execute_subgraph_returns [OF wide_ranked] by blast
  obtain brc st' where s': "s' = (brc, st')" by (rule prod.exhaust)
  show ?thesis
  proof (cases brc)
    case (Some rc)
    from branch_alone_is_subgraph [OF e [unfolded s' Some], where i = 0
        and f = "\<lparr>pending = [], branches = [start_branch wide_graph ''x'' []], pre_updates = [], pre_failure = False\<rparr>"
        and host = sample_host and wt = no_worktrees and j = "''f''"]
    show ?thesis by (force simp: branch_results_def)
  next
    case None
    then show ?thesis using sub_own_controller [OF e [unfolded s']] by simp
  qed
qed

theorem fork_runs_once_witness:
  "\<exists>m out st'. parallel_handler sample_config sample_host no_worktrees (schedule round_robin m) wide_fork wide_graph
     (sample_state\<lparr>ctx := [(''parallel.x.status'', ''SUCCESS''), (''parallel.y.status'', ''SUCCESS'')]\<rparr>) = Some (Inr out, st') \<and>
     status out = SUCCESS \<and> trace st' = []"
proof -
  let ?st = "sample_state\<lparr>ctx := [(''parallel.x.status'', ''SUCCESS''), (''parallel.y.status'', ''SUCCESS'')]\<rparr>"
  obtain m out st' where
    h: "parallel_handler sample_config sample_host no_worktrees (schedule round_robin m) wide_fork wide_graph ?st = Some (Inr out, st')"
    using wide_run [of ?st] by blast
  have "\<forall>e \<in> set (outgoing_edges wide_graph (node_id wide_fork)). ctx_get (ctx ?st) (parallel_key (eto e) ''status'') = ''SUCCESS''"
    by (simp add: wide_edges parallel_key_def ctx_get_def)
  moreover have "strategy no_worktrees \<noteq> Wt_Auto" "outgoing_edges wide_graph (node_id wide_fork) \<noteq> []"
    "attr_get_or (nattrs wide_fork) ''join_policy'' ''wait_all'' \<noteq> ''threshold''"
    unfolding wide_edges by (simp_all add: no_worktrees_def wide_fork_def attr_get_or_def)
  ultimately have "status out = SUCCESS" "st' = ?st" using fork_runs_once [OF h] by blast+
  moreover have "trace ?st = []" by (simp add: sample_state_def)
  ultimately show ?thesis using h by (intro exI [of _ m] exI [of _ out] exI [of _ st']) simp
qed

end
