(* ===== verification/Fan_In.thy ===== *)
theory Fan_In
  imports Parallel
begin

text \<open>
  \<open>src/handlers/fan_in_handler.cpp\<close>, \<open>src/engine/fan_in_merger.cpp\<close> and \<open>src/util/git_helpers.cpp\<close>: the node
  at which the branches of a fork meet. It cherry-picks the commits of the branches' worktrees into the launch
  repository and, if asked to, lets the backend merge the branches' outputs.
\<close>

section \<open>git\<close>

definition git_in :: "'w worktree_host \<Rightarrow> string \<Rightarrow> string list \<Rightarrow> 'w \<Rightarrow> string result \<times> 'w" where
  "git_in host dir args w =
     (let (r, w) = run_process host ''git'' ([''-C'', dir] @ args) dir 30000 0 w in
      case r of
        Inl e \<Rightarrow> (Inl [], w)
      | Inr p \<Rightarrow>
          let out = stdout_output p @ stderr_output p
          in (if exit_code p \<noteq> 0 then Inl out else Inr out, w))"

definition or_default :: "string \<Rightarrow> string result \<Rightarrow> string result" where
  "or_default msg r = (case r of Inl e \<Rightarrow> failure (if e = [] then msg else e) | Inr out \<Rightarrow> success out)"

definition commit_lines :: "string \<Rightarrow> string list" where
  "commit_lines txt = filter (\<lambda>l. l \<noteq> []) (map (rtrim is_line_end) (getlines txt []))"

definition git_log_commits_since :: "'w worktree_host \<Rightarrow> string \<Rightarrow> string \<Rightarrow> 'w \<Rightarrow> string list result \<times> 'w" where
  "git_log_commits_since host dir from w =
     (let (r, w) = git_in host dir [''log'', ''--format=%H'', from @ ''..HEAD'', ''--reverse''] w
      in (map_sum id commit_lines (or_default ''git log failed'' r), w))"

definition git_cherry_pick_commit :: "'w worktree_host \<Rightarrow> string \<Rightarrow> string \<Rightarrow> 'w \<Rightarrow> unit result \<times> 'w" where
  "git_cherry_pick_commit host dir hash w =
     (let (r, w) = git_in host dir [''cherry-pick'', hash] w
      in (map_sum id (\<lambda>_. ()) (or_default ''git cherry-pick failed'' r), w))"

definition git_status_porcelain :: "'w worktree_host \<Rightarrow> string \<Rightarrow> 'w \<Rightarrow> string result \<times> 'w" where
  "git_status_porcelain host dir w =
     (let (r, w) = git_in host dir [''status'', ''--porcelain''] w in (or_default ''git status failed'' r, w))"

section \<open>The merger\<close>

record cherry_pick_conflict =
  branch_that_conflicted :: string
  branches_already_applied :: "string list"
  branches_pending :: "string list"
  conflicting_files :: "string list"
  git_status :: string

definition conflict_line :: "string \<Rightarrow> bool" where
  "conflict_line l =
     (4 \<le> length l \<and> (l ! 0 = CHR ''U'' \<or> l ! 1 = CHR ''U'' \<or> l ! 0 = CHR ''A'' \<and> l ! 1 = CHR ''A'' \<or>
        l ! 0 = CHR ''D'' \<and> l ! 1 = CHR ''D''))"

definition parse_conflicting_files :: "string \<Rightarrow> string list" where
  "parse_conflicting_files porcelain = map (drop 3) (filter conflict_line (getlines porcelain []))"

text \<open>The commits of a branch one after the other; \<open>False\<close> at the first that does not apply.\<close>

fun pick_commits :: "'w worktree_host \<Rightarrow> string \<Rightarrow> string list \<Rightarrow> 'w \<Rightarrow> bool \<times> 'w" where
  "pick_commits host repo [] w = (True, w)"
| "pick_commits host repo (hash # hs) w =
     (case git_cherry_pick_commit host repo hash w of
        (Inl e, w) \<Rightarrow> (False, w)
      | (Inr _, w) \<Rightarrow> pick_commits host repo hs w)"

definition worktree_key :: "string \<Rightarrow> string" where
  "worktree_key b = ''needle.branch_worktree.'' @ b"

fun merge_branches ::
  "'w worktree_host \<Rightarrow> string \<Rightarrow> string \<Rightarrow> ctxt \<Rightarrow> string list \<Rightarrow> string list \<Rightarrow> 'w \<Rightarrow> cherry_pick_conflict option result \<times> 'w" where
  "merge_branches host repo since c [] applied w = (success None, w)"
| "merge_branches host repo since c (b # bs) applied w =
     (if ctx_get c (worktree_key b) = [] then merge_branches host repo since c bs applied w
      else case git_log_commits_since host (ctx_get c (worktree_key b)) since w of
          (Inl e, w) \<Rightarrow> (failure e, w)
        | (Inr commits, w) \<Rightarrow>
            (case pick_commits host repo commits w of
               (True, w) \<Rightarrow> merge_branches host repo since c bs (applied @ [b]) w
             | (False, w) \<Rightarrow>
                 let (st, w) = git_status_porcelain host repo w;
                     st = (case st of Inr s \<Rightarrow> s | Inl e \<Rightarrow> [])
                 in (success (Some \<lparr>branch_that_conflicted = b, branches_already_applied = applied, branches_pending = bs,
                        conflicting_files = parse_conflicting_files st, git_status = st\<rparr>), w)))"

definition remove_branch_worktrees :: "'w worktree_host \<Rightarrow> ctxt \<Rightarrow> string list \<Rightarrow> 'w \<Rightarrow> 'w" where
  "remove_branch_worktrees host c bs w =
     fold (\<lambda>b w. let wt = ctx_get c (worktree_key b) in if wt = [] then w else snd (remove_worktree host wt w)) bs w"

text \<open>\<open>None\<close> if all branches applied.\<close>

definition fan_in_merge ::
  "'w worktree_host \<Rightarrow> string \<Rightarrow> string \<Rightarrow> string list \<Rightarrow> ctxt \<Rightarrow> string \<Rightarrow> 'w \<Rightarrow> cherry_pick_conflict option result \<times> 'w" where
  "fan_in_merge host repo since branch_ids c cleanup w =
     (let ordered = sort branch_ids in
      case merge_branches host repo since c ordered [] w of
        (Inr None, w) \<Rightarrow>
          (success None, if cleanup = ''remove-on-success'' then remove_branch_worktrees host c ordered w else w)
      | (r, w) \<Rightarrow> (r, w))"

section \<open>The handler\<close>

fun split_commas :: "string \<Rightarrow> string \<Rightarrow> string list" where
  "split_commas [] cur_id = (if cur_id = [] then [] else [cur_id])"
| "split_commas (c # cs) cur_id =
     (if c = CHR '','' then (if cur_id = [] then split_commas cs [] else cur_id # split_commas cs [])
      else split_commas cs (cur_id @ [c]))"

definition parse_branches :: "ctxt \<Rightarrow> string list" where
  "parse_branches c = split_commas (ctx_get c ''parallel.branches'') []"

definition newline :: string where
  "newline = [CHR 0x0A]"

definition branch_outputs_section :: "string list \<Rightarrow> ctxt \<Rightarrow> string" where
  "branch_outputs_section bs c =
     ''## Branch Outputs'' @ newline @ newline @
     concat (map (\<lambda>b. ''### Branch: '' @ b @ '' (status: '' @ ctx_get c (parallel_key b ''status'') @ '')'' @ newline @
        ctx_get c (parallel_key b ''output'') @ newline @ newline) bs)"

definition copy_model_attrs :: "attr_map \<Rightarrow> attr_map \<Rightarrow> attr_map" where
  "copy_model_attrs from to =
     fold (\<lambda>k m. if attr_get from k = [] then m else omap_set k (attr_get from k) m)
       [''llm_provider'', ''llm_model'', ''agent''] to"

definition consensus_prompt :: string where
  "consensus_prompt = ''Evaluate the following branch outputs and produce a consensus result. '' @
     ''Identify the best elements from each branch, resolve any conflicts, '' @ ''and synthesize a unified output.''"

definition merge_node :: "node \<Rightarrow> string \<Rightarrow> ctxt \<Rightarrow> node" where
  "merge_node n fan_in_prompt c =
     (let full_prompt = fan_in_prompt @ newline @ newline @ branch_outputs_section (parse_branches c) c
      in \<lparr>node_id = node_id n, ntype = FAN_IN, nattrs = copy_model_attrs (nattrs n) (omap_set ''prompt'' full_prompt [])\<rparr>)"

definition execute_consensus :: "'w worktree_host \<Rightarrow> node \<Rightarrow> 'w est \<Rightarrow> outcome result \<times> 'w est" where
  "execute_consensus host n st =
     (let fan_in_prompt = (if attr_get (nattrs n) ''prompt'' = [] then consensus_prompt else attr_get (nattrs n) ''prompt'');
          (r, w) = run_backend host (merge_node n fan_in_prompt (ctx st)) (ctx st) (stage_dir (host.truncate host) n) (world st);
          st = st\<lparr>world := w\<rparr>
      in case r of
           Inl e \<Rightarrow> (Inl e, st)
         | Inr out \<Rightarrow>
             let u = omap_set ''parallel.consensus.result'' (out_text out) (context_updates out);
                 u = omap_set (''codergen.'' @ node_id n @ ''.output'') (out_text out) u
             in (success (out\<lparr>context_updates := u\<rparr>), st))"

definition execute_prompted_merge :: "'w worktree_host \<Rightarrow> node \<Rightarrow> 'w est \<Rightarrow> outcome result \<times> 'w est" where
  "execute_prompted_merge host n st =
     (let (r, w) = run_backend host (merge_node n (attr_get (nattrs n) ''prompt'') (ctx st)) (ctx st)
            (stage_dir (host.truncate host) n) (world st);
          st = st\<lparr>world := w\<rparr>
      in case r of
           Inl e \<Rightarrow> (Inl e, st)
         | Inr out \<Rightarrow>
             let u = omap_set (''codergen.'' @ node_id n @ ''.output'') (out_text out) (context_updates out)
             in (success (out\<lparr>context_updates := u\<rparr>), st))"

text \<open>
  \<open>fi_backend\<close> says whether the handler has a backend, \<open>fi_cleanup\<close> is the configured cleanup of worktrees and
  \<open>fi_dump\<close> the text of the JSON object that describes a conflict.
\<close>

record 'w fan_in_env =
  fi_host :: "'w worktree_host"
  fi_backend :: bool
  fi_cleanup :: string
  fi_dump :: "cherry_pick_conflict \<Rightarrow> string"

definition merge_outputs :: "'w fan_in_env \<Rightarrow> node \<Rightarrow> 'w est \<Rightarrow> outcome result \<times> 'w est" where
  "merge_outputs env n st =
     (if ctx_get (ctx st) ''parallel.join_policy'' = ''consensus'' \<and> fi_backend env then execute_consensus (fi_host env) n st
      else if attr_get (nattrs n) ''prompt'' \<noteq> [] \<and> fi_backend env then execute_prompted_merge (fi_host env) n st
      else (success ((new_outcome SUCCESS)\<lparr>out_text := ''fan-in merge complete''\<rparr>), st))"

definition conflict_outcome :: "'w fan_in_env \<Rightarrow> node \<Rightarrow> cherry_pick_conflict \<Rightarrow> outcome" where
  "conflict_outcome env n cf =
     (new_outcome FAILURE)\<lparr>out_text := ''cherry-pick conflict at '' @ branch_that_conflicted cf,
       context_updates := [(''fan_in.'' @ node_id n @ ''.cherry_pick_conflict'', fi_dump env cf)]\<rparr>"

definition fan_in_handler :: "'w fan_in_env \<Rightarrow> 'w handler" where
  "fan_in_handler env n g st =
     (let c = ctx st in
      if ctx_get c ''parallel.branches'' = [] then
        (success ((new_outcome SUCCESS)\<lparr>out_text := ''fan-in deferred (parallel state not ready)''\<rparr>), st)
      else
        let bs = parse_branches c in
        if \<exists>b \<in> set bs. ctx_get c (worktree_key b) \<noteq> [] then
          let (r, w) = fan_in_merge (fi_host env) (h_project_dir (fi_host env)) (ctx_get c ''needle.launch_commit'') bs c
                (fi_cleanup env) (world st);
              st = st\<lparr>world := w\<rparr>
          in case r of
               Inl e \<Rightarrow> (failure e, st)
             | Inr (Some cf) \<Rightarrow> (success (conflict_outcome env n cf), st)
             | Inr None \<Rightarrow> merge_outputs env n st
        else merge_outputs env n st)"

section \<open>The branch list\<close>

lemma split_commas_word: "CHR '','' \<notin> set t \<Longrightarrow> split_commas (t @ s) cur_id = split_commas s (cur_id @ t)"
  by (induction t arbitrary: cur_id) auto

lemma branch_list_Cons:
  assumes "list_all (\<lambda>t. t \<noteq> []) ts" and "acc \<noteq> []"
  shows "fold (\<lambda>t acc. if acc = [] then t else acc @ '','' @ t) ts acc = acc @ concat (map (\<lambda>t. '','' @ t) ts)"
  using assms by (induction ts arbitrary: acc) auto

lemma split_branches:
  "list_all (\<lambda>t. t \<noteq> [] \<and> CHR '','' \<notin> set t) ts \<Longrightarrow> cur_id \<noteq> [] \<Longrightarrow>
     split_commas (concat (map (\<lambda>t. '','' @ t) ts)) cur_id = cur_id # ts"
  by (induction ts arbitrary: cur_id) (auto simp: split_commas_word)

lemma split_branch_list: "list_all (\<lambda>t. t \<noteq> [] \<and> CHR '','' \<notin> set t) ts \<Longrightarrow> split_commas (branch_list ts) [] = ts"
proof (cases ts)
  case (Cons t us)
  assume ok: "list_all (\<lambda>t. t \<noteq> [] \<and> CHR '','' \<notin> set t) ts"
  then have "branch_list ts = t @ concat (map (\<lambda>t. '','' @ t) us)"
    using branch_list_Cons [of us t] by (simp add: branch_list_def Cons list_all_iff)
  with ok Cons split_branches [of us t] show ?thesis by (simp add: split_commas_word)
qed (simp add: branch_list_def)



section \<open>Cherry-picking\<close>

text \<open>
  What is relied on of \<open>git\<close>: a cherry-pick that succeeds adds its commit to those picked into the repository, one
  that fails adds none; the log lists the commits of a worktree; neither it nor \<open>git status\<close> nor the removal of a
  worktree picks anything.
\<close>

definition git_documented ::
  "'w worktree_host \<Rightarrow> string \<Rightarrow> string \<Rightarrow> ('w \<Rightarrow> string list) \<Rightarrow> (string \<Rightarrow> string list) \<Rightarrow> bool" where
  "git_documented host repo since picked commits_of =
     ((\<forall>hash w. case git_cherry_pick_commit host repo hash w of
         (Inr _, w') \<Rightarrow> picked w' = picked w @ [hash] | (Inl _, w') \<Rightarrow> picked w' = picked w) \<and>
      (\<forall>dir w. case git_log_commits_since host dir since w of
         (Inr cs, w') \<Rightarrow> cs = commits_of dir \<and> picked w' = picked w | (Inl _, w') \<Rightarrow> picked w' = picked w) \<and>
      (\<forall>w. picked (snd (git_status_porcelain host repo w)) = picked w) \<and>
      (\<forall>dir w. picked (snd (remove_worktree host dir w)) = picked w))"

lemma pick_commits_picked:
  assumes "git_documented host repo since picked commits_of" and "pick_commits host repo hs w = (ok, w')"
  shows "\<exists>hs1 hs2. hs = hs1 @ hs2 \<and> picked w' = picked w @ hs1 \<and> (ok \<longleftrightarrow> hs2 = [])"
  using assms(2)
proof (induction hs arbitrary: w)
  case (Cons hash hs)
  obtain r w1 where p: "git_cherry_pick_commit host repo hash w = (r, w1)" by (rule prod.exhaust)
  have pick: "case git_cherry_pick_commit host repo hash w of
      (Inr _, w') \<Rightarrow> picked w' = picked w @ [hash] | (Inl _, w') \<Rightarrow> picked w' = picked w"
    using assms(1) by (simp add: git_documented_def)
  show ?case
  proof (cases r)
    case (Inl e)
    with p pick Cons.prems show ?thesis by (intro exI [of _ "[]"] exI [of _ "hash # hs"]) auto
  next
    case (Inr u)
    with p Cons.prems have "pick_commits host repo hs w1 = (ok, w')" by simp
    from Cons.IH [OF this] obtain hs1 hs2 where "hs = hs1 @ hs2" "picked w' = picked w1 @ hs1" "ok \<longleftrightarrow> hs2 = []" by blast
    with p pick Inr show ?thesis by (intro exI [of _ "hash # hs1"] exI [of _ hs2]) auto
  qed
qed auto

definition worktree_branches :: "ctxt \<Rightarrow> string list \<Rightarrow> string list" where
  "worktree_branches c bs = filter (\<lambda>b. ctx_get c (worktree_key b) \<noteq> []) bs"

definition branch_commits :: "(string \<Rightarrow> string list) \<Rightarrow> ctxt \<Rightarrow> string list \<Rightarrow> string list" where
  "branch_commits commits_of c bs = concat (map (\<lambda>b. commits_of (ctx_get c (worktree_key b))) (worktree_branches c bs))"

lemma branch_commits_simps [simp]:
  "branch_commits commits_of c [] = []"
  "branch_commits commits_of c (b # bs) =
     (if ctx_get c (worktree_key b) = [] then [] else commits_of (ctx_get c (worktree_key b))) @ branch_commits commits_of c bs"
  "worktree_branches c [] = []"
  "worktree_branches c (b # bs) = (if ctx_get c (worktree_key b) = [] then [] else [b]) @ worktree_branches c bs"
  by (simp_all add: branch_commits_def worktree_branches_def)

lemma merge_branches_picked:
  assumes "git_documented host repo since picked commits_of" and "merge_branches host repo since c bs applied w = (Inr r, w')"
  shows "case r of
      None \<Rightarrow> picked w' = picked w @ branch_commits commits_of c bs
    | Some cf \<Rightarrow> \<exists>bs1 hs1 hs2. bs = bs1 @ branch_that_conflicted cf # branches_pending cf \<and>
        branches_already_applied cf = applied @ worktree_branches c bs1 \<and>
        commits_of (ctx_get c (worktree_key (branch_that_conflicted cf))) = hs1 @ hs2 \<and> hs2 \<noteq> [] \<and>
        picked w' = picked w @ branch_commits commits_of c bs1 @ hs1"
  using assms(2)
proof (induction bs arbitrary: applied w)
  case (Cons b bs)
  show ?case
  proof (cases "ctx_get c (worktree_key b) = []")
    case True
    with Cons.prems have "merge_branches host repo since c bs applied w = (Inr r, w')" by simp
    from Cons.IH [OF this] True show ?thesis
      by (auto split: option.splits)
  next
    case wt: False
    let ?dir = "ctx_get c (worktree_key b)"
    obtain l w1 where l: "git_log_commits_since host ?dir since w = (l, w1)" by (rule prod.exhaust)
    with Cons.prems wt obtain cs where cs: "l = Inr cs" by (cases l) auto
    have "case git_log_commits_since host ?dir since w of
         (Inr cs, w') \<Rightarrow> cs = commits_of ?dir \<and> picked w' = picked w | (Inl _, w') \<Rightarrow> picked w' = picked w"
      using assms(1) by (simp add: git_documented_def)
    then have w1: "cs = commits_of ?dir" "picked w1 = picked w" using l cs by auto
    obtain ok w2 where p: "pick_commits host repo cs w1 = (ok, w2)" by (rule prod.exhaust)
    from pick_commits_picked [OF assms(1) p] obtain hs1 hs2 where
      hs: "cs = hs1 @ hs2" "picked w2 = picked w1 @ hs1" "ok \<longleftrightarrow> hs2 = []" by blast
    show ?thesis
    proof (cases ok)
      case True
      then have "merge_branches host repo since c bs (applied @ [b]) w2 = (Inr r, w')" using Cons.prems wt l cs p by simp
      note IH = Cons.IH [OF this]
      show ?thesis
      proof (cases r)
        case (Some cf)
        with IH obtain bs1 ks1 ks2 where "bs = bs1 @ branch_that_conflicted cf # branches_pending cf"
          "branches_already_applied cf = (applied @ [b]) @ worktree_branches c bs1"
          "commits_of (ctx_get c (worktree_key (branch_that_conflicted cf))) = ks1 @ ks2" "ks2 \<noteq> []"
          "picked w' = picked w2 @ branch_commits commits_of c bs1 @ ks1" by auto
        then show ?thesis
          using Some wt hs w1 True by (intro option.split [THEN iffD2]) (auto intro!: exI [of _ "b # bs1"])
      qed (use IH wt hs w1 True in auto)
    next
      case False
      obtain s w3 where s: "git_status_porcelain host repo w2 = (s, w3)" by (rule prod.exhaust)
      have "picked w3 = picked w2" using assms(1) s unfolding git_documented_def by (metis snd_conv)
      with False Cons.prems wt l cs p s hs w1 show ?thesis
        by (auto simp: Let_def intro!: exI [of _ "[]"] exI [of _ hs1] exI [of _ hs2])
    qed
  qed
qed simp

lemma remove_branch_worktrees_picked:
  assumes "git_documented host repo since picked commits_of"
  shows "picked (remove_branch_worktrees host c bs w) = picked w"
  unfolding remove_branch_worktrees_def
  using assms by (induction bs arbitrary: w) (auto simp: git_documented_def Let_def)

text \<open>C21: merging branches. Given what \<open>git\<close> documents, a merge that succeeds has picked the commits of all branches
  with a worktree, in the order of the branch ids and in each branch in the order of its log, each once and
  nothing else. A conflict names a branch with commits that did not apply, after all the branches it reports as
  applied and before those it reports as pending; the commits picked until then stay in the repository.\<close>

theorem fan_in_applies_commits:
  assumes "git_documented host repo since picked commits_of"
    and "fan_in_merge host repo since bs c cleanup w = (Inr r, w')"
  shows "case r of
      None \<Rightarrow> picked w' = picked w @ branch_commits commits_of c (sort bs)
    | Some cf \<Rightarrow> \<exists>bs1 hs1 hs2. sort bs = bs1 @ branch_that_conflicted cf # branches_pending cf \<and>
        branches_already_applied cf = worktree_branches c bs1 \<and>
        commits_of (ctx_get c (worktree_key (branch_that_conflicted cf))) = hs1 @ hs2 \<and> hs2 \<noteq> [] \<and>
        picked w' = picked w @ branch_commits commits_of c bs1 @ hs1"
proof -
  obtain r1 w1 where m: "merge_branches host repo since c (sort bs) [] w = (r1, w1)" by (rule prod.exhaust)
  with assms(2) have r1: "r1 = Inr r"
    by (auto simp: fan_in_merge_def Let_def split: sum.splits option.splits)
  have "picked w' = picked w1"
    using assms(2) m r1 remove_branch_worktrees_picked [OF assms(1)]
    by (auto simp: fan_in_merge_def Let_def split: option.splits if_splits)
  with merge_branches_picked [OF assms(1) m [unfolded r1]] show ?thesis by (auto split: option.splits)
qed

definition toy_log :: "string \<Rightarrow> string" where
  "toy_log d = (if d = ''wa'' then ''c1'' @ newline @ ''c2'' @ newline else ''c3'' @ newline)"

definition toy_git :: "string \<Rightarrow> string list \<Rightarrow> string \<Rightarrow> int \<Rightarrow> int \<Rightarrow> string list \<Rightarrow> proc_result result \<times> string list" where
  "toy_git cmd args dir t idle w =
     (let res = (\<lambda>code txt. Inr \<lparr>exit_code = code, stdout_output = txt, stderr_output = [], timed_out = False, idle_timeout = False\<rparr>)
      in case args of
           [_, d, act, x] \<Rightarrow>
             if act = ''cherry-pick'' then (if x = ''bad'' then (res 1 [], w) else (res 0 [], w @ [x])) else (res 0 [], w)
         | [_, d, _, _, _, _] \<Rightarrow> (res 0 (toy_log d), w)
         | _ \<Rightarrow> (res 0 [], w))"

definition toy_host :: "string list worktree_host" where
  "toy_host = \<lparr>h_project_dir = ''p'', h_logs_root = [], run_process = toy_git,
     run_backend = (\<lambda>n c dir w. (Inr (new_outcome SUCCESS), w)),
     git_delta = (\<lambda>dir w w'. None), file_exists = (\<lambda>p w. False), copy_file = (\<lambda>p q w. w), remove_file = (\<lambda>p w. w),
     new_run_id = (\<lambda>w. (''r'', w)), canonical = (\<lambda>p w. p), dir_exists = (\<lambda>p w. False)\<rparr>"

definition toy_commits :: "string \<Rightarrow> string list" where
  "toy_commits d = commit_lines (toy_log d)"

lemma toy_documented: "git_documented toy_host ''p'' ''s'' (\<lambda>w. w) toy_commits"
proof -
  have pick: "case git_cherry_pick_commit toy_host ''p'' hash w of
      (Inr _, w') \<Rightarrow> w' = w @ [hash] | (Inl _, w') \<Rightarrow> w' = w" for hash w
    by (simp add: git_cherry_pick_commit_def git_in_def toy_host_def toy_git_def or_default_def)
  have log: "case git_log_commits_since toy_host dir ''s'' w of
      (Inr cs, w') \<Rightarrow> cs = toy_commits dir \<and> w' = w | (Inl _, w') \<Rightarrow> w' = w" for dir w
    by (simp add: git_log_commits_since_def git_in_def toy_host_def toy_git_def or_default_def toy_commits_def)
  have stat: "snd (git_status_porcelain toy_host ''p'' w) = w" for w
    by (simp add: git_status_porcelain_def git_in_def toy_host_def toy_git_def)
  have remove: "snd (remove_worktree toy_host dir w) = w" for dir w
    by (simp add: remove_worktree_def run_git_def toy_host_def toy_git_def)
  show ?thesis unfolding git_documented_def by (intro conjI allI pick log stat remove)
qed

theorem fan_in_applies_commits_witness:
  "\<exists>w'. fan_in_merge toy_host ''p'' ''s'' [''b'', ''a''] [(worktree_key ''a'', ''wa''), (worktree_key ''b'', ''wb'')] ''keep'' [] =
     (Inr None, w') \<and> w' = [''c1'', ''c2'', ''c3'']"
proof -
  let ?c = "[(worktree_key ''a'', ''wa''), (worktree_key ''b'', ''wb'')]"
  obtain w' where m: "fan_in_merge toy_host ''p'' ''s'' [''b'', ''a''] ?c ''keep'' [] = (Inr None, w')"
  proof -
    have "fst (fan_in_merge toy_host ''p'' ''s'' [''b'', ''a''] ?c ''keep'' []) = Inr None" by code_simp
    then show thesis using that by (metis prod.collapse)
  qed
  have "branch_commits toy_commits ?c (sort [''b'', ''a'']) = [''c1'', ''c2'', ''c3'']" by code_simp
  with fan_in_applies_commits [OF toy_documented m] m show ?thesis by simp
qed

end
