(* ===== verification/Manager_Loop.thy ===== *)
theory Manager_Loop
  imports Subgraph Topology Handlers
begin

text \<open>
  \<open>src/handlers/manager_loop_handler.cpp\<close>: a manager node runs the subgraph behind its first edge again and again
  until the goal gates of the loop's body are satisfied. The executor of subgraphs is a parameter; the lemmas of
  the interface \<open>subgraph_executor\<close> are used inside its context and the engine's interpretation carries them to
  the engine.
\<close>

section \<open>The end of the loop\<close>

function loop_end :: "graph \<Rightarrow> string \<Rightarrow> string list \<Rightarrow> node \<Rightarrow> string" where
  "loop_end g manager visited n =
     (let visited = visited @ [node_id n]; next_edges = outgoing_edges g (node_id n) in
      if \<exists>e \<in> set next_edges. eto e = manager then node_id n
      else case next_edges of
          [] \<Rightarrow> node_id n
        | e # es \<Rightarrow>
            (case find_node g (eto e) of
               None \<Rightarrow> []
             | Some m \<Rightarrow> if node_id m \<in> set visited then last visited else loop_end g manager visited m))"
  by pat_completeness auto
termination
proof (relation "measure (\<lambda>(g, manager, visited, n). card (node_id ` set (gnodes g) - set visited - {node_id n}))", goal_cases)
  case (2 g manager visited n visited' next_edges e es m)
  let ?ids = "node_id ` set (gnodes g)"
  have "m \<in> set (gnodes g)" using 2(5) by (auto dest: find_node_Some)
  then have "?ids - set visited' - {node_id m} \<subset> ?ids - set visited - {node_id n}" using 2(1,6) by auto
  then show ?case by (simp add: psubset_card_mono)
qed simp

declare loop_end.simps [simp del]

definition find_loop_end :: "graph \<Rightarrow> string \<Rightarrow> string \<Rightarrow> string" where
  "find_loop_end g manager start = (case find_node g start of None \<Rightarrow> [] | Some n \<Rightarrow> loop_end g manager [] n)"

section \<open>The loop\<close>

type_synonym 'w executor =
  "graph \<Rightarrow> string \<Rightarrow> string \<Rightarrow> branch_retry \<Rightarrow> bool \<Rightarrow> 'w est \<Rightarrow> (outcome result \<times> 'w sub_state) option"

definition body_goals_satisfied :: "graph \<Rightarrow> string set \<Rightarrow> ctxt \<Rightarrow> bool" where
  "body_goals_satisfied g loop_body c =
     list_all (\<lambda>n. \<not> goal_gate n \<or> node_id n \<notin> loop_body \<or> goal_satisfied c n) (gnodes g)"

definition loop_completed :: "string \<Rightarrow> int \<Rightarrow> outcome" where
  "loop_completed i k =
     (new_outcome SUCCESS)\<lparr>out_text := ''manager loop completed after '' @ show_int k @ '' iterations'',
       context_updates := [(''manager_loop.'' @ i @ ''.iterations'', show_int k)]\<rparr>"

text \<open>\<open>k\<close> rounds are left and \<open>i\<close> have been run.\<close>

fun manager_rounds ::
  "'w executor \<Rightarrow> graph \<Rightarrow> node \<Rightarrow> string \<Rightarrow> string \<Rightarrow> string set \<Rightarrow> int \<Rightarrow> nat \<Rightarrow> int \<Rightarrow> 'w est \<Rightarrow>
   (outcome result \<times> 'w est) option" where
  "manager_rounds exec g n a b loop_body max_iterations 0 i st =
     Some (success ((new_outcome FAILURE)\<lparr>out_text := ''manager loop max iterations reached: '' @ show_int max_iterations\<rparr>), st)"
| "manager_rounds exec g n a b loop_body max_iterations (Suc k) i st =
     (case exec g a b None True st of
        None \<Rightarrow> None
      | Some (Inl e, brc, st) \<Rightarrow> Some (Inl e, st)
      | Some (Inr sub_outcome, brc, st) \<Rightarrow>
          if body_goals_satisfied g loop_body (ctx st) then Some (success (loop_completed (node_id n) (i + 1)), st)
          else if status sub_outcome = FAILURE then Some (success sub_outcome, st)
          else manager_rounds exec g n a b loop_body max_iterations k (i + 1) st)"

definition manager_loop :: "'w executor \<Rightarrow> node \<Rightarrow> graph \<Rightarrow> 'w est \<Rightarrow> (outcome result \<times> 'w est) option" where
  "manager_loop exec n g st =
     (let max_iterations = (case attr_get_int (nattrs n) ''max_iterations'' of Some m \<Rightarrow> m | None \<Rightarrow> 10) in
      case outgoing_edges g (node_id n) of
        [] \<Rightarrow> Some (failure (''manager_loop has no outgoing edges: '' @ node_id n), st)
      | e # es \<Rightarrow>
          let subgraph_end = find_loop_end g (node_id n) (eto e) in
          if subgraph_end = [] then Some (failure (''could not find subgraph end for manager_loop: '' @ node_id n), st)
          else manager_rounds exec g n (eto e) subgraph_end (collect_loop_body g (node_id n) (eto e))
                 max_iterations (nat max_iterations) 0 st)"

section \<open>Under the executor's contract\<close>

context subgraph_executor
begin

lemma manager_rounds_keeps:
  "manager_rounds exec g n a b loop_body m k i st = Some (r, st') \<Longrightarrow> P st \<Longrightarrow> P st'"
proof (induction k arbitrary: i st)
  case (Suc k)
  then show ?case
    by (auto split: option.splits prod.splits sum.splits if_splits dest: keeps_shared)
qed simp

lemma manager_loop_keeps: "manager_loop exec n g st = Some (r, st') \<Longrightarrow> P st \<Longrightarrow> P st'"
  using manager_rounds_keeps by (auto simp: manager_loop_def Let_def split: list.splits if_splits)

end

section \<open>The end node\<close>

lemma loop_end_in_graph:
  "find_node g (node_id n) = Some n \<Longrightarrow> loop_end g manager visited n \<noteq> [] \<Longrightarrow>
    \<exists>m. find_node g (loop_end g manager visited n) = Some m"
proof (induction g manager visited n rule: loop_end.induct)
  case (1 g manager visited n)
  show ?case
  proof (cases "(\<exists>e \<in> set (outgoing_edges g (node_id n)). eto e = manager) \<or> outgoing_edges g (node_id n) = []")
    case True
    then have "loop_end g manager visited n = node_id n" by (subst loop_end.simps) (auto simp: Let_def)
    with 1(2) show ?thesis by simp
  next
    case False
    then obtain e es where e: "outgoing_edges g (node_id n) = e # es" by (cases "outgoing_edges g (node_id n)") auto
    have eq: "loop_end g manager visited n = (case find_node g (eto e) of None \<Rightarrow> []
       | Some m \<Rightarrow> if node_id m \<in> set (visited @ [node_id n]) then node_id n else loop_end g manager (visited @ [node_id n]) m)"
      using False e by (subst loop_end.simps) (auto simp: Let_def split: option.split)
    show ?thesis
    proof (cases "find_node g (eto e)")
      case None
      with eq 1(3) show ?thesis by simp
    next
      case (Some m)
      show ?thesis
      proof (cases "node_id m \<in> set (visited @ [node_id n])")
        case True
        with eq Some 1(2) show ?thesis by simp
      next
        case out: False
        have m: "find_node g (node_id m) = Some m" using find_node_Some [OF Some] Some by simp
        have "loop_end g manager visited n = loop_end g manager (visited @ [node_id n]) m"
          using eq Some out by simp
        with 1(1) [OF refl refl _ e Some out m] False 1(3) show ?thesis by auto
      qed
    qed
  qed
qed

section \<open>Properties\<close>

text \<open>How often the executor is called: at most once per round, and each round before the last left a goal open.\<close>

lemma manager_rounds_result:
  assumes "manager_rounds exec g n a b loop_body m k i st = Some (Inr out, st')"
  shows "(\<exists>j. 1 \<le> j \<and> j \<le> int k \<and> out = loop_completed (node_id n) (i + j) \<and> body_goals_satisfied g loop_body (ctx st')) \<or>
    status out = FAILURE"
  using assms
proof (induction k arbitrary: i st)
  case (Suc k)
  from Suc.prems obtain sub brc st1 where e: "exec g a b None True st = Some (Inr sub, brc, st1)"
    by (auto split: option.splits prod.splits sum.splits)
  show ?case
  proof (cases "body_goals_satisfied g loop_body (ctx st1)")
    case True
    with Suc.prems e show ?thesis by (intro disjI1 exI [of _ 1]) auto
  next
    case open_goals: False
    show ?thesis
    proof (cases "status sub = FAILURE")
      case True
      with Suc.prems e open_goals show ?thesis by auto
    next
      case False
      with Suc.prems e open_goals have "manager_rounds exec g n a b loop_body m k (i + 1) st1 = Some (Inr out, st')" by simp
      from Suc.IH [OF this] show ?thesis
      proof
        assume "\<exists>j. 1 \<le> j \<and> j \<le> int k \<and> out = loop_completed (node_id n) (i + 1 + j) \<and> body_goals_satisfied g loop_body (ctx st')"
        then obtain j where "1 \<le> j" "j \<le> int k" "out = loop_completed (node_id n) (i + 1 + j)"
          "body_goals_satisfied g loop_body (ctx st')" by blast
        then show ?thesis by (intro disjI1 exI [of _ "j + 1"]) (auto simp: algebra_simps)
      qed simp
    qed
  qed
qed (auto simp: new_outcome_def)


lemma manager_loop_no_goals:
  assumes "outgoing_edges g (node_id n) = e # es" and "find_loop_end g (node_id n) (eto e) \<noteq> []"
    and "0 < or_else 10 (attr_get_int (nattrs n) ''max_iterations'')"
    and "list_all (\<lambda>m. node_id m \<in> collect_loop_body g (node_id n) (eto e) \<longrightarrow> \<not> goal_gate m) (gnodes g)"
    and "exec g (eto e) (find_loop_end g (node_id n) (eto e)) None True st = Some (Inr sub_outcome, brc, st')"
  shows "manager_loop exec n g st = Some (Inr (loop_completed (node_id n) 1), st')"
proof -
  obtain k where k: "nat (or_else 10 (attr_get_int (nattrs n) ''max_iterations'')) = Suc k"
    using assms(3) by (metis gr0_implies_Suc zero_less_nat_eq)
  have "body_goals_satisfied g (collect_loop_body g (node_id n) (eto e)) c" for c
    using assms(4) by (auto simp: body_goals_satisfied_def list_all_iff)
  with assms(1,2,5) k show ?thesis by (auto simp: manager_loop_def Let_def or_else_def split: option.splits)
qed

text \<open>Fact: a loop without goals. If no node of the loop's body is a goal gate, the first round decides: whatever
  outcome the subgraph has, \<open>FAILURE\<close> included, the loop reports success after one round.\<close>

theorem manager_loop_masks_failure:
  assumes "outgoing_edges g (node_id n) = e # es" and "find_loop_end g (node_id n) (eto e) \<noteq> []"
    and "0 < or_else 10 (attr_get_int (nattrs n) ''max_iterations'')"
    and "list_all (\<lambda>m. node_id m \<in> collect_loop_body g (node_id n) (eto e) \<longrightarrow> \<not> goal_gate m) (gnodes g)"
    and "exec g (eto e) (find_loop_end g (node_id n) (eto e)) None True st = Some (Inr sub_outcome, brc, st')"
  shows "manager_loop exec n g st = Some (Inr (loop_completed (node_id n) 1), st')"
  using assms by (rule manager_loop_no_goals)

section \<open>A loop of one stage\<close>

definition loop_graph :: graph where
  "loop_graph = \<lparr>gname = ''g'',
     gnodes = [\<lparr>node_id = ''m'', ntype = MANAGER_LOOP, nattrs = []\<rparr>, \<lparr>node_id = ''x'', ntype = TOOL, nattrs = []\<rparr>],
     gedges = [\<lparr>efrom = ''m'', eto = ''x'', eattrs = []\<rparr>, \<lparr>efrom = ''x'', eto = ''m'', eattrs = []\<rparr>], gattrs = []\<rparr>"

definition loop_manager :: node where
  "loop_manager = \<lparr>node_id = ''m'', ntype = MANAGER_LOOP, nattrs = []\<rparr>"

lemma loop_graph_facts:
  "outgoing_edges loop_graph (node_id loop_manager) = [\<lparr>efrom = ''m'', eto = ''x'', eattrs = []\<rparr>]"
  "find_loop_end loop_graph (node_id loop_manager) ''x'' = ''x''"
  "list_all (\<lambda>m. node_id m \<in> L \<longrightarrow> \<not> goal_gate m) (gnodes loop_graph)"
  "find_node loop_graph ''x'' = Some \<lparr>node_id = ''x'', ntype = TOOL, nattrs = []\<rparr>"
  "or_else 10 (attr_get_int (nattrs loop_manager) ''max_iterations'') = 10"
  by (code_simp, code_simp, simp add: loop_graph_def goal_gate_def attr_get_bool_def, code_simp, code_simp)

definition failing_config :: "unit config" where
  "failing_config = sample_config\<lparr>handlers := (\<lambda>_. Some (\<lambda>n g st. (Inr (new_outcome FAILURE), st)))\<rparr>"

lemma loop_round:
  assumes "\<And>i. handlers cfg i = Some (\<lambda>n g st. (Inr out, st))" and "poll_cancel cfg () = (False, ())" and "\<not> cancelled st"
  shows "\<exists>st'. execute_subgraph cfg 1 loop_graph ''x'' ''x'' None True st = Some (Inr out, None, st')"
  using assms
  by (simp add: execute_subgraph_def loop_graph_facts sub_finish_def sub_end_def sub_call_def poll_def emit_def log_effect_def Let_def)

lemma loop_run:
  assumes "execute_subgraph cfg 1 loop_graph ''x'' ''x'' None True st = Some (Inr out, None, st')"
  shows "manager_loop (execute_subgraph cfg 1) loop_manager loop_graph st = Some (Inr (loop_completed (node_id loop_manager) 1), st')"
proof (rule manager_loop_no_goals [OF loop_graph_facts(1) _ _ loop_graph_facts(3)])
  show "execute_subgraph cfg 1 loop_graph (eto \<lparr>efrom = ''m'', eto = ''x'', eattrs = []\<rparr>)
      (find_loop_end loop_graph (node_id loop_manager) (eto \<lparr>efrom = ''m'', eto = ''x'', eattrs = []\<rparr>)) None True st =
    Some (Inr out, None, st')"
    using assms by (simp only: edge.simps loop_graph_facts)
qed (simp_all only: edge.simps loop_graph_facts, simp_all)

lemma failing_rounds:
  "\<exists>st'. execute_subgraph failing_config 1 loop_graph ''x'' ''x'' None True sample_state = Some (Inr (new_outcome FAILURE), None, st')"
  "\<exists>st'. execute_subgraph sample_config 1 loop_graph ''x'' ''x'' None True sample_state = Some (Inr (new_outcome SUCCESS), None, st')"
  by (rule loop_round; simp add: failing_config_def sample_config_def sample_state_def)+

lemma loop_completed_status: "status (loop_completed i k) = SUCCESS"
  by (simp add: loop_completed_def new_outcome_def)


theorem manager_loop_masks_failure_witness:
  "\<exists>st'. manager_loop (execute_subgraph failing_config 1) loop_manager loop_graph sample_state =
     Some (Inr (loop_completed (node_id loop_manager) 1), st') \<and> status (loop_completed (node_id loop_manager) 1) = SUCCESS"
proof -
  obtain st' where e: "execute_subgraph failing_config 1 loop_graph ''x'' ''x'' None True sample_state =
      Some (Inr (new_outcome FAILURE), None, st')" using failing_rounds(1) by blast
  have "manager_loop (execute_subgraph failing_config 1) loop_manager loop_graph sample_state =
      Some (Inr (loop_completed (node_id loop_manager) 1), st')"
    by (rule manager_loop_masks_failure [OF loop_graph_facts(1) _ _ loop_graph_facts(3),
        where sub_outcome = "new_outcome FAILURE" and brc = None])
      (simp_all only: edge.simps loop_graph_facts e, simp_all)
  then show ?thesis using loop_completed_status by blast
qed

end
