(* ===== verification/Needle_Config.thy ===== *)
theory Needle_Config
  imports Checkpoint "HOL-Library.Sublist"
begin

text \<open>
  \<open>src/config/needle_config.cpp\<close>: the configuration, a JSON document with built-in defaults, dotted paths, merging,
  redaction, loading and saving. The environment, the file system and the text of parse errors are parameters;
  a file is absent, not parseable or a document.
\<close>

section \<open>Paths\<close>

fun split_dots :: "string \<Rightarrow> string \<Rightarrow> string list" where
  "split_dots [] segment = (if segment = [] then [] else [segment])"
| "split_dots (c # cs) segment =
     (if c = CHR ''.'' then (if segment = [] then split_dots cs [] else segment # split_dots cs [])
      else split_dots cs (segment @ [c]))"

definition split_path :: "string \<Rightarrow> string list" where
  "split_path path = split_dots path []"

fun walk_parts :: "json \<Rightarrow> string list \<Rightarrow> json" where
  "walk_parts j [] = j"
| "walk_parts j (p # ps) = (case json_find j p of None \<Rightarrow> JNull | Some v \<Rightarrow> walk_parts v ps)"

definition walk_path :: "json \<Rightarrow> string \<Rightarrow> json" where
  "walk_path j path = walk_parts j (split_path path)"

definition as_object :: "json option \<Rightarrow> json" where
  "as_object v = (case v of Some (JObj kvs) \<Rightarrow> JObj kvs | _ \<Rightarrow> JObj [])"

fun set_parts :: "json \<Rightarrow> string list \<Rightarrow> json \<Rightarrow> json" where
  "set_parts j [] v = j"
| "set_parts j [p] v = json_set p v j"
| "set_parts j (p # q # ps) v = json_set p (set_parts (as_object (json_find j p)) (q # ps) v) j"

definition set_path :: "json \<Rightarrow> string \<Rightarrow> json \<Rightarrow> json" where
  "set_path j path v = set_parts j (split_path path) v"

fun remove_parts :: "json \<Rightarrow> string list \<Rightarrow> json" where
  "remove_parts j [] = j"
| "remove_parts j [p] = (case j of JObj kvs \<Rightarrow> JObj (omap_erase p kvs) | _ \<Rightarrow> j)"
| "remove_parts j (p # q # ps) =
     (case json_find j p of None \<Rightarrow> j | Some v \<Rightarrow> json_set p (remove_parts v (q # ps)) j)"

definition remove_path :: "json \<Rightarrow> string \<Rightarrow> json" where
  "remove_path j path = remove_parts j (split_path path)"

section \<open>Merging\<close>

fun deep_merge :: "json \<Rightarrow> json \<Rightarrow> json"
  and merge_items :: "(string \<times> json) list \<Rightarrow> (string \<times> json) list \<Rightarrow> (string \<times> json) list" where
  "deep_merge dst (JObj src) = (case dst of JObj d \<Rightarrow> JObj (merge_items d src) | _ \<Rightarrow> JObj src)"
| "deep_merge dst JNull = JNull"
| "deep_merge dst (JBool b) = JBool b"
| "deep_merge dst (JInt i) = JInt i"
| "deep_merge dst (JStr s) = JStr s"
| "deep_merge dst (JArr xs) = JArr xs"
| "merge_items d [] = d"
| "merge_items d ((k, v) # rest) =
     merge_items (omap_set k (case (v, map_of d k) of
         (JObj _, Some (JObj o1)) \<Rightarrow> deep_merge (JObj o1) v
       | _ \<Rightarrow> v) d) rest"

section \<open>Redaction\<close>

definition mask_key :: "string \<Rightarrow> string" where
  "mask_key val =
     (if val = [] then ''not set'' else if length val \<le> 5 then val @ ''***'' else take 5 val @ ''***'')"

definition is_key_name :: "string \<Rightarrow> bool" where
  "is_key_name k = (find_sub ''api_key'' k \<noteq> None)"

fun redact :: "json \<Rightarrow> json"
  and redact_items :: "(string \<times> json) list \<Rightarrow> (string \<times> json) list"
  and redact_list :: "json list \<Rightarrow> json list" where
  "redact (JObj kvs) = JObj (redact_items kvs)"
| "redact (JArr xs) = JArr (redact_list xs)"
| "redact JNull = JNull"
| "redact (JBool b) = JBool b"
| "redact (JInt i) = JInt i"
| "redact (JStr s) = JStr s"
| "redact_items [] = []"
| "redact_items ((k, v) # rest) =
     (k, case v of JStr s \<Rightarrow> if is_key_name k then JStr (mask_key s) else redact v | _ \<Rightarrow> redact v) # redact_items rest"
| "redact_list [] = []"
| "redact_list (x # xs) = redact x # redact_list xs"

section \<open>Defaults\<close>

abbreviation obj :: "(string \<times> json) list \<Rightarrow> json" where
  "obj kvs \<equiv> JObj (fold (\<lambda>kv m. omap_set (fst kv) (snd kv) m) kvs [])"

definition config_defaults :: json where
  "config_defaults = obj
     [(''schema_version'', JInt 1),
      (''providers'', obj
        [(''openai'', obj [(''api_key'', JStr []), (''default_model'', JStr ''gpt-4o'')]),
         (''anthropic'', obj [(''api_key'', JStr []), (''default_model'', JStr ''claude-sonnet-4-6'')]),
         (''gemini'', obj [(''api_key'', JStr []), (''default_model'', JStr ''gemini-2.5-pro'')]),
         (''tavily'', obj [(''api_key'', JStr [])])]),
      (''defaults'', obj
        [(''chat_agent'', JStr ''claude''), (''chat_model'', JStr ''claude-sonnet-4-6''),
         (''coding_agent'', JStr ''codex''), (''coding_model'', JStr ''gpt-5.4''),
         (''planning_agent'', JStr ''claude''), (''planning_model'', JStr ''claude-opus-4-7''),
         (''critique_agent'', JStr ''gemini''), (''critique_model'', JStr ''gemini-2.5-pro''),
         (''codergen_timeout'', JStr ''45m''), (''max_context_value_kb'', JInt 100),
         (''prompt_warn_kb'', JInt 100), (''prompt_fail_kb'', JInt 500)]),
      (''server'', obj [(''port'', JInt 8080), (''bind'', JStr ''127.0.0.1''), (''auto_approve'', JBool False)]),
      (''worktree'', obj
        [(''strategy'', JStr ''off''), (''branch_template'', JStr ''auto/${run_id}''),
         (''path_template'', JStr ''../${repo_basename}-wt-${run_id}''), (''cleanup'', JStr ''keep'')]),
      (''ui'', obj [(''theme'', JStr ''dark'')]),
      (''logging'', obj [(''level'', JStr ''info'')])]"

definition ensure_defaults :: "json \<Rightarrow> json" where
  "ensure_defaults data = deep_merge config_defaults data"

section \<open>Loading and saving\<close>

datatype config_file = Absent | Garbled | Document json

text \<open>
  What a call meets: the environment, the overriding path, whether files can be opened, written and renamed, and
  whether the directory can be made.
\<close>

record config_io =
  getenv :: "string \<Rightarrow> string option"
  path_override :: string
  opens :: bool
  makes_dir :: bool
  opens_tmp :: bool
  writes_tmp :: bool
  renames :: bool

definition config_path :: "config_io \<Rightarrow> string" where
  "config_path io = (case getenv io ''HOME'' of None \<Rightarrow> [] | Some home \<Rightarrow> home @ ''/.needle/config.json'')"

definition effective_config_path :: "config_io \<Rightarrow> string" where
  "effective_config_path io = (if path_override io \<noteq> [] then path_override io else config_path io)"

text \<open>The data after the call and its result; \<open>what\<close> is the text of the parse error.\<close>

definition config_load :: "config_io \<Rightarrow> string \<Rightarrow> config_file \<Rightarrow> unit result \<times> json" where
  "config_load io what disk =
     (if effective_config_path io = [] then (success (), config_defaults)
      else case disk of
          Absent \<Rightarrow> (success (), config_defaults)
        | Garbled \<Rightarrow>
            if opens io then (failure (''JSON parse error: '' @ what), config_defaults) else (success (), config_defaults)
        | Document j \<Rightarrow> (success (), if opens io then ensure_defaults j else config_defaults))"

fun count_keys :: "json \<Rightarrow> nat"
  and count_items :: "(string \<times> json) list \<Rightarrow> nat" where
  "count_keys (JObj kvs) = count_items kvs"
| "count_keys JNull = 0"
| "count_keys (JBool b) = 0"
| "count_keys (JInt i) = 0"
| "count_keys (JStr s) = 0"
| "count_keys (JArr xs) = 0"
| "count_items [] = 0"
| "count_items ((k, v) # rest) = Suc (count_keys v) + count_items rest"

definition sparse_override :: "config_io \<Rightarrow> bool" where
  "sparse_override io =
     (case getenv io ''NEEDLE_ALLOW_SPARSE_CONFIG'' of Some (c # cs) \<Rightarrow> c \<noteq> CHR ''0'' | _ \<Rightarrow> False)"

definition refuses_sparse :: "config_io \<Rightarrow> json \<Rightarrow> config_file \<Rightarrow> bool" where
  "refuses_sparse io data disk =
     (count_keys data < 10 \<and> \<not> sparse_override io \<and> opens io \<and>
      (case disk of Document d \<Rightarrow> 20 \<le> count_keys d | _ \<Rightarrow> False))"

definition parent_dir :: "string \<Rightarrow> string" where
  "parent_dir path = (case find_char (CHR ''/'') (rev path) of None \<Rightarrow> [] | Some n \<Rightarrow> take (length path - n - 1) path)"

definition save_impl :: "config_io \<Rightarrow> json \<Rightarrow> config_file \<Rightarrow> unit result \<times> config_file" where
  "save_impl io data disk =
     (let path = effective_config_path io in
      if path = [] then (failure ''Cannot determine config path (HOME not set)'', disk)
      else if CHR ''/'' \<in> set path \<and> \<not> makes_dir io then (failure (''Cannot create directory: '' @ parent_dir path), disk)
      else if refuses_sparse io data disk then
        (failure (''config save refused: in-memory state is suspiciously sparse ('' @ show_nat (count_keys data) @
           '' keys vs '' @ show_nat (case disk of Document d \<Rightarrow> count_keys d | _ \<Rightarrow> 0) @
           '' on disk). Set NEEDLE_ALLOW_SPARSE_CONFIG=1 to override.''), disk)
      else if \<not> opens_tmp io then (failure (''Cannot write to '' @ path @ ''.tmp''), disk)
      else if \<not> writes_tmp io then (failure (''Write error to '' @ path @ ''.tmp''), disk)
      else if \<not> renames io then (failure (''Cannot rename temp file to '' @ path), disk)
      else (success (), Document data))"

section \<open>Getters and setters\<close>

definition env_value :: "config_io \<Rightarrow> string \<Rightarrow> string option" where
  "env_value io name =
     (if name = [] then None else case getenv io name of Some (c # cs) \<Rightarrow> Some (c # cs) | _ \<Rightarrow> None)"

definition get_string :: "config_io \<Rightarrow> json \<Rightarrow> string \<Rightarrow> string \<Rightarrow> string \<Rightarrow> string" where
  "get_string io data path env_var fallback =
     (case env_value io env_var of
        Some v \<Rightarrow> v
      | None \<Rightarrow> (case walk_path data path of JStr s \<Rightarrow> s | _ \<Rightarrow> fallback))"

definition get_bool :: "json \<Rightarrow> string \<Rightarrow> bool \<Rightarrow> bool" where
  "get_bool data path fallback = (case walk_path data path of JBool b \<Rightarrow> b | _ \<Rightarrow> fallback)"

definition get_int :: "json \<Rightarrow> string \<Rightarrow> int \<Rightarrow> int" where
  "get_int data path fallback = (case walk_path data path of JInt i \<Rightarrow> wrap32 i | _ \<Rightarrow> fallback)"

text \<open>The setters change the data in memory and then save it.\<close>

definition change :: "(json \<Rightarrow> json) \<Rightarrow> config_io \<Rightarrow> json \<times> config_file \<Rightarrow> unit result \<times> json \<times> config_file" where
  "change f io s = (let (data, disk) = s; data = f data; (r, disk) = save_impl io data disk in (r, data, disk))"

definition config_set :: "string \<Rightarrow> string \<Rightarrow> config_io \<Rightarrow> json \<times> config_file \<Rightarrow> unit result \<times> json \<times> config_file" where
  "config_set path v = change (\<lambda>data. set_path data path (JStr v))"

definition config_set_bool :: "string \<Rightarrow> bool \<Rightarrow> config_io \<Rightarrow> json \<times> config_file \<Rightarrow> unit result \<times> json \<times> config_file" where
  "config_set_bool path v = change (\<lambda>data. set_path data path (JBool v))"

definition config_unset :: "string \<Rightarrow> config_io \<Rightarrow> json \<times> config_file \<Rightarrow> unit result \<times> json \<times> config_file" where
  "config_unset path = change (\<lambda>data. remove_path data path)"

definition config_merge :: "json \<Rightarrow> config_io \<Rightarrow> json \<times> config_file \<Rightarrow> unit result \<times> json \<times> config_file" where
  "config_merge partial = change (\<lambda>data. deep_merge data partial)"

definition env_var_for_provider :: "string \<Rightarrow> string" where
  "env_var_for_provider provider =
     (let p = to_lower provider in
      if p = ''openai'' then ''OPENAI_API_KEY'' else if p = ''anthropic'' then ''ANTHROPIC_API_KEY''
      else if p = ''gemini'' then ''GEMINI_API_KEY'' else if p = ''tavily'' then ''TAVILY_API_KEY'' else [])"

definition resolve_api_key :: "config_io \<Rightarrow> json \<Rightarrow> string \<Rightarrow> string" where
  "resolve_api_key io data provider =
     (case env_value io (env_var_for_provider provider) of
        Some v \<Rightarrow> v
      | None \<Rightarrow> (case walk_path data (''providers.'' @ provider @ ''.api_key'') of JStr s \<Rightarrow> s | _ \<Rightarrow> []))"

section \<open>Setting and getting\<close>

lemma walk_JNull [simp]: "walk_parts JNull ps = JNull"
  by (cases ps) (simp_all add: json_find_def)

lemma walk_set_same: "ps \<noteq> [] \<Longrightarrow> walk_parts (set_parts j ps v) ps = v"
  by (induction j ps v rule: set_parts.induct) simp_all

lemma walk_as_object: "qs \<noteq> [] \<Longrightarrow>
  walk_parts (as_object w) qs = (case w of None \<Rightarrow> JNull | Some j \<Rightarrow> walk_parts j qs)"
  by (cases qs) (auto simp: as_object_def json_find_def split: option.split json.split)

lemma walk_set_other:
  "\<not> prefix ps qs \<Longrightarrow> \<not> prefix qs ps \<Longrightarrow> walk_parts (set_parts j ps v) qs = walk_parts j qs"
proof (induction j ps v arbitrary: qs rule: set_parts.induct)
  case (2 j p v)
  then show ?case by (cases qs) auto
next
  case (3 j p q ps v)
  from 3(3) obtain q' qs' where qs: "qs = q' # qs'" by (cases qs) auto
  show ?case
  proof (cases "q' = p")
    case True
    with 3(2,3) qs have "\<not> prefix (q # ps) qs'" "\<not> prefix qs' (q # ps)" by auto
    moreover from this have "qs' \<noteq> []" by auto
    ultimately show ?thesis using 3(1) qs True walk_as_object [of qs'] by (simp split: option.split)
  qed (simp add: qs)
qed simp

lemma walk_remove_same: "ps \<noteq> [] \<Longrightarrow> walk_parts (remove_parts j ps) ps = JNull"
proof (induction j ps rule: remove_parts.induct)
  case (2 j p)
  then show ?case by (cases j) (simp_all add: json_find_def)
qed (auto split: option.split)

lemma walk_remove_other:
  "\<not> prefix ps qs \<Longrightarrow> \<not> prefix qs ps \<Longrightarrow> walk_parts (remove_parts j ps) qs = walk_parts j qs"
proof (induction j ps arbitrary: qs rule: remove_parts.induct)
  case (2 j p)
  then show ?case by (cases qs; cases j) (auto simp: json_find_def)
next
  case (3 j p q ps)
  from 3(3) obtain q' qs' where qs: "qs = q' # qs'" by (cases qs) auto
  show ?case
  proof (cases "json_find j p")
    case (Some w)
    with 3 qs show ?thesis by (cases "q' = p") auto
  qed simp
qed simp

lemma save_impl_disk: "save_impl io data disk = (r, disk') \<Longrightarrow> disk' = (if is_ok r then Document data else disk)"
  by (auto simp: save_impl_def Let_def split: if_splits)

lemma change_result: "\<exists>r. change f io (data, disk) = (r, f data, if is_ok r then Document (f data) else disk)"
proof -
  obtain r disk' where s: "save_impl io (f data) disk = (r, disk')" by (rule prod.exhaust)
  from save_impl_disk [OF s] show ?thesis by (simp add: change_def s Let_def)
qed

text \<open>What a change at one path keeps of the others.\<close>

definition same_elsewhere :: "string \<Rightarrow> json \<Rightarrow> json \<Rightarrow> bool" where
  "same_elsewhere path data data' =
     (\<forall>q. \<not> prefix (split_path path) (split_path q) \<longrightarrow> \<not> prefix (split_path q) (split_path path) \<longrightarrow>
        walk_path data' q = walk_path data q)"

text \<open>Fact: setting a value. After \<open>set\<close> the path reads back as the value and every path that is neither above nor below
  it as before, in memory whatever the save did; the file holds the new document if the save succeeded and is
  untouched if not. After \<open>unset\<close> the path is not there and the other paths are as before.\<close>

theorem config_set_get:
  assumes "split_path path \<noteq> []"
  shows "(\<exists>r data'. config_set path v io (data, disk) = (r, data', if is_ok r then Document data' else disk) \<and>
      get_string io data' path [] fallback = v \<and> same_elsewhere path data data') \<and>
    (\<exists>r data'. config_unset path io (data, disk) = (r, data', if is_ok r then Document data' else disk) \<and>
      get_string io data' path [] fallback = fallback \<and> same_elsewhere path data data')"
proof
  obtain r where "config_set path v io (data, disk) =
      (r, set_path data path (JStr v), if is_ok r then Document (set_path data path (JStr v)) else disk)"
    unfolding config_set_def using change_result by blast
  moreover have "get_string io (set_path data path (JStr v)) path [] fallback = v"
    using assms by (simp add: get_string_def env_value_def walk_path_def set_path_def walk_set_same)
  moreover have "same_elsewhere path data (set_path data path (JStr v))"
    by (simp add: same_elsewhere_def walk_path_def set_path_def walk_set_other)
  ultimately show "\<exists>r data'. config_set path v io (data, disk) = (r, data', if is_ok r then Document data' else disk) \<and>
      get_string io data' path [] fallback = v \<and> same_elsewhere path data data'" by blast
  obtain r where "config_unset path io (data, disk) =
      (r, remove_path data path, if is_ok r then Document (remove_path data path) else disk)"
    unfolding config_unset_def using change_result by blast
  moreover have "get_string io (remove_path data path) path [] fallback = fallback"
    using assms by (simp add: get_string_def env_value_def walk_path_def remove_path_def walk_remove_same)
  moreover have "same_elsewhere path data (remove_path data path)"
    by (simp add: same_elsewhere_def walk_path_def remove_path_def walk_remove_other)
  ultimately show "\<exists>r data'. config_unset path io (data, disk) = (r, data', if is_ok r then Document data' else disk) \<and>
      get_string io data' path [] fallback = fallback \<and> same_elsewhere path data data'" by blast
qed

section \<open>Merging, path by path\<close>

text \<open>The value at a path, if there is one, and whether a value that is no object is in the way.\<close>

fun look :: "json \<Rightarrow> string list \<Rightarrow> json option" where
  "look j [] = Some j"
| "look j (p # ps) = (case json_find j p of None \<Rightarrow> None | Some v \<Rightarrow> look v ps)"

fun blocked :: "json \<Rightarrow> string list \<Rightarrow> bool" where
  "blocked j [] = False"
| "blocked j (p # ps) =
     (case j of JObj kvs \<Rightarrow> (case map_of kvs p of None \<Rightarrow> False | Some v \<Rightarrow> blocked v ps) | _ \<Rightarrow> True)"

text \<open>Objects whose keys are distinct, at every level.\<close>

fun json_ok :: "json \<Rightarrow> bool"
  and items_ok :: "(string \<times> json) list \<Rightarrow> bool" where
  "json_ok (JObj kvs) = (distinct (map fst kvs) \<and> items_ok kvs)"
| "json_ok JNull = True"
| "json_ok (JBool b) = True"
| "json_ok (JInt i) = True"
| "json_ok (JStr s) = True"
| "json_ok (JArr xs) = True"
| "items_ok [] = True"
| "items_ok ((k, v) # rest) = (json_ok v \<and> items_ok rest)"

lemma items_ok_map_of: "items_ok kvs \<Longrightarrow> map_of kvs k = Some v \<Longrightarrow> json_ok v"
  by (induction kvs) (auto split: if_splits)

lemma deep_merge_other: "(\<forall>kvs. src \<noteq> JObj kvs) \<Longrightarrow> deep_merge dst src = src"
  by (cases src) auto

lemma deep_merge_JNull [simp]: "deep_merge JNull src = src"
  by (cases src) auto

lemma map_of_merge_items:
  "distinct (map fst src) \<Longrightarrow> map_of (merge_items d src) k =
     (case map_of src k of None \<Rightarrow> map_of d k
      | Some v \<Rightarrow> Some (deep_merge (case map_of d k of Some (JObj o1) \<Rightarrow> JObj o1 | _ \<Rightarrow> JNull) v))"
proof (induction src arbitrary: d)
  case (Cons kv rest)
  obtain k' v where kv: "kv = (k', v)" by (rule prod.exhaust)
  have new: "(case (v, map_of d k') of (JObj x, Some (JObj o1)) \<Rightarrow> deep_merge (JObj o1) v | _ \<Rightarrow> v) =
      deep_merge (case map_of d k' of Some (JObj o1) \<Rightarrow> JObj o1 | _ \<Rightarrow> JNull) v"
    by (auto simp: deep_merge_other split: json.split option.split)
  have "map_of rest k' = None" using Cons.prems kv by (simp add: map_of_eq_None_iff)
  with Cons kv new show ?case by (auto split: option.split)
qed simp

lemma deep_merge_no_object: "(\<forall>kvs. w \<noteq> JObj kvs) \<Longrightarrow> deep_merge w src = src"
  by (cases src; cases w) auto

lemma walk_below:
  fixes dst :: json and p :: string
  defines "w \<equiv> case json_find dst p of Some (JObj o1) \<Rightarrow> JObj o1 | _ \<Rightarrow> JNull"
  shows "deep_merge (walk_parts w qs) v = deep_merge (walk_parts dst (p # qs)) v"
    and "look v' qs = None \<Longrightarrow> walk_parts w qs = walk_parts dst (p # qs)"
proof -
  have "w = JNull \<and> (\<forall>kvs. u \<noteq> JObj kvs) \<or> w = u" if "json_find dst p = Some u" for u
    using that by (cases u) (auto simp: w_def)
  moreover have "walk_parts u (q # qs') = JNull" if "\<forall>kvs. u \<noteq> JObj kvs" for u q qs'
    using that by (cases u) (auto simp: json_find_def)
  ultimately show "deep_merge (walk_parts w qs) v = deep_merge (walk_parts dst (p # qs)) v"
    and "look v' qs = None \<Longrightarrow> walk_parts w qs = walk_parts dst (p # qs)"
    by (cases "json_find dst p"; cases qs; fastforce simp: w_def deep_merge_no_object)+
qed

lemma walk_deep_merge:
  "json_ok src \<Longrightarrow> walk_parts (deep_merge dst src) qs =
     (case look src qs of
        Some v \<Rightarrow> deep_merge (walk_parts dst qs) v
      | None \<Rightarrow> if blocked src qs then JNull else walk_parts dst qs)"
proof (induction qs arbitrary: dst src)
  case (Cons p qs)
  show ?case
  proof (cases "\<exists>kvs. src = JObj kvs")
    case False
    then have "json_find src p = None" by (cases src) (auto simp: json_find_def)
    moreover have "blocked src (p # qs)" using False by (cases src) auto
    ultimately show ?thesis using False by (simp add: deep_merge_other)
  next
    case True
    then obtain kvs where src: "src = JObj kvs" by blast
    have ok: "distinct (map fst kvs)" "items_ok kvs" using Cons.prems src by simp_all
    have find: "json_find (deep_merge dst src) p =
        (case map_of kvs p of
           None \<Rightarrow> json_find dst p
         | Some v \<Rightarrow> Some (deep_merge (case json_find dst p of Some (JObj o1) \<Rightarrow> JObj o1 | _ \<Rightarrow> JNull) v))"
      if "\<exists>d. dst = JObj d"
    proof -
      from that obtain d where d: "dst = JObj d" by blast
      show ?thesis unfolding d src json_find_def deep_merge.simps json.case obj_items.simps by (rule map_of_merge_items [OF ok(1)])
    qed
    have find_other: "json_find (deep_merge dst src) p = map_of kvs p" "json_find dst p = None" if "\<not> (\<exists>d. dst = JObj d)"
      using that src by (cases dst; simp add: json_find_def)+
    show ?thesis
    proof (cases "map_of kvs p")
      case None
      then show ?thesis using find find_other src by (cases "\<exists>d. dst = JObj d") (auto simp: json_find_def)
    next
      case (Some v)
      have v: "json_ok v" using items_ok_map_of [OF ok(2) Some] .
      have look: "look src (p # qs) = look v qs" "blocked src (p # qs) = blocked v qs"
        using Some src by (simp_all add: json_find_def)
      let ?w = "case json_find dst p of Some (JObj o1) \<Rightarrow> JObj o1 | _ \<Rightarrow> JNull"
      have walk: "walk_parts (deep_merge dst src) (p # qs) = walk_parts (deep_merge ?w v) qs"
        using find find_other Some by (cases "\<exists>d. dst = JObj d") auto
      show ?thesis unfolding look walk Cons.IH [OF v] by (cases "look v qs") (simp_all add: walk_below)
    qed
  qed
qed simp


text \<open>Fact: the defaults under a loaded file. After a load a path at which the file has a value that is no object
  reads as that value; a path the file says nothing about reads as the built-in default, unless the file has a
  value in the way that is no object (then it reads as absent); at a path where the file has an object, its keys
  are merged over the default. The load of a readable document succeeds and every other load gives the defaults.\<close>

theorem load_over_defaults:
  assumes "effective_config_path io \<noteq> []" "opens io" "json_ok j"
  shows "(\<exists>data. config_load io what (Document j) = (success (), data) \<and>
    (\<forall>path. walk_path data path =
       (case look j (split_path path) of
          Some v \<Rightarrow> deep_merge (walk_path config_defaults path) v
        | None \<Rightarrow> if blocked j (split_path path) then JNull else walk_path config_defaults path))) \<and>
    snd (config_load io' what' Absent) = config_defaults \<and> snd (config_load io' what' Garbled) = config_defaults"
proof (intro conjI)
  have "config_load io what (Document j) = (success (), ensure_defaults j)"
    using assms(1,2) by (simp add: config_load_def)
  moreover have "walk_path (ensure_defaults j) path =
      (case look j (split_path path) of
         Some v \<Rightarrow> deep_merge (walk_path config_defaults path) v
       | None \<Rightarrow> if blocked j (split_path path) then JNull else walk_path config_defaults path)" for path
    unfolding walk_path_def ensure_defaults_def by (rule walk_deep_merge [OF assms(3)])
  ultimately show "\<exists>data. config_load io what (Document j) = (success (), data) \<and>
    (\<forall>path. walk_path data path =
       (case look j (split_path path) of
          Some v \<Rightarrow> deep_merge (walk_path config_defaults path) v
        | None \<Rightarrow> if blocked j (split_path path) then JNull else walk_path config_defaults path))" by blast
qed (simp_all add: config_load_def)

text \<open>Where everything works: a home, files that can be read and written.\<close>

definition plain_io :: config_io where
  "plain_io = \<lparr>getenv = [''HOME'' \<mapsto> ''/root''], path_override = [], opens = True, makes_dir = True,
     opens_tmp = True, writes_tmp = True, renames = True\<rparr>"

definition small_config :: json where
  "small_config = JObj [(''server'', JObj [(''port'', JInt 9090)])]"

lemma split_examples [simp]:
  "split_path ''server.port'' = [''server'', ''port'']" "split_path ''server.bind'' = [''server'', ''bind'']"
  by (simp_all add: split_path_def)

theorem load_over_defaults_witness:
  "\<exists>data. config_load plain_io [] (Document small_config) = (success (), data) \<and>
     walk_path data ''server.port'' = JInt 9090 \<and> walk_path data ''server.bind'' = JStr ''127.0.0.1''"
proof -
  have "effective_config_path plain_io \<noteq> []" by (simp add: plain_io_def effective_config_path_def config_path_def)
  moreover have "opens plain_io" by (simp add: plain_io_def)
  moreover have "json_ok small_config" by (simp add: small_config_def)
  ultimately obtain data where "config_load plain_io [] (Document small_config) = (success (), data)"
    "\<forall>path. walk_path data path =
       (case look small_config (split_path path) of
          Some v \<Rightarrow> deep_merge (walk_path config_defaults path) v
        | None \<Rightarrow> if blocked small_config (split_path path) then JNull else walk_path config_defaults path)"
    using load_over_defaults by blast
  moreover have "walk_path config_defaults ''server.bind'' = JStr ''127.0.0.1''"
    by (simp add: walk_path_def config_defaults_def json_find_def)
  ultimately show ?thesis by (simp add: small_config_def json_find_def)
qed

theorem config_set_get_witness:
  "\<exists>r data'. config_set ''server.bind'' ''::1'' plain_io (small_config, Absent) =
     (r, data', if is_ok r then Document data' else Absent) \<and>
     get_string plain_io data' ''server.bind'' [] [] = ''::1'' \<and> same_elsewhere ''server.bind'' small_config data'"
  using config_set_get [of "''server.bind''" "''::1''" plain_io small_config Absent "[]"] by simp

text \<open>A file that holds an array or a number loads successfully and leaves no defaults at all.\<close>

lemma load_discards_defaults:
  assumes "effective_config_path io \<noteq> []" "opens io"
  shows "config_load io what (Document (JArr xs)) = (success (), JArr xs)"
  using assms by (simp add: config_load_def ensure_defaults_def)

section \<open>What the redacted document shows\<close>

text \<open>What a redacted value looks like at the end of a path.\<close>

definition redacted_at :: "string \<Rightarrow> json \<Rightarrow> json" where
  "redacted_at key_name v = (case v of JStr s \<Rightarrow> if is_key_name key_name then JStr (mask_key s) else JStr s | _ \<Rightarrow> redact v)"

lemma redact_items_map: "redact_items kvs = map (\<lambda>(k, v). (k, redacted_at k v)) kvs"
  by (induction kvs) (auto simp: redacted_at_def split: json.split)

lemma json_find_redact: "json_find (redact j) p = map_option (redacted_at p) (json_find j p)"
proof -
  have "map_of (redact_items kvs) p = map_option (redacted_at p) (map_of kvs p)" for kvs
    unfolding redact_items_map by (induction kvs) auto
  then show ?thesis by (cases j) (simp_all add: json_find_def)
qed

lemma look_redact: "qs \<noteq> [] \<Longrightarrow> look (redact j) qs = map_option (redacted_at (last qs)) (look j qs)"
proof (induction qs arbitrary: j)
  case (Cons p qs)
  show ?case
  proof (cases "qs = []")
    case True
    show ?thesis unfolding True
      by (cases "json_find j p") (simp_all add: json_find_redact)
  next
    case False
    show ?thesis
    proof (cases "json_find j p")
      case (Some v)
      have none: "look (JStr s) qs = None" for s using False by (cases qs) (auto simp: json_find_def)
      have "look (redacted_at p v) qs = look (redact v) qs" by (cases v) (simp_all add: none redacted_at_def)
      then show ?thesis using Some False Cons.IH by (simp add: json_find_redact)
    qed (use False in \<open>simp add: json_find_redact\<close>)
  qed
qed simp

lemma mask_key_hides: "5 < length s \<Longrightarrow> 5 < length t \<Longrightarrow> take 5 s = take 5 t \<Longrightarrow> mask_key s = mask_key t"
  by (auto simp: mask_key_def)

lemma redact_items_set: "redact_items (omap_set k v kvs) = omap_set k (redacted_at k v) (redact_items kvs)"
  unfolding redact_items_map by (induction k v kvs rule: omap_set.induct) auto

lemma redact_set: "redact (json_set k v j) = json_set k (redacted_at k v) (redact j)"
  by (cases j) (simp_all only: json_set_def redact.simps obj_items.simps redact_items_set redact_items.simps(1))

lemma redacted_at_set_parts:
  "ps \<noteq> [] \<Longrightarrow> redacted_at k (set_parts j ps v) = redact (set_parts j ps v)"
  by (induction j ps v rule: set_parts.induct) (simp_all add: redacted_at_def json_set_def)

lemma redact_set_parts:
  "redacted_at (last ps) v = redacted_at (last ps) w \<Longrightarrow> redact (set_parts j ps v) = redact (set_parts j ps w)"
  by (induction j ps v rule: set_parts.induct) (auto simp: redact_set redacted_at_set_parts)

text \<open>Fact: redaction. At every path below the root the redacted document has exactly what the document has, but a
  string under a key whose name contains \<open>api_key\<close> is masked; and the redacted document does not depend on a
  configured API key beyond its first five characters: two documents that differ only in the key set at some
  path, both keys longer than five characters and equal in the first five, look the same.\<close>

theorem redact_hides_keys:
  "(\<forall>qs. look (redact j) qs = (if qs = [] then Some (redact j) else map_option (redacted_at (last qs)) (look j qs))) \<and>
   (\<forall>path s t. is_key_name (last (split_path path)) \<longrightarrow> 5 < length s \<longrightarrow> 5 < length t \<longrightarrow> take 5 s = take 5 t \<longrightarrow>
      redact (set_path j path (JStr s)) = redact (set_path j path (JStr t)))"
proof (intro conjI allI impI)
  fix qs show "look (redact j) qs = (if qs = [] then Some (redact j) else map_option (redacted_at (last qs)) (look j qs))"
    by (simp add: look_redact)
next
  fix path s t :: string
  assume key: "is_key_name (last (split_path path))" and "5 < length s" "5 < length t" "take 5 s = take 5 t"
  then have "mask_key s = mask_key t" using mask_key_hides by blast
  then have "redacted_at (last (split_path path)) (JStr s) = redacted_at (last (split_path path)) (JStr t)"
    using key by (simp only: redacted_at_def json.case if_True)
  then show "redact (set_path j path (JStr s)) = redact (set_path j path (JStr t))"
    unfolding set_path_def by (rule redact_set_parts)
qed

theorem redact_hides_keys_witness:
  "redact (set_path config_defaults ''providers.openai.api_key'' (JStr ''sk-abcdef'')) =
   redact (set_path config_defaults ''providers.openai.api_key'' (JStr ''sk-ab12345''))"
proof -
  have "is_key_name (last (split_path ''providers.openai.api_key''))"
    by (simp add: split_path_def is_key_name_def starts_with_def)
  then show ?thesis using redact_hides_keys [of config_defaults] by simp
qed

text \<open>A short key is shown whole.\<close>

lemma redact_shows_short_key: "s \<noteq> [] \<Longrightarrow> length s \<le> 5 \<Longrightarrow> redact (JObj [(''api_key'', JStr s)]) = JObj [(''api_key'', JStr (s @ ''***''))]"
  by (simp add: is_key_name_def mask_key_def starts_with_def)

end
