(* ===== verification/Interactive_Handler.thy ===== *)
theory Interactive_Handler
  imports Cli_Backend
begin

text \<open>
  \<open>src/handlers/interactive_handler.cpp\<close> and \<open>include/needle/handlers/interactive_session.h\<close>: a stage that waits for
  a person. The handler and the thread that answers (the \<open>/continue\<close> request of \<open>src/server/http_server.cpp\<close>)
  share an \<open>InteractiveSession\<close> under its mutex. What other threads do to the session while the handler waits is
  a list of signals; a wait that no signal ends is the result \<open>None\<close>.
\<close>

section \<open>The session\<close>

record interactive_session =
  s_active :: bool
  s_continued :: bool
  s_go_back :: bool
  s_node :: string
  s_prompt :: string
  s_summary :: string
  s_position :: string
  s_previous :: string
  s_final :: string

definition open_session :: "string \<Rightarrow> string \<Rightarrow> string \<Rightarrow> string \<Rightarrow> string \<Rightarrow> interactive_session \<Rightarrow> interactive_session" where
  "open_session i prompt summary position prev s =
     s\<lparr>s_node := i, s_prompt := prompt, s_summary := summary, s_position := position, s_previous := prev,
       s_active := True, s_continued := False, s_go_back := False, s_final := []\<rparr>"

text \<open>The \<open>/continue\<close> request: an inactive session is not touched.\<close>

definition post_continue :: "string \<Rightarrow> string \<Rightarrow> interactive_session \<Rightarrow> interactive_session" where
  "post_continue answer action s =
     (if s_active s then s\<lparr>s_final := answer, s_go_back := (action = ''go_back''), s_continued := True\<rparr> else s)"

datatype signal = Continue string string | Cancel_Run | Spurious

fun take_signal :: "signal \<Rightarrow> interactive_session \<times> bool \<Rightarrow> interactive_session \<times> bool" where
  "take_signal (Continue answer action) (s, stop) = (post_continue answer action s, stop)"
| "take_signal Cancel_Run (s, stop) = (s, True)"
| "take_signal Spurious (s, stop) = (s, stop)"

text \<open>\<open>cv.wait\<close>: the condition is looked at before the first wait and after every signal.\<close>

fun session_wait :: "signal list \<Rightarrow> interactive_session \<times> bool \<Rightarrow> (interactive_session \<times> bool) option" where
  "session_wait sigs (s, stop) =
     (if s_continued s \<or> stop then Some (s, stop)
      else case sigs of [] \<Rightarrow> None | sig # sigs \<Rightarrow> session_wait sigs (take_signal sig (s, stop)))"

declare session_wait.simps [simp del]

definition close_session :: "interactive_session \<Rightarrow> interactive_session" where
  "close_session s = s\<lparr>s_active := False, s_continued := False, s_go_back := False\<rparr>"

section \<open>What the person is shown\<close>

definition context_summary :: "ctxt \<Rightarrow> string" where
  "context_summary c =
     (let seed = ctx_get c ''var.seed''; consensus = ctx_get c ''parallel.consensus.result'';
          nl2 = [CHR 0x0A, CHR 0x0A]
      in (if seed = [] then [] else ''## Project Idea'' @ nl2 @ seed @ nl2) @
         (if consensus = [] then [] else ''## Prior Consensus Result'' @ nl2 @ consensus @ nl2))"

definition next_steps :: "graph \<Rightarrow> string \<Rightarrow> node list" where
  "next_steps g i = List.map_filter (\<lambda>e. find_node g (eto e)) (outgoing_edges g i)"

definition prev_steps :: "graph \<Rightarrow> string \<Rightarrow> node list" where
  "prev_steps g i =
     filter (\<lambda>m. ntype m \<noteq> START) (List.map_filter (\<lambda>e. find_node g (efrom e)) (incoming_edges g i))"

text \<open>The first predecessor that is not the start, empty if there is none.\<close>

definition previous_node :: "graph \<Rightarrow> string \<Rightarrow> string" where
  "previous_node g i = (case find (\<lambda>m. node_id m \<noteq> []) (prev_steps g i) of None \<Rightarrow> [] | Some m \<Rightarrow> node_id m)"

definition step_names :: "node list \<Rightarrow> string" where
  "step_names ms = fold (\<lambda>m names. (if names = [] then [] else names @ '', '') @ node_label m) ms []"

definition pipeline_context :: "graph \<Rightarrow> node \<Rightarrow> string" where
  "pipeline_context g n =
     (let nl = [CHR 0x0A];
          after = step_names (next_steps g (node_id n));
          before = step_names (prev_steps g (node_id n))
      in ''Pipeline: '' @ attr_get_or (gattrs g) ''label'' (gname g) @ nl @
         ''Current step: '' @ node_label n @ nl @
         (if after = [] then [] else ''Next step: '' @ after @ nl) @
         (if before = [] then [] else ''Previous step: '' @ before @ nl))"

section \<open>The handler\<close>

text \<open>\<open>i_signals\<close> is what reaches the session while the handler waits, from the world it starts to wait in.\<close>

record 'w interactive_env =
  i_host :: "'w host"
  i_has_backend :: bool
  i_mkdir :: "string \<Rightarrow> 'w \<Rightarrow> 'w"
  i_write :: "string \<Rightarrow> string \<Rightarrow> 'w \<Rightarrow> 'w"
  i_signals :: "'w \<Rightarrow> signal list \<times> 'w"

definition answer_outcome :: "string \<Rightarrow> string \<Rightarrow> bool \<Rightarrow> string \<Rightarrow> outcome" where
  "answer_outcome i answer go_back prev =
     (let out = (new_outcome SUCCESS)\<lparr>out_text := answer, context_updates := [(''interactive.'' @ i @ ''.output'', answer)]\<rparr>
      in if go_back \<and> prev \<noteq> [] then out\<lparr>preferred_label := ''revise'', suggested_next := [prev]\<rparr> else out)"

definition write_answer :: "'w interactive_env \<Rightarrow> node \<Rightarrow> string \<Rightarrow> 'w est \<Rightarrow> 'w est" where
  "write_answer env n answer st =
     (let dir = stage_dir (i_host env) n
      in if h_logs_root (i_host env) = [] then st
         else st\<lparr>world := i_write env (dir @ ''/response.md'') answer (i_mkdir env dir (world st))\<rparr>)"

definition shown_prompt :: "node \<Rightarrow> ctxt \<Rightarrow> string" where
  "shown_prompt n c = expand_context_refs c (if node_prompt n = [] then node_label n else node_prompt n)"

definition answered :: "'w interactive_env \<Rightarrow> graph \<Rightarrow> node \<Rightarrow> string \<Rightarrow> bool \<Rightarrow> 'w est \<Rightarrow> outcome result \<times> 'w est" where
  "answered env g n answer go_back st =
     (let st = emit HUMAN_ANSWER (node_id n) (''Interactive stage completed: '' @ node_id n) st
      in (success (answer_outcome (node_id n) answer go_back (previous_node g (node_id n))), write_answer env n answer st))"

text \<open>The session is \<open>None\<close> where the handler was made without one.\<close>

type_synonym 'w interactive_result = "interactive_session option \<times> outcome result \<times> 'w est"

definition wait_for_answer ::
  "'w interactive_env \<Rightarrow> interactive_session \<Rightarrow> node \<Rightarrow> graph \<Rightarrow> 'w est \<Rightarrow> 'w interactive_result option" where
  "wait_for_answer env s n g st =
     (let prompt = shown_prompt n (ctx st);
          s = open_session (node_id n) prompt (context_summary (ctx st)) (pipeline_context g n)
                (previous_node g (node_id n)) s;
          st = emit HUMAN_QUESTION (node_id n) prompt st;
          (sigs, w) = i_signals env (world st);
          st = st\<lparr>world := w\<rparr>
      in case session_wait sigs (s, cancelled st) of
           None \<Rightarrow> None
         | Some (s, stop) \<Rightarrow>
             let st = st\<lparr>cancelled := stop\<rparr> in
             if stop \<and> \<not> s_continued s then Some (Some (s\<lparr>s_active := False\<rparr>), success (new_outcome SUCCESS), st)
             else Some (Some (close_session s), answered env g n (s_final s) (s_go_back s) st))"

definition interactive_execute ::
  "'w interactive_env \<Rightarrow> interactive_session option \<Rightarrow> node \<Rightarrow> graph \<Rightarrow> 'w est \<Rightarrow> 'w interactive_result option" where
  "interactive_execute env session n g st =
     (if attr_get_or (nattrs n) ''mode'' ''interactive'' = ''autonomous'' \<and> i_has_backend env then
        let (r, w) = run_backend (i_host env) n (ctx st) (stage_dir (i_host env) n) (world st)
        in Some (session, r, st\<lparr>world := w\<rparr>)
      else case session of
          Some s \<Rightarrow> wait_for_answer env s n g st
        | None \<Rightarrow>
            let st = emit HUMAN_QUESTION (node_id n) (shown_prompt n (ctx st)) st
            in Some (None, answered env g n [] False st))"

definition interactive_handler ::
  "'w interactive_env \<Rightarrow> interactive_session option \<Rightarrow> node \<Rightarrow> graph \<Rightarrow> 'w est \<Rightarrow> 'w interactive_result option" where
  "interactive_handler env session n g st =
     (case interactive_execute env session n g st of
        None \<Rightarrow> None
      | Some (session, r, st) \<Rightarrow>
          Some (session, handler_base ''interactive'' (h_project_dir (i_host env)) (\<lambda>_ _ st. returns r st) n g st))"

section \<open>The wait\<close>

lemma session_wait_noise:
  assumes "\<not> s_continued s" and "\<forall>sig \<in> set noise. sig = Spurious"
  shows "session_wait (noise @ sigs) (s, False) = session_wait sigs (s, False)"
  using assms(2) by (induction noise) (use assms(1) in \<open>auto simp: session_wait.simps\<close>)

text \<open>The wait ends exactly if there is a signal that counts, and the first of them decides.\<close>

lemma session_wait_first:
  assumes "\<not> s_continued s" and "s_active s"
  shows "session_wait sigs (s, False) =
    (case dropWhile (\<lambda>sig. sig = Spurious) sigs of
       [] \<Rightarrow> None | sig # _ \<Rightarrow> Some (take_signal sig (s, False)))"
proof (induction sigs)
  case (Cons sig sigs)
  with assms show ?case by (cases sig) (auto simp: session_wait.simps post_continue_def)
qed (use assms in \<open>simp add: session_wait.simps\<close>)

section \<open>Properties\<close>

lemma answer_outcome_fields:
  "status (answer_outcome i answer b prev) = SUCCESS" "out_text (answer_outcome i answer b prev) = answer"
  "preferred_label (answer_outcome i answer b prev) = (if b \<and> prev \<noteq> [] then ''revise'' else [])"
  "suggested_next (answer_outcome i answer b prev) = (if b \<and> prev \<noteq> [] then [prev] else [])"
  by (simp_all add: answer_outcome_def Let_def)

text \<open>What the handler makes of the first signal that counts.\<close>

lemma interactive_handler_signal:
  assumes "attr_get_or (nattrs n) ''mode'' ''interactive'' \<noteq> ''autonomous''" and "\<not> cancelled st"
    and "i_signals env (world st) = (noise @ sig # later, w)"
    and "\<forall>x \<in> set noise. x = Spurious" and "sig \<noteq> Spurious"
  shows "\<exists>s' st'. interactive_handler env (Some s) n g st = Some (Some s',
      success (case sig of
          Continue answer action \<Rightarrow>
            answer_outcome (node_id n) answer (action = ''go_back'') (previous_node g (node_id n))
        | _ \<Rightarrow> new_outcome SUCCESS), st') \<and>
    \<not> s_active s' \<and> ctx st' = ctx st \<and> completed st' = completed st \<and> (cancelled st' \<longleftrightarrow> sig = Cancel_Run)"
proof -
  let ?s = "open_session (node_id n) (shown_prompt n (ctx st)) (context_summary (ctx st)) (pipeline_context g n)
    (previous_node g (node_id n)) s"
  have o: "\<not> s_continued ?s" "s_active ?s" by (simp_all add: open_session_def)
  have w: "session_wait (noise @ sig # later) (?s, False) = Some (take_signal sig (?s, False))"
    unfolding session_wait_noise [OF o(1) assms(4)] using assms(5) by (simp add: session_wait_first [OF o])
  show ?thesis
    using assms(1,2,3,5) w o
    by (cases sig)
      (auto simp: interactive_handler_def interactive_execute_def wait_for_answer_def emit_def log_effect_def answered_def
        handler_base_def write_answer_def close_session_def post_continue_def answer_outcome_fields Let_def
        split: prod.splits)
qed

text \<open>C35: going back goes back. A person who answers an interactive stage with \<open>go_back\<close> sends the run to the
  first stage before it, if there is an edge to that stage, the edges out of the stage have no conditions
  and none of them is labelled \<open>revise\<close>; the answer is the output of the stage, the session is closed, and
  no spurious wake-up before the answer makes a difference.\<close>

theorem go_back_returns:
  fixes n :: node and g :: graph
  defines "es \<equiv> outgoing_edges g (node_id n)" and "prev \<equiv> previous_node g (node_id n)"
  assumes "attr_get_or (nattrs n) ''mode'' ''interactive'' \<noteq> ''autonomous''" and "\<not> cancelled st"
    and "i_signals env (world st) = (noise @ Continue answer ''go_back'' # later, w)"
    and "\<forall>x \<in> set noise. x = Spurious"
    and "prev \<noteq> []" and "e \<in> set es" and "eto e = prev"
    and "\<forall>x \<in> set es. edge_condition x = [] \<and> edge_label x \<noteq> ''revise''"
  shows "\<exists>s' out st'. interactive_handler env (Some s) n g st = Some (Some s', success out, st') \<and>
    \<not> s_active s' \<and> out_text out = answer \<and> ctx st' = ctx st \<and>
    (\<forall>c. \<exists>x. select_next_edge n out c g = Inr x \<and> x \<in> set es \<and> eto x = prev)"
proof -
  let ?out = "answer_outcome (node_id n) answer True prev"
  from interactive_handler_signal [OF assms(3,4,5,6), of s g] obtain s' st' where
    h: "interactive_handler env (Some s) n g st = Some (Some s', success ?out, st')" "\<not> s_active s'" "ctx st' = ctx st"
    unfolding prev_def by auto
  have "\<exists>x. select_next_edge n ?out c g = Inr x \<and> x \<in> set es \<and> eto x = prev" for c
  proof -
    have E: "filter_by_condition es ?out c = es" using assms(10) by (simp add: unconditional_filter)
    have l: "match_preferred_label es ?out = None"
      using assms(10) by (simp add: preferred_label_None answer_outcome_fields)
    have "match_suggested es [prev] \<noteq> None" using assms(8,9) by (auto simp: match_suggested_None simp del: match_suggested.simps)
    then obtain x where x: "match_suggested es [prev] = Some x" by blast
    then have x': "x \<in> set es" "eto x = prev" using match_suggested_Some [OF x] by (auto simp: Cons_eq_append_conv)
    have "match_suggested_next es ?out = Some x" using x assms(7) by (simp add: match_suggested_next_def answer_outcome_fields)
    moreover have "length es = 1 \<Longrightarrow> es = [x]" using x'(1) by (cases es) auto
    moreover have "es \<noteq> []" using x'(1) by auto
    ultimately have "select_edge es ?out c = Inr x"
      using l by (auto simp: select_edge_def E Let_def)
    with x' \<open>es \<noteq> []\<close> show ?thesis by (auto simp: select_next_edge_def es_def)
  qed
  with h show ?thesis by (auto simp: answer_outcome_fields)
qed

text \<open>Fact: an interactive stage waits until somebody answers or cancels, and for nothing else.\<close>

theorem interactive_blocks_iff:
  assumes "attr_get_or (nattrs n) ''mode'' ''interactive'' \<noteq> ''autonomous''" and "\<not> cancelled st"
  shows "interactive_handler env (Some s) n g st = None \<longleftrightarrow> (\<forall>x \<in> set (fst (i_signals env (world st))). x = Spurious)"
proof -
  let ?s = "open_session (node_id n) (shown_prompt n (ctx st)) (context_summary (ctx st)) (pipeline_context g n)
    (previous_node g (node_id n)) s"
  obtain sigs w where sigs: "i_signals env (world st) = (sigs, w)" by (rule prod.exhaust)
  have o: "\<not> s_continued ?s" "s_active ?s" by (simp_all add: open_session_def)
  have "session_wait sigs (?s, False) = None \<longleftrightarrow> (\<forall>x \<in> set sigs. x = Spurious)"
    using dropWhile_eq_Nil_conv [of "\<lambda>x. x = Spurious" sigs]
    unfolding session_wait_first [OF o] by (cases "dropWhile (\<lambda>x. x = Spurious) sigs") (simp_all only: list.simps option.simps simp_thms)
  then show ?thesis
    using assms sigs
    by (auto simp: interactive_handler_def interactive_execute_def wait_for_answer_def emit_def log_effect_def Let_def
        split: option.splits prod.splits)
qed

text \<open>Fact: a cancelled question counts as answered. If the run is cancelled while an interactive stage waits, the handler
  reports success with an empty answer, and the engine books the stage as completed before it looks at the
  cancellation: it stands in the next checkpoint, so a resumed run does not ask again.\<close>

theorem cancelled_question_is_completed:
  assumes "attr_get_or (nattrs n) ''mode'' ''interactive'' \<noteq> ''autonomous''" and "\<not> cancelled st"
    and "i_signals env (world st) = (noise @ Cancel_Run # later, w)" and "\<forall>x \<in> set noise. x = Spurious"
  shows "\<exists>s' st'. interactive_handler env (Some s) n g st = Some (s', success (new_outcome SUCCESS), st') \<and>
    cancelled st' \<and>
    (\<forall>cfg. node_id n \<in> set (completed_nodes (make_checkpoint cfg (node_id n) (complete_stage cfg n (new_outcome SUCCESS) st'))))"
proof -
  from interactive_handler_signal [OF assms, of s g] obtain s' st' where
    "interactive_handler env (Some s) n g st = Some (Some s', success (new_outcome SUCCESS), st')" "cancelled st'"
    by auto
  moreover have "node_id n \<in> set (completed (record_node_completion n SUCCESS x))" for x :: "'a est"
    by (simp add: record_node_completion_def Let_def)
  then have "node_id n \<in> set (completed_nodes (make_checkpoint cfg (node_id n) (complete_stage cfg n (new_outcome SUCCESS) st')))" for cfg
    by (simp add: make_checkpoint_def complete_stage_def Let_def save_checkpoint_def write_stage_directory_def log_effect_def
        del: append.simps)
  ultimately show ?thesis by blast
qed

text \<open>A run has one session, whichever branch asks: an answer to the question asked last is also taken by the
  stage that asked before it.\<close>

lemma shared_session_mixes_answers:
  assumes "s = open_session i1 p1 sm1 ps1 pr1 s0"
  shows "session_wait [Continue answer action] (open_session i2 p2 sm2 ps2 pr2 s, False)
      = Some (post_continue answer action (open_session i2 p2 sm2 ps2 pr2 s), False)"
    and "s_node (post_continue answer action (open_session i2 p2 sm2 ps2 pr2 s)) = i2"
    and "s_continued (post_continue answer action (open_session i2 p2 sm2 ps2 pr2 s))"
  by (simp_all add: open_session_def post_continue_def session_wait.simps)

section \<open>Witnesses\<close>

definition silent_host :: "unit host" where
  "silent_host = \<lparr>h_project_dir = ''/p'', h_logs_root = ''/p/.needle'', run_process = (\<lambda>_ _ _ _ _ w. (failure ''none'', w)),
     run_backend = (\<lambda>_ _ _ w. (failure ''none'', w)), git_delta = (\<lambda>_ _ _. None), file_exists = (\<lambda>_ _. False),
     copy_file = (\<lambda>_ _ w. w), remove_file = (\<lambda>_ w. w), new_run_id = (\<lambda>w. (''r'', w))\<rparr>"

definition person :: "signal list \<Rightarrow> unit interactive_env" where
  "person sigs = \<lparr>i_host = silent_host, i_has_backend = False, i_mkdir = (\<lambda>_ w. w), i_write = (\<lambda>_ _ w. w),
     i_signals = (\<lambda>w. (sigs, w))\<rparr>"

definition ask_node :: node where
  "ask_node = \<lparr>node_id = ''ask'', ntype = CODERGEN, nattrs = [(''type'', ''interactive'')]\<rparr>"

definition ask_graph :: graph where
  "ask_graph = \<lparr>gname = ''g'',
     gnodes = [\<lparr>node_id = ''s'', ntype = START, nattrs = []\<rparr>, \<lparr>node_id = ''plan'', ntype = CODERGEN, nattrs = []\<rparr>,
       ask_node, \<lparr>node_id = ''z'', ntype = EXIT, nattrs = []\<rparr>],
     gedges = [\<lparr>efrom = ''s'', eto = ''ask'', eattrs = []\<rparr>, \<lparr>efrom = ''plan'', eto = ''ask'', eattrs = []\<rparr>,
       \<lparr>efrom = ''ask'', eto = ''z'', eattrs = []\<rparr>, \<lparr>efrom = ''ask'', eto = ''plan'', eattrs = []\<rparr>], gattrs = []\<rparr>"

theorem go_back_returns_witness:
  "\<forall>s. \<exists>s' out st' x. interactive_handler (person [Spurious, Continue ''redo'' ''go_back'']) (Some s) ask_node ask_graph sample_state
      = Some (Some s', success out, st') \<and> out_text out = ''redo'' \<and>
    select_next_edge ask_node out [] ask_graph = Inr x \<and> eto x = ''plan''"
proof
  fix s :: interactive_session
  have es: "outgoing_edges ask_graph (node_id ask_node) =
      [\<lparr>efrom = ''ask'', eto = ''z'', eattrs = []\<rparr>, \<lparr>efrom = ''ask'', eto = ''plan'', eattrs = []\<rparr>]"
    by (simp add: outgoing_edges_def ask_graph_def ask_node_def)
  have prev: "previous_node ask_graph (node_id ask_node) = ''plan''"
    by (simp add: previous_node_def prev_steps_def incoming_edges_def ask_graph_def ask_node_def find_node_def List.map_filter_def)
  have "\<exists>s' out st'. interactive_handler (person [Spurious, Continue ''redo'' ''go_back'']) (Some s) ask_node ask_graph sample_state
      = Some (Some s', success out, st') \<and> \<not> s_active s' \<and> out_text out = ''redo'' \<and> ctx st' = ctx sample_state \<and>
    (\<forall>c. \<exists>x. select_next_edge ask_node out c ask_graph = Inr x \<and> x \<in> set (outgoing_edges ask_graph (node_id ask_node)) \<and>
      eto x = previous_node ask_graph (node_id ask_node))"
    by (rule go_back_returns [where noise = "[Spurious]" and later = "[]" and w = "()"
          and e = "\<lparr>efrom = ''ask'', eto = ''plan'', eattrs = []\<rparr>"])
      (simp_all add: es prev, simp_all add: ask_node_def sample_state_def person_def attr_get_or_def edge_condition_def edge_label_def)
  then show "\<exists>s' out st' x. interactive_handler (person [Spurious, Continue ''redo'' ''go_back'']) (Some s) ask_node ask_graph sample_state
      = Some (Some s', success out, st') \<and> out_text out = ''redo'' \<and>
    select_next_edge ask_node out [] ask_graph = Inr x \<and> eto x = ''plan''" unfolding prev by blast
qed

end
