(* ===== verification/Stylesheet.thy ===== *)
theory Stylesheet
  imports Graph_Model
begin

text \<open>
  Model stylesheets: \<open>src/parser/stylesheet_parser.cpp\<close> (the parser, over the rest of the input from
  \<open>pos\<close> on) and \<open>src/engine/stylesheet_transform.cpp\<close> (the cascade: universal, class and id rules,
  below the attributes a node has itself).
\<close>

section \<open>Rules\<close>

datatype selector_type = UNIVERSAL | CLASS | ID

record style_rule =
  selector_kind :: selector_type
  selector :: string
  properties :: attr_map

section \<open>\<open>StyleLexer\<close>\<close>

definition style_ws :: "string \<Rightarrow> string" where
  "style_ws s = dropWhile is_space s"

definition style_char :: "char \<Rightarrow> bool" where
  "style_char c = (is_alnum c \<or> c = CHR ''_'' \<or> c = CHR ''-'')"

definition style_identifier :: "string \<Rightarrow> string \<times> string" where
  "style_identifier s = (takeWhile style_char s, dropWhile style_char s)"

text \<open>The quoted part of \<open>read_value\<close>; the flag is \<open>backslash_quoted\<close>.\<close>

fun style_quoted :: "bool \<Rightarrow> string \<Rightarrow> string \<times> string" where
  "style_quoted bq [] = ([], [])"
| "style_quoted bq [c] = (if \<not> bq \<and> c = dquote then ([], []) else ([c], []))"
| "style_quoted bq (c # d # s) =
     (if bq \<and> c = backslash \<and> d = dquote then ([], s)
      else if \<not> bq \<and> c = dquote then ([], d # s)
      else if c = backslash \<and> d \<noteq> dquote then (let (r, s') = style_quoted bq s in (d # r, s'))
      else (let (r, s') = style_quoted bq (d # s) in (c # r, s')))"

definition style_value :: "string \<Rightarrow> string \<times> string" where
  "style_value s =
     (let s = style_ws s in
      if take 2 s = [backslash, dquote] then style_quoted True (drop 2 s)
      else if take 1 s = [dquote] then style_quoted False (drop 1 s)
      else let stop = (\<lambda>c. c \<noteq> CHR '';'' \<and> c \<noteq> CHR ''}'')
           in (rtrim is_space (takeWhile stop s), dropWhile stop s))"

section \<open>\<open>StylesheetParser::parse\<close>\<close>

text \<open>The inner loop over the properties of a rule, after the opening brace.\<close>

lemma length_style_ws: "length (style_ws s) \<le> length s"
  by (simp add: style_ws_def length_dropWhile_le)

lemma length_style_identifier: "style_identifier s = (v, s') \<Longrightarrow> length v + length s' = length s"
  unfolding style_identifier_def by (metis Pair_inject length_append takeWhile_dropWhile_id)

lemma length_style_quoted: "length (snd (style_quoted bq s)) \<le> length s"
  by (induction bq s rule: style_quoted.induct) (auto split: prod.splits)

lemma length_style_value: "style_value s = (v, s') \<Longrightarrow> length s' \<le> length s"
  using length_style_ws [of s] length_style_quoted [of True "drop 2 (style_ws s)"]
    length_style_quoted [of False "drop 1 (style_ws s)"]
    length_dropWhile_le [of "\<lambda>c. c \<noteq> CHR '';'' \<and> c \<noteq> CHR ''}''" "style_ws s"]
  by (auto simp: style_value_def Let_def split: if_splits)

function parse_properties :: "string \<Rightarrow> attr_map \<Rightarrow> (attr_map \<times> string) result" where
  "parse_properties s props =
     (case style_ws s of
        [] \<Rightarrow> failure ''unterminated rule block''
      | c # r \<Rightarrow>
          if c = CHR ''}'' then success (props, r)
          else let (key, s1) = style_identifier (c # r) in
          if key = [] then failure ''expected property name''
          else case style_ws s1 of
            [] \<Rightarrow> failure (''expected '' @ [squote] @ '':'' @ [squote] @ '' or '' @ [squote] @ ''='' @ [squote]
                @ '' after property name'')
          | d # s2 \<Rightarrow>
              if d \<noteq> CHR '':'' \<and> d \<noteq> CHR ''='' then
                failure (''expected '' @ [squote] @ '':'' @ [squote] @ '' or '' @ [squote] @ ''='' @ [squote]
                  @ '' after property name'')
              else let (v, s3) = style_value s2;
                       s4 = style_ws s3;
                       s5 = (if take 1 s4 = '';'' then drop 1 s4 else s4)
                   in parse_properties s5 (attr_set key v props))"
  by pat_completeness auto
termination
proof (relation "measure (length \<circ> fst)", goal_cases)
  case (2 s props c r x key s1 d s2 xa v s3 s4 s5)
  have "length (c # r) \<le> length s" using length_style_ws [of s] 2(1) by simp
  moreover have "length s1 \<le> length (c # r)" using length_style_identifier [of "c # r" key s1] 2(3,4) by simp
  moreover have "length (d # s2) \<le> length s1" using length_style_ws [of s1] 2(6) by simp
  moreover have "length s3 \<le> length s2" using length_style_value [of s2 v s3] 2(8,9) by simp
  moreover have "length s4 \<le> length s3" using length_style_ws [of s3] 2(10) by simp
  moreover have "length s5 \<le> length s4" using 2(11) by simp
  ultimately show ?case by simp
qed simp

declare parse_properties.simps [simp del]

lemma length_parse_properties: "parse_properties s props = Inr (props', s') \<Longrightarrow> length s' < length s"
proof (induction s props rule: parse_properties.induct)
  case (1 s props)
  obtain c r where cr: "style_ws s = c # r"
    using "1.prems" by (cases "style_ws s") (auto simp: parse_properties.simps [of s])
  have le: "length (c # r) \<le> length s" using length_style_ws [of s] cr by simp
  show ?case
  proof (cases "c = CHR ''}''")
    case True
    with "1.prems" cr le show ?thesis by (simp add: parse_properties.simps [of s])
  next
    case False
    obtain key s1 where key: "style_identifier (c # r) = (key, s1)" by (rule prod.exhaust)
    have ne: "key \<noteq> []" using "1.prems" cr False key by (auto simp: parse_properties.simps [of s])
    obtain d s2 where ds: "style_ws s1 = d # s2"
      using "1.prems" cr False key ne by (cases "style_ws s1") (auto simp: parse_properties.simps [of s])
    obtain v s3 where v: "style_value s2 = (v, s3)" by (rule prod.exhaust)
    define s5 where "s5 = (if take 1 (style_ws s3) = '';'' then drop 1 (style_ws s3) else style_ws s3)"
    have d: "\<not> (d \<noteq> CHR '':'' \<and> d \<noteq> CHR ''='')"
      using "1.prems" cr False key ne ds by (auto simp: parse_properties.simps [of s] split: if_splits)
    then have "d = CHR '':'' \<or> d = CHR ''=''" by blast
    then have run: "parse_properties s5 (attr_set key v props) = Inr (props', s')"
      using "1.prems" cr False key ne ds v
      by (elim disjE) (simp_all add: parse_properties.simps [of s] Let_def s5_def)
    have "length s' < length s5"
      by (rule "1.IH" [OF cr False key [symmetric] refl ne ds d v [symmetric] refl refl s5_def run])
    also have "length s5 \<le> length s3" using length_style_ws [of s3] by (auto simp: s5_def)
    also have "\<dots> \<le> length s2" using length_style_value [OF v] .
    also have "\<dots> \<le> length s1" using length_style_ws [of s1] ds by simp
    also have "\<dots> \<le> length s" using length_style_identifier [OF key] le by simp
    finally show ?thesis .
  qed
qed

text \<open>The selector: its kind, its text, and the rest of the input.\<close>

definition parse_selector :: "nat \<Rightarrow> char \<Rightarrow> string \<Rightarrow> (selector_type \<times> string \<times> string) result" where
  "parse_selector pos c s =
     (if c = CHR ''*'' then success (UNIVERSAL, ''*'', s)
      else if c = CHR ''.'' then
        (let (name, s) = style_identifier s in
         if name = [] then failure (''expected class name after '' @ [squote] @ ''.'' @ [squote])
         else success (CLASS, CHR ''.'' # name, s))
      else if c = CHR ''#'' then
        (let (name, s) = style_identifier s in
         if name = [] then failure (''expected ID name after '' @ [squote] @ ''#'' @ [squote])
         else success (ID, CHR ''#'' # name, s))
      else failure (''unexpected character '' @ [squote, c, squote] @ '' at position '' @ show_nat pos))"

lemma length_parse_selector: "parse_selector n c s = Inr (k, sel, s') \<Longrightarrow> length s' \<le> length s"
  using length_style_identifier [of s]
  by (fastforce simp: parse_selector_def split: if_splits prod.splits)

function parse_rules :: "nat \<Rightarrow> string \<Rightarrow> style_rule list \<Rightarrow> style_rule list result" where
  "parse_rules n s rules =
     (case style_ws s of
        [] \<Rightarrow> success rules
      | c # r \<Rightarrow>
          case parse_selector (n - length (c # r)) c r of
            Inl e \<Rightarrow> failure e
          | Inr (k, sel, s1) \<Rightarrow>
              let s2 = style_ws s1 in
              if take 1 s2 \<noteq> ''{'' then
                failure (''expected '' @ [squote] @ ''{'' @ [squote] @ '' after selector'')
              else case parse_properties (drop 1 s2) [] of
                Inl e \<Rightarrow> failure e
              | Inr (props, s3) \<Rightarrow>
                  parse_rules n s3 (rules @ [\<lparr>selector_kind = k, selector = sel, properties = props\<rparr>]))"
  by pat_completeness auto
termination
proof (relation "measure (length \<circ> fst \<circ> snd)", goal_cases)
  case (2 n s rules c r y k y' sel s1 s2 y'' props s3)
  have "length (c # r) \<le> length s" using length_style_ws [of s] 2(1) by simp
  moreover have "length s1 \<le> length r" using length_parse_selector 2 by blast
  moreover have "length s2 \<le> length s1" using length_style_ws [of s1] 2 by simp
  moreover have "length s3 < length (drop 1 s2)" using length_parse_properties 2 by blast
  ultimately show ?case by simp
qed simp

declare parse_rules.simps [simp del]

definition parse_stylesheet :: "string \<Rightarrow> style_rule list result" where
  "parse_stylesheet source = parse_rules (length source) source []"

section \<open>\<open>StylesheetTransform::apply\<close>\<close>

definition rules_of :: "selector_type \<Rightarrow> node \<Rightarrow> style_rule list \<Rightarrow> style_rule list" where
  "rules_of k n rules =
     filter (\<lambda>r. selector_kind r = k \<and>
       (case k of
          UNIVERSAL \<Rightarrow> True
        | CLASS \<Rightarrow> attr_get (nattrs n) ''class'' = drop 1 (selector r)
        | ID \<Rightarrow> node_id n = drop 1 (selector r))) rules"

definition merge_rules :: "style_rule list \<Rightarrow> attr_map \<Rightarrow> attr_map" where
  "merge_rules rules m = fold (\<lambda>r m. attr_set_all (properties r) m) rules m"

definition style_node :: "style_rule list \<Rightarrow> node \<Rightarrow> node" where
  "style_node rules n =
     (let merged = merge_rules (rules_of ID n rules)
            (merge_rules (rules_of CLASS n rules) (merge_rules (rules_of UNIVERSAL n rules) []))
      in n\<lparr>nattrs := attr_fill merged (nattrs n)\<rparr>)"

definition apply_stylesheet :: "style_rule list \<Rightarrow> graph \<Rightarrow> graph" where
  "apply_stylesheet rules g = g\<lparr>gnodes := map (style_node rules) (gnodes g)\<rparr>"

section \<open>The cascade\<close>

text \<open>The value a sequence of rules gives to a property: the last one in rule order.\<close>

definition rule_value :: "style_rule list \<Rightarrow> string \<Rightarrow> string option" where
  "rule_value rules k = map_of (rev (concat (map properties rules))) k"

lemma map_of_merge_rules:
  "map_of (merge_rules rules m) k = (case rule_value rules k of Some v \<Rightarrow> Some v | None \<Rightarrow> map_of m k)"
proof (induction rules arbitrary: m)
  case (Cons r rules)
  have "rule_value (r # rules) k =
      (case rule_value rules k of Some v \<Rightarrow> Some v | None \<Rightarrow> map_of (rev (properties r)) k)"
    unfolding rule_value_def by (simp add: map_add_def)
  moreover have "merge_rules (r # rules) m = merge_rules rules (attr_set_all (properties r) m)"
    by (simp add: merge_rules_def)
  ultimately show ?case using Cons by (simp add: map_of_attr_set_all split: option.split)
qed (simp add: merge_rules_def rule_value_def)

lemma omap_ok_merge_rules [simp]: "omap_ok m \<Longrightarrow> omap_ok (merge_rules rules m)"
  unfolding merge_rules_def by (induction rules arbitrary: m) auto

text \<open>Fact: the cascade of \<open>StylesheetTransform\<close>. An attribute a node has itself keeps its value; otherwise
  it gets the value of the last matching id rule that sets it, else of the last matching class rule, else
  of the last universal rule; ids, types and edges of the graph do not change.\<close>

theorem stylesheet_cascade:
  "map_of (nattrs (style_node rules n)) k =
     (case map_of (nattrs n) k of Some v \<Rightarrow> Some v
      | None \<Rightarrow> case rule_value (rules_of ID n rules) k of Some v \<Rightarrow> Some v
      | None \<Rightarrow> case rule_value (rules_of CLASS n rules) k of Some v \<Rightarrow> Some v
      | None \<Rightarrow> rule_value (rules_of UNIVERSAL n rules) k) \<and>
   (gnodes (apply_stylesheet rules g) = map (style_node rules) (gnodes g) \<and>
    gedges (apply_stylesheet rules g) = gedges g \<and>
    map node_id (gnodes (apply_stylesheet rules g)) = map node_id (gnodes g) \<and>
    map ntype (gnodes (apply_stylesheet rules g)) = map ntype (gnodes g))"
  by (auto simp: style_node_def map_of_attr_fill map_of_merge_rules apply_stylesheet_def Let_def
      split: option.split)

section \<open>The parser reads every stylesheet\<close>

definition ident_ok :: "string \<Rightarrow> bool" where
  "ident_ok s = (s \<noteq> [] \<and> (\<forall>c \<in> set s. style_char c))"

definition rule_wf :: "style_rule \<Rightarrow> bool" where
  "rule_wf r = ((case selector_kind r of
       UNIVERSAL \<Rightarrow> selector r = ''*''
     | CLASS \<Rightarrow> (\<exists>i. selector r = CHR ''.'' # i \<and> ident_ok i)
     | ID \<Rightarrow> (\<exists>i. selector r = CHR ''#'' # i \<and> ident_ok i)) \<and>
     omap_ok (properties r) \<and> (\<forall>kv \<in> set (properties r). ident_ok (fst kv)))"

fun escape_style :: "string \<Rightarrow> string" where
  "escape_style [] = []"
| "escape_style (c # s) = (if c = backslash then [backslash, backslash] else [c]) @ escape_style s"

definition print_property :: "string \<times> string \<Rightarrow> string" where
  "print_property kv = fst kv @ '':'' @ [backslash, dquote] @ escape_style (snd kv) @ [backslash, dquote] @ '';''"

definition print_rule :: "style_rule \<Rightarrow> string" where
  "print_rule r = selector r @ ''{'' @ concat (map print_property (properties r)) @ ''}''"

lemma style_quoted_escape:
  "style_quoted True (escape_style v @ backslash # dquote # s) = (v, s)"
proof (induction v)
  case (Cons c v)
  obtain d t where dt: "escape_style v @ backslash # dquote # s = d # t"
    by (cases "escape_style v @ backslash # dquote # s") auto
  show ?case
  proof (cases "c = backslash")
    case True
    with Cons show ?thesis by simp
  next
    case False
    with Cons dt show ?thesis by auto
  qed
qed simp

lemma style_char_plain:
  assumes "style_char c"
  shows "\<not> is_space c" "c \<noteq> CHR ''}''" "c \<noteq> CHR '':''" "c \<noteq> CHR ''{''"
  using assms by (auto simp: style_char_def char_class_defs)

lemma style_not_char [simp]: "\<not> style_char (CHR '':'')" "\<not> style_char (CHR ''{'')"
  "\<not> is_space (CHR '':'')" "\<not> is_space (CHR ''{'')" "\<not> is_space (CHR ''}'')" "\<not> is_space backslash"
  "\<not> is_space (CHR '';'')" "\<not> is_space (CHR ''*'')" "\<not> is_space (CHR ''.'')" "\<not> is_space (CHR ''#'')"
  by code_simp+

lemma style_ws_id [simp]: "\<not> is_space c \<Longrightarrow> style_ws (c # s) = c # s"
  by (simp add: style_ws_def)

lemma style_identifier_read:
  "ident_ok i \<Longrightarrow> \<not> style_char c \<Longrightarrow> style_identifier (i @ c # s) = (i, c # s)"
  by (auto simp: style_identifier_def ident_ok_def takeWhile_append dropWhile_append)

lemma parse_properties_print:
  "\<forall>kv \<in> set kvs. ident_ok (fst kv) \<Longrightarrow>
   parse_properties (concat (map print_property kvs) @ ''}'' @ s) props = Inr (attr_set_all kvs props, s)"
proof (induction kvs arbitrary: props)
  case Nil
  then show ?case by (subst parse_properties.simps) simp
next
  case (Cons kv kvs)
  obtain k v where kv: "kv = (k, v)" by (rule prod.exhaust)
  let ?rest = "concat (map print_property kvs) @ ''}'' @ s"
  let ?val = "backslash # dquote # escape_style v @ backslash # dquote # CHR '';'' # ?rest"
  have k: "ident_ok k" using Cons.prems kv by simp
  then obtain c i where ci: "k = c # i" "style_char c" by (cases k) (auto simp: ident_ok_def)
  have src: "concat (map print_property (kv # kvs)) @ ''}'' @ s = k @ CHR '':'' # ?val"
    by (simp add: kv print_property_def)
  have head: "style_ws (k @ CHR '':'' # ?val) = k @ CHR '':'' # ?val"
    using ci by (simp add: style_char_plain)
  have id: "style_identifier (k @ CHR '':'' # ?val) = (k, CHR '':'' # ?val)"
    using k by (intro style_identifier_read) simp_all
  have val: "style_value ?val = (v, CHR '';'' # ?rest)"
    by (simp add: style_value_def style_quoted_escape)
  have "parse_properties (k @ CHR '':'' # ?val) props = parse_properties ?rest (attr_set k v props)"
    using head id ci(1) style_char_plain [OF ci(2)] val
    by (subst parse_properties.simps) (simp add: Let_def)
  with src Cons kv show ?case by (simp add: attr_set_all_def)
qed

lemma attr_set_all_self: "omap_ok m \<Longrightarrow> attr_set_all m [] = m"
  by (rule omap_ext) (auto simp: fun_eq_iff attr_set_all_def attrs.lookup_put_all_distinct omap_ok_distinct
      attrs.ok_put_all split: option.split)

lemma parse_rule_print:
  assumes "rule_wf r"
  shows "parse_rules n (print_rule r @ s) rules = parse_rules n s (rules @ [r])"
proof -
  let ?body = "concat (map print_property (properties r)) @ ''}'' @ s"
  obtain c sel where sel: "selector r = c # sel" and c: "\<not> is_space c"
    using assms by (auto simp: rule_wf_def split: selector_type.splits)
  have src: "print_rule r @ s = c # sel @ CHR ''{'' # ?body" by (simp add: print_rule_def sel)
  have select: "parse_selector m c (sel @ CHR ''{'' # ?body) = Inr (selector_kind r, selector r, CHR ''{'' # ?body)" for m
    using assms by (cases "selector_kind r")
      (auto simp: rule_wf_def parse_selector_def sel style_identifier_read ident_ok_def
        dest: style_identifier_read [unfolded ident_ok_def])
  have "parse_properties ?body [] = Inr (properties r, s)"
    using parse_properties_print [of "properties r" s "[]"] assms
    by (simp add: rule_wf_def attr_set_all_self)
  moreover have rec: "\<lparr>selector_kind = selector_kind r, selector = selector r, properties = properties r\<rparr> = r"
    by simp
  ultimately show ?thesis
    unfolding src using c select by (subst parse_rules.simps) (simp add: Let_def rec)
qed

text \<open>Fact: \<open>StylesheetParser::parse\<close> reads every stylesheet back: for rules with well-formed selectors and
  property names and arbitrary values (quotes and backslashes included), parsing the printed text gives
  the same rules in the same order.\<close>

theorem stylesheet_roundtrip:
  assumes "\<forall>r \<in> set rules. rule_wf r"
  shows "parse_stylesheet (concat (map print_rule rules)) = Inr rules"
proof -
  have "parse_rules n (concat (map print_rule rules)) acc = Inr (acc @ rules)" for n acc
    using assms
  proof (induction rules arbitrary: acc)
    case Nil
    then show ?case by (subst parse_rules.simps) (simp add: style_ws_def)
  qed (simp add: parse_rule_print)
  then show ?thesis by (simp add: parse_stylesheet_def)
qed

theorem stylesheet_roundtrip_witness:
  "parse_stylesheet (concat (map print_rule [\<lparr>selector_kind = CLASS, selector = ''.fast'',
       properties = [(''model'', [CHR ''a'', dquote, backslash])]\<rparr>]))
   = Inr [\<lparr>selector_kind = CLASS, selector = ''.fast'', properties = [(''model'', [CHR ''a'', dquote, backslash])]\<rparr>]"
proof -
  have "list_all style_char ''fast'' \<and> list_all style_char ''model''" by code_simp
  then have "ident_ok ''fast''" "ident_ok ''model''" by (auto simp: ident_ok_def)
  then show ?thesis by (intro stylesheet_roundtrip) (simp add: rule_wf_def omap_ok_def)
qed

end
