(* ===== verification/Validation.thy ===== *)
theory Validation
  imports Graph_Search Condition Resume_Validator
begin

text \<open>
  The graph validator: \<open>src/validation/graph_validator.cpp\<close>, the rules under
  \<open>include/needle/validation/rules/\<close>, \<open>src/validation/rules/params_attribute_syntax.cpp\<close> and
  \<open>Diagnostics::print\<close>. Every command that runs a pipeline refuses a graph with errors.
\<close>

section \<open>The rules\<close>

definition single_start_rule :: "graph \<Rightarrow> diagnostics" where
  "single_start_rule g =
     (let count = length (filter (\<lambda>n. ntype n = START) (gnodes g)) in
      if count = 0 then [diag Error ''E001'' ''Graph has no START node (Mdiamond shape required)'' []]
      else if count > 1 then
        [diag Error ''E001'' (''Graph has '' @ show_nat count @ '' START nodes, expected exactly 1'') []]
      else [])"

definition single_exit_rule :: "graph \<Rightarrow> diagnostics" where
  "single_exit_rule g =
     (let count = length (filter (\<lambda>n. ntype n = EXIT) (gnodes g)) in
      if count = 0 then [diag Error ''E002'' ''Graph has no EXIT node (Msquare shape required)'' []]
      else if count > 1 then
        [diag Error ''E002'' (''Graph has '' @ show_nat count @ '' EXIT nodes, expected exactly 1'') []]
      else [])"

definition start_no_incoming_rule :: "graph \<Rightarrow> diagnostics" where
  "start_no_incoming_rule g =
     (case start_node g of
        None \<Rightarrow> []
      | Some start \<Rightarrow>
          let incoming = incoming_edges g (node_id start) in
          if incoming = [] then []
          else [diag Error ''E003'' (''START node '' @ quoted (node_id start) @ '' has ''
                  @ show_nat (length incoming) @ '' incoming edge(s)'') (node_id start)])"

definition exit_no_outgoing_rule :: "graph \<Rightarrow> diagnostics" where
  "exit_no_outgoing_rule g =
     (case exit_node g of
        None \<Rightarrow> []
      | Some ex \<Rightarrow>
          let outgoing = outgoing_edges g (node_id ex) in
          if outgoing = [] then []
          else [diag Error ''E004'' (''EXIT node '' @ quoted (node_id ex) @ '' has ''
                  @ show_nat (length outgoing) @ '' outgoing edge(s)'') (node_id ex)])"

definition all_reachable_rule :: "graph \<Rightarrow> diagnostics" where
  "all_reachable_rule g =
     (case start_node g of
        None \<Rightarrow> []
      | Some start \<Rightarrow>
          let visited = bfs_visited g (\<lambda>_. True) (node_id start) in
          map (\<lambda>n. diag Error ''E005'' (''Node '' @ quoted (node_id n) @ '' is not reachable from START'') (node_id n))
            (filter (\<lambda>n. node_id n \<notin> visited) (gnodes g)))"

definition valid_conditions_rule :: "graph \<Rightarrow> diagnostics" where
  "valid_conditions_rule g =
     concat (map (\<lambda>e. let cond = edge_condition e in
       if cond = [] then []
       else case parse_condition cond of
         Inr _ \<Rightarrow> []
       | Inl err \<Rightarrow> [diag Error ''E006'' (''Edge '' @ efrom e @ '' -> '' @ eto e @ '' has invalid condition ''
           @ quoted cond @ '': '' @ err) []]) (gedges g))"

text \<open>The search of \<open>ParallelFanInPairingRule\<close>, which ends at the first fan-in node.\<close>

definition fan_in_node :: "graph \<Rightarrow> string \<Rightarrow> bool" where
  "fan_in_node g i = (case find_node g i of Some n \<Rightarrow> ntype n = FAN_IN | None \<Rightarrow> False)"

function finds_fan_in :: "graph \<Rightarrow> string set \<Rightarrow> string list \<Rightarrow> bool" where
  "finds_fan_in g vis [] = False"
| "finds_fan_in g vis (x # q) =
     (fan_in_node g x \<or> (let (vis', q') = push_new (succs g x) vis q in finds_fan_in g vis' q'))"
  by pat_completeness auto
termination
proof (relation "inv_image (finite_psubset <*lex*> less_than)
    (\<lambda>(g, vis, q). (eto ` set (gedges g) - vis, length q))", goal_cases)
  case 1
  show ?case by (intro wf_inv_image wf_lex_prod wf_finite_psubset wf_less_than)
next
  case (2 g vis x q y vis' q')
  then have "push_new (succs g x) vis q = (vis', q')" by metis
  note new = push_new_spec [OF this]
  show ?case
  proof (cases "set (succs g x) \<subseteq> vis")
    case True
    with new have "vis' = vis \<and> q' = q" by auto
    then show ?thesis by simp
  next
    case False
    with new show ?thesis by (auto simp: finite_psubset_def set_succs)
  qed
qed

definition parallel_pairing_rule :: "graph \<Rightarrow> diagnostics" where
  "parallel_pairing_rule g =
     map (\<lambda>n. diag Error ''E007'' (''PARALLEL node '' @ quoted (node_id n) @ '' has no reachable FAN_IN node'') (node_id n))
       (filter (\<lambda>n. ntype n = PARALLEL \<and>
          \<not> (let (vis, q) = push_new (succs g (node_id n)) {} [] in finds_fan_in g vis q)) (gnodes g))"

definition no_self_loops_rule :: "graph \<Rightarrow> diagnostics" where
  "no_self_loops_rule g =
     map (\<lambda>e. diag Warning ''W001'' (''Self-loop detected on node '' @ quoted (efrom e)) (efrom e))
       (filter (\<lambda>e. efrom e = eto e) (gedges g))"

text \<open>The segments of the \<open>params\<close> attribute: split at commas outside quotes and parentheses.\<close>

fun split_segments :: "string \<Rightarrow> string \<Rightarrow> bool \<Rightarrow> nat \<Rightarrow> string list" where
  "split_segments [] current in_quotes depth = (if current = [] then [] else [trim current])"
| "split_segments (c # cs) current in_quotes depth =
     (let in_quotes = (if c = dquote then \<not> in_quotes else in_quotes) in
      if in_quotes then split_segments cs (current @ [c]) in_quotes depth
      else if c = CHR ''('' then split_segments cs (current @ [c]) in_quotes (depth + 1)
      else if c = CHR '')'' \<and> depth > 0 then split_segments cs (current @ [c]) in_quotes (depth - 1)
      else if c = CHR '','' \<and> depth = 0 then trim current # split_segments cs [] in_quotes depth
      else split_segments cs (current @ [c]) in_quotes depth)"

definition bad_segment :: "string \<Rightarrow> bool" where
  "bad_segment segment =
     (case find_char (CHR ''='') segment of
        None \<Rightarrow> False
      | Some eq \<Rightarrow> (case find_char (CHR '':'') segment of None \<Rightarrow> True | Some colon \<Rightarrow> eq < colon))"

definition params_syntax_rule :: "graph \<Rightarrow> diagnostics" where
  "params_syntax_rule g =
     (let params = attr_get (gattrs g) ''params'' in
      if params = [] then []
      else case find (\<lambda>segment. segment \<noteq> [] \<and> bad_segment segment) (split_segments params [] False 0) of
          None \<Rightarrow> []
        | Some segment \<Rightarrow>
            [diag Error ''E008'' (''Invalid params= segment '' @ quoted segment
               @ '': expected name:type[(options)]:default. Use --var name=value for runtime values.'') []])"

section \<open>The validator\<close>

type_synonym lint_rule = "graph \<Rightarrow> diagnostics"

definition validate_with :: "lint_rule list \<Rightarrow> graph \<Rightarrow> diagnostics" where
  "validate_with rules g = concat (map (\<lambda>rule. rule g) rules)"

definition default_rules :: "lint_rule list" where
  "default_rules = [single_start_rule, single_exit_rule, start_no_incoming_rule, exit_no_outgoing_rule,
     all_reachable_rule, valid_conditions_rule, parallel_pairing_rule, no_self_loops_rule, params_syntax_rule]"

definition validate_graph :: "graph \<Rightarrow> diagnostics" where
  "validate_graph g = validate_with default_rules g"

definition print_diagnostic :: "bool \<Rightarrow> diagnostic \<Rightarrow> string" where
  "print_diagnostic use_color d =
     (let esc = CHR 0x1B # ''['';
          prefix = (if use_color then esc @ (case severity d of
              Error \<Rightarrow> ''31m'' | Warning \<Rightarrow> ''33m'' | Info \<Rightarrow> ''34m'') else []);
          reset = (if use_color then esc @ ''0m'' else []);
          severity_str = (case severity d of Error \<Rightarrow> ''ERROR'' | Warning \<Rightarrow> ''WARNING'' | Info \<Rightarrow> ''INFO'')
      in prefix @ severity_str @ reset @ '' ['' @ code d @ '']''
         @ (if diag_node d \<noteq> [] then '' (node: '' @ diag_node d @ '')'' else [])
         @ '': '' @ message d @ [CHR 0x0A])"

definition print_diagnostics :: "bool \<Rightarrow> diagnostics \<Rightarrow> string" where
  "print_diagnostics use_color ds = concat (map (print_diagnostic use_color) ds)"

section \<open>What the searches find\<close>

lemma finds_fan_in_sound:
  "finds_fan_in g vis q \<Longrightarrow> \<exists>x \<in> set q. \<exists>y. (\<lambda>a b. b \<in> set (succs g a))\<^sup>*\<^sup>* x y \<and> fan_in_node g y"
proof (induction g vis q rule: finds_fan_in.induct)
  case (2 g vis x q)
  show ?case
  proof (cases "fan_in_node g x")
    case False
    obtain vis' q' where p: "push_new (succs g x) vis q = (vis', q')" by (rule prod.exhaust)
    from "2.prems" False p have "finds_fan_in g vis' q'" by simp
    from "2.IH" [OF p [symmetric] refl this] obtain z y where
      zy: "z \<in> set q'" "(\<lambda>a b. b \<in> set (succs g a))\<^sup>*\<^sup>* z y" "fan_in_node g y" by blast
    from push_new_spec [OF p] zy(1) consider "z \<in> set q" | "z \<in> set (succs g x)" by blast
    then show ?thesis
    proof cases
      case 2
      then have "(\<lambda>a b. b \<in> set (succs g a))\<^sup>*\<^sup>* x y" using zy(2) by (rule converse_rtranclp_into_rtranclp)
      with zy(3) show ?thesis by auto
    qed (use zy in auto)
  qed auto
qed simp

lemma finds_fan_in_complete:
  "\<not> finds_fan_in g vis q \<Longrightarrow> set q \<subseteq> vis \<Longrightarrow>
   \<forall>x \<in> vis - set q. set (succs g x) \<subseteq> vis \<and> \<not> fan_in_node g x \<Longrightarrow>
   \<exists>V. vis \<subseteq> V \<and> (\<forall>x \<in> V. set (succs g x) \<subseteq> V \<and> \<not> fan_in_node g x)"
proof (induction g vis q rule: finds_fan_in.induct)
  case (1 g vis)
  then show ?case by (intro exI [of _ vis]) auto
next
  case (2 g vis x q)
  obtain vis' q' where p: "push_new (succs g x) vis q = (vis', q')" by (rule prod.exhaust)
  note new = push_new_spec [OF p]
  have x: "\<not> fan_in_node g x" "\<not> finds_fan_in g vis' q'" using "2.prems"(1) p by auto
  have "set (succs g y) \<subseteq> vis' \<and> \<not> fan_in_node g y" if "y \<in> vis' - set q'" for y
  proof (cases "y = x")
    case False
    from that new have "y \<in> vis" "y \<notin> set q" by blast+
    with False "2.prems"(3) new show ?thesis by auto
  qed (use x(1) new in blast)
  moreover have "set q' \<subseteq> vis'" using "2.prems"(2) new by auto
  ultimately obtain V where V: "vis' \<subseteq> V" "\<forall>x \<in> V. set (succs g x) \<subseteq> V \<and> \<not> fan_in_node g x"
    using "2.IH" [OF p [symmetric] refl x(2)] by blast
  have "vis \<subseteq> vis'" using new by blast
  with V show ?case by blast
qed

lemma fork_search_iff:
  "(let (vis, q) = push_new (succs g i) {} [] in finds_fan_in g vis q) \<longleftrightarrow>
   (\<exists>y. (\<lambda>a b. b \<in> set (succs g a))\<^sup>+\<^sup>+ i y \<and> fan_in_node g y)"
proof -
  obtain vis q where p: "push_new (succs g i) {} [] = (vis, q)" by (rule prod.exhaust)
  from push_new_spec [OF p] have q: "vis = set (succs g i)" "set q = set (succs g i)" by auto
  have "finds_fan_in g vis q \<longleftrightarrow> (\<exists>y. (\<lambda>a b. b \<in> set (succs g a))\<^sup>+\<^sup>+ i y \<and> fan_in_node g y)"
  proof
    assume "finds_fan_in g vis q"
    then show "\<exists>y. (\<lambda>a b. b \<in> set (succs g a))\<^sup>+\<^sup>+ i y \<and> fan_in_node g y"
      using finds_fan_in_sound [of g vis q] q(2) by (metis rtranclp_into_tranclp2)
  next
    assume "\<exists>y. (\<lambda>a b. b \<in> set (succs g a))\<^sup>+\<^sup>+ i y \<and> fan_in_node g y"
    then obtain x y where xy: "x \<in> set (succs g i)" "(\<lambda>a b. b \<in> set (succs g a))\<^sup>*\<^sup>* x y" "fan_in_node g y"
      by (meson tranclpD)
    show "finds_fan_in g vis q"
    proof (rule ccontr)
      assume "\<not> finds_fan_in g vis q"
      then obtain V where V: "vis \<subseteq> V" "\<forall>x \<in> V. set (succs g x) \<subseteq> V \<and> \<not> fan_in_node g x"
        using finds_fan_in_complete [of g vis q] q by auto
      from xy(2) have "y \<in> V"
        by (induction rule: rtranclp_induct) (use xy(1) q(1) V in blast)+
      with xy(3) V(2) show False by blast
    qed
  qed
  with p show ?thesis by simp
qed

lemma visited_all_iff: "i \<in> bfs_visited g (\<lambda>_. True) s \<longleftrightarrow> (\<lambda>a b. b \<in> set (succs g a))\<^sup>*\<^sup>* s i"
  using bfs.found_iff [of i g "\<lambda>_. True" s] by simp

section \<open>Properties\<close>

text \<open>When a single rule finds an error.\<close>

lemma rule_errors:
  "has_errors (single_start_rule g) \<longleftrightarrow> (\<nexists>s. filter (\<lambda>n. ntype n = START) (gnodes g) = [s])"
  "has_errors (single_exit_rule g) \<longleftrightarrow> (\<nexists>s. filter (\<lambda>n. ntype n = EXIT) (gnodes g) = [s])"
  "has_errors (start_no_incoming_rule g) \<longleftrightarrow>
     (\<exists>s. start_node g = Some s \<and> (\<exists>e \<in> set (gedges g). eto e = node_id s))"
  "has_errors (exit_no_outgoing_rule g) \<longleftrightarrow>
     (\<exists>x. exit_node g = Some x \<and> (\<exists>e \<in> set (gedges g). efrom e = node_id x))"
  "has_errors (all_reachable_rule g) \<longleftrightarrow> (\<exists>s. start_node g = Some s \<and>
     (\<exists>n \<in> set (gnodes g). \<not> (\<lambda>a b. b \<in> set (succs g a))\<^sup>*\<^sup>* (node_id s) (node_id n)))"
  "has_errors (valid_conditions_rule g) \<longleftrightarrow>
     (\<exists>e \<in> set (gedges g). edge_condition e \<noteq> [] \<and> \<not> is_ok (parse_condition (edge_condition e)))"
  "has_errors (parallel_pairing_rule g) \<longleftrightarrow> (\<exists>n \<in> set (gnodes g). ntype n = PARALLEL \<and>
     (\<nexists>y. (\<lambda>a b. b \<in> set (succs g a))\<^sup>+\<^sup>+ (node_id n) y \<and> fan_in_node g y))"
  "\<not> has_errors (no_self_loops_rule g)"
  "has_errors (params_syntax_rule g) \<longleftrightarrow>
     (\<exists>seg \<in> set (split_segments (attr_get (gattrs g) ''params'') [] False 0). seg \<noteq> [] \<and> bad_segment seg)"
proof -
  have one: "(\<nexists>s. xs = [s]) \<longleftrightarrow> length xs = 0 \<or> length xs > 1" for xs :: "node list"
    by (cases xs rule: list.exhaust [case_names Nil Cons]) (auto simp: neq_Nil_conv)
  show "has_errors (single_start_rule g) \<longleftrightarrow> (\<nexists>s. filter (\<lambda>n. ntype n = START) (gnodes g) = [s])"
    "has_errors (single_exit_rule g) \<longleftrightarrow> (\<nexists>s. filter (\<lambda>n. ntype n = EXIT) (gnodes g) = [s])"
    unfolding one by (simp_all add: single_start_rule_def single_exit_rule_def Let_def)
  show "has_errors (start_no_incoming_rule g) \<longleftrightarrow>
     (\<exists>s. start_node g = Some s \<and> (\<exists>e \<in> set (gedges g). eto e = node_id s))"
    by (auto simp: start_no_incoming_rule_def incoming_edges_def filter_empty_conv Let_def split: option.split)
  show "has_errors (exit_no_outgoing_rule g) \<longleftrightarrow>
     (\<exists>x. exit_node g = Some x \<and> (\<exists>e \<in> set (gedges g). efrom e = node_id x))"
    by (auto simp: exit_no_outgoing_rule_def outgoing_edges_def filter_empty_conv Let_def split: option.split)
  show "has_errors (all_reachable_rule g) \<longleftrightarrow> (\<exists>s. start_node g = Some s \<and>
     (\<exists>n \<in> set (gnodes g). \<not> (\<lambda>a b. b \<in> set (succs g a))\<^sup>*\<^sup>* (node_id s) (node_id n)))"
    by (cases "start_node g") (auto simp: all_reachable_rule_def visited_all_iff has_errors_def Let_def)
  show "has_errors (valid_conditions_rule g) \<longleftrightarrow>
     (\<exists>e \<in> set (gedges g). edge_condition e \<noteq> [] \<and> \<not> is_ok (parse_condition (edge_condition e)))"
  proof -
    have "has_errors (concat (map f xs)) \<longleftrightarrow> (\<exists>x \<in> set xs. has_errors (f x))" for f and xs :: "edge list"
      by (auto simp: has_errors_def)
    note concat_errors = this
    show ?thesis unfolding valid_conditions_rule_def concat_errors
      by (intro bex_cong refl) (simp add: Let_def is_ok_def split: sum.split)
  qed
  show "has_errors (parallel_pairing_rule g) \<longleftrightarrow> (\<exists>n \<in> set (gnodes g). ntype n = PARALLEL \<and>
     (\<nexists>y. (\<lambda>a b. b \<in> set (succs g a))\<^sup>+\<^sup>+ (node_id n) y \<and> fan_in_node g y))"
    unfolding parallel_pairing_rule_def fork_search_iff by (auto simp: has_errors_def)
  show "\<not> has_errors (no_self_loops_rule g)" by (auto simp: no_self_loops_rule_def has_errors_def)
  show "has_errors (params_syntax_rule g) \<longleftrightarrow>
     (\<exists>seg \<in> set (split_segments (attr_get (gattrs g) ''params'') [] False 0). seg \<noteq> [] \<and> bad_segment seg)"
    by (auto simp: params_syntax_rule_def Let_def find_None_iff dest: find_Some_mem split: option.split)
qed

lemma validate_graph_errors:
  "has_errors (validate_graph g) \<longleftrightarrow> (\<exists>rule \<in> set default_rules. has_errors (rule g))"
  by (auto simp: validate_graph_def validate_with_def has_errors_def)

text \<open>C13: what a graph without errors is. The validator reports no error exactly if the graph has one \<open>START\<close>
  node, which no edge enters, and one \<open>EXIT\<close> node, which no edge leaves; every node is reachable from
  \<open>START\<close>; every edge condition parses; from every \<open>PARALLEL\<close> node a \<open>FAN_IN\<close> node can be reached; and no
  segment of \<open>params\<close> assigns a value. Self loops are only warned about.\<close>

theorem validate_graph_ok_iff:
  "\<not> has_errors (validate_graph g) \<longleftrightarrow>
     (\<exists>s ex. filter (\<lambda>n. ntype n = START) (gnodes g) = [s] \<and> filter (\<lambda>n. ntype n = EXIT) (gnodes g) = [ex] \<and>
        (\<forall>e \<in> set (gedges g). eto e \<noteq> node_id s \<and> efrom e \<noteq> node_id ex) \<and>
        (\<forall>n \<in> set (gnodes g). (\<lambda>a b. b \<in> set (succs g a))\<^sup>*\<^sup>* (node_id s) (node_id n))) \<and>
     (\<forall>e \<in> set (gedges g). edge_condition e = [] \<or> is_ok (parse_condition (edge_condition e))) \<and>
     (\<forall>n \<in> set (gnodes g). ntype n = PARALLEL \<longrightarrow>
        (\<exists>y. (\<lambda>a b. b \<in> set (succs g a))\<^sup>+\<^sup>+ (node_id n) y \<and> fan_in_node g y)) \<and>
     (\<forall>seg \<in> set (split_segments (attr_get (gattrs g) ''params'') [] False 0). seg = [] \<or> \<not> bad_segment seg)"
proof -
  have find: "find P xs = (case filter P xs of [] \<Rightarrow> None | x # _ \<Rightarrow> Some x)" for P and xs :: "node list"
    by (induction xs) auto
  have "\<not> has_errors (validate_graph g) \<longleftrightarrow> (\<forall>rule \<in> set default_rules. \<not> has_errors (rule g))"
    using validate_graph_errors by blast
  also have "\<dots> \<longleftrightarrow> (\<exists>s ex. filter (\<lambda>n. ntype n = START) (gnodes g) = [s] \<and>
        filter (\<lambda>n. ntype n = EXIT) (gnodes g) = [ex] \<and> \<not> has_errors (start_no_incoming_rule g) \<and>
        \<not> has_errors (exit_no_outgoing_rule g) \<and> \<not> has_errors (all_reachable_rule g)) \<and>
      \<not> has_errors (valid_conditions_rule g) \<and> \<not> has_errors (parallel_pairing_rule g) \<and>
      \<not> has_errors (params_syntax_rule g)"
    by (auto simp: default_rules_def rule_errors(1,2,8))
  finally show ?thesis
    unfolding rule_errors start_node_def exit_node_def find by (auto split: list.splits)
qed

definition linear_graph :: graph where
  "linear_graph = \<lparr>gname = ''g'',
     gnodes = [\<lparr>node_id = ''a'', ntype = START, nattrs = []\<rparr>, \<lparr>node_id = ''z'', ntype = EXIT, nattrs = []\<rparr>],
     gedges = [\<lparr>efrom = ''a'', eto = ''z'', eattrs = []\<rparr>], gattrs = []\<rparr>"

theorem validate_graph_ok_iff_witness: "\<not> has_errors (validate_graph linear_graph)"
  unfolding validate_graph_ok_iff
  by (auto simp: linear_graph_def succs_def outgoing_edges_def edge_condition_def attr_get_or_def)

end
