(* ===== verification/Cli_Commands.thy ===== *)
theory Cli_Commands
  imports Troubleshooter Pipeline_Run Stylesheet Validation
begin

text \<open>
  The commands of \<open>src/cli/router.cpp\<close> that change a saved run: \<open>resume\<close>, \<open>retry\<close>, \<open>stage mark\<close>, \<open>stage advance\<close> and
  \<open>troubleshoot\<close>. A command ends with its exit code. \<open>rd\<close> reads a text file (empty if there is none), \<open>hash\<close> is
  \<open>std::hash\<close> printed as a number, the documents of the checkpoints are a map \<open>files\<close>, and messages on the
  terminal and the run registry are left out.
\<close>

section \<open>Shared by \<open>resume\<close> and \<open>retry\<close>\<close>

definition parse_and_build :: "string \<Rightarrow> graph result" where
  "parse_and_build src =
     (case parse_dot src of
        Some (Inr ast) \<Rightarrow> success (build_graph ast)
      | Some (Inl e) \<Rightarrow> failure e
      | None \<Rightarrow> failure [])"

definition restyle :: "string \<Rightarrow> graph \<Rightarrow> graph" where
  "restyle src g =
     (if src = [] then g
      else case parse_stylesheet src of Inl _ \<Rightarrow> g | Inr rules \<Rightarrow> apply_stylesheet rules g)"

text \<open>The inline stylesheet of the graph, then the external one.\<close>

definition styled :: "(string \<Rightarrow> string) \<Rightarrow> string \<Rightarrow> graph \<Rightarrow> graph" where
  "styled rd sheet g =
     (let g = restyle (attr_get (gattrs g) ''model_stylesheet'') g
      in if sheet = [] then g else restyle (rd sheet) g)"

definition up_to_slash :: "string \<Rightarrow> string" where
  "up_to_slash path =
     (if CHR ''/'' \<in> set path then rev (tl (dropWhile (\<lambda>c. c \<noteq> CHR ''/'') (rev path))) else [])"

section \<open>\<open>resume\<close>\<close>

definition resume_root :: "cli_args \<Rightarrow> checkpoint \<Rightarrow> string \<Rightarrow> string" where
  "resume_root a cp path =
     (let root = (if logs_dir a = [] then checkpoint.logs_root cp else logs_dir a)
      in if root = [] then up_to_slash path else root)"

text \<open>
  The text to resume with and its hash. A file that has changed since the run started is refused, unless
  \<open>--reload\<close> accepts it or \<open>--from-snapshot\<close> finds the text the run was started with.
\<close>

definition resume_source ::
  "(string \<Rightarrow> string) \<Rightarrow> (string \<Rightarrow> string) \<Rightarrow> cli_args \<Rightarrow> checkpoint \<Rightarrow> string \<Rightarrow> (string \<times> string) option" where
  "resume_source rd hash a cp root =
     (let src = rd (graph_file cp); h = hash src; recorded = dot_content_hash cp
      in if src = [] then None
         else if recorded \<noteq> [] \<and> recorded \<noteq> h then
           let snap = rd (root @ ''/source.dot'');
               (src, h) = (if from_snapshot a \<and> root \<noteq> [] \<and> snap \<noteq> [] then (snap, hash snap) else (src, h))
           in if \<not> reload a \<and> recorded \<noteq> h then None else Some (src, h)
         else Some (src, h))"

record 'w shell =
  sl_read :: "string \<Rightarrow> string"
  sl_hash :: "string \<Rightarrow> string"
  sl_cwd :: string
  sl_what :: "json_error \<Rightarrow> string"
  sl_parse_error :: string
  sl_defaults :: json
  sl_run_id :: string
  sl_moved :: "string \<Rightarrow> string"
  sl_base :: "'w config"

definition absolute_from :: "string \<Rightarrow> string \<Rightarrow> string" where
  "absolute_from cwd path = (if path = [] \<or> is_absolute_path path then path else path_join cwd path)"

text \<open>
  The context the engine resumes with. It is filled after \<open>config\<close> was moved into the engine: \<open>sl_moved\<close> is what
  the library leaves in a string that was moved from.
\<close>

definition resumed_context :: "'w shell \<Rightarrow> cli_args \<Rightarrow> string \<Rightarrow> string \<Rightarrow> string \<Rightarrow> ctxt \<Rightarrow> ctxt" where
  "resumed_context sl a root pdir gfile c =
     (let lim = size_limit (sl_base sl); pdir = sl_moved sl pdir; gfile = sl_moved sl gfile;
          c = ctx_set lim ''needle.run_id'' (sl_run_id sl) c;
          c = (if pdir \<noteq> [] then ctx_set lim ''needle.project_dir'' pdir c else c);
          c = (if gfile \<noteq> [] then ctx_set lim ''needle.graph_path'' gfile c else c);
          c = (if root \<noteq> [] then
              ctx_set lim ''needle.logs_dir'' (root @ ''/logs'') (ctx_set lim ''needle.logs_root'' root c) else c)
      in inject_config_defaults lim (sl_defaults sl) (\<not> frozen_config a) c)"

definition resume_config :: "'w shell \<Rightarrow> cli_args \<Rightarrow> checkpoint \<Rightarrow> string \<Rightarrow> string \<Rightarrow> string \<Rightarrow> bool \<Rightarrow> 'w config" where
  "resume_config sl a cp root sheet h ts =
     (sl_base sl)\<lparr>c_logs_root := root, c_graph_file := absolute_from (sl_cwd sl) (graph_file cp),
       c_stylesheet_file := sheet, has_writer := True, auto_status := True, strict_graph_hash := a_strict_graph_hash a,
       allow_unresolved_vars := allow_unresolved a, c_dot_content_hash := h, troubleshoot_on := ts\<rparr>"

text \<open>\<open>resolve_troubleshoot_mode\<close>: configuration, then the graph, then the flags.\<close>

definition resolve_mode :: "string \<Rightarrow> graph \<Rightarrow> cli_args \<Rightarrow> troubleshoot_mode" where
  "resolve_mode configured g a =
     (let m = (if configured = [] then Off else case parse_troubleshoot_mode configured of Some m \<Rightarrow> m | None \<Rightarrow> Off);
          attr = attr_get (gattrs g) ''troubleshoot_on_failure'';
          m = (if attr = [] then m else case parse_troubleshoot_mode attr of Some m \<Rightarrow> m | None \<Rightarrow> m);
          m = (if a_troubleshoot a then Tweak else m)
      in if troubleshoot_mode_set a then a_troubleshoot_mode a else m)"

text \<open>Everything up to the call of the engine; \<open>Inl\<close> is an exit code.\<close>

definition resume_prepare ::
  "'w shell \<Rightarrow> string \<Rightarrow> cli_args \<Rightarrow> files \<Rightarrow> int + (checkpoint \<times> graph \<times> 'w config)" where
  "resume_prepare sl configured a fs =
     (let path = (if first_positional a = [] then ''.needle/checkpoint.json'' else first_positional a) in
      case json_load (sl_what sl) (sl_parse_error sl) path fs of
        Inl _ \<Rightarrow> Inl 1
      | Inr cp \<Rightarrow>
          let sheet = (if cli_args.stylesheet a = [] then stylesheet_file cp else cli_args.stylesheet a);
              root = resume_root a cp path
          in case resume_source (sl_read sl) (sl_hash sl) a cp root of
               None \<Rightarrow> Inl 1
             | Some (src, h) \<Rightarrow>
                 (case parse_and_build src of
                    Inl _ \<Rightarrow> Inl 1
                  | Inr g \<Rightarrow>
                      let g = styled (sl_read sl) sheet g in
                      if has_errors (validate_graph g) then Inl 1
                      else
                        let pdir = ctx_get (cp_context cp) ''needle.project_dir'';
                            pdir = (if pdir = [] then sl_cwd sl else pdir);
                            cfg = resume_config sl a cp root sheet h (resolve_mode configured g a \<noteq> Off);
                            c = resumed_context sl a root pdir (c_graph_file cfg) (cp_context cp)
                        in Inr (cp\<lparr>cp_context := c\<rparr>, g, cfg)))"

definition exit_code_of :: "unit result \<Rightarrow> int" where
  "exit_code_of r =
     (case r of
        Inr _ \<Rightarrow> 0
      | Inl e \<Rightarrow> if find_sub ''escalated auto-troubleshoot:'' e \<noteq> None then 3 else 1)"

definition resume_command ::
  "'w shell \<Rightarrow> string \<Rightarrow> nat \<Rightarrow> cli_args \<Rightarrow> files \<Rightarrow> 'w est \<Rightarrow> (int \<times> 'w est) option" where
  "resume_command sl configured fuel a fs st =
     (case resume_prepare sl configured a fs of
        Inl k \<Rightarrow> Some (k, st)
      | Inr (cp, g, cfg) \<Rightarrow> map_option (\<lambda>(r, st). (exit_code_of r, st)) (resume cfg fuel cp g st))"

section \<open>\<open>retry\<close>\<close>

text \<open>Whether a checkpoint is one of a run that knows the node.\<close>

definition knows_node :: "(string \<Rightarrow> string) \<Rightarrow> string \<Rightarrow> checkpoint \<Rightarrow> bool" where
  "knows_node rd i cp =
     (current_node cp = i \<or> i \<in> set (completed_nodes cp) \<or>
      (let dot = rd (graph_file cp)
       in dot \<noteq> [] \<and> (case parse_and_build dot of Inl _ \<Rightarrow> False | Inr g \<Rightarrow> find_node g i \<noteq> None)))"

text \<open>\<open>entries\<close> is the listing of \<open>.needle\<close>, \<open>None\<close> if there is no such directory.\<close>

definition find_checkpoint :: "'w shell \<Rightarrow> string list option \<Rightarrow> string \<Rightarrow> string \<Rightarrow> files \<Rightarrow> string option" where
  "find_checkpoint sl entries ndir i fs =
     (case entries of
        None \<Rightarrow> None
      | Some es \<Rightarrow>
          let known = (\<lambda>p. fs p \<noteq> None \<and>
                (case json_load (sl_what sl) (sl_parse_error sl) p fs of
                   Inl _ \<Rightarrow> False | Inr cp \<Rightarrow> knows_node (sl_read sl) i cp));
              flat = ndir @ ''/checkpoint.json''
          in case find known (map (\<lambda>e. ndir @ ''/'' @ e @ ''/checkpoint.json'') es) of
               Some p \<Rightarrow> Some p
             | None \<Rightarrow> if fs flat \<noteq> None then Some flat else None)"

text \<open>
  \<open>find\<close> and \<open>size\<close> are 64-bit unsigned numbers, and \<open>npos\<close> is the largest of them: the comparison is written as
  in the code.
\<close>

definition find_pos :: "string \<Rightarrow> string \<Rightarrow> 64 word" where
  "find_pos pat s = (case find_sub pat s of Some p \<Rightarrow> of_nat p | None \<Rightarrow> - 1)"

definition names_node :: "string \<Rightarrow> string \<Rightarrow> bool" where
  "names_node k i =
     (find_sub (''.'' @ i @ ''.'') k \<noteq> None \<or>
      find_pos (''.'' @ i) k = of_nat (length k) - of_nat (length i) - 1)"

definition clear_keys :: "nat \<Rightarrow> string set \<Rightarrow> ctxt \<Rightarrow> ctxt" where
  "clear_keys lim removed c =
     fold (\<lambda>kv c. if \<exists>i \<in> removed. names_node (fst kv) i then ctx_set lim (fst kv) [] c else c) c c"

definition reset_checkpoint :: "nat \<Rightarrow> graph \<Rightarrow> string \<Rightarrow> checkpoint \<Rightarrow> checkpoint" where
  "reset_checkpoint lim g i cp =
     (let removed = reachable_from g i
      in cp\<lparr>completed_nodes := filter (\<lambda>n. n \<notin> removed) (completed_nodes cp), current_node := i,
            cp_context := clear_keys lim removed (cp_context cp)\<rparr>)"

definition retry_config :: "'w shell \<Rightarrow> checkpoint \<Rightarrow> string \<Rightarrow> string \<Rightarrow> 'w config" where
  "retry_config sl cp root sheet =
     (sl_base sl)\<lparr>c_logs_root := root, c_graph_file := graph_file cp, c_stylesheet_file := sheet, has_writer := True,
       auto_status := True, strict_graph_hash := False, allow_unresolved_vars := False, c_dot_content_hash := [],
       troubleshoot_on := False\<rparr>"

text \<open>Everything up to the call of the engine. The checkpoint is saved before the run starts; \<open>io\<close> says whether that
  succeeds, which is not looked at.\<close>

definition retry_prepare ::
  "'w shell \<Rightarrow> string list option \<Rightarrow> save_io \<Rightarrow> cli_args \<Rightarrow> files \<Rightarrow> (int + (checkpoint \<times> graph \<times> 'w config)) \<times> files" where
  "retry_prepare sl entries io a fs =
     (let i = first_positional a;
          pdir = (if cli_args.project_dir a = [] then sl_cwd sl else cli_args.project_dir a)
      in if i = [] then (Inl 2, fs)
         else case find_checkpoint sl entries (pdir @ ''/.needle'') i fs of
           None \<Rightarrow> (Inl 1, fs)
         | Some path \<Rightarrow>
             (case json_load (sl_what sl) (sl_parse_error sl) path fs of
                Inl _ \<Rightarrow> (Inl 1, fs)
              | Inr cp \<Rightarrow>
                  let src = sl_read sl (graph_file cp) in
                  if src = [] then (Inl 1, fs)
                  else case parse_and_build src of
                    Inl _ \<Rightarrow> (Inl 1, fs)
                  | Inr g \<Rightarrow>
                      if find_node g i = None then (Inl 1, fs)
                      else
                        let cp = reset_checkpoint (size_limit (sl_base sl)) g i cp;
                            fs = snd (json_save io cp path fs);
                            sheet = (if cli_args.stylesheet a = [] then stylesheet_file cp else cli_args.stylesheet a);
                            root = (if checkpoint.logs_root cp = [] then up_to_slash path else checkpoint.logs_root cp)
                        in (Inr (cp, styled (sl_read sl) sheet g, retry_config sl cp root sheet), fs)))"

definition retry_command ::
  "'w shell \<Rightarrow> string list option \<Rightarrow> save_io \<Rightarrow> nat \<Rightarrow> cli_args \<Rightarrow> files \<Rightarrow> 'w est \<Rightarrow> (int \<times> 'w est \<times> files) option" where
  "retry_command sl entries io fuel a fs st =
     (case retry_prepare sl entries io a fs of
        (Inl k, fs) \<Rightarrow> Some (k, st, fs)
      | (Inr (cp, g, cfg), fs) \<Rightarrow>
          map_option (\<lambda>(r, st). (if is_ok r then 0 else 1, st, fs)) (resume cfg fuel cp g st))"

section \<open>\<open>stage\<close>\<close>

definition stage_command ::
  "'w shell \<Rightarrow> save_io \<Rightarrow> bool \<Rightarrow> cli_args \<Rightarrow> files \<Rightarrow> int \<times> files" where
  "stage_command sl io status_ok a fs =
     (let code = (\<lambda>(r, fs). (if is_ok r then 0 else 1, fs)); lim = size_limit (sl_base sl) in
      case positionals a of
        [] \<Rightarrow> (2, fs)
      | sub # ps \<Rightarrow>
          if sub = ''mark'' then
            (case ps of
               rdir # i # res # _ \<Rightarrow>
                 if res = ''success'' then
                   let txt = (if stage_output a = [] then ''manual recovery: marked '' @ i @ '' as success'' else stage_output a)
                   in code (stage_mark (sl_what sl) (sl_parse_error sl) lim io status_ok rdir i True txt fs)
                 else if res = ''failure'' then
                   code (stage_mark (sl_what sl) (sl_parse_error sl) lim io status_ok rdir i False (stage_output a) fs)
                 else (2, fs)
             | _ \<Rightarrow> (2, fs))
          else if sub = ''advance'' then
            (case ps of
               rdir # _ \<Rightarrow>
                 if stage_to a = [] then (2, fs)
                 else code (stage_advance (sl_what sl) (sl_parse_error sl) io rdir (stage_to a) fs)
             | [] \<Rightarrow> (2, fs))
          else (2, fs))"

section \<open>The keys a retry clears\<close>

lemma of_nat_word64_eq: "m < 2 ^ 64 \<Longrightarrow> n < 2 ^ 64 \<Longrightarrow> (of_nat m :: 64 word) = of_nat n \<longleftrightarrow> m = n"
  by (simp add: word_of_nat_eq_iff take_bit_nat_eq_self)

lemma names_node_iff:
  assumes "length k < 2 ^ 64" and "length i < 2 ^ 64"
  shows "names_node k i \<longleftrightarrow> find_sub (''.'' @ i @ ''.'') k \<noteq> None \<or>
    (case find_sub (''.'' @ i) k of Some p \<Rightarrow> p + length i + 1 = length k | None \<Rightarrow> length k = length i)"
proof (cases "find_sub (''.'' @ i) k")
  case None
  have "(- 1 = of_nat (length k) - of_nat (length i) - (1 :: 64 word)) \<longleftrightarrow> (of_nat (length k) :: 64 word) = of_nat (length i)"
    by (auto simp: algebra_simps)
  then show ?thesis using assms None by (simp add: names_node_def find_pos_def of_nat_word64_eq del: append.simps)
next
  case (Some p)
  then have p: "p + length i + 1 \<le> length k" using find_sub_bound [OF Some] by simp
  have "(of_nat p = of_nat (length k) - of_nat (length i) - (1 :: 64 word)) \<longleftrightarrow>
      (of_nat (p + length i + 1) :: 64 word) = of_nat (length k)"
    by (auto simp: algebra_simps)
  also have "\<dots> \<longleftrightarrow> p + length i + 1 = length k" using p assms by (intro of_nat_word64_eq) simp_all
  finally show ?thesis using Some by (simp add: names_node_def find_pos_def del: append.simps)
qed

lemma clear_keys_lookup:
  "ctx_get (clear_keys lim removed c) k = (if ctx_has c k \<and> (\<exists>i \<in> removed. names_node k i) then [] else ctx_get c k)"
proof -
  have "ctx_get (fold (\<lambda>kv c. if \<exists>i \<in> removed. names_node (fst kv) i then ctx_set lim (fst kv) [] c else c) kvs c0) k
      = (if k \<in> fst ` set kvs \<and> (\<exists>i \<in> removed. names_node k i) then [] else ctx_get c0 k)" for kvs c0
    by (induction kvs arbitrary: c0) (auto simp: ctx_get_set clip_value_def)
  from this [of c c] show ?thesis by (simp only: clear_keys_def ctx_has_def map_of_eq_None_iff not_not)
qed

section \<open>Properties of \<open>retry\<close>\<close>

lemma styled_keeps: "gedges (styled rd sheet g) = gedges g" "find_node (styled rd sheet g) i = None \<longleftrightarrow> find_node g i = None"
proof -
  have "gedges (restyle src g) = gedges g \<and> (find_node (restyle src g) i = None \<longleftrightarrow> find_node g i = None)" for src g
    by (auto simp: restyle_def apply_stylesheet_def find_node_def find_None_iff style_node_def Let_def split: sum.split)
  then show "gedges (styled rd sheet g) = gedges g" "find_node (styled rd sheet g) i = None \<longleftrightarrow> find_node g i = None"
    by (simp_all add: styled_def Let_def)
qed

lemma reachable_from_edges: "gedges g = gedges g' \<Longrightarrow> reachable_from g i = reachable_from g' i"
  by (simp add: reachable_from_def)

lemma retry_prepare_cases:
  assumes "retry_prepare sl entries io a fs = (Inr (cp', g, cfg), fs')"
  shows "\<exists>path cp. json_load (sl_what sl) (sl_parse_error sl) path fs = Inr cp \<and>
    cp' = reset_checkpoint (size_limit (sl_base sl)) g (first_positional a) cp \<and>
    fs' = snd (json_save io cp' path fs) \<and> find_node g (first_positional a) \<noteq> None \<and>
    (\<exists>root sheet. cfg = retry_config sl cp' root sheet)"
proof -
  define pdir where "pdir = (if cli_args.project_dir a = [] then sl_cwd sl else cli_args.project_dir a)"
  have i: "first_positional a \<noteq> []" using assms by (auto simp: retry_prepare_def Let_def)
  obtain path where path: "find_checkpoint sl entries (pdir @ ''/.needle'') (first_positional a) fs = Some path"
    using assms i by (auto simp: retry_prepare_def Let_def pdir_def split: option.splits)
  obtain cp where cp: "json_load (sl_what sl) (sl_parse_error sl) path fs = Inr cp"
    using assms i path unfolding pdir_def by (auto simp: retry_prepare_def Let_def split: sum.splits)
  obtain g0 where g0: "sl_read sl (graph_file cp) \<noteq> []" "parse_and_build (sl_read sl (graph_file cp)) = Inr g0"
      "find_node g0 (first_positional a) \<noteq> None"
    using assms i path cp unfolding pdir_def by (auto simp: retry_prepare_def Let_def split: if_splits sum.splits)
  have "\<exists>rd sheet. g = styled rd sheet g0" "cp' = reset_checkpoint (size_limit (sl_base sl)) g0 (first_positional a) cp"
    "fs' = snd (json_save io cp' path fs)" "\<exists>root sheet. cfg = retry_config sl cp' root sheet"
    using assms i path cp g0 unfolding pdir_def by (auto simp: retry_prepare_def Let_def)
  note * = cp g0(3) this
  obtain rd sheet where g: "g = styled rd sheet g0" using *(3) by blast
  have "reachable_from g i = reachable_from g0 i" for i by (intro reachable_from_edges) (simp add: g styled_keeps)
  then have "reset_checkpoint lim g0 i cp = reset_checkpoint lim g i cp" for lim i by (simp only: reset_checkpoint_def)
  moreover have "find_node g (first_positional a) \<noteq> None" using g0(3) unfolding g styled_keeps .
  ultimately show ?thesis using * by metis
qed

lemma reset_fields:
  "completed_nodes (reset_checkpoint lim g i cp) = filter (\<lambda>n. n \<notin> reachable_from g i) (completed_nodes cp)"
  "current_node (reset_checkpoint lim g i cp) = i"
  "cp_context (reset_checkpoint lim g i cp) = clear_keys lim (reachable_from g i) (cp_context cp)"
  by (simp_all add: reset_checkpoint_def Let_def)

lemma reachable_self: "i \<in> reachable_from g i"
  using reach_loop_grows [of "{}" "[i]" "gedges g"] by (simp add: reachable_from_def)

text \<open>C33: a retry starts again at its node. If the engine accepts the checkpoint that \<open>needle retry\<close> wrote, it
  starts at the node of the retry with fresh retry counters; no stage that can be reached from the node counts
  as completed, and every other completed stage still does, in the same order.\<close>

theorem retry_restarts_at_node:
  assumes "retry_prepare sl entries io a fs = (Inr (cp', g, cfg), fs')"
    and "resumable cfg cp' g" and "exit_node g = Some ex"
  shows "\<exists>cp path n st2. json_load (sl_what sl) (sl_parse_error sl) path fs = Inr cp \<and>
    find_node g (first_positional a) = Some n \<and> prepare_resume cfg cp' g st = goto g (Some n) ex st2 \<and>
    completed st2 = filter (\<lambda>m. m \<notin> reachable_from g (first_positional a)) (completed_nodes cp) \<and>
    first_positional a \<notin> set (completed st2) \<and> retries st2 = [] \<and> fail_sigs st2 = []"
proof -
  let ?i = "first_positional a"
  obtain path cp n where r: "json_load (sl_what sl) (sl_parse_error sl) path fs = Inr cp"
    "cp' = reset_checkpoint (size_limit (sl_base sl)) g ?i cp" "find_node g ?i = Some n"
    using retry_prepare_cases [OF assms(1)] by auto
  then have n: "find_node g (current_node cp') = Some n" by (simp add: reset_fields)
  from prepare_resume_resumable [OF assms(2) n assms(3), of st] obtain st1 where
    st1: "prepare_resume cfg cp' g st = goto g (fst (advance_past cp' g n st1)) ex (snd (advance_past cp' g n st1))"
      "completed st1 = completed_nodes cp'" "retries st1 = []" "fail_sigs st1 = []" by blast
  have "node_id n = ?i" using r(3) by (simp add: find_node_def find_Some_iff) metis
  then have "node_id n \<notin> set (completed_nodes cp')" by (simp add: r(2) reset_fields reachable_self)
  then have "advance_past cp' g n st1 = (Some n, st1)" by (simp add: advance_past_def)
  with st1 r show ?thesis
    by (intro exI [of _ cp] exI [of _ path] exI [of _ n] exI [of _ st1]) (simp add: reset_fields reachable_self)
qed

text \<open>Fact: what a retry forgets. In the context of the checkpoint it writes, \<open>needle retry\<close> empties exactly the keys that
  contain the id of a reset node between two dots, or whose first occurrence of the id after a dot is at
  their end, or that do not have it after a dot at all and happen to be as long as the id: \<open>find\<close> gives the
  largest 64-bit number then, which is what the length computed in unsigned arithmetic gives too.\<close>

theorem retry_context:
  assumes "length k < 2 ^ 64" and "\<forall>i \<in> reachable_from g tgt. length i < 2 ^ 64"
  shows "ctx_get (cp_context (reset_checkpoint lim g tgt cp)) k =
    (if \<exists>i \<in> reachable_from g tgt. find_sub (''.'' @ i @ ''.'') k \<noteq> None \<or>
         (case find_sub (''.'' @ i) k of Some p \<Rightarrow> p + length i + 1 = length k | None \<Rightarrow> length k = length i)
     then [] else ctx_get (cp_context cp) k)"
proof -
  have "(\<exists>i \<in> reachable_from g tgt. names_node k i) \<longleftrightarrow>
      (\<exists>i \<in> reachable_from g tgt. find_sub (''.'' @ i @ ''.'') k \<noteq> None \<or>
         (case find_sub (''.'' @ i) k of Some p \<Rightarrow> p + length i + 1 = length k | None \<Rightarrow> length k = length i))"
    using assms names_node_iff by (intro bex_cong refl) blast
  moreover have "ctx_get c k = []" if "\<not> ctx_has c k" for c using that by (auto simp: ctx_has_def ctx_get_def)
  ultimately show ?thesis unfolding reset_fields clear_keys_lookup by auto
qed

text \<open>So the value of an unrelated key is lost.\<close>

lemma retry_erases_unrelated_key:
  assumes "length k = length tgt" and "length k < 2 ^ 64"
  shows "names_node k tgt"
proof -
  have "find_sub (''.'' @ tgt) k = None"
  proof (cases "find_sub (''.'' @ tgt) k")
    case (Some p)
    then have "length k < p + length (''.'' @ tgt)" using assms(1) by simp
    with find_sub_bound [OF Some] show ?thesis by simp
  qed
  then show ?thesis using assms by (simp add: names_node_iff del: append.simps)
qed

section \<open>\<open>troubleshoot\<close>\<close>

definition session_dir_of :: "string \<Rightarrow> string \<Rightarrow> string" where
  "session_dir_of rdir sid =
     (if starts_with ''session-'' sid then rdir @ ''/troubleshoot/'' @ sid else rdir @ ''/troubleshoot/session-'' @ sid)"

text \<open>\<open>ls\<close> lists a directory.\<close>

definition newest_session :: "'w ts_env \<Rightarrow> (string \<Rightarrow> 'w \<Rightarrow> string list) \<Rightarrow> string \<Rightarrow> 'w \<Rightarrow> string" where
  "newest_session env ls rdir w =
     (let root = rdir @ ''/troubleshoot'';
          sessions = filter (\<lambda>e. starts_with ''session-'' e \<and> bk_is_dir (te_host env) (root @ ''/'' @ e) w) (ls root w)
      in if \<not> bk_is_dir (te_host env) root w \<or> sessions = [] then [] else last (sort sessions))"

definition escalation_json :: "cli_args \<Rightarrow> string \<Rightarrow> json" where
  "escalation_json a stamp =
     json_set ''written_at'' (JStr stamp) (json_set ''next_question'' (JStr (cli_args.next_question a))
       (json_set ''reason'' (JStr (cli_args.reason a)) JNull))"

definition escalate_command :: "'w ts_env \<Rightarrow> (string \<Rightarrow> 'w \<Rightarrow> string list) \<Rightarrow> cli_args \<Rightarrow> 'w \<Rightarrow> int \<times> 'w" where
  "escalate_command env ls a w =
     (if cli_args.reason a = [] \<or> cli_args.next_question a = [] then (2, w)
      else
        let cwd = te_getcwd env w;
            rdir = (if run_dir a = [] then cwd else absolute_from cwd (run_dir a));
            sid = (if cli_args.session_id a = [] then newest_session env ls rdir w else cli_args.session_id a);
            sdir = session_dir_of rdir sid
        in if sid = [] \<or> \<not> bk_is_dir (te_host env) sdir w then (1, w)
           else
             let (ok, w) = bk_write (te_host env) (sdir @ ''/escalate.json'')
                   (te_dump env (escalation_json a (te_now env w))) w
             in (if ok then 0 else 1, w))"

definition project_of_run :: "string \<Rightarrow> string \<Rightarrow> string" where
  "project_of_run cwd rdir =
     (case find_sub ''/.needle/'' rdir of
        Some p \<Rightarrow> take p rdir
      | None \<Rightarrow> if 8 \<le> length rdir \<and> drop (length rdir - 8) rdir = ''/.needle'' then take (length rdir - 8) rdir else cwd)"

definition rollback_command :: "'w ts_env \<Rightarrow> string list \<Rightarrow> 'w \<Rightarrow> int \<times> 'w" where
  "rollback_command env ps w =
     (case ps of
        rdir # sid # _ \<Rightarrow>
          let cwd = te_getcwd env w; rdir = absolute_from cwd rdir;
              (r, w) = rollback (te_host env) (project_of_run cwd rdir) (session_dir_of rdir sid) w
          in (if is_ok r then 0 else 1, w)
      | _ \<Rightarrow> (2, w))"

definition action_code :: "ts_action \<Rightarrow> int" where
  "action_code act =
     (if act \<in> {Act_Resumed, Act_Promoted, Act_Reported, Act_Cancelled} then 0 else if act = Act_Escalated then 2 else 1)"

definition manual_attempts :: "'w ts_env \<Rightarrow> 'w \<Rightarrow> int" where
  "manual_attempts env w =
     (let cfg = te_config env ''defaults.troubleshoot_max_attempts'' w; n = atoi cfg
      in if cfg \<noteq> [] \<and> 0 < n then n else 1)"

text \<open>\<open>troubleshoot run\<close>; \<open>None\<close> stands for the exception of a document of the wrong shape, which nothing catches.\<close>

definition manual_graph :: "'w ts_env \<Rightarrow> string \<Rightarrow> 'w \<Rightarrow> graph result" where
  "manual_graph env path w =
     (let none = success \<lparr>gname = ''manual_troubleshoot'', gnodes = [], gedges = [], gattrs = []\<rparr>
      in if path = [] then none
         else case bk_read (te_host env) path w of None \<Rightarrow> none | Some src \<Rightarrow> parse_and_build src)"

definition last_component :: "string \<Rightarrow> string" where
  "last_component path =
     (if list_all is_slash path then path
      else rev (takeWhile (\<lambda>c. \<not> is_slash c) (dropWhile is_slash (rev path))))"

definition manual_context :: "nat \<Rightarrow> string \<Rightarrow> string \<Rightarrow> string \<Rightarrow> string \<Rightarrow> ctxt \<Rightarrow> ctxt" where
  "manual_context lim rdir pdir rid gpath c =
     (let c = ctx_set lim ''needle.run_id'' rid (ctx_set lim ''needle.project_dir'' pdir c);
          c = (if gpath \<noteq> [] then ctx_set lim ''needle.graph_path'' gpath c else c)
      in if ctx_get c ''needle.logs_root'' = [] then ctx_set lim ''needle.logs_root'' rdir c else c)"

definition manual_session ::
  "'w ts_env \<Rightarrow> cli_args \<Rightarrow> string \<Rightarrow> checkpoint \<Rightarrow> 'w est \<Rightarrow> int option \<times> 'w est" where
  "manual_session env a rdir cp st =
     (let w = world st; c = cp_context cp;
          pdir = (if ctx_get c ''needle.project_dir'' = [] then project_of_run (te_getcwd env w) rdir
                  else ctx_get c ''needle.project_dir'');
          gpath = (if ctx_get c ''needle.graph_path'' = [] then graph_file cp else ctx_get c ''needle.graph_path'');
          gpath = (if gpath \<noteq> [] \<and> \<not> is_absolute_path gpath then path_join pdir gpath else gpath);
          rid = (if ctx_get c ''needle.run_id'' = [] then last_component rdir else ctx_get c ''needle.run_id'')
      in case manual_graph env gpath w of
           Inl _ \<Rightarrow> (Some 1, st)
         | Inr g \<Rightarrow>
             let st = st\<lparr>ctx := manual_context (te_limit env) rdir pdir rid gpath c\<rparr>;
                 mode = (if manual_mode_set a then manual_mode a else Tweak);
                 (r, st) = ats_handle env rdir (manual_attempts env w) mode (current_node cp) g st
             in case r of Inl _ \<Rightarrow> (None, st) | Inr res \<Rightarrow> (Some (action_code (at_action res)), st))"

definition run_troubleshooter ::
  "'w ts_env \<Rightarrow> (json_error \<Rightarrow> string) \<Rightarrow> string \<Rightarrow> cli_args \<Rightarrow> string list \<Rightarrow> files \<Rightarrow> 'w est \<Rightarrow> int option \<times> 'w est" where
  "run_troubleshooter env what pe a ps fs st =
     (case ps of
        [] \<Rightarrow> (Some 2, st)
      | p # _ \<Rightarrow>
          let rdir = absolute_from (te_getcwd env (world st)) p in
          case json_load what pe (rdir @ ''/checkpoint.json'') fs of
            Inl _ \<Rightarrow> (Some 1, st)
          | Inr cp \<Rightarrow> manual_session env a rdir cp st)"

text \<open>\<open>troubleshoot\<close> with a run directory: the diagnosis, written beside the run and shown. \<open>title\<close> is the heading.\<close>

definition standalone_report :: "string \<Rightarrow> run_world \<Rightarrow> diagnosis_report \<Rightarrow> string" where
  "standalone_report title w r =
     (let nl = [CHR 0x0A]; actions = render_proposed_actions r
      in title @ d_failed_node (report_signals r) @ nl @ nl @ ''## Diagnosis'' @ nl @ render_markdown w r @
         (if actions = [] then [] else nl @ ''## Proposed actions'' @ nl @ actions))"

definition diagnose_command :: "string \<Rightarrow> 'w ts_env \<Rightarrow> string \<Rightarrow> 'w \<Rightarrow> int \<times> 'w" where
  "diagnose_command title env rdir w =
     (let r = collect_report (te_run_world env w) rdir [] in
      if d_failed_node (report_signals r) = [] then (1, w)
      else
        let stamp = map (\<lambda>c. if c = CHR '':'' then CHR ''-'' else c) (te_now env w)
        in (0, snd (bk_write (te_host env) (rdir @ ''/recovery-'' @ stamp @ ''.md'')
              (standalone_report title (te_run_world env w) r) w)))"

definition troubleshoot_command ::
  "string \<Rightarrow> 'w ts_env \<Rightarrow> (string \<Rightarrow> 'w \<Rightarrow> string list) \<Rightarrow> (json_error \<Rightarrow> string) \<Rightarrow> string \<Rightarrow> cli_args \<Rightarrow> files \<Rightarrow> 'w est
     \<Rightarrow> int option \<times> 'w est" where
  "troubleshoot_command title env ls what pe a fs st =
     (let on_files = (\<lambda>(k, w). (Some k, st\<lparr>world := w\<rparr>)) in
      case positionals a of
        [] \<Rightarrow> (Some 2, st)
      | sub # ps \<Rightarrow>
          if sub = ''run'' then run_troubleshooter env what pe a ps fs st
          else if sub = ''escalate'' then on_files (escalate_command env ls a (world st))
          else if sub = ''rollback'' then on_files (rollback_command env ps (world st))
          else if sub = [] then (Some 2, st)
          else on_files (diagnose_command title env sub (world st)))"

section \<open>Properties of \<open>troubleshoot\<close>\<close>

text \<open>Both forms of a session id name the same directory.\<close>

lemma session_dir_forms: "\<not> starts_with ''session-'' sid \<Longrightarrow> session_dir_of rdir (''session-'' @ sid) = session_dir_of rdir sid"
  by (simp add: session_dir_of_def starts_with_def)

text \<open>Fact: an escalation reaches the session. If \<open>needle troubleshoot escalate\<close> ends with code 0, the session whose
  directory it names finds the escalation when its agent has ended, with the reason that was given, provided
  files keep what is written to them and the JSON parser reads the marker that \<open>dump\<close> printed.\<close>

theorem escalation_reaches_session:
  assumes "positionals a = ''escalate'' # ps" and "troubleshoot_command title env ls what pe a fs st = (Some 0, st')"
    and "files_document (te_host env)"
    and "parse_json (te_run_world env (world st')) (te_dump env (escalation_json a (te_now env (world st))))
      = Some (escalation_json a (te_now env (world st)))"
  shows "\<exists>rdir sid. (cli_args.session_id a \<noteq> [] \<longrightarrow> sid = cli_args.session_id a) \<and>
    (run_dir a \<noteq> [] \<longrightarrow> rdir = absolute_from (te_getcwd env (world st)) (run_dir a)) \<and>
    fst (escalate env i s (session_dir_of rdir sid) rid st') = Some (cli_args.reason a)"
proof -
  let ?w = "world st"
  define rdir where "rdir = (if run_dir a = [] then te_getcwd env ?w else absolute_from (te_getcwd env ?w) (run_dir a))"
  define sid where "sid = (if cli_args.session_id a = [] then newest_session env ls rdir ?w else cli_args.session_id a)"
  let ?p = "session_dir_of rdir sid @ ''/escalate.json''"
  let ?j = "escalation_json a (te_now env ?w)"
  from assms(1,2) have r: "cli_args.reason a \<noteq> []" and wr: "bk_write (te_host env) ?p (te_dump env ?j) ?w = (True, world st')"
    by (auto simp: troubleshoot_command_def escalate_command_def Let_def rdir_def sid_def split: if_splits prod.splits)
  from wr assms(3) have f: "bk_read (te_host env) ?p (world st') = Some (te_dump env ?j)" "bk_exists (te_host env) ?p (world st')"
    by (auto simp: files_document_def)
  have "json_find JNull k = None" for k by (simp add: json_find_def)
  then have "json_find ?j k = (if k = ''written_at'' then Some (JStr (te_now env ?w))
      else if k = ''next_question'' then Some (JStr (cli_args.next_question a))
      else if k = ''reason'' then Some (JStr (cli_args.reason a)) else None)" for k
    by (simp add: escalation_json_def)
  then have s: "string_or ?j ''escalate_reason'' (string_or ?j ''reason'' []) = cli_args.reason a"
    by (simp add: string_or_def)
  obtain kvs where kvs: "?j = JObj kvs" by (simp add: escalation_json_def json_set_def)
  have "\<exists>m. read_escalation_marker env (session_dir_of rdir sid) (world st') = Some m \<and> escalation_marker.reason m = cli_args.reason a"
    using f(1) r s assms(4) by (simp add: read_escalation_marker_def kvs Let_def)
  then have "fst (escalate env i s (session_dir_of rdir sid) rid st') = Some (cli_args.reason a)"
    using f(2) by (auto simp: escalate_def Let_def)
  then show ?thesis unfolding rdir_def sid_def by (intro exI conjI) auto
qed

section \<open>Properties of \<open>resume\<close>\<close>

lemma resume_source_hash:
  assumes "resume_source rd hash a cp root = Some (src, h)"
  shows "h = hash src" "dot_content_hash cp = [] \<or> reload a \<or> h = dot_content_hash cp"
    "src = rd (graph_file cp) \<or> from_snapshot a \<and> src = rd (root @ ''/source.dot'')"
  using assms by (auto simp: resume_source_def Let_def split: if_splits)

text \<open>C34: a resume does not pick a changed file silently. What \<open>needle resume\<close> hands to the engine is a graph without
  validation errors, made from a text whose hash is the recorded one, unless none was recorded or
  \<open>--reload\<close> was given; a text other than the file of the run is only taken with \<open>--from-snapshot\<close>. The
  progress of the checkpoint is untouched, and every checkpoint the engine saves records the hash of that
  text, so the next resume is held to it.\<close>

theorem resume_gate:
  assumes "resume_prepare sl configured a fs = Inr (cp', g, cfg)"
  shows "\<exists>path cp src sheet g0 root. json_load (sl_what sl) (sl_parse_error sl) path fs = Inr cp \<and>
    (src = sl_read sl (graph_file cp) \<or> from_snapshot a \<and> src = sl_read sl (root @ ''/source.dot'')) \<and>
    (dot_content_hash cp = [] \<or> reload a \<or> sl_hash sl src = dot_content_hash cp) \<and>
    parse_and_build src = Inr g0 \<and> g = styled (sl_read sl) sheet g0 \<and> \<not> has_errors (validate_graph g) \<and>
    completed_nodes cp' = completed_nodes cp \<and> current_node cp' = current_node cp \<and>
    (\<forall>j st. dot_content_hash (make_checkpoint cfg j st) = sl_hash sl src)"
proof -
  define path where "path = (if first_positional a = [] then ''.needle/checkpoint.json'' else first_positional a)"
  obtain cp where cp: "json_load (sl_what sl) (sl_parse_error sl) path fs = Inr cp"
    using assms unfolding path_def by (auto simp: resume_prepare_def Let_def split: sum.splits)
  define sheet where "sheet = (if cli_args.stylesheet a = [] then stylesheet_file cp else cli_args.stylesheet a)"
  obtain src h where src: "resume_source (sl_read sl) (sl_hash sl) a cp (resume_root a cp path) = Some (src, h)"
    using assms cp unfolding path_def by (auto simp: resume_prepare_def Let_def split: sum.splits option.splits)
  obtain g0 where g0: "parse_and_build src = Inr g0" "\<not> has_errors (validate_graph (styled (sl_read sl) sheet g0))"
    using assms cp src unfolding path_def sheet_def by (auto simp: resume_prepare_def Let_def split: sum.splits if_splits)
  have rest: "g = styled (sl_read sl) sheet g0" "completed_nodes cp' = completed_nodes cp" "current_node cp' = current_node cp"
    "c_dot_content_hash cfg = h"
    using assms cp src g0 unfolding path_def sheet_def by (auto simp: resume_prepare_def Let_def resume_config_def)
  have "dot_content_hash (make_checkpoint cfg j st) = h" for j st by (simp add: make_checkpoint_def rest(4))
  then have all: "\<forall>j st. dot_content_hash (make_checkpoint cfg j st) = sl_hash sl src"
    using resume_source_hash(1) [OF src] by simp
  have "dot_content_hash cp = [] \<or> reload a \<or> sl_hash sl src = dot_content_hash cp"
    using resume_source_hash(1,2) [OF src] by simp
  moreover have "\<not> has_errors (validate_graph g)" using g0(2) rest(1) by simp
  ultimately show ?thesis using cp resume_source_hash(3) [OF src] g0(1) rest(1-3) all by blast
qed

text \<open>Fact: a retry switches that check off. The checkpoints of the run it starts record no hash, so a later resume
  accepts whatever the file holds then.\<close>

lemma retry_forgets_hash:
  assumes "retry_prepare sl entries io a fs = (Inr (cp', g, cfg), fs')"
  shows "dot_content_hash (make_checkpoint cfg j st) = []"
    and "rd (graph_file (make_checkpoint cfg j st)) \<noteq> [] \<Longrightarrow>
      resume_source rd hash a' (make_checkpoint cfg j st) root \<noteq> None"
proof -
  show h: "dot_content_hash (make_checkpoint cfg j st) = []"
    using retry_prepare_cases [OF assms] by (auto simp: make_checkpoint_def retry_config_def)
  show "resume_source rd hash a' (make_checkpoint cfg j st) root \<noteq> None"
    if "rd (graph_file (make_checkpoint cfg j st)) \<noteq> []"
    using that h by (simp add: resume_source_def Let_def)
qed

text \<open>Fact: the troubleshooting agent may run \<open>needle stage retry\<close>, which is not a command.\<close>

lemma stage_retry_unknown:
  "\<exists>before after. build_allowed_tools Tweak = before @ ''Bash(needle stage retry:*)'' @ after"
  "positionals a = ''retry'' # ps \<Longrightarrow> stage_command sl io status_ok a fs = (2, fs)"
proof -
  show "\<exists>before after. build_allowed_tools Tweak = before @ ''Bash(needle stage retry:*)'' @ after"
    by (rule exI [of _ "base_tools @ '' '' @ edit_tool ''.needle/**/source.dot'' @ '' '' @ edit_tool ''*.dot'' @
          '' '' @ edit_tool ''.needle/**/stages/*/prompt.md'' @ '' Bash(needle stage mark:*) Bash(needle stage advance:*) ''"],
        rule exI [of _ "'' Bash(needle resume:*) Bash(needle config set defaults.*:*) Bash(git status:*) Bash(git log:*) Bash(git diff:*)''"])
      (simp add: build_allowed_tools_def tweak_tools_def)
  show "positionals a = ''retry'' # ps \<Longrightarrow> stage_command sl io status_ok a fs = (2, fs)" by (simp add: stage_command_def)
qed

text \<open>Fact: the project directory is not written into the context of a resumed run, because it is read from the
  configuration after that was moved away.\<close>

lemma resumed_context_misses_project:
  assumes "\<And>s. sl_moved sl s = []" and "obj_items (sl_defaults sl) = []"
  shows "ctx_get (resumed_context sl a root pdir gfile c) ''needle.project_dir'' = ctx_get c ''needle.project_dir''"
  using assms by (simp add: resumed_context_def inject_config_defaults_def Let_def ctx_get_set)

section \<open>Witnesses\<close>

definition pair_source :: string where
  "pair_source = ''digraph{s[shape=Mdiamond];z[shape=Msquare];s->z}''"

definition pair_graph :: graph where
  "pair_graph = \<lparr>gname = [], gnodes = [\<lparr>node_id = ''s'', ntype = START, nattrs = [(''shape'', ''Mdiamond'')]\<rparr>,
       \<lparr>node_id = ''z'', ntype = EXIT, nattrs = [(''shape'', ''Msquare'')]\<rparr>],
     gedges = [\<lparr>efrom = ''s'', eto = ''z'', eattrs = []\<rparr>], gattrs = []\<rparr>"

lemma pair_graph_facts:
  "parse_and_build pair_source = Inr pair_graph" "\<not> has_errors (validate_graph pair_graph)"
  "attr_get (gattrs pair_graph) ''model_stylesheet'' = []" "apply_variable_expansion [(''needle.graph_path'', ''g.dot'')] pair_graph = (pair_graph, [])"
  "map_option node_id (exit_node pair_graph) = Some ''z''" "map_option node_id (find_node pair_graph ''s'') = Some ''s''"
  "map_option node_id (find_node pair_graph ''z'') = Some ''z''" "reachable_from pair_graph ''z'' = {''z''}"
  by code_simp+

definition pair_checkpoint :: checkpoint where
  "pair_checkpoint = \<lparr>timestamp = ''t'', current_node = ''z'', completed_nodes = [''s'', ''z''], retry_counters = [],
     cp_context = [(''needle.graph_path'', ''g.dot'')], graph_file = ''g.dot'', graph_hash = compute_graph_hash pair_graph,
     completed_node_hashes = [], branch_worktrees = [], stylesheet_file = [], logs_root = ''p/.needle/g'',
     dot_content_hash = ''h''\<rparr>"

definition pair_shell :: "unit shell" where
  "pair_shell = \<lparr>sl_read = (\<lambda>p. if p = ''g.dot'' then pair_source else []), sl_hash = (\<lambda>_. ''h''), sl_cwd = ''p'',
     sl_what = (\<lambda>_. []), sl_parse_error = [], sl_defaults = JNull, sl_run_id = ''r'', sl_moved = (\<lambda>_. []),
     sl_base = sample_config\<rparr>"

definition pair_files :: files where
  "pair_files = snd (json_save io_ok pair_checkpoint ''p/.needle/g/checkpoint.json'' Map.empty)"

lemma pair_load: "json_load what pe ''p/.needle/g/checkpoint.json'' pair_files = Inr pair_checkpoint"
  unfolding pair_files_def
  by (rule file_store.load_save) (simp add: pair_checkpoint_def checkpoint_ok_def omap_ok_def)

lemma pair_exists: "pair_files ''p/.needle/g/checkpoint.json'' \<noteq> None"
  using pair_load [of "\<lambda>_. []" "[]"] by (auto simp: json_load_def split: option.splits)

definition retry_args :: cli_args where
  "retry_args = default_args\<lparr>positionals := [''z'']\<rparr>"

abbreviation "retried \<equiv> reset_checkpoint 0 pair_graph ''z'' pair_checkpoint"

lemma pair_retry:
  "retry_prepare pair_shell (Some [''g'']) io_ok retry_args pair_files =
     (Inr (retried, pair_graph, retry_config pair_shell retried ''p/.needle/g'' []),
      snd (json_save io_ok retried ''p/.needle/g/checkpoint.json'' pair_files))"
proof -
  have f: "find_checkpoint pair_shell (Some [''g'']) ''p/.needle'' ''z'' pair_files = Some ''p/.needle/g/checkpoint.json''"
    using pair_exists by (simp add: find_checkpoint_def pair_load knows_node_def pair_checkpoint_def)
  have z: "find_node pair_graph ''z'' \<noteq> None" using pair_graph_facts(7) by (cases "find_node pair_graph ''z''") auto
  show ?thesis
    using f z pair_load pair_graph_facts(1,3)
    by (simp add: retry_prepare_def retry_args_def default_args_def first_positional_def pair_shell_def pair_source_def
        styled_def restyle_def sample_config_def reset_checkpoint_def Let_def pair_checkpoint_def)
qed

theorem retry_restarts_at_node_witness:
  "\<exists>cp' g cfg fs' n ex st2. retry_prepare pair_shell (Some [''g'']) io_ok retry_args pair_files = (Inr (cp', g, cfg), fs') \<and>
     prepare_resume cfg cp' g sample_state = goto g (Some n) ex st2 \<and> node_id n = ''z'' \<and> completed st2 = [''s'']"
proof -
  let ?cfg = "retry_config pair_shell retried ''p/.needle/g'' []"
  have kept_done: "completed_nodes retried = [''s'']" by (simp add: reset_fields pair_graph_facts(8) pair_checkpoint_def)
  have "\<not> names_node ''needle.graph_path'' ''z''" by code_simp
  then have c: "cp_context retried = [(''needle.graph_path'', ''g.dot'')]"
    by (simp add: reset_fields clear_keys_def pair_graph_facts(8) pair_checkpoint_def)
  have nodes: "find_node pair_graph ''s'' \<noteq> None" "find_node pair_graph ''z'' \<noteq> None"
    using pair_graph_facts(6,7) by (cases "find_node pair_graph ''s''"; cases "find_node pair_graph ''z''"; auto)+
  obtain ex where ex: "exit_node pair_graph = Some ex" using pair_graph_facts(5) by (cases "exit_node pair_graph") auto
  have "size_limit ?cfg = 0" "c_graph_file ?cfg = ''g.dot''" "graph_hash retried = compute_graph_hash pair_graph" "current_node retried = ''z''"
    by (simp_all add: retry_config_def pair_shell_def sample_config_def reset_checkpoint_def Let_def pair_checkpoint_def)
  then have "resumable ?cfg retried pair_graph"
    using nodes kept_done c pair_graph_facts(4) by (simp add: resumable_def ctx_set_def clip_value_def)
  from retry_restarts_at_node [OF pair_retry this ex, of sample_state]
  obtain cp path n st2 where r: "json_load (sl_what pair_shell) (sl_parse_error pair_shell) path pair_files = Inr cp"
    "find_node pair_graph ''z'' = Some n" "prepare_resume ?cfg retried pair_graph sample_state = goto pair_graph (Some n) ex st2"
    "completed st2 = filter (\<lambda>m. m \<notin> reachable_from pair_graph ''z'') (completed_nodes cp)"
    by (auto simp: first_positional_def retry_args_def)
  have "path = ''p/.needle/g/checkpoint.json''"
    using r(1) by (auto simp: json_load_def pair_files_def json_save_def io_ok_def tmp_of_def Let_def split: option.splits if_splits)
  then have "cp = pair_checkpoint" using r(1) by (simp add: pair_load)
  then have "completed st2 = [''s'']" using r(4) by (simp add: pair_graph_facts(8) pair_checkpoint_def)
  moreover have "node_id n = ''z''" using r(2) pair_graph_facts(7) by simp
  ultimately show ?thesis using pair_retry r(3) by blast
qed

theorem retry_context_witness:
  "ctx_get (cp_context (reset_checkpoint 0 pair_graph ''z'' (pair_checkpoint\<lparr>cp_context := [(''v'', ''1'')]\<rparr>))) ''v'' = []"
proof -
  have "find_sub ''.z'' ''v'' = None" by code_simp
  then show ?thesis by (subst retry_context) (simp_all add: pair_graph_facts(8))
qed

definition resume_args :: cli_args where
  "resume_args = default_args\<lparr>positionals := [''p/.needle/g/checkpoint.json'']\<rparr>"

theorem resume_gate_witness:
  "\<exists>cp' g cfg. resume_prepare pair_shell [] resume_args pair_files = Inr (cp', g, cfg) \<and>
     dot_content_hash (make_checkpoint cfg ''z'' sample_state) = ''h'' \<and> \<not> has_errors (validate_graph g)"
proof -
  have "\<exists>cp' g cfg. resume_prepare pair_shell [] resume_args pair_files = Inr (cp', g, cfg)"
    using pair_load pair_graph_facts(1-3)
    by (simp add: resume_prepare_def resume_args_def default_args_def first_positional_def pair_shell_def resume_source_def
        pair_checkpoint_def pair_source_def styled_def restyle_def Let_def)
  then obtain cp' g cfg where r: "resume_prepare pair_shell [] resume_args pair_files = Inr (cp', g, cfg)" by blast
  from resume_gate [OF r] have "dot_content_hash (make_checkpoint cfg ''z'' sample_state) = ''h''" "\<not> has_errors (validate_graph g)"
    by (auto simp: pair_shell_def)
  with r show ?thesis by blast
qed

definition disk_env :: "(string \<Rightarrow> string option) ts_env" where
  "disk_env = \<lparr>te_host = \<lparr>bk_git = (\<lambda>_ _ _ w. (failure [], w)), bk_read = (\<lambda>p w. w p), bk_exists = (\<lambda>p w. w p \<noteq> None),
       bk_write = (\<lambda>p t w. (True, w(p \<mapsto> t))), bk_is_dir = (\<lambda>_ _. True), bk_mkdir = (\<lambda>_ w. (True, w))\<rparr>,
     te_limit = 0, te_now = (\<lambda>_. ''t''), te_config = (\<lambda>_ _. []), te_session_id = (\<lambda>w. (''s'', w)),
     te_agent = (\<lambda>_ _ _ _ w. ((failure [], []), w)),
     te_run_world = (\<lambda>w. \<lparr>disk = w,
       parse_json = [''m'' \<mapsto> JObj [(''next_question'', JStr ''q''), (''reason'', JStr ''stuck''), (''written_at'', JStr ''t'')]],
       is_ancestor = (\<lambda>_ _ _. None), alive = (\<lambda>_. False), descendants = (\<lambda>_. [])\<rparr>),
     te_prompt = (\<lambda>_ _ _. []), te_dump = (\<lambda>_. ''m''), te_realpath = (\<lambda>_ _. None), te_getcwd = (\<lambda>_. ''/p''), te_active = (\<lambda>_. []),
     te_set_active = (\<lambda>_ w. w), te_register = (\<lambda>_ _ w. w), te_unregister = (\<lambda>_ _ w. w), te_open_session = (\<lambda>_ _ w. w)\<rparr>"

definition disk_state :: "(string \<Rightarrow> string option) est" where
  "disk_state = \<lparr>ctx = [], completed = [], node_hashes = [], outcomes = [], fail_sigs = [], retries = [], cycle_limit = 3,
     cur_graph_hash = [], start_time = [], cancelled = False, trace = [], world = Map.empty\<rparr>"

definition escalate_args :: cli_args where
  "escalate_args = default_args\<lparr>positionals := [''escalate''], cli_args.reason := ''stuck'', cli_args.next_question := ''q'', cli_args.session_id := ''1'',
     run_dir := ''/p/.needle/g''\<rparr>"

theorem escalation_reaches_session_witness:
  "let (k, st') = troubleshoot_command [] disk_env (\<lambda>_ _. []) (\<lambda>_. []) [] escalate_args Map.empty disk_state
   in k = Some 0 \<and> fst (escalate disk_env ''a'' ''1'' ''/p/.needle/g/troubleshoot/session-1'' ''r'' st') = Some ''stuck''"
proof -
  obtain k st' where r: "troubleshoot_command [] disk_env (\<lambda>_ _. []) (\<lambda>_. []) [] escalate_args Map.empty disk_state = (k, st')"
    by (rule prod.exhaust)
  have k: "k = Some 0"
    using r by (simp add: troubleshoot_command_def escalate_command_def escalate_args_def default_args_def disk_env_def Let_def)
  have j: "escalation_json escalate_args ''t'' = JObj [(''next_question'', JStr ''q''), (''reason'', JStr ''stuck''), (''written_at'', JStr ''t'')]"
    by code_simp
  have "\<exists>rdir sid. (cli_args.session_id escalate_args \<noteq> [] \<longrightarrow> sid = cli_args.session_id escalate_args) \<and>
    (run_dir escalate_args \<noteq> [] \<longrightarrow> rdir = absolute_from (te_getcwd disk_env (world disk_state)) (run_dir escalate_args)) \<and>
    fst (escalate disk_env ''a'' ''1'' (session_dir_of rdir sid) ''r'' st') = Some (cli_args.reason escalate_args)"
  proof (rule escalation_reaches_session)
    show "positionals escalate_args = ''escalate'' # []" by (simp add: escalate_args_def)
    show "troubleshoot_command [] disk_env (\<lambda>_ _. []) (\<lambda>_. []) [] escalate_args Map.empty disk_state = (Some 0, st')"
      using r k by simp
    show "files_document (te_host disk_env)" by (auto simp: files_document_def disk_env_def)
    show "parse_json (te_run_world disk_env (world st')) (te_dump disk_env (escalation_json escalate_args (te_now disk_env (world disk_state))))
      = Some (escalation_json escalate_args (te_now disk_env (world disk_state)))"
      by (simp add: disk_env_def j)
  qed
  then have "fst (escalate disk_env ''a'' ''1'' ''/p/.needle/g/troubleshoot/session-1'' ''r'' st') = Some ''stuck''"
    by (auto simp: escalate_args_def disk_env_def absolute_from_def is_absolute_path_def session_dir_of_def starts_with_def)
  with r k show ?thesis by simp
qed

end
