(* ===== verification/Run_Registry.thy ===== *)
theory Run_Registry
  imports Checkpoint
begin

text \<open>
  \<open>src/util/run_registry.cpp\<close>: the list of runs that the dashboard shows, a JSON document in the home directory of
  the user. An operation of the JSON library that throws gives \<open>Inl Type_Error\<close>. Enabling, locking and the choice
  of the path are left out.
\<close>

section \<open>The id of a run\<close>

definition id_char :: "char \<Rightarrow> bool" where
  "id_char c = (is_alnum c \<or> c = CHR ''-'' \<or> c = CHR ''_'' \<or> c = CHR ''.'')"

definition run_separator :: "char \<Rightarrow> bool" where
  "run_separator c = (c = CHR ''/'' \<or> c = backslash)"

definition run_prefix :: "string \<Rightarrow> string" where
  "run_prefix dir =
     (let base = rev (takeWhile (\<lambda>c. \<not> run_separator c) (dropWhile run_separator (rev dir)));
          p = (if dir = [] \<or> dir = ''.'' then [] else map to_lower_char (filter id_char base))
      in if p = [] then ''run'' else p)"

text \<open>\<open>stamp\<close> is the time as \<open>YYMMDD-HHMM\<close>.\<close>

definition generate_run_id :: "string \<Rightarrow> string \<Rightarrow> string" where
  "generate_run_id stamp dir = run_prefix dir @ ''-'' @ stamp"

section \<open>The document\<close>

definition fresh_registry :: json where
  "fresh_registry = JObj [(''runs'', JObj []), (''version'', JInt 1)]"

text \<open>\<open>None\<close>: there is no file.\<close>

definition load_registry :: "doc_file option \<Rightarrow> json" where
  "load_registry f =
     (case f of
        Some (Doc (JObj kvs)) \<Rightarrow>
          (if json_find (JObj kvs) ''runs'' = None then json_set ''runs'' (JObj []) (JObj kvs) else JObj kvs)
      | Some (Doc JNull) \<Rightarrow> JObj [(''runs'', JObj [])]
      | _ \<Rightarrow> fresh_registry)"

text \<open>The results of \<open>remove\<close> and \<open>rename\<close> are not looked at.\<close>

definition save_registry :: "bool \<Rightarrow> save_io \<Rightarrow> json \<Rightarrow> string \<Rightarrow> files \<Rightarrow> unit result \<times> files" where
  "save_registry mkdir_ok io data path fs =
     (let tmp = tmp_of path in
      if \<not> mkdir_ok then (failure ''cannot create directory'', fs)
      else if \<not> open_ok io then (failure (''cannot write '' @ tmp), fs)
      else
        let doc = (if write_ok io then Doc data else Partial);
            fs = fs(tmp \<mapsto> doc);
            fs = fs(path := None)
        in (success (), if rename_ok io then fs(path \<mapsto> doc, tmp := None) else fs))"

definition run_entry ::
  "string \<Rightarrow> string \<Rightarrow> string \<Rightarrow> string \<Rightarrow> string \<Rightarrow> string \<Rightarrow> string \<Rightarrow> bool \<Rightarrow> json" where
  "run_entry i stem src pdir root stat created dry =
     fold (\<lambda>kv. json_set (fst kv) (snd kv))
       [(''id'', JStr i), (''dot_stem'', JStr stem), (''dot_source'', JStr src), (''project_dir'', JStr pdir),
        (''logs_root'', JStr root), (''status'', JStr stat), (''dry_run'', JBool dry), (''error'', JStr []),
        (''created_at'', JStr created)] JNull"

text \<open>\<open>operator[]\<close> makes an object of a null and throws for any other value that is not an object.\<close>

definition set_field :: "string \<Rightarrow> json \<Rightarrow> json \<Rightarrow> json_error + json" where
  "set_field k v j = (case j of JObj _ \<Rightarrow> Inr (json_set k v j) | JNull \<Rightarrow> Inr (json_set k v j) | _ \<Rightarrow> Inl Type_Error)"

definition field_or_null :: "json \<Rightarrow> string \<Rightarrow> json" where
  "field_or_null j k = (case json_find j k of Some v \<Rightarrow> v | None \<Rightarrow> JNull)"

definition add_entry :: "string \<Rightarrow> json \<Rightarrow> json \<Rightarrow> json_error + json" where
  "add_entry i entry data =
     (case set_field i entry (field_or_null data ''runs'') of
        Inl e \<Rightarrow> Inl e | Inr runs \<Rightarrow> set_field ''runs'' runs data)"

definition update_status :: "string \<Rightarrow> string \<Rightarrow> string \<Rightarrow> json \<Rightarrow> json_error + json" where
  "update_status i stat err data =
     (let runs = field_or_null data ''runs'' in
      case json_find runs i of
        None \<Rightarrow> set_field ''runs'' runs data
      | Some entry \<Rightarrow>
          (case set_field ''status'' (JStr stat) entry of
             Inl e \<Rightarrow> Inl e
           | Inr entry \<Rightarrow> add_entry i (json_set ''error'' (JStr err) entry) data))"

definition remove_entry :: "string \<Rightarrow> json \<Rightarrow> json_error + json" where
  "remove_entry i data =
     (case field_or_null data ''runs'' of
        JObj kvs \<Rightarrow> set_field ''runs'' (JObj (omap_erase i kvs)) data
      | _ \<Rightarrow> Inl Type_Error)"

definition all_entries :: "json \<Rightarrow> json list" where
  "all_entries data =
     map (\<lambda>kv. if json_find (snd kv) ''dry_run'' = None then json_set ''dry_run'' (JBool False) (snd kv) else snd kv)
       (obj_items (field_or_null data ''runs''))"

section \<open>The registry as a finite map\<close>

definition runs_map :: "json \<Rightarrow> string \<rightharpoonup> json" where
  "runs_map data = map_of (obj_items (field_or_null data ''runs''))"

definition registry_ok :: "json \<Rightarrow> bool" where
  "registry_ok data = (\<exists>kvs runs. data = JObj kvs \<and> map_of kvs ''runs'' = Some (JObj runs) \<and> (\<forall>v \<in> ran (map_of runs). \<exists>es. v = JObj es))"

lemma registry_okE:
  assumes "registry_ok data"
  obtains kvs runs where "data = JObj kvs" "field_or_null data ''runs'' = JObj runs" "runs_map data = map_of runs"
    "\<forall>v \<in> ran (map_of runs). \<exists>es. v = JObj es"
  using assms by (auto simp: registry_ok_def field_or_null_def json_find_def runs_map_def)

lemma set_runs:
  assumes "registry_ok data" and "\<forall>v \<in> ran (map_of runs). \<exists>es. v = JObj es"
  shows "\<exists>d. set_field ''runs'' (JObj runs) data = Inr d \<and> registry_ok d \<and> runs_map d = map_of runs"
proof -
  obtain kvs where "data = JObj kvs" using assms(1) by (rule registry_okE)
  then show ?thesis
    using assms(2) by (auto simp: set_field_def registry_ok_def json_set_def runs_map_def field_or_null_def json_find_def)
qed

lemma add_entry_map:
  assumes "registry_ok data" and "entry = JObj es"
  shows "\<exists>d. add_entry i entry data = Inr d \<and> registry_ok d \<and> runs_map d = (runs_map data)(i \<mapsto> entry)"
proof -
  obtain kvs runs where r: "field_or_null data ''runs'' = JObj runs" "runs_map data = map_of runs"
    "\<forall>v \<in> ran (map_of runs). \<exists>es. v = JObj es" using assms(1) by (rule registry_okE)
  have "\<forall>v \<in> ran (map_of (omap_set i entry runs)). \<exists>es. v = JObj es" using r(3) assms(2) by (auto simp: ran_def)
  from set_runs [OF assms(1) this] show ?thesis by (auto simp: add_entry_def set_field_def r json_set_def)
qed

lemma update_status_map:
  assumes "registry_ok data"
  shows "\<exists>d. update_status i stat err data = Inr d \<and> registry_ok d \<and>
    runs_map d = (case runs_map data i of None \<Rightarrow> runs_map data
      | Some entry \<Rightarrow> (runs_map data)(i \<mapsto> json_set ''error'' (JStr err) (json_set ''status'' (JStr stat) entry)))"
proof -
  obtain kvs runs where r: "field_or_null data ''runs'' = JObj runs" "runs_map data = map_of runs"
    "\<forall>v \<in> ran (map_of runs). \<exists>es. v = JObj es" using assms by (rule registry_okE)
  show ?thesis
  proof (cases "map_of runs i")
    case None
    then show ?thesis using set_runs [OF assms r(3)] by (simp add: update_status_def r json_find_def)
  next
    case (Some entry)
    then obtain es where e: "entry = JObj es" using r(3) by (auto simp: ran_def)
    let ?new = "json_set ''error'' (JStr err) (json_set ''status'' (JStr stat) entry)"
    have "\<exists>es. ?new = JObj es" by (simp add: json_set_def)
    then obtain d where "add_entry i ?new data = Inr d" "registry_ok d" "runs_map d = (runs_map data)(i \<mapsto> ?new)"
      using add_entry_map [OF assms] by blast
    with Some e show ?thesis by (simp add: update_status_def r json_find_def set_field_def)
  qed
qed

lemma remove_entry_map:
  assumes "registry_ok data"
  shows "\<exists>d. remove_entry i data = Inr d \<and> registry_ok d \<and> runs_map d = (runs_map data)(i := None)"
proof -
  obtain kvs runs where r: "field_or_null data ''runs'' = JObj runs" "runs_map data = map_of runs"
    "\<forall>v \<in> ran (map_of runs). \<exists>es. v = JObj es" using assms by (rule registry_okE)
  have "\<forall>v \<in> ran (map_of (omap_erase i runs)). \<exists>es. v = JObj es" using r(3) by (auto simp: ran_def)
  from set_runs [OF assms this] show ?thesis by (simp add: remove_entry_def r)
qed

lemma load_saved_registry:
  assumes "registry_ok data"
  shows "load_registry (snd (save_registry True io_ok data path fs) path) = data"
proof -
  obtain kvs runs where r: "data = JObj kvs" "field_or_null data ''runs'' = JObj runs" using assms by (rule registry_okE)
  then obtain v where "json_find (JObj kvs) ''runs'' = Some v" by (auto simp: field_or_null_def split: option.splits)
  then show ?thesis by (simp add: save_registry_def io_ok_def load_registry_def tmp_of_def r(1) Let_def)
qed

text \<open>C36: the registry is a finite map from run ids to entries. On a document it has loaded, adding, updating and
  removing an entry change that entry and nothing else, an update of an unknown run changes nothing, and what
  is saved is what the next load reads.\<close>

theorem registry_refines_map:
  assumes "registry_ok data"
  shows "(\<exists>d. add_entry i (run_entry i stem src pdir root stat created dry) data = Inr d \<and> registry_ok d \<and>
      runs_map d = (runs_map data)(i \<mapsto> run_entry i stem src pdir root stat created dry)) \<and>
    (\<exists>d. update_status i stat err data = Inr d \<and> registry_ok d \<and>
      runs_map d = (case runs_map data i of None \<Rightarrow> runs_map data
        | Some entry \<Rightarrow> (runs_map data)(i \<mapsto> json_set ''error'' (JStr err) (json_set ''status'' (JStr stat) entry)))) \<and>
    (\<exists>d. remove_entry i data = Inr d \<and> registry_ok d \<and> runs_map d = (runs_map data)(i := None)) \<and>
    load_registry (snd (save_registry True io_ok data path fs) path) = data"
proof -
  have "\<exists>es. run_entry i stem src pdir root stat created dry = JObj es" by (simp add: run_entry_def json_set_def)
  then show ?thesis
    using add_entry_map [OF assms] update_status_map [OF assms] remove_entry_map [OF assms] load_saved_registry [OF assms]
    by blast
qed

theorem registry_refines_map_witness:
  "registry_ok fresh_registry \<and> (\<exists>d. remove_entry ''a'' fresh_registry = Inr d \<and> runs_map d = Map.empty)"
proof -
  have ok: "registry_ok fresh_registry" by (simp add: registry_ok_def fresh_registry_def)
  moreover have "runs_map fresh_registry = Map.empty" by (simp add: runs_map_def field_or_null_def json_find_def fresh_registry_def)
  moreover note registry_refines_map [OF ok, of "''a''" "[]" "[]" "[]" "[]" "[]" "[]" False "[]" "[]" Map.empty]
  ultimately show ?thesis by auto
qed

text \<open>Fact: two runs started in the same minute in directories of the same name have the same id, so the entry of
  the first is lost.\<close>

lemma same_minute_overwrites:
  assumes "registry_ok data" and "run_prefix d1 = run_prefix d2" and "e1 = JObj es1" and "e2 = JObj es2"
  shows "\<exists>d d'. add_entry (generate_run_id stamp d1) e1 data = Inr d \<and> add_entry (generate_run_id stamp d2) e2 d = Inr d' \<and>
    runs_map d' = (runs_map data)(generate_run_id stamp d1 \<mapsto> e2)"
proof -
  let ?i = "generate_run_id stamp d1"
  have i: "generate_run_id stamp d2 = ?i" using assms(2) by (simp add: generate_run_id_def)
  obtain d where d: "add_entry ?i e1 data = Inr d" "registry_ok d" "runs_map d = (runs_map data)(?i \<mapsto> e1)"
    using add_entry_map [OF assms(1,3)] by blast
  obtain d' where "add_entry ?i e2 d = Inr d'" "runs_map d' = (runs_map d)(?i \<mapsto> e2)"
    using add_entry_map [OF d(2) assms(4)] by blast
  with d(1,3) show ?thesis by (simp add: i)
qed

text \<open>Fact: a save whose rename fails reports success and leaves no registry.\<close>

lemma failed_rename_loses_registry:
  "save_registry True \<lparr>open_ok = True, write_ok = True, rename_ok = False\<rparr> data path fs = (r, fs') \<Longrightarrow>
   r = success () \<and> fs' path = None"
  by (auto simp: save_registry_def Let_def tmp_of_def)

end
