(* ===== verification/Server_View.thy ===== *)
theory Server_View
  imports Recovery_Report Stream_Parser
begin

text \<open>
  What \<open>src/server/http_server.cpp\<close> computes beside answering requests: the guards of the file requests, the encoding of a
  path in a link, and the summary of a troubleshooting session, read back from its report and its event log. The number
  parser and the JSON library are parameters. The views of a run are in \<open>Run_View\<close>.
\<close>

section \<open>Guards of the file requests\<close>

definition path_break :: "char \<Rightarrow> bool" where
  "path_break c = (c = CHR ''/'' \<or> c = backslash)"

function has_parent_segment :: "string \<Rightarrow> bool" where
  "has_parent_segment path =
     (takeWhile (\<lambda>c. \<not> path_break c) path = ''..'' \<or>
      (case dropWhile (\<lambda>c. \<not> path_break c) path of [] \<Rightarrow> False | _ # rest \<Rightarrow> has_parent_segment rest))"
  by pat_completeness auto

termination
proof (relation "measure length")
  fix path :: string and c rest
  assume "dropWhile (\<lambda>c. \<not> path_break c) path = c # rest"
  then have "length (c # rest) \<le> length path" by (metis length_dropWhile_le)
  then show "(rest, path) \<in> measure length" by simp
qed simp

declare has_parent_segment.simps [simp del]

definition path_has_unsafe_components :: "string \<Rightarrow> bool" where
  "path_has_unsafe_components path = (CHR 0x00 \<in> set path \<or> has_parent_segment path)"

text \<open>\<open>hdr\<close> gives the value of a header, \<open>None\<close> where the request has none.\<close>

definition is_cross_site_request :: "(string \<Rightarrow> string option) \<Rightarrow> bool" where
  "is_cross_site_request hdr =
     (case hdr ''Sec-Fetch-Site'' of
        Some s \<Rightarrow> \<not> (s = ''same-origin'' \<or> s = ''same-site'' \<or> s = ''none'')
      | None \<Rightarrow>
          (case hdr ''Origin'' of
             None \<Rightarrow> False
           | Some org \<Rightarrow>
               let host = (case hdr ''Host'' of Some h \<Rightarrow> h | None \<Rightarrow> []);
                   org = (case find_sub ''://'' org of Some p \<Rightarrow> drop (p + 3) org | None \<Rightarrow> org)
               in host \<noteq> [] \<and> org \<noteq> host))"

definition hex_digit :: "nat \<Rightarrow> char" where
  "hex_digit n = char_of (if n < 10 then 48 + n else 55 + n)"

definition url_plain :: "char \<Rightarrow> bool" where
  "url_plain c = (is_lower c \<or> is_upper c \<or> is_digit c \<or> c \<in> {CHR ''/'', CHR ''_'', CHR ''-'', CHR ''.'', CHR ''~''})"

definition url_encode_query_value :: "string \<Rightarrow> string" where
  "url_encode_query_value s =
     concat (map (\<lambda>c. if url_plain c then [c] else [CHR ''%'', hex_digit (byte c div 16), hex_digit (byte c mod 16)]) s)"

section \<open>The report of a troubleshooting session\<close>

definition line_blank :: "char \<Rightarrow> bool" where
  "line_blank c = (c \<in> {CHR '' '', CHR 0x09, CHR 0x0D, newline})"

definition trim_copy :: "string \<Rightarrow> string" where
  "trim_copy s = rtrim line_blank (dropWhile line_blank s)"

text \<open>The loop over a value in double quotes, from the character after the first quote on; it stops before the last
  character, which is the closing quote.\<close>

fun skip_escapes :: "string \<Rightarrow> string" where
  "skip_escapes (c # d # cs) = (if c = backslash \<and> cs \<noteq> [] then d # skip_escapes cs else c # skip_escapes (d # cs))"
| "skip_escapes _ = []"

definition yaml_scalar_to_string :: "string \<Rightarrow> string" where
  "yaml_scalar_to_string v =
     (let v = trim_copy v in
      if v = ''null'' \<or> v = ''~'' then []
      else if 2 \<le> length v \<and> hd v = dquote \<and> last v = dquote then skip_escapes (tl v)
      else if 2 \<le> length v \<and> hd v = squote \<and> last v = squote then butlast (tl v)
      else v)"

definition view_keys :: "string list" where
  "view_keys = [''session_id'', ''tier'', ''outcome'', ''failed_node'', ''backup_branch'', ''backup_base'', ''escalate_reason'', ''summary'']"

definition put_nonempty :: "string \<Rightarrow> string \<Rightarrow> json \<Rightarrow> json" where
  "put_nonempty k v j = (if v \<noteq> [] then json_set k (JStr v) j else j)"

text \<open>\<open>number\<close> is \<open>strtod\<close>, \<open>None\<close> where it reads nothing.\<close>

definition add_front_line :: "(string \<Rightarrow> json option) \<Rightarrow> string \<Rightarrow> json \<Rightarrow> json" where
  "add_front_line number l j =
     (case find_char (CHR '':'') l of
        None \<Rightarrow> j
      | Some p \<Rightarrow>
          let k = trim_copy (take p l); v = yaml_scalar_to_string (drop (p + 1) l)
          in if k = ''cost_usd'' then (case number v of Some n \<Rightarrow> json_set k n j | None \<Rightarrow> j)
             else if k \<in> set view_keys then put_nonempty k v j else j)"

definition report_view :: "(string \<Rightarrow> json option) \<Rightarrow> string \<Rightarrow> json option" where
  "report_view number txt =
     (case getlines txt [] of
        [] \<Rightarrow> None
      | l # ls \<Rightarrow>
          if trim_copy l \<noteq> ''---'' then None
          else Some (fold (add_front_line number) (takeWhile (\<lambda>l. trim_copy l \<noteq> ''---'') ls) (JObj [])))"

definition activity_types :: "string list" where
  "activity_types = [''tool_call'', ''tool_result'', ''session_started'', ''session_completed'', ''session_escalated'',
     ''cost_update'', ''report_written'']"

definition activity_rows :: "(string \<Rightarrow> json option) \<Rightarrow> (json \<Rightarrow> string) \<Rightarrow> string option \<Rightarrow> json" where
  "activity_rows parse dump events =
     (case events of
        None \<Rightarrow> JArr []
      | Some txt \<Rightarrow>
          let es = fst (parse_lines parse dump (filter (\<lambda>l. l \<noteq> []) (getlines txt [])) False);
              rows = map (\<lambda>e. json_set ''type'' (JStr (ev_type e)) (ev_payload e)) (filter (\<lambda>e. ev_type e \<in> set activity_types) es)
          in JArr (drop (length rows - 50) rows))"

record view_io =
  vi_dir :: "string \<Rightarrow> bool"
  vi_list :: "string \<Rightarrow> string list"
  vi_read :: "string \<Rightarrow> string option"
  vi_parse :: "string \<Rightarrow> json option"
  vi_dump :: "json \<Rightarrow> string"
  vi_number :: "string \<Rightarrow> json option"

fun first_view :: "view_io \<Rightarrow> string \<Rightarrow> string list \<Rightarrow> json" where
  "first_view io tdir [] = JNull"
| "first_view io tdir (entry # entries) =
     (let sdir = tdir @ ''/'' @ entry; report = sdir @ ''/recovery.md'' in
      if starts_with ''session-'' entry \<and> vi_dir io sdir then
        (case vi_read io report of
           None \<Rightarrow> first_view io tdir entries
         | Some txt \<Rightarrow>
             (case report_view (vi_number io) txt of
                Some (JObj (kv # kvs)) \<Rightarrow>
                  json_set ''activity'' (activity_rows (vi_parse io) (vi_dump io) (vi_read io (sdir @ ''/events.ndjson'')))
                    (json_set ''report_path'' (JStr (''/api/v1/read-file?path='' @ url_encode_query_value report))
                      (json_set ''session_dir'' (JStr (''troubleshoot/'' @ entry)) (JObj (kv # kvs))))
              | _ \<Rightarrow> first_view io tdir entries))
      else first_view io tdir entries)"

definition troubleshoot_view :: "view_io \<Rightarrow> string \<Rightarrow> json" where
  "troubleshoot_view io root =
     (let tdir = root @ ''/troubleshoot'' in
      if root = [] \<or> \<not> vi_dir io tdir then JNull else first_view io tdir (rev (sort (vi_list io tdir))))"

section \<open>Properties of the guards\<close>

lemma later_segment:
  assumes eq: "seg @ b # rest = pre @ ''..'' @ post" and plain: "\<forall>c \<in> set seg. \<not> path_break c"
    and b: "path_break b" and pre: "pre \<noteq> []" "path_break (last pre)"
  obtains us where "pre = seg @ b # us" "rest = us @ ''..'' @ post"
proof -
  have dot: "\<not> path_break (CHR ''.'')" by (simp add: path_break_def)
  from eq obtain us where "seg = pre @ us \<and> us @ b # rest = ''..'' @ post \<or> seg @ us = pre \<and> b # rest = us @ ''..'' @ post"
    by (auto simp: append_eq_append_conv2)
  then show thesis
  proof
    assume "seg = pre @ us \<and> us @ b # rest = ''..'' @ post"
    then have "last pre \<in> set seg" using pre(1) by simp
    with plain pre(2) show thesis by blast
  next
    assume *: "seg @ us = pre \<and> b # rest = us @ ''..'' @ post"
    show thesis
    proof (cases us)
      case Nil
      with * b dot show thesis by simp
    next
      case (Cons c vs)
      with * show thesis by (intro that [of vs]) auto
    qed
  qed
qed

lemma parent_segment_at:
  "has_parent_segment s \<longleftrightarrow> (\<exists>pre post. s = pre @ ''..'' @ post \<and> (pre = [] \<or> path_break (last pre)) \<and>
    (post = [] \<or> path_break (hd post)))"
proof (induction s rule: has_parent_segment.induct)
  case (1 s)
  define seg where "seg = takeWhile (\<lambda>c. \<not> path_break c) s"
  define tail where "tail = dropWhile (\<lambda>c. \<not> path_break c) s"
  have s: "s = seg @ tail" by (simp add: seg_def tail_def)
  have plain: "\<forall>c \<in> set seg. \<not> path_break c" by (auto simp: seg_def dest: set_takeWhileD)
  have dot: "\<not> path_break (CHR ''.'')" by (simp add: path_break_def)
  have breaks: "tail = [] \<or> path_break (hd tail)"
    using hd_dropWhile [of "\<lambda>c. \<not> path_break c" s] by (auto simp: tail_def)
  define at where "at = (\<lambda>s pre post. s = pre @ ''..'' @ post \<and> (pre = [] \<or> path_break (last pre)) \<and> (post = [] \<or> path_break (hd post)))"
  have first: "seg = ''..'' \<longleftrightarrow> (\<exists>post. at s [] post)"
  proof
    assume "seg = ''..''"
    with s breaks show "\<exists>post. at s [] post" unfolding at_def by auto
  next
    assume "\<exists>post. at s [] post"
    then obtain post where "s = ''..'' @ post" "post = [] \<or> path_break (hd post)" by (auto simp: at_def)
    then show "seg = ''..''" unfolding seg_def using dot by (cases post) auto
  qed
  have goal: "has_parent_segment s \<longleftrightarrow> (\<exists>pre post. at s pre post)"
  proof (cases tail)
    case Nil
    then have plain_s: "\<forall>c \<in> set s. \<not> path_break c" using s plain by simp
    have "pre = []" if "at s pre post" for pre post
      using that plain_s unfolding at_def by (metis Un_iff last_in_set set_append)
    then have "(\<exists>pre post. at s pre post) \<longleftrightarrow> seg = ''..''" using first by metis
    moreover have "has_parent_segment s \<longleftrightarrow> seg = ''..''"
      using Nil by (subst has_parent_segment.simps) (simp only: seg_def tail_def list.case simp_thms)
    ultimately show ?thesis by simp
  next
    case (Cons b rest)
    then have b: "path_break b" using breaks by simp
    have down: "\<exists>pre post. at rest pre post" if "at s pre post" "pre \<noteq> []" for pre post
    proof -
      have eq: "seg @ b # rest = pre @ ''..'' @ post" "path_break (last pre)" "post = [] \<or> path_break (hd post)"
        using that s Cons unfolding at_def by metis+
      from later_segment [OF eq(1) plain b that(2) eq(2)] obtain us where us: "pre = seg @ b # us" "rest = us @ ''..'' @ post" .
      have "us = [] \<or> path_break (last us)" using us(1) eq(2) by (cases us) auto
      with us(2) eq(3) show ?thesis unfolding at_def by blast
    qed
    have up: "\<exists>pre post. at s pre post" if "at rest pre post" for pre post
    proof -
      have "at s (seg @ b # pre) post" using that s Cons b unfolding at_def by auto
      then show ?thesis by blast
    qed
    have "(\<exists>pre post. at s pre post) \<longleftrightarrow> seg = ''..'' \<or> (\<exists>pre post. at rest pre post)" using down up first by metis
    moreover have "has_parent_segment rest \<longleftrightarrow> (\<exists>pre post. at rest pre post)"
      using 1 [of b rest] Cons unfolding at_def tail_def by simp
    moreover have "has_parent_segment s \<longleftrightarrow> seg = ''..'' \<or> has_parent_segment rest"
      using Cons by (subst has_parent_segment.simps) (simp only: seg_def tail_def list.case)
    ultimately show ?thesis by simp
  qed
  then show ?case unfolding at_def .
qed

text \<open>C40: The guard in front of the file requests (view, read and write of a file of the run) refuses a path exactly when
  it holds a NUL byte or a \<open>..\<close> that stands as a whole component, between path separators of either kind or at an end
  of the path: an escape cannot be hidden by a backslash, by its place in the path or by doubled separators, and a
  file name with dots in it is not refused.\<close>

theorem path_guard_exact:
  "path_has_unsafe_components path \<longleftrightarrow>
     CHR 0x00 \<in> set path \<or>
     (\<exists>pre post. path = pre @ ''..'' @ post \<and> (pre = [] \<or> path_break (last pre)) \<and> (post = [] \<or> path_break (hd post)))"
  by (simp add: path_has_unsafe_components_def parent_segment_at)

section \<open>The report on the dashboard\<close>

lemma skip_escapes_quoted: "skip_escapes (concat (map yaml_char v) @ [dquote]) = one_line v"
proof (induction v)
  case (Cons c v)
  obtain d ds where rest: "concat (map yaml_char v) @ [dquote] = d # ds" by (cases "concat (map yaml_char v) @ [dquote]") auto
  show ?case using Cons.IH unfolding rest list.map concat.simps append_assoc
    by (auto simp: yaml_char_def one_line_def rest)
qed (simp add: one_line_def)

lemma trim_copy_kept: "\<not> line_blank c \<Longrightarrow> \<not> line_blank d \<Longrightarrow> trim_copy (CHR '' '' # c # cs @ [d]) = c # cs @ [d]"
  by (simp add: trim_copy_def rtrim_def line_blank_def)

lemma quote_not_blank: "\<not> line_blank dquote"
  by (simp add: line_blank_def)

lemma scalar_string: "yaml_scalar_to_string (CHR '' '' # yaml_string v) = one_line v"
proof -
  have quoted: "yaml_string v = dquote # concat (map yaml_char v) @ [dquote]" by (simp add: yaml_string_def)
  then have "trim_copy (CHR '' '' # yaml_string v) = dquote # concat (map yaml_char v) @ [dquote]"
    using trim_copy_kept quote_not_blank by simp
  then show ?thesis by (simp add: yaml_scalar_to_string_def Let_def skip_escapes_quoted)
qed

lemma scalar_nullable: "yaml_scalar_to_string (CHR '' '' # yaml_nullable v) = one_line v"
proof (cases "v = []")
  case True
  have "yaml_scalar_to_string '' null'' = []" by code_simp
  with True show ?thesis by (simp add: yaml_nullable_def one_line_def)
qed (simp add: yaml_nullable_def scalar_string)

lemma scalar_mode: "yaml_scalar_to_string (CHR '' '' # mode_name m) = one_line (mode_name m)"
  by (cases m) (simp; code_simp)+

lemma scalar_status: "yaml_scalar_to_string (CHR '' '' # status_name s) = one_line (status_name s)"
  by (cases s) (simp; code_simp)+

lemma front_line:
  assumes "CHR '':'' \<notin> set k" "trim_copy k = k"
  shows "add_front_line number (k @ CHR '':'' # v) j =
    (if k = ''cost_usd'' then (case number (yaml_scalar_to_string v) of Some n \<Rightarrow> json_set k n j | None \<Rightarrow> j)
     else if k \<in> set view_keys then put_nonempty k (yaml_scalar_to_string v) j else j)"
proof -
  have "find_char (CHR '':'') (k @ CHR '':'' # v) = Some (length k)" using assms(1) by (induction k) auto
  then show ?thesis using assms(2) by (simp add: add_front_line_def Let_def)
qed

lemma no_separator: "\<not> line_blank c \<Longrightarrow> c \<noteq> CHR ''-'' \<Longrightarrow> trim_copy (c # cs) \<noteq> ''---''"
  by (simp add: trim_copy_def rtrim_def dropWhile_append3)

lemma json_find_put [simp]: "json_find (put_nonempty k v j) k' = (if k' = k \<and> v \<noteq> [] then Some (JStr v) else json_find j k')"
  by (simp add: put_nonempty_def)

text \<open>What the dashboard shows of a report, by the names of its fields.\<close>

definition shown_fields :: "recovery_input \<Rightarrow> (string \<times> string) list" where
  "shown_fields r =
     [(''session_id'', rr_session_id r), (''tier'', mode_name (rr_mode r)), (''outcome'', status_name (rr_outcome r)),
      (''summary'', rr_outcome_summary r), (''failed_node'', rr_failed_node r), (''escalate_reason'', rr_escalate_reason r),
      (''backup_branch'', rr_backup_branch r), (''backup_base'', rr_backup_base r)]"

lemma front_matter_kept: "takeWhile (\<lambda>l. trim_copy l \<noteq> ''---'') (front_matter r @ ''---'' # ls) = front_matter r"
proof -
  have "\<forall>l \<in> set (front_matter r). trim_copy l \<noteq> ''---''"
    by (simp add: front_matter_def line_blank_def no_separator)
  moreover have "trim_copy ''---'' = ''---''" by code_simp
  ultimately show ?thesis by (simp add: takeWhile_append2)
qed

lemmas front_steps = front_line [of "''schema_version''"] front_line [of "''session_id''"] front_line [of "''run_id''"]
  front_line [of "''tier''"] front_line [of "''agent''"] front_line [of "''model''"] front_line [of "''started''"]
  front_line [of "''ended''"] front_line [of "''cost_usd''"] front_line [of "''outcome''"] front_line [of "''summary''"]
  front_line [of "''failed_node''"] front_line [of "''attempts_used''"] front_line [of "''escalate_reason''"]
  front_line [of "''backup_branch''"] front_line [of "''backup_base''"]

lemma keys_trimmed:
  "trim_copy ''schema_version'' = ''schema_version''" "trim_copy ''session_id'' = ''session_id''" "trim_copy ''run_id'' = ''run_id''"
  "trim_copy ''tier'' = ''tier''" "trim_copy ''agent'' = ''agent''" "trim_copy ''model'' = ''model''" "trim_copy ''started'' = ''started''"
  "trim_copy ''ended'' = ''ended''" "trim_copy ''cost_usd'' = ''cost_usd''" "trim_copy ''outcome'' = ''outcome''" "trim_copy ''summary'' = ''summary''"
  "trim_copy ''failed_node'' = ''failed_node''" "trim_copy ''attempts_used'' = ''attempts_used''" "trim_copy ''escalate_reason'' = ''escalate_reason''"
  "trim_copy ''backup_branch'' = ''backup_branch''" "trim_copy ''backup_base'' = ''backup_base''"
  by code_simp+

lemma front_matter_read:
  "fold (add_front_line number) (front_matter r) (JObj []) =
   put_nonempty ''backup_base'' (one_line (rr_backup_base r)) (put_nonempty ''backup_branch'' (one_line (rr_backup_branch r))
    (put_nonempty ''escalate_reason'' (one_line (rr_escalate_reason r)) (put_nonempty ''failed_node'' (one_line (rr_failed_node r))
     (put_nonempty ''summary'' (one_line (rr_outcome_summary r)) (put_nonempty ''outcome'' (one_line (status_name (rr_outcome r)))
      (case number (yaml_scalar_to_string (CHR '' '' # rr_cost r)) of
         Some n \<Rightarrow> json_set ''cost_usd'' n (put_nonempty ''tier'' (one_line (mode_name (rr_mode r)))
           (put_nonempty ''session_id'' (one_line (rr_session_id r)) (JObj [])))
       | None \<Rightarrow> put_nonempty ''tier'' (one_line (mode_name (rr_mode r)))
           (put_nonempty ''session_id'' (one_line (rr_session_id r)) (JObj []))))))))"
  unfolding front_matter_def
  using front_steps keys_trimmed
  by (simp add: view_keys_def scalar_string scalar_nullable scalar_mode scalar_status)

lemma one_line_empty [simp]: "one_line v = [] \<longleftrightarrow> v = []"
  by (simp add: one_line_def)

lemma names_kept:
  "one_line (mode_name m) = mode_name m \<and> mode_name m \<noteq> []" "one_line (status_name s) = status_name s \<and> status_name s \<noteq> []"
  by (cases m; simp add: one_line_def) (cases s; simp add: one_line_def)

lemma nothing_found: "json_find (JObj []) k = None"
  by (simp add: json_find_def)

text \<open>C39: The report and the dashboard agree. Of every report the troubleshooter writes, whatever the agent, the graph or the
  operator put into its fields, the server shows exactly these fields: the session, tier, outcome, summary, failed node,
  reason of an escalation and backup, each with its own text, line ends as blanks and empty ones left out, and the
  cost when \<open>strtod\<close> reads it. Nothing in a field or in the body can change another field or add one.\<close>

theorem report_reaches_dashboard:
  assumes "newline \<notin> set (rr_cost r)"
  shows "\<exists>view. report_view number (report_text r) = Some view \<and>
    (\<forall>k. json_find view k =
      (if k = ''cost_usd'' then number (yaml_scalar_to_string (CHR '' '' # rr_cost r))
       else case map_of (shown_fields r) k of
         Some v \<Rightarrow> if v = [] then None else Some (JStr (one_line v)) | None \<Rightarrow> None))"
proof -
  from report_front_matter [OF assms]
  have lines: "getlines (report_text r) [] = ''---'' # front_matter r @ ''---'' # [] # getlines (report_body r) []" by simp
  have dashes: "trim_copy ''---'' = ''---''" by code_simp
  let ?view = "fold (add_front_line number) (front_matter r) (JObj [])"
  have "report_view number (report_text r) = Some ?view"
    unfolding report_view_def lines by (simp add: dashes front_matter_kept)
  moreover have "json_find ?view k =
      (if k = ''cost_usd'' then number (yaml_scalar_to_string (CHR '' '' # rr_cost r))
       else case map_of (shown_fields r) k of
         Some v \<Rightarrow> if v = [] then None else Some (JStr (one_line v)) | None \<Rightarrow> None)" for k
    unfolding front_matter_read shown_fields_def
    by (simp add: names_kept nothing_found split: option.split)
  ultimately show ?thesis by blast
qed

text \<open>The report whose summary tries to end the front matter and to claim another outcome.\<close>

theorem report_reaches_dashboard_witness:
  "\<exists>view. report_view (\<lambda>_. None) (report_text forged_report) = Some view \<and>
    json_find view ''outcome'' = Some (JStr ''failed_agent'') \<and>
    json_find view ''summary'' = Some (JStr ''x --- outcome: resumed'') \<and> json_find view ''backup_branch'' = None"
proof -
  have "newline \<notin> set (rr_cost forged_report)" by (simp add: forged_report_def)
  from report_reaches_dashboard [OF this, of "\<lambda>_. None"] obtain view
    where "report_view (\<lambda>_. None) (report_text forged_report) = Some view"
      and found: "\<And>k. json_find view k =
        (if k = ''cost_usd'' then None
         else case map_of (shown_fields forged_report) k of
           Some v \<Rightarrow> if v = [] then None else Some (JStr (one_line v)) | None \<Rightarrow> None)"
    by auto
  moreover have "json_find view ''outcome'' = Some (JStr ''failed_agent'')"
    "json_find view ''summary'' = Some (JStr ''x --- outcome: resumed'')" "json_find view ''backup_branch'' = None"
    unfolding found by (simp_all add: shown_fields_def forged_report_def one_line_def)
  ultimately show ?thesis by blast
qed

end
