(* ===== verification/Run_View.thy ===== *)
theory Run_View
  imports Server_View Pipeline_Run Graph_Builder
begin

text \<open>
  The state of a run as the server reports it: \<open>derive_run_view\<close> of \<open>src/server/http_server.cpp\<close>, which folds the
  events of a run in memory, and \<open>reconstruct_run_view_from_disk\<close>, which reads its files after a restart. An exception of
  the JSON library is a value \<open>Inl\<close>. The seconds between two time stamps are a parameter (\<open>strptime\<close> and \<open>timegm\<close>,
  \<open>None\<close> where a stamp cannot be read).
\<close>

section \<open>The events of a live run\<close>

record srv_event =
  se_type :: event_type
  se_time :: string
  se_node :: string
  se_message :: string
  se_data :: json

record live =
  lv_current :: string
  lv_completed :: nat
  lv_statuses :: "(string, string) omap"
  lv_pending :: string
  lv_start :: string
  lv_end :: string
  lv_errors :: "(string, string) omap"
  lv_warnings :: "string list"

definition no_events :: live where
  "no_events = \<lparr>lv_current = [], lv_completed = 0, lv_statuses = [], lv_pending = [], lv_start = [], lv_end = [],
     lv_errors = [], lv_warnings = []\<rparr>"

definition end_running :: "(string, string) omap \<Rightarrow> (string, string) omap" where
  "end_running m = map (\<lambda>(k, v). (k, if v = ''running'' then ''failed'' else v)) m"

definition error_detail :: "srv_event \<Rightarrow> json_error + string" where
  "error_detail e = (case json_find (se_data e) ''error'' of None \<Rightarrow> Inr (se_message e) | Some v \<Rightarrow> json_string v)"

definition asked_interactively :: "srv_event \<Rightarrow> json_error + bool" where
  "asked_interactively e =
     (case json_find (se_data e) ''interactive'' of
        None \<Rightarrow> Inr False | Some (JBool b) \<Rightarrow> Inr b | Some _ \<Rightarrow> Inl Type_Error)"

fun live_status :: "event_type \<Rightarrow> string \<Rightarrow> live \<Rightarrow> live" where
  "live_status STAGE_STARTED n v = v\<lparr>lv_statuses := omap_set n ''running'' (lv_statuses v), lv_current := n\<rparr>"
| "live_status STAGE_COMPLETED n v =
     v\<lparr>lv_statuses := omap_set n ''completed'' (lv_statuses v), lv_completed := lv_completed v + 1,
       lv_current := (if lv_current v = n then [] else lv_current v)\<rparr>"
| "live_status STAGE_FAILED n v =
     v\<lparr>lv_statuses := omap_set n ''failed'' (lv_statuses v), lv_current := (if lv_current v = n then [] else lv_current v)\<rparr>"
| "live_status STAGE_RETRYING n v = v\<lparr>lv_statuses := omap_set n ''running'' (lv_statuses v)\<rparr>"
| "live_status _ n v = v"

definition see_event :: "srv_event \<Rightarrow> live \<Rightarrow> json_error + live" where
  "see_event e v =
     (case se_type e of
        PIPELINE_STARTED \<Rightarrow> Inr (v\<lparr>lv_start := se_time e\<rparr>)
      | PIPELINE_COMPLETED \<Rightarrow> Inr (v\<lparr>lv_end := se_time e\<rparr>)
      | PIPELINE_FAILED \<Rightarrow> Inr (v\<lparr>lv_end := se_time e, lv_statuses := end_running (lv_statuses v), lv_current := []\<rparr>)
      | STAGE_FAILED \<Rightarrow>
          if se_node e = [] then Inr v
          else (let v = live_status STAGE_FAILED (se_node e) v
                in bind_result (error_detail e) (\<lambda>d. Inr (v\<lparr>lv_errors := omap_set (se_node e) d (lv_errors v)\<rparr>)))
      | STAGE_WARNING \<Rightarrow> Inr (v\<lparr>lv_warnings := lv_warnings v @ [se_message e]\<rparr>)
      | VARIABLE_UNRESOLVED \<Rightarrow> Inr (v\<lparr>lv_warnings := lv_warnings v @ [se_message e]\<rparr>)
      | RESUME_WARNING \<Rightarrow> Inr (v\<lparr>lv_warnings := lv_warnings v @ [se_message e]\<rparr>)
      | HUMAN_QUESTION \<Rightarrow>
          bind_result (asked_interactively e) (\<lambda>b. Inr (if b then v else v\<lparr>lv_pending := se_message e\<rparr>))
      | HUMAN_ANSWER \<Rightarrow> Inr (v\<lparr>lv_pending := []\<rparr>)
      | ty \<Rightarrow> Inr (if se_node e = [] then v else live_status ty (se_node e) v))"

fun see_events :: "srv_event list \<Rightarrow> live \<Rightarrow> json_error + live" where
  "see_events [] v = Inr v"
| "see_events (e # es) v = bind_result (see_event e v) (see_events es)"

section \<open>The view of a live run\<close>

record srv_run =
  pr_id :: string
  pr_status :: string
  pr_error :: string
  pr_dot_source :: string
  pr_project_dir :: string
  pr_dot_stem :: string
  pr_dry_run :: bool
  pr_logs_root :: string
  pr_created_at :: string
  pr_cached_total :: nat

definition actionable :: "node list \<Rightarrow> nat" where
  "actionable ns = length (filter (\<lambda>n. ntype n \<noteq> START \<and> ntype n \<noteq> EXIT) ns)"

definition source_stages :: "string \<Rightarrow> nat" where
  "source_stages src = (case parse_dot src of Some (Inr ast) \<Rightarrow> actionable (gnodes (build_graph ast)) | _ \<Rightarrow> 0)"

definition live_total :: "srv_run \<Rightarrow> graph \<Rightarrow> nat" where
  "live_total r server =
     (let n = (if pr_cached_total r = 0 \<and> pr_dot_source r \<noteq> [] then source_stages (pr_dot_source r) else pr_cached_total r)
      in if n = 0 then actionable (gnodes server) else n)"

definition nonnegative :: "int option \<Rightarrow> int" where
  "nonnegative s = (case s of Some d \<Rightarrow> if d < 0 then 0 else d | None \<Rightarrow> 0)"

definition live_elapsed :: "(string \<Rightarrow> string \<Rightarrow> int option) \<Rightarrow> string \<Rightarrow> live \<Rightarrow> int" where
  "live_elapsed seconds clock v =
     (if lv_start v = [] then 0 else nonnegative (seconds (lv_start v) (if lv_end v = [] then clock else lv_end v)))"

definition run_header :: "srv_run \<Rightarrow> json" where
  "run_header r =
     (let j = json_set ''status'' (JStr (pr_status r)) (json_set ''id'' (JStr (pr_id r)) JNull)
      in if pr_error r \<noteq> [] then json_set ''error'' (JStr (pr_error r)) j else j)"

definition with_troubleshoot :: "view_io \<Rightarrow> srv_run \<Rightarrow> json \<Rightarrow> json" where
  "with_troubleshoot io r j =
     (let t = troubleshoot_view io (pr_logs_root r) in if t \<noteq> JNull then json_set ''troubleshoot'' t j else j)"

definition derive_run_view ::
  "view_io \<Rightarrow> (string \<Rightarrow> string \<Rightarrow> int option) \<Rightarrow> string \<Rightarrow> graph \<Rightarrow> srv_run \<Rightarrow> srv_event list \<Rightarrow> json_error + json" where
  "derive_run_view io seconds clock server r es =
     bind_result (see_events es no_events) (\<lambda>v. Inr
       (with_troubleshoot io r
       (json_set ''event_count'' (JInt (int (length es)))
       (json_set ''elapsed_seconds'' (JInt (live_elapsed seconds clock v))
       (json_set ''warnings'' (JArr (map JStr (lv_warnings v)))
       (json_set ''node_errors'' (map_to_json JStr (lv_errors v))
       (json_set ''node_statuses'' (map_to_json JStr (lv_statuses v))
       (json_set ''dry_run'' (JBool (pr_dry_run r))
       (json_set ''dot_stem'' (JStr (pr_dot_stem r))
       (json_set ''project_dir'' (JStr (pr_project_dir r))
       (json_set ''dot_source'' (JStr (pr_dot_source r))
       (json_set ''pending_question'' (JStr (lv_pending v))
       (json_set ''total_stages'' (JInt (int (live_total r server)))
       (json_set ''completed_stages'' (JInt (int (lv_completed v)))
       (json_set ''current_node'' (JStr (lv_current v)) (run_header r))))))))))))))))"

section \<open>The view of a run from its files\<close>

text \<open>The ordered vector of pairs; \<open>set_status\<close> appends what it does not find. The last step copies the ordered object
  into the view, whose objects are \<open>std::map\<close>s.\<close>

fun set_status :: "string \<Rightarrow> string \<Rightarrow> (string \<times> string) list \<Rightarrow> (string \<times> string) list" where
  "set_status n s [] = [(n, s)]"
| "set_status n s (kv # m) = (if fst kv = n then (n, s) # m else kv # set_status n s m)"

definition read_json :: "view_io \<Rightarrow> string \<Rightarrow> json option" where
  "read_json io path = (case vi_read io path of None \<Rightarrow> None | Some txt \<Rightarrow> vi_parse io txt)"

definition checkpoint_part :: "json option \<Rightarrow> (string \<times> string) list \<times> nat \<times> string" where
  "checkpoint_part doc =
     (case doc of
        None \<Rightarrow> ([], 0, [])
      | Some j \<Rightarrow>
          let nodes = (case json_find j ''completed_nodes'' of Some (JArr js) \<Rightarrow> string_items js | _ \<Rightarrow> [])
          in (fold (\<lambda>n. set_status n ''completed'') nodes [], length nodes, safe_str j ''current_node''))"

definition entry_status :: "view_io \<Rightarrow> string \<Rightarrow> json option" where
  "entry_status io path = (case read_json io path of None \<Rightarrow> None | Some j \<Rightarrow> json_find j ''status'')"

definition put_entry :: "string \<Rightarrow> string \<Rightarrow> (string \<times> string) list \<Rightarrow> (string \<times> string) list" where
  "put_entry entry st m =
     (if st = ''FAILURE'' then set_status entry ''failed'' m
      else if (st = ''SUCCESS'' \<or> st = ''PARTIAL_SUCCESS'') \<and> map_of m entry = None then set_status entry ''completed'' m
      else m)"

definition stage_step ::
  "view_io \<Rightarrow> string \<Rightarrow> string \<Rightarrow> (string \<times> string) list \<Rightarrow> json_error + (string \<times> string) list" where
  "stage_step io sdir entry m =
     (case entry_status io (sdir @ ''/'' @ entry @ ''/status.json'') of
        None \<Rightarrow> Inr m
      | Some s \<Rightarrow> bind_result (json_string s) (\<lambda>st. Inr (put_entry entry st m)))"

primrec stage_part :: "view_io \<Rightarrow> string \<Rightarrow> string list \<Rightarrow> (string \<times> string) list \<Rightarrow> json_error + (string \<times> string) list" where
  "stage_part io sdir [] m = Inr m"
| "stage_part io sdir (entry # entries) m = bind_result (stage_step io sdir entry m) (stage_part io sdir entries)"

definition mark_current :: "string \<Rightarrow> string \<Rightarrow> (string \<times> string) list \<Rightarrow> (string \<times> string) list" where
  "mark_current rs cn m =
     (if cn \<noteq> [] \<and> (rs = ''failed'' \<or> rs = ''cancelled'') \<and> (map_of m cn = None \<or> map_of m cn = Some ''running'')
      then set_status cn ''failed'' m else m)"

definition manifest_elapsed :: "(string \<Rightarrow> string \<Rightarrow> int option) \<Rightarrow> json option \<Rightarrow> json_error + int" where
  "manifest_elapsed seconds doc =
     (case doc of
        None \<Rightarrow> Inr 0
      | Some j \<Rightarrow>
          bind_result (json_value_string j ''start_time'') (\<lambda>st.
          bind_result (json_value_string j ''end_time'') (\<lambda>et.
            Inr (if st \<noteq> [] \<and> et \<noteq> [] then nonnegative (seconds st et) else 0))))"

definition checkpoint_elapsed :: "(string \<Rightarrow> string \<Rightarrow> int option) \<Rightarrow> string \<Rightarrow> json option \<Rightarrow> json_error + int" where
  "checkpoint_elapsed seconds created doc =
     (case (case doc of None \<Rightarrow> None | Some j \<Rightarrow> json_find j ''timestamp'') of
        None \<Rightarrow> Inr 0
      | Some t \<Rightarrow> bind_result (json_string t) (\<lambda>ts. Inr (if ts \<noteq> [] then nonnegative (seconds created ts) else 0)))"

definition disk_statuses :: "view_io \<Rightarrow> srv_run \<Rightarrow> json_error + (string \<times> string) list" where
  "disk_statuses io r =
     (let (m, _, cn) = checkpoint_part (read_json io (pr_logs_root r @ ''/checkpoint.json''));
          sdir = pr_logs_root r @ ''/stages''
      in bind_result (if vi_dir io sdir then stage_part io sdir (vi_list io sdir) m else Inr m) (\<lambda>m.
           Inr (mark_current (pr_status r) cn m)))"

definition disk_elapsed :: "view_io \<Rightarrow> (string \<Rightarrow> string \<Rightarrow> int option) \<Rightarrow> srv_run \<Rightarrow> json_error + int" where
  "disk_elapsed io seconds r =
     bind_result (manifest_elapsed seconds (read_json io (pr_logs_root r @ ''/manifest.json''))) (\<lambda>d.
       if d = 0 \<and> pr_created_at r \<noteq> []
       then checkpoint_elapsed seconds (pr_created_at r) (read_json io (pr_logs_root r @ ''/checkpoint.json'')) else Inr d)"

definition reconstruct_run_view ::
  "view_io \<Rightarrow> (string \<Rightarrow> string \<Rightarrow> int option) \<Rightarrow> srv_run \<Rightarrow> json_error + json" where
  "reconstruct_run_view io seconds r =
     bind_result (disk_statuses io r) (\<lambda>m.
     bind_result (disk_elapsed io seconds r) (\<lambda>d. Inr
       (with_troubleshoot io r
       (json_set ''event_count'' (JInt 0)
       (json_set ''elapsed_seconds'' (JInt d)
       (json_set ''warnings'' (JArr [])
       (json_set ''node_errors'' (JObj [])
       (json_set ''node_statuses'' (map_to_json JStr m)
       (json_set ''pending_question'' (JStr [])
       (json_set ''current_node'' (JStr [])
       (json_set ''total_stages'' (JInt (int (if pr_dot_source r = [] then 0 else source_stages (pr_dot_source r))))
       (json_set ''completed_stages'' (JInt (int (fst (snd (checkpoint_part (read_json io (pr_logs_root r @ ''/checkpoint.json'')))))))
       (json_set ''dry_run'' (JBool (pr_dry_run r))
       (json_set ''dot_stem'' (JStr (pr_dot_stem r))
       (json_set ''project_dir'' (JStr (pr_project_dir r))
       (json_set ''dot_source'' (JStr (pr_dot_source r)) (run_header r)))))))))))))))))"

section \<open>The live view tells the last event of every node\<close>

definition about :: "string \<Rightarrow> srv_event \<Rightarrow> bool" where
  "about n e = (se_node e = n \<and> se_type e \<in> {STAGE_STARTED, STAGE_COMPLETED, STAGE_FAILED, STAGE_RETRYING})"

definition told :: "string \<Rightarrow> srv_event list \<Rightarrow> string option" where
  "told n es =
     (case dropWhile (\<lambda>e. \<not> about n e) (rev es) of
        [] \<Rightarrow> None
      | e # _ \<Rightarrow> Some
          (if se_type e = STAGE_COMPLETED then ''completed'' else if se_type e = STAGE_FAILED then ''failed''
           else if PIPELINE_FAILED \<in> se_type ` set (takeWhile (\<lambda>e. \<not> about n e) (rev es)) then ''failed'' else ''running''))"

definition well_formed_event :: "srv_event \<Rightarrow> bool" where
  "well_formed_event e =
     ((case json_find (se_data e) ''error'' of None \<Rightarrow> True | Some v \<Rightarrow> (\<exists>s. v = JStr s)) \<and>
      (case json_find (se_data e) ''interactive'' of None \<Rightarrow> True | Some v \<Rightarrow> (\<exists>b. v = JBool b)))"

definition live_agrees :: "srv_event list \<Rightarrow> live \<Rightarrow> bool" where
  "live_agrees es v =
     ((\<forall>n. n \<noteq> [] \<longrightarrow> map_of (lv_statuses v) n = told n es) \<and> omap_ok (lv_statuses v) \<and>
      (lv_current v \<noteq> [] \<longrightarrow> told (lv_current v) es = Some ''running'') \<and>
      lv_completed v = length (filter (\<lambda>e. se_type e = STAGE_COMPLETED \<and> se_node e \<noteq> []) es))"

lemma see_events_snoc: "see_events (es @ [e]) v = bind_result (see_events es v) (see_event e)"
  by (induction es arbitrary: v) (auto simp: bind_result_def split: sum.split)

lemma end_running_map: "map_of (end_running m) n = map_option (\<lambda>v. if v = ''running'' then ''failed'' else v) (map_of m n)"
  by (simp add: end_running_def map_of_map)

lemma end_running_ok: "omap_ok m \<Longrightarrow> omap_ok (end_running m)"
proof -
  have "map fst (end_running m) = map fst m" by (induction m) (auto simp: end_running_def)
  then show "omap_ok m \<Longrightarrow> omap_ok (end_running m)" by (simp only: omap_ok_def)
qed

lemma told_other: "\<not> about n e \<Longrightarrow> se_type e \<noteq> PIPELINE_FAILED \<Longrightarrow> told n (es @ [e]) = told n es"
  by (simp add: told_def split: list.split)

lemma told_this:
  "about n e \<Longrightarrow> told n (es @ [e]) = Some (if se_type e = STAGE_COMPLETED then ''completed''
     else if se_type e = STAGE_FAILED then ''failed'' else ''running'')"
  by (simp add: told_def)

lemma told_failed:
  "se_type e = PIPELINE_FAILED \<Longrightarrow>
   told n (es @ [e]) = map_option (\<lambda>v. if v = ''running'' then ''failed'' else v) (told n es)"
proof -
  assume failed: "se_type e = PIPELINE_FAILED"
  then have "\<not> about n e" by (simp add: about_def)
  with failed show ?thesis by (simp add: told_def del: dropWhile_eq_Nil_conv split: list.split)
qed

lemma live_agrees_step:
  assumes agrees: "live_agrees es v" and fine: "well_formed_event e"
  shows "\<exists>v'. see_event e v = Inr v' \<and> live_agrees (es @ [e]) v'"
proof (cases "se_type e = PIPELINE_FAILED")
  case True
  with agrees show ?thesis by (simp add: see_event_def live_agrees_def told_failed end_running_map end_running_ok)
next
  case live: False
  show ?thesis
  proof (cases "se_node e \<noteq> [] \<and> se_type e \<in> {STAGE_STARTED, STAGE_COMPLETED, STAGE_FAILED, STAGE_RETRYING}")
    case True
    then have this: "about (se_node e) e" and others: "\<And>n. about n e \<longleftrightarrow> n = se_node e" by (auto simp: about_def)
    have told': "told n (es @ [e]) = (if n = se_node e
        then Some (if se_type e = STAGE_COMPLETED then ''completed'' else if se_type e = STAGE_FAILED then ''failed'' else ''running'')
        else told n es)" for n
      using told_this [of n e es] told_other [of n e es] live others by simp
    obtain d where detail: "error_detail e = Inr d"
      using fine by (auto simp: well_formed_event_def error_detail_def split: option.splits)
    have "se_type e = STAGE_STARTED \<or> se_type e = STAGE_COMPLETED \<or> se_type e = STAGE_FAILED \<or> se_type e = STAGE_RETRYING"
      using True by simp
    then show ?thesis
      by (elim disjE) (use agrees True told' detail in \<open>simp_all add: see_event_def live_agrees_def Let_def\<close>)
  next
    case False
    then have others: "\<And>n. n \<noteq> [] \<Longrightarrow> \<not> about n e" by (auto simp: about_def)
    obtain b where asked: "asked_interactively e = Inr b"
      using fine by (auto simp: well_formed_event_def asked_interactively_def split: option.splits)
    have "live_agrees (es @ [e]) v"
      using agrees False live others told_other [of _ e es] by (auto simp: live_agrees_def)
    then have same: "lv_statuses v' = lv_statuses v \<Longrightarrow> lv_current v' = lv_current v \<Longrightarrow> lv_completed v' = lv_completed v \<Longrightarrow>
        live_agrees (es @ [e]) v'" for v'
      by (simp add: live_agrees_def)
    show ?thesis using False live asked same
      by (cases "se_type e") (auto simp: see_event_def)
  qed
qed

lemma live_agrees_events:
  assumes "\<forall>e \<in> set es. well_formed_event e"
  shows "\<exists>v. see_events es no_events = Inr v \<and> live_agrees es v"
  using assms
proof (induction es rule: rev_induct)
  case Nil
  show ?case by (simp add: live_agrees_def no_events_def told_def)
next
  case (snoc e es)
  then obtain v where "see_events es no_events = Inr v" "live_agrees es v" by auto
  with live_agrees_step [of es v e] snoc.prems show ?case by (auto simp: see_events_snoc)
qed

lemma json_find_map: "omap_ok m \<Longrightarrow> json_find (map_to_json JStr m) k = map_option JStr (map_of m k)"
  by (simp add: map_to_json_def fold_json_set omap_rebuild json_find_def map_of_map)

lemma json_find_troubleshoot [simp]:
  "k \<noteq> ''troubleshoot'' \<Longrightarrow> json_find (with_troubleshoot io r j) k = json_find j k"
  by (simp add: with_troubleshoot_def Let_def)


text \<open>A stage that is retried when the pipeline fails, after one that completed.\<close>

definition stage_event :: "event_type \<Rightarrow> string \<Rightarrow> srv_event" where
  "stage_event ty n = \<lparr>se_type = ty, se_time = [], se_node = n, se_message = [], se_data = JNull\<rparr>"

definition failed_log :: "srv_event list" where
  "failed_log = [stage_event STAGE_STARTED ''a'', stage_event STAGE_COMPLETED ''a'', stage_event STAGE_STARTED ''b'',
     stage_event STAGE_RETRYING ''b'', stage_event PIPELINE_FAILED []]"

definition bare_io :: view_io where
  "bare_io = \<lparr>vi_dir = (\<lambda>_. False), vi_list = (\<lambda>_. []), vi_read = (\<lambda>_. None), vi_parse = (\<lambda>_. None), vi_dump = (\<lambda>_. []),
     vi_number = (\<lambda>_. None)\<rparr>"

definition bare_run :: srv_run where
  "bare_run = \<lparr>pr_id = ''r'', pr_status = ''running'', pr_error = [], pr_dot_source = ''x'', pr_project_dir = [], pr_dot_stem = [],
     pr_dry_run = False, pr_logs_root = [], pr_created_at = [], pr_cached_total = 1\<rparr>"

definition bare_graph :: graph where
  "bare_graph = \<lparr>gname = [], gnodes = [], gedges = [], gattrs = []\<rparr>"


text \<open>Fact: the two counts of a view do not fit together. The total leaves out the start and the exit node, the number of
  completed stages counts every completion, these two and repetitions included.\<close>

lemma progress_beyond_total:
  "\<exists>j. derive_run_view bare_io (\<lambda>_ _. None) [] bare_graph bare_run (map (stage_event STAGE_COMPLETED) [''start'', ''a'', ''exit'']) = Inr j \<and>
    json_find j ''completed_stages'' = Some (JInt 3) \<and> json_find j ''total_stages'' = Some (JInt 1)"
  by (simp add: derive_run_view_def see_event_def stage_event_def no_events_def live_total_def bare_run_def Let_def)

section \<open>The view after a restart tells the checkpoint and the stage files\<close>

lemma map_of_set_status [simp]: "map_of (set_status n s m) = (map_of m)(n \<mapsto> s)"
  by (induction m) auto

lemma set_status_keys: "fst ` set (set_status n s m) = insert n (fst ` set m)"
  by (induction m) auto

lemma set_status_distinct [simp]: "distinct (map fst m) \<Longrightarrow> distinct (map fst (set_status n s m))"
  by (induction m) (auto simp: set_status_keys)

lemma fold_completed:
  "map_of (fold (\<lambda>n. set_status n ''completed'') ns m) n = (if n \<in> set ns then Some ''completed'' else map_of m n)"
  "distinct (map fst m) \<Longrightarrow> distinct (map fst (fold (\<lambda>n. set_status n ''completed'') ns m))"
  by (induction ns arbitrary: m) auto

lemma json_find_pairs:
  assumes "distinct (map fst m)"
  shows "json_find (map_to_json JStr m) k = map_option JStr (map_of m k)"
proof -
  have "map_of (fold (\<lambda>kv. omap_set (fst kv) (JStr (snd kv))) m o1) k =
      (case map_of m k of Some v \<Rightarrow> Some (JStr v) | None \<Rightarrow> map_of o1 k)" for o1
    using assms
  proof (induction m arbitrary: o1)
    case (Cons kv m)
    then have "map_of m (fst kv) = None" by (simp add: map_of_eq_None_iff)
    with Cons show ?case by (cases kv) (auto split: option.splits)
  qed simp
  then show ?thesis by (simp add: map_to_json_def fold_json_set json_find_def split: option.split)
qed

definition stage_file :: "view_io \<Rightarrow> string \<Rightarrow> string \<Rightarrow> json option" where
  "stage_file io sdir n = entry_status io (sdir @ ''/'' @ n @ ''/status.json'')"

definition stage_view :: "json option \<Rightarrow> string option \<Rightarrow> string option" where
  "stage_view s old =
     (if s = Some (JStr ''FAILURE'') then Some ''failed''
      else if (s = Some (JStr ''SUCCESS'') \<or> s = Some (JStr ''PARTIAL_SUCCESS'')) \<and> old = None then Some ''completed'' else old)"

lemma stage_step_ok:
  assumes "stage_file io sdir entry = None \<or> (\<exists>st. stage_file io sdir entry = Some (JStr st))"
  shows "\<exists>m'. stage_step io sdir entry m = Inr m' \<and>
    map_of m' = (map_of m)(entry := stage_view (stage_file io sdir entry) (map_of m entry)) \<and>
    (distinct (map fst m) \<longrightarrow> distinct (map fst m'))"
  using assms by (auto simp: stage_step_def stage_file_def stage_view_def put_entry_def fun_eq_iff)

lemma stage_part_ok:
  assumes "\<forall>n \<in> set entries. stage_file io sdir n = None \<or> (\<exists>st. stage_file io sdir n = Some (JStr st))"
    and "distinct entries" "distinct (map fst m)"
  shows "\<exists>m'. stage_part io sdir entries m = Inr m' \<and> distinct (map fst m') \<and>
    (\<forall>n. map_of m' n = (if n \<in> set entries then stage_view (stage_file io sdir n) (map_of m n) else map_of m n))"
  using assms
proof (induction entries arbitrary: m)
  case (Cons e es)
  from stage_step_ok [of io sdir e m] Cons.prems obtain m1 where m1: "stage_step io sdir e m = Inr m1"
      "map_of m1 = (map_of m)(e := stage_view (stage_file io sdir e) (map_of m e))" "distinct (map fst m1)"
    by auto
  from Cons.IH [of m1] Cons.prems m1(3) obtain m' where m': "stage_part io sdir es m1 = Inr m'" "distinct (map fst m')"
      "\<forall>n. map_of m' n = (if n \<in> set es then stage_view (stage_file io sdir n) (map_of m1 n) else map_of m1 n)"
    by auto
  with m1 Cons.prems(2) show ?case by (intro exI [of _ m']) auto
qed simp

definition disk_told :: "view_io \<Rightarrow> srv_run \<Rightarrow> checkpoint \<Rightarrow> string \<Rightarrow> string option" where
  "disk_told io r cp n =
     (let sdir = pr_logs_root r @ ''/stages'';
          s = (if n \<in> set (vi_list io sdir) then stage_file io sdir n else None)
      in if s = Some (JStr ''FAILURE'') then Some ''failed''
         else if n \<in> set (completed_nodes cp) \<or> s = Some (JStr ''SUCCESS'') \<or> s = Some (JStr ''PARTIAL_SUCCESS'') then Some ''completed''
         else if n = current_node cp \<and> n \<noteq> [] \<and> (pr_status r = ''failed'' \<or> pr_status r = ''cancelled'') then Some ''failed''
         else None)"

lemma checkpoint_part_of:
  "checkpoint_part (Some (checkpoint_to_json cp)) =
     (fold (\<lambda>n. set_status n ''completed'') (completed_nodes cp) [], length (completed_nodes cp), current_node cp)"
  by (simp add: checkpoint_part_def checkpoint_to_json_def safe_str_def Let_def)

lemma map_of_mark_current:
  "map_of (mark_current rs cn m) n =
     (if n = cn \<and> cn \<noteq> [] \<and> (rs = ''failed'' \<or> rs = ''cancelled'') \<and> (map_of m cn = None \<or> map_of m cn = Some ''running'')
      then Some ''failed'' else map_of m n)"
  by (auto simp: mark_current_def)

lemma mark_current_distinct: "distinct (map fst m) \<Longrightarrow> distinct (map fst (mark_current rs cn m))"
  by (simp add: mark_current_def)

lemma disk_statuses_of:
  assumes cp: "read_json io (pr_logs_root r @ ''/checkpoint.json'') = Some (checkpoint_to_json cp)"
    and dir: "vi_dir io (pr_logs_root r @ ''/stages'')" "distinct (vi_list io (pr_logs_root r @ ''/stages''))"
    and stages: "\<forall>n \<in> set (vi_list io (pr_logs_root r @ ''/stages'')).
      stage_file io (pr_logs_root r @ ''/stages'') n = None \<or> (\<exists>st. stage_file io (pr_logs_root r @ ''/stages'') n = Some (JStr st))"
  shows "\<exists>m. disk_statuses io r = Inr m \<and> distinct (map fst m) \<and> (\<forall>n. map_of m n = disk_told io r cp n)"
proof -
  let ?sdir = "pr_logs_root r @ ''/stages''" and ?booked = "fold (\<lambda>n. set_status n ''completed'') (completed_nodes cp) []"
  have booked: "map_of ?booked n = (if n \<in> set (completed_nodes cp) then Some ''completed'' else None)" "distinct (map fst ?booked)" for n
    by (simp_all add: fold_completed)
  from stage_part_ok [OF stages dir(2) booked(2)] obtain m where m: "stage_part io ?sdir (vi_list io ?sdir) ?booked = Inr m"
      "distinct (map fst m)" and found: "\<forall>n. map_of m n = (if n \<in> set (vi_list io ?sdir)
        then stage_view (stage_file io ?sdir n) (map_of ?booked n) else map_of ?booked n)"
    by blast
  have "disk_statuses io r = Inr (mark_current (pr_status r) (current_node cp) m)"
    by (simp add: disk_statuses_def cp checkpoint_part_of dir(1) m(1))
  moreover have "map_of (mark_current (pr_status r) (current_node cp) m) n = disk_told io r cp n" for n
    using found by (auto simp: map_of_mark_current disk_told_def Let_def stage_view_def booked)
  ultimately show ?thesis using mark_current_distinct [OF m(2)] by blast
qed

text \<open>C38: A run that is looked at after a restart of the server is described by what it left on disk: exactly the stages whose
  \<open>status.json\<close> says \<open>FAILURE\<close> are failed, the nodes the saved checkpoint lists as completed and the stages with a
  successful status file are completed, the current node of a failed or cancelled run is failed if nothing is known of
  it, and no other node is listed; the number of completed stages is the length of the checkpoint's list. Nothing is
  taken from memory, so the view is the same for every restart.\<close>

theorem disk_view_reads_checkpoint:
  assumes "read_json io (pr_logs_root r @ ''/checkpoint.json'') = Some (checkpoint_to_json cp)"
    and "vi_dir io (pr_logs_root r @ ''/stages'')" "distinct (vi_list io (pr_logs_root r @ ''/stages''))"
    and "\<forall>n \<in> set (vi_list io (pr_logs_root r @ ''/stages'')).
      stage_file io (pr_logs_root r @ ''/stages'') n = None \<or> (\<exists>st. stage_file io (pr_logs_root r @ ''/stages'') n = Some (JStr st))"
    and "disk_elapsed io seconds r = Inr d"
  shows "\<exists>j sts. reconstruct_run_view io seconds r = Inr j \<and> json_find j ''node_statuses'' = Some sts \<and>
    (\<forall>n. json_find sts n = map_option JStr (disk_told io r cp n)) \<and>
    json_find j ''completed_stages'' = Some (JInt (int (length (completed_nodes cp))))"
proof -
  from disk_statuses_of [OF assms(1-4)] obtain m where m: "disk_statuses io r = Inr m" "distinct (map fst m)"
      "\<forall>n. map_of m n = disk_told io r cp n" by blast
  obtain j where j: "reconstruct_run_view io seconds r = Inr j" "json_find j ''node_statuses'' = Some (map_to_json JStr m)"
      "json_find j ''completed_stages'' = Some (JInt (int (length (completed_nodes cp))))"
    by (simp add: reconstruct_run_view_def m(1) assms(1,5) checkpoint_part_of)
  have "\<forall>n. json_find (map_to_json JStr m) n = map_option JStr (disk_told io r cp n)"
    using m(3) by (simp add: json_find_pairs [OF m(2)])
  with j show ?thesis by blast
qed

text \<open>A failed run with one completed node, a failed stage and a current node nothing is known of.\<close>

definition restart_checkpoint :: checkpoint where
  "restart_checkpoint = empty_checkpoint\<lparr>completed_nodes := [''a''], current_node := ''c''\<rparr>"

definition restart_io :: view_io where
  "restart_io = bare_io\<lparr>vi_dir := (\<lambda>p. p = ''/stages''), vi_list := (\<lambda>_. [''a'', ''b'']), vi_read := Some,
     vi_parse := (\<lambda>p. if p = ''/checkpoint.json'' then Some (checkpoint_to_json restart_checkpoint)
       else if p = ''/stages/b/status.json'' then Some (JObj [(''status'', JStr ''FAILURE'')]) else None)\<rparr>"

definition restart_run :: srv_run where
  "restart_run = bare_run\<lparr>pr_status := ''failed''\<rparr>"

theorem disk_view_reads_checkpoint_witness:
  "\<exists>j sts. reconstruct_run_view restart_io (\<lambda>_ _. None) restart_run = Inr j \<and> json_find j ''node_statuses'' = Some sts \<and>
    json_find sts ''a'' = Some (JStr ''completed'') \<and> json_find sts ''b'' = Some (JStr ''failed'') \<and>
    json_find sts ''c'' = Some (JStr ''failed'') \<and> json_find sts ''d'' = None"
proof -
  have root: "pr_logs_root restart_run = []" by (simp add: restart_run_def bare_run_def)
  have files: "read_json restart_io (pr_logs_root restart_run @ ''/checkpoint.json'') = Some (checkpoint_to_json restart_checkpoint)"
    "vi_dir restart_io (pr_logs_root restart_run @ ''/stages'')" "distinct (vi_list restart_io (pr_logs_root restart_run @ ''/stages''))"
    by (simp_all add: root read_json_def restart_io_def)
  have stages: "stage_file restart_io (pr_logs_root restart_run @ ''/stages'') ''a'' = None"
    "stage_file restart_io (pr_logs_root restart_run @ ''/stages'') ''b'' = Some (JStr ''FAILURE'')"
    by (simp_all add: stage_file_def entry_status_def root read_json_def restart_io_def json_find_def)
  have listed: "vi_list restart_io p = [''a'', ''b'']" for p by (simp add: restart_io_def)
  have "\<forall>n \<in> set (vi_list restart_io (pr_logs_root restart_run @ ''/stages'')).
      stage_file restart_io (pr_logs_root restart_run @ ''/stages'') n = None \<or>
      (\<exists>st. stage_file restart_io (pr_logs_root restart_run @ ''/stages'') n = Some (JStr st))"
    using stages by (simp add: listed)
  moreover have "disk_elapsed restart_io (\<lambda>_ _. None) restart_run = Inr 0"
    by (simp add: disk_elapsed_def manifest_elapsed_def read_json_def restart_io_def restart_run_def bare_run_def)
  ultimately obtain j sts where j: "reconstruct_run_view restart_io (\<lambda>_ _. None) restart_run = Inr j"
      "json_find j ''node_statuses'' = Some sts"
      and told: "\<forall>n. json_find sts n = map_option JStr (disk_told restart_io restart_run restart_checkpoint n)"
    using disk_view_reads_checkpoint [OF files] by blast
  have "disk_told restart_io restart_run restart_checkpoint ''a'' = Some ''completed''"
    "disk_told restart_io restart_run restart_checkpoint ''b'' = Some ''failed''"
    "disk_told restart_io restart_run restart_checkpoint ''c'' = Some ''failed''"
    "disk_told restart_io restart_run restart_checkpoint ''d'' = None"
    using stages by (simp_all add: disk_told_def listed Let_def restart_checkpoint_def restart_run_def empty_checkpoint_def)
  with told j show ?thesis by auto
qed

text \<open>Fact: the order the view collects the nodes in does not reach its reader. The statuses are kept in an ordered vector so
  that they come out as the nodes ran, but the last copy sorts them by name: two checkpoints that list the same nodes
  in different orders give the same object.\<close>

lemma order_of_execution_lost:
  "map_to_json JStr (fst (checkpoint_part (Some (JObj [(''completed_nodes'', JArr [JStr ''b'', JStr ''a''])])))) =
   JObj [(''a'', JStr ''completed''), (''b'', JStr ''completed'')]"
  by (simp add: checkpoint_part_def json_find_def Let_def map_to_json_def json_set_def)

end
