(* ===== verification/Dot_Print.thy ===== *)
theory Dot_Print
  imports Dot_Parser
begin

text \<open>
  A concrete syntax for every syntax tree, and the proof that \<open>DotParser\<close> reads it back: the
  specification the lexer and the parser are checked against together. Every name and value is
  printed as a quoted string escaped by \<open>dot_escape\<close>.
\<close>

section \<open>Printing\<close>

definition print_str :: "string \<Rightarrow> string" where
  "print_str v = dquote # dot_escape v @ [dquote]"

definition print_attr :: "ast_attr \<Rightarrow> string" where
  "print_attr a = print_str (fst a) @ ''='' @ print_str (snd a) @ '',''"

lemma print_attr_pair: "print_attr (k, v) = print_str k @ CHR ''='' # print_str v @ '',''"
  by (simp add: print_attr_def)

definition print_attrs :: "ast_attr list \<Rightarrow> string" where
  "print_attrs as = ''['' @ concat (map print_attr as) @ '']''"

definition print_node :: "ast_node \<Rightarrow> string" where
  "print_node n = print_str (an_id n) @ print_attrs (an_attrs n)"

definition print_edge :: "ast_edge \<Rightarrow> string" where
  "print_edge e = print_str (hd (node_chain e))
     @ concat (map (\<lambda>i. ''->'' @ print_str i) (tl (node_chain e))) @ print_attrs (ae_attrs e)"

definition print_default :: "ast_default \<Rightarrow> string" where
  "print_default d = target d @ print_attrs (ad_attrs d)"

definition braced :: "string list \<Rightarrow> string" where
  "braced ss = ''{'' @ concat (map (\<lambda>s. s @ '';'') ss) @ ''}''"

fun print_subgraph :: "ast_subgraph \<Rightarrow> string" where
  "print_subgraph (AstSubgraph i ns es ds subs) =
     ''subgraph '' @ print_str i
     @ braced (map print_default ds @ map print_node ns @ map print_edge es @ map print_subgraph subs)"

definition print_stmts :: "stmts \<Rightarrow> string list" where
  "print_stmts b = map print_default (defaults b) @ map print_node (nodes b) @ map print_edge (edges b)
     @ map print_subgraph (subgraphs b)"

definition print_graph :: "ast_graph \<Rightarrow> string" where
  "print_graph g = (if strict g then ''strict '' else []) @ ''digraph '' @ print_str (ag_id g)
     @ braced (print_stmts (body g))"

section \<open>Printable trees\<close>

text \<open>Strings within the lexer's limit, chains of at least one edge, the three default targets.\<close>

definition str_ok :: "string \<Rightarrow> bool" where
  "str_ok v = (length v \<le> MAX_STRING_LENGTH)"

definition attrs_printable :: "ast_attr list \<Rightarrow> bool" where
  "attrs_printable as = (\<forall>a \<in> set as. str_ok (fst a) \<and> str_ok (snd a))"

definition node_printable :: "ast_node \<Rightarrow> bool" where
  "node_printable n = (str_ok (an_id n) \<and> attrs_printable (an_attrs n))"

definition edge_printable :: "ast_edge \<Rightarrow> bool" where
  "edge_printable e =
     (2 \<le> length (node_chain e) \<and> (\<forall>i \<in> set (node_chain e). str_ok i) \<and> attrs_printable (ae_attrs e))"

definition default_printable :: "ast_default \<Rightarrow> bool" where
  "default_printable d = (target d \<in> {''node'', ''edge'', ''graph''} \<and> attrs_printable (ad_attrs d))"

fun subgraph_printable :: "ast_subgraph \<Rightarrow> bool" where
  "subgraph_printable (AstSubgraph i ns es ds subs) =
     (str_ok i \<and> (\<forall>n \<in> set ns. node_printable n) \<and> (\<forall>e \<in> set es. edge_printable e) \<and>
      (\<forall>d \<in> set ds. default_printable d) \<and> (\<forall>s \<in> set subs. subgraph_printable s))"

definition stmts_printable :: "stmts \<Rightarrow> bool" where
  "stmts_printable b =
     ((\<forall>n \<in> set (nodes b). node_printable n) \<and> (\<forall>e \<in> set (edges b). edge_printable e) \<and>
      (\<forall>d \<in> set (defaults b). default_printable d) \<and> (\<forall>s \<in> set (subgraphs b). subgraph_printable s))"

definition graph_printable :: "ast_graph \<Rightarrow> bool" where
  "graph_printable g = (str_ok (ag_id g) \<and> stmts_printable (body g))"

section \<open>Where the parser stands in the source\<close>

definition at :: "string \<Rightarrow> pstate \<Rightarrow> bool" where
  "at s st = (peeked st = None \<and> (\<exists>p. next_token (s, p) = (cur st, plex st)))"

lemma at_cur: "at s st \<Longrightarrow> lexes s t v s' \<Longrightarrow> cur_type st = t \<and> tok_value (cur st) = v"
  unfolding at_def by (metis lexesD)

lemma advance_at: "at s st \<Longrightarrow> lexes s t v s' \<Longrightarrow> at s' (advance st)"
proof -
  assume st: "at s st" and l: "lexes s t v s'"
  obtain p where p: "next_token (s, p) = (cur st, plex st)" using st by (auto simp: at_def)
  with lexesD [OF l p] obtain q where q: "plex st = (s', q)" by (cases "plex st") auto
  obtain t2 lx where "next_token (s', q) = (t2, lx)" by (rule prod.exhaust)
  with q st show ?thesis by (auto simp: at_def advance_def lexer_next_def)
qed

lemma at_init: "at s (init_parser s)"
  by (auto simp: at_def init_parser_def split: prod.splits)

lemma space_is_space [simp]: "is_space (CHR '' '')"
  by code_simp

lemma at_skip: "at (CHR '' '' # s) st \<Longrightarrow> at s st"
proof -
  have "next_token (CHR '' '' # s, p) = next_token (s, step_pos (CHR '' '') p)" for p
    by (simp add: next_token_def skip_blanks.simps(2))
  then show "at (CHR '' '' # s) st \<Longrightarrow> at s st" by (auto simp: at_def)
qed

lemma expect_at: "at s st \<Longrightarrow> lexes s t v s' \<Longrightarrow> \<exists>st'. expect t st = Inr st' \<and> at s' st'"
  using at_cur [of s st t v s'] advance_at [of s st t v s'] by (simp add: expect_def)

lemma peek_at:
  assumes "at s st" "lexes s t v s'" "lexes s' t2 v2 s''"
  shows "\<exists>tok st'. lexer_peek st = (tok, st') \<and> tok_type tok = t2 \<and> cur st' = cur st \<and> at s' (advance st')"
proof -
  obtain p where p: "next_token (s, p) = (cur st, plex st)" using assms(1) by (auto simp: at_def)
  with lexesD [OF assms(2) p] obtain q where q: "plex st = (s', q)" by (cases "plex st") auto
  obtain tok lx where n: "next_token (s', q) = (tok, lx)" by (rule prod.exhaust)
  with lexesD [OF assms(3) n] q assms(1) show ?thesis
    by (auto simp: at_def lexer_peek_def advance_def lexer_next_def)
qed

lemma lexes_str [simp]: "str_ok v \<Longrightarrow> lexes (print_str v @ s) QUOTED_STRING v s"
  using lexes_quoted [of v s] by (simp add: print_str_def str_ok_def)

lemma lexes_symbols [simp]:
  "lexes (CHR ''{'' # s) LBRACE ''{'' s" "lexes (CHR ''}'' # s) RBRACE ''}'' s"
  "lexes (CHR ''['' # s) LBRACKET ''['' s" "lexes (CHR '']'' # s) RBRACKET '']'' s"
  "lexes (CHR '';'' # s) SEMICOLON '';'' s" "lexes (CHR '','' # s) COMMA '','' s"
  "lexes (CHR ''='' # s) EQUALS ''='' s" "lexes (CHR ''-'' # CHR ''>'' # s) ARROW ''->'' s"
  by (rule lexes_symbol; simp)+ (rule lexes_arrow)

lemma lexes_keyword:
  assumes "kw \<in> {''digraph'', ''subgraph'', ''strict'', ''node'', ''edge'', ''graph''}"
    and "s = [] \<or> \<not> is_ident_char (hd s)"
  shows "lexes (kw @ s) (keyword_type kw) kw s"
proof -
  have "list_all (\<lambda>kw. kw \<noteq> [] \<and> is_alpha (hd kw) \<and> list_all is_ident_char (tl kw))
      [''digraph'', ''subgraph'', ''strict'', ''node'', ''edge'', ''graph'']"
    by code_simp
  then have "kw \<noteq> [] \<and> is_alpha (hd kw) \<and> (\<forall>c \<in> set (tl kw). is_ident_char c)"
    using assms(1) unfolding list_all_iff by auto
  moreover have "length kw \<le> 8" using assms(1) by auto
  ultimately obtain c w where "kw = c # w" "is_alpha c" "\<forall>c \<in> set w. is_ident_char c" "length w < 8"
    by (cases kw) auto
  with assms(2) show ?thesis
    using lexes_word [of c w s] by (simp add: MAX_IDENTIFIER_LENGTH_def)
qed

lemma ident_stops [simp]: "\<not> is_ident_char (CHR ''['')" "\<not> is_ident_char (CHR '' '')"
  by code_simp+

lemma keyword_types: "keyword_type ''digraph'' = DIGRAPH" "keyword_type ''subgraph'' = SUBGRAPH"
  "keyword_type ''strict'' = STRICT" "keyword_type ''node'' = NODE" "keyword_type ''edge'' = EDGE"
  "keyword_type ''graph'' = GRAPH"
  by code_simp+

section \<open>Each parser reads what is printed\<close>

lemma parse_attrs_print:
  "attrs_printable as \<Longrightarrow> at (concat (map print_attr as) @ '']'' @ s) st \<Longrightarrow>
   \<exists>st'. parse_attrs acc st = Inr (acc @ as, st') \<and> at s st'"
proof (induction "as" arbitrary: acc st)
  case Nil
  then have "at (CHR '']'' # s) st" by simp
  from at_cur [OF this lexes_symbols(4)] expect_at [OF this lexes_symbols(4)] show ?case
    by (subst parse_attrs.simps) auto
next
  case (Cons a as)
  obtain k v where a: "a = (k, v)" by (rule prod.exhaust)
  let ?rest = "concat (map print_attr as) @ '']'' @ s"
  have ok: "str_ok k" "str_ok v" "attrs_printable as" using Cons.prems(1) by (auto simp: attrs_printable_def a)
  have st: "at (print_str k @ CHR ''='' # print_str v @ CHR '','' # ?rest) st"
    using Cons.prems(2) by (simp add: a print_attr_pair)
  note k = at_cur [OF st lexes_str [OF ok(1)]] and st1 = advance_at [OF st lexes_str [OF ok(1)]]
  obtain st2 where st2: "expect EQUALS (advance st) = Inr st2" "at (print_str v @ CHR '','' # ?rest) st2"
    using expect_at [OF st1 lexes_symbols(7)] by blast
  note v = at_cur [OF st2(2) lexes_str [OF ok(2)]] and st3 = advance_at [OF st2(2) lexes_str [OF ok(2)]]
  note comma = at_cur [OF st3 lexes_symbols(6)] and st4 = advance_at [OF st3 lexes_symbols(6)]
  from Cons.IH [OF ok(3) st4, of "acc @ [(k, v)]"] k st2(1) v comma show ?case
    by (subst parse_attrs.simps) (simp add: Let_def a)
qed

lemma parse_attr_list_print:
  assumes "attrs_printable as" and "at (print_attrs as @ s) st"
  shows "\<exists>st'. parse_attr_list st = Inr (as, st') \<and> at s st'"
proof -
  have "at (CHR ''['' # concat (map print_attr as) @ '']'' @ s) st"
    using assms(2) by (simp add: print_attrs_def)
  from expect_at [OF this lexes_symbols(3)] obtain st1
    where "expect LBRACKET st = Inr st1" "at (concat (map print_attr as) @ '']'' @ s) st1" by blast
  with parse_attrs_print [OF assms(1) this(2), of "[]"] show ?thesis by (simp add: parse_attr_list_def)
qed

lemma print_attrs_bracket: "\<exists>u. print_attrs as @ s = CHR ''['' # u"
  by (simp add: print_attrs_def)

lemma at_attrs: "at (print_attrs as @ s) st \<Longrightarrow> cur_type st = LBRACKET"
  by (metis at_cur lexes_symbols(3) print_attrs_bracket)

lemma parse_chain_print:
  "\<forall>i \<in> set is. str_ok i \<Longrightarrow> at (concat (map (\<lambda>i. ''->'' @ print_str i) is) @ print_attrs as @ s) st \<Longrightarrow>
   \<exists>st'. parse_chain acc st = Inr (acc @ is, st') \<and> at (print_attrs as @ s) st'"
proof (induction "is" arbitrary: acc st)
  case Nil
  then show ?case using at_attrs [of "as" s st] by (subst parse_chain.simps) simp
next
  case (Cons i "is")
  let ?rest = "concat (map (\<lambda>i. ''->'' @ print_str i) is) @ print_attrs as @ s"
  have st: "at (CHR ''-'' # CHR ''>'' # print_str i @ ?rest) st" and ok: "str_ok i"
    using Cons.prems by simp_all
  note arrow = at_cur [OF st lexes_symbols(8)] and st1 = advance_at [OF st lexes_symbols(8)]
  note i = at_cur [OF st1 lexes_str [OF ok]] and st2 = advance_at [OF st1 lexes_str [OF ok]]
  from Cons.IH [OF _ st2, of "acc @ [i]"] Cons.prems(1) arrow i show ?case
    by (subst parse_chain.simps) (simp add: Let_def)
qed

section \<open>Statements\<close>

text \<open>
  \<open>reads item add\<close>: standing at a printed statement that a semicolon follows, and given enough fuel,
  \<open>parse_stmt_into\<close> extends the tree by \<open>add\<close> and stops at the semicolon.
\<close>

definition reads :: "string \<Rightarrow> (stmts \<Rightarrow> stmts) \<Rightarrow> bool" where
  "reads item add = (\<forall>n b s st. at (item @ CHR '';'' # s) st \<longrightarrow> 2 * psize st \<le> n \<longrightarrow>
     (cur_type st \<noteq> RBRACE \<and> cur_type st \<noteq> END_OF_FILE) \<and>
     (\<exists>st'. parse_stmt_into n b st = Some (Inr (add b, st')) \<and> at (CHR '';'' # s) st'))"

lemma reads_default:
  assumes "default_printable d"
  shows "reads (print_default d) (\<lambda>b. b\<lparr>defaults := defaults b @ [d]\<rparr>)"
  unfolding reads_def
proof (intro allI impI)
  fix n b s st
  assume "at (print_default d @ CHR '';'' # s) st"
  then have st: "at (target d @ print_attrs (ad_attrs d) @ CHR '';'' # s) st"
    by (simp add: print_default_def)
  let ?attrs = "print_attrs (ad_attrs d) @ CHR '';'' # s"
  obtain u where u: "?attrs = CHR ''['' # u" using print_attrs_bracket by blast
  have tgt: "target d = ''node'' \<or> target d = ''edge'' \<or> target d = ''graph''"
    and ok: "attrs_printable (ad_attrs d)" using assms by (auto simp: default_printable_def)
  have kw: "lexes (target d @ ?attrs) (keyword_type (target d)) (target d) ?attrs"
    using tgt u by (intro lexes_keyword) auto
  note cur = at_cur [OF st kw]
  from peek_at [OF st kw] lexes_symbols(3) [of u] u obtain tok st1 where
    pk: "lexer_peek st = (tok, st1)" "tok_type tok = LBRACKET" "cur st1 = cur st" "at ?attrs (advance st1)"
    by metis
  obtain st2 where st2: "parse_attr_list (advance st1) = Inr (ad_attrs d, st2)" "at (CHR '';'' # s) st2"
    using parse_attr_list_print [OF ok pk(4)] by blast
  have d: "\<lparr>target = target d, ad_attrs = ad_attrs d\<rparr> = d" by simp
  have kws: "cur_type st = NODE \<and> target d = ''node'' \<or> cur_type st = EDGE \<and> target d = ''edge''
      \<or> cur_type st = GRAPH \<and> target d = ''graph''"
    using tgt cur by (auto simp: keyword_types)
  have "parse_stmt_into n b st = Some (Inr (b\<lparr>defaults := defaults b @ [d]\<rparr>, st2))"
    using kws d by (elim disjE) (simp_all add: parse_stmt_into.simps pk parse_default_attrs_def st2)
  with st2 kws show "(cur_type st \<noteq> RBRACE \<and> cur_type st \<noteq> END_OF_FILE) \<and>
     (\<exists>st'. parse_stmt_into n b st = Some (Inr (b\<lparr>defaults := defaults b @ [d]\<rparr>, st')) \<and> at (CHR '';'' # s) st')"
    by auto
qed

lemma reads_node:
  assumes "node_printable nd"
  shows "reads (print_node nd) (\<lambda>b. b\<lparr>nodes := nodes b @ [nd]\<rparr>)"
  unfolding reads_def
proof (intro allI impI)
  fix n b s st
  let ?attrs = "print_attrs (an_attrs nd) @ CHR '';'' # s"
  assume "at (print_node nd @ CHR '';'' # s) st"
  then have st: "at (print_str (an_id nd) @ ?attrs) st" by (simp add: print_node_def)
  have ok: "str_ok (an_id nd)" "attrs_printable (an_attrs nd)" using assms by (auto simp: node_printable_def)
  note cur = at_cur [OF st lexes_str [OF ok(1)]] and st1 = advance_at [OF st lexes_str [OF ok(1)]]
  obtain st2 where st2: "parse_attr_list (advance st) = Inr (an_attrs nd, st2)" "at (CHR '';'' # s) st2"
    using parse_attr_list_print [OF ok(2) st1] by blast
  have nd: "\<lparr>an_id = an_id nd, an_attrs = an_attrs nd\<rparr> = nd" by simp
  have "parse_stmt_into n b st = Some (Inr (b\<lparr>nodes := nodes b @ [nd]\<rparr>, st2))"
    using cur at_attrs [OF st1] nd by (simp add: parse_stmt_into.simps parse_node_stmt_def st2)
  with st2 cur show "(cur_type st \<noteq> RBRACE \<and> cur_type st \<noteq> END_OF_FILE) \<and>
     (\<exists>st'. parse_stmt_into n b st = Some (Inr (b\<lparr>nodes := nodes b @ [nd]\<rparr>, st')) \<and> at (CHR '';'' # s) st')"
    by auto
qed

lemma reads_edge:
  assumes "edge_printable e"
  shows "reads (print_edge e) (\<lambda>b. b\<lparr>edges := edges b @ [e]\<rparr>)"
  unfolding reads_def
proof (intro allI impI)
  fix n b s st
  obtain i j "is" where chain: "node_chain e = i # j # is"
    using assms by (auto simp: edge_printable_def numeral_2_eq_2 Suc_le_length_iff)
  let ?attrs = "print_attrs (ae_attrs e) @ CHR '';'' # s"
  let ?tl = "concat (map (\<lambda>i. ''->'' @ print_str i) (j # is)) @ ?attrs"
  assume "at (print_edge e @ CHR '';'' # s) st"
  then have st: "at (print_str i @ ?tl) st" by (simp add: print_edge_def chain)
  have ok: "str_ok i" "\<forall>k \<in> set (j # is). str_ok k" "attrs_printable (ae_attrs e)"
    using assms by (auto simp: edge_printable_def chain)
  note cur = at_cur [OF st lexes_str [OF ok(1)]] and st1 = advance_at [OF st lexes_str [OF ok(1)]]
  have arrow: "cur_type (advance st) = ARROW"
    using st1 at_cur [OF _ lexes_symbols(8)] by simp
  obtain st2 where st2: "parse_chain [i] (advance st) = Inr (i # j # is, st2)" "at ?attrs st2"
    using parse_chain_print [OF ok(2) st1, of "[i]"] by auto
  obtain st3 where st3: "parse_attr_list st2 = Inr (ae_attrs e, st3)" "at (CHR '';'' # s) st3"
    using parse_attr_list_print [OF ok(3) st2(2)] by blast
  have e: "\<lparr>node_chain = i # j # is, ae_attrs = ae_attrs e\<rparr> = e" using chain by simp
  have "parse_stmt_into n b st = Some (Inr (b\<lparr>edges := edges b @ [e]\<rparr>, st3))"
    using cur arrow e at_attrs [OF st2(2)]
    by (simp add: parse_stmt_into.simps parse_edge_stmt_def st2 st3)
  with st3 cur show "(cur_type st \<noteq> RBRACE \<and> cur_type st \<noteq> END_OF_FILE) \<and>
     (\<exists>st'. parse_stmt_into n b st = Some (Inr (b\<lparr>edges := edges b @ [e]\<rparr>, st')) \<and> at (CHR '';'' # s) st')"
    by auto
qed

lemma parse_list_print:
  "list_all2 reads items adds \<Longrightarrow> at (concat (map (\<lambda>s. s @ '';'') items) @ CHR ''}'' # s) st \<Longrightarrow>
   2 * psize st + 1 \<le> n \<Longrightarrow>
   \<exists>st'. parse_stmt_list_into n b st = Some (Inr (fold id adds b, st')) \<and> at (CHR ''}'' # s) st'"
proof (induction items arbitrary: adds n b st)
  case Nil
  then have "cur_type st = RBRACE" using at_cur [OF _ lexes_symbols(2)] by auto
  with Nil show ?case by (cases n) (auto simp: parse_stmt_list_into.simps)
next
  case (Cons item items)
  then obtain add adds' where adds: "adds = add # adds'" "reads item add" "list_all2 reads items adds'"
    by (auto simp: list_all2_Cons1)
  let ?rest = "concat (map (\<lambda>s. s @ '';'') items) @ CHR ''}'' # s"
  have st: "at (item @ CHR '';'' # ?rest) st" using Cons.prems(2) by simp
  obtain m where m: "n = Suc m" "2 * psize st \<le> m" using Cons.prems(3) by (cases n) auto
  obtain st1 where st1: "parse_stmt_into m b st = Some (Inr (add b, st1))" "at (CHR '';'' # ?rest) st1"
    and ne: "cur_type st \<noteq> RBRACE" "cur_type st \<noteq> END_OF_FILE"
    using adds(2) st m(2) unfolding reads_def by blast
  have "psize st1 \<le> psize st - 1" "0 < psize st"
    using parse_returns(2) [OF m(2) ne(2), of b] st1(1) ne(2) by (auto simp: psize_def tok_size_def)
  then have fuel: "2 * psize (match_token SEMICOLON st1) + 1 \<le> m"
    using psize_match [of SEMICOLON st1] m(2) by linarith
  have "at ?rest (match_token SEMICOLON st1)"
    using at_cur [OF st1(2) lexes_symbols(5)] advance_at [OF st1(2) lexes_symbols(5)]
    by (simp add: match_token_def)
  from Cons.IH [OF adds(3) this fuel, of "add b"] st1(1) ne show ?case
    by (simp add: m parse_stmt_list_into.simps adds)
qed

lemma parse_braced:
  assumes "list_all2 reads items adds" and "at (braced items @ s) st" and "2 * psize st \<le> n + 1"
  shows "\<exists>st1 st2 st3. expect LBRACE st = Inr st1 \<and>
    parse_stmt_list_into n no_stmts st1 = Some (Inr (fold id adds no_stmts, st2)) \<and>
    expect RBRACE st2 = Inr st3 \<and> at s st3"
proof -
  have st: "at (CHR ''{'' # concat (map (\<lambda>s. s @ '';'') items) @ CHR ''}'' # s) st"
    using assms(2) by (simp add: braced_def)
  obtain st1 where st1: "expect LBRACE st = Inr st1"
      "at (concat (map (\<lambda>s. s @ '';'') items) @ CHR ''}'' # s) st1"
    using expect_at [OF st lexes_symbols(1)] by blast
  have fuel: "2 * psize st1 + 1 \<le> n" using psize_expect [OF st1(1)] assms(3) by simp
  obtain st2 where st2: "parse_stmt_list_into n no_stmts st1 = Some (Inr (fold id adds no_stmts, st2))"
      "at (CHR ''}'' # s) st2"
    using parse_list_print [OF assms(1) st1(2) fuel] by blast
  with st1 expect_at [OF st2(2) lexes_symbols(2)] show ?thesis by blast
qed

text \<open>The functions that rebuild a statement record from its parts.\<close>

definition adders :: "ast_node list \<Rightarrow> ast_edge list \<Rightarrow> ast_default list \<Rightarrow> ast_subgraph list \<Rightarrow>
    (stmts \<Rightarrow> stmts) list" where
  "adders ns es ds subs =
     map (\<lambda>d b. b\<lparr>defaults := defaults b @ [d]\<rparr>) ds @ map (\<lambda>n b. b\<lparr>nodes := nodes b @ [n]\<rparr>) ns
     @ map (\<lambda>e b. b\<lparr>edges := edges b @ [e]\<rparr>) es @ map (\<lambda>s b. b\<lparr>subgraphs := subgraphs b @ [s]\<rparr>) subs"

lemma fold_adders:
  "fold id (adders ns es ds subs) no_stmts = \<lparr>nodes = ns, edges = es, defaults = ds, subgraphs = subs\<rparr>"
proof -
  have ds: "fold id (map (\<lambda>d b. b\<lparr>defaults := defaults b @ [d]\<rparr>) ds) b = b\<lparr>defaults := defaults b @ ds\<rparr>" for b
    by (induction ds arbitrary: b) auto
  have ns: "fold id (map (\<lambda>n b. b\<lparr>nodes := nodes b @ [n]\<rparr>) ns) b = b\<lparr>nodes := nodes b @ ns\<rparr>" for b
    by (induction ns arbitrary: b) auto
  have es: "fold id (map (\<lambda>e b. b\<lparr>edges := edges b @ [e]\<rparr>) es) b = b\<lparr>edges := edges b @ es\<rparr>" for b
    by (induction es arbitrary: b) auto
  have ss: "fold id (map (\<lambda>s b. b\<lparr>subgraphs := subgraphs b @ [s]\<rparr>) subs) b
      = b\<lparr>subgraphs := subgraphs b @ subs\<rparr>" for b
    by (induction subs arbitrary: b) auto
  show ?thesis by (simp add: adders_def ds ns es ss no_stmts_def)
qed

lemma reads_items:
  assumes "\<forall>n \<in> set ns. node_printable n" "\<forall>e \<in> set es. edge_printable e"
    "\<forall>d \<in> set ds. default_printable d"
    "\<forall>s \<in> set subs. reads (print_subgraph s) (\<lambda>b. b\<lparr>subgraphs := subgraphs b @ [s]\<rparr>)"
  shows "list_all2 reads (map print_default ds @ map print_node ns @ map print_edge es @ map print_subgraph subs)
    (adders ns es ds subs)"
  unfolding adders_def using assms
  by (intro list_all2_appendI) (auto simp: list_all2_map1 list_all2_map2 list_all2_same
      intro: reads_default reads_node reads_edge)

lemma reads_subgraph:
  "subgraph_printable s \<Longrightarrow> reads (print_subgraph s) (\<lambda>b. b\<lparr>subgraphs := subgraphs b @ [s]\<rparr>)"
proof (induction s)
  case (AstSubgraph i ns es ds subs)
  let ?items = "map print_default ds @ map print_node ns @ map print_edge es @ map print_subgraph subs"
  have items: "list_all2 reads ?items (adders ns es ds subs)"
    using AstSubgraph by (intro reads_items) auto
  have i: "str_ok i" using AstSubgraph.prems by simp
  show ?case
    unfolding reads_def
  proof (intro allI impI)
    fix n b s st
    let ?rest = "braced ?items @ CHR '';'' # s"
    assume "at (print_subgraph (AstSubgraph i ns es ds subs) @ CHR '';'' # s) st" and fuel: "2 * psize st \<le> n"
    then have st: "at (''subgraph'' @ CHR '' '' # print_str i @ ?rest) st" by simp
    have kw: "lexes (''subgraph'' @ CHR '' '' # print_str i @ ?rest) SUBGRAPH ''subgraph'' (CHR '' '' # print_str i @ ?rest)"
      using lexes_keyword [of "''subgraph''" "CHR '' '' # print_str i @ ?rest"] by (simp add: keyword_types)
    note cur = at_cur [OF st kw] and st1 = advance_at [OF st kw]
    have str: "lexes (CHR '' '' # print_str i @ ?rest) QUOTED_STRING i ?rest"
      using lexes_str [OF i] by (intro lexes_blank) simp_all
    note name = at_cur [OF st1 str] and st2 = advance_at [OF st1 str]
    have pos: "0 < psize st" using cur by (simp add: psize_def tok_size_def)
    with fuel obtain m where m: "n = Suc m" by (cases n) auto
    have "psize (advance st) < psize st" using cur by (intro psize_advance) simp
    then have "2 * psize (advance (advance st)) \<le> m + 1"
      using fuel m psize_advance_le [of "advance st"] by linarith
    from parse_braced [OF items st2 this] obtain st3 st4 st5 where
      "expect LBRACE (advance (advance st)) = Inr st3"
      "parse_stmt_list_into m no_stmts st3 = Some (Inr (fold id (adders ns es ds subs) no_stmts, st4))"
      "expect RBRACE st4 = Inr st5" "at (CHR '';'' # s) st5" by blast
    with cur name show "(cur_type st \<noteq> RBRACE \<and> cur_type st \<noteq> END_OF_FILE) \<and>
      (\<exists>st'. parse_stmt_into n b st = Some (Inr (b\<lparr>subgraphs := subgraphs b @ [AstSubgraph i ns es ds subs]\<rparr>, st'))
        \<and> at (CHR '';'' # s) st')"
      by (simp add: m parse_stmt_into.simps parse_subgraph.simps fold_adders subgraph_of_def)
  qed
qed

section \<open>The round trip\<close>

lemma parse_graph_print:
  assumes "graph_printable g"
    and st: "at (''digraph'' @ CHR '' '' # print_str (ag_id g) @ braced (print_stmts (body g))) st"
    and fuel: "2 * psize st \<le> n + 1"
  shows "\<exists>st1 st2 st3. cur_type st = DIGRAPH \<and> cur_type (advance st) = QUOTED_STRING \<and>
    tok_value (cur (advance st)) = ag_id g \<and> expect LBRACE (advance (advance st)) = Inr st1 \<and>
    parse_stmt_list_into n no_stmts st1 = Some (Inr (body g, st2)) \<and> expect RBRACE st2 = Inr st3"
proof -
  let ?rest = "braced (print_stmts (body g)) @ []"
  have kw: "lexes (''digraph'' @ CHR '' '' # print_str (ag_id g) @ ?rest) DIGRAPH ''digraph''
      (CHR '' '' # print_str (ag_id g) @ ?rest)"
    using lexes_keyword [of "''digraph''" "CHR '' '' # print_str (ag_id g) @ ?rest"] by (simp add: keyword_types)
  have st': "at (''digraph'' @ CHR '' '' # print_str (ag_id g) @ ?rest) st" using st by simp
  note cur = at_cur [OF st' kw] and st1 = advance_at [OF st' kw]
  have str: "lexes (CHR '' '' # print_str (ag_id g) @ ?rest) QUOTED_STRING (ag_id g) ?rest"
    using lexes_str [of "ag_id g"] assms(1) by (intro lexes_blank) (simp_all add: graph_printable_def)
  note name = at_cur [OF st1 str] and st2 = advance_at [OF st1 str]
  have items: "list_all2 reads (print_stmts (body g))
      (adders (nodes (body g)) (edges (body g)) (defaults (body g)) (subgraphs (body g)))"
    unfolding print_stmts_def using assms(1)
    by (intro reads_items) (auto simp: graph_printable_def stmts_printable_def reads_subgraph)
  have "2 * psize (advance (advance st)) \<le> n + 1"
    using fuel psize_advance_le [of st] psize_advance_le [of "advance st"] by linarith
  from parse_braced [OF items st2 this] cur name show ?thesis by (auto simp: fold_adders)
qed

text \<open>C15: \<open>DotParser\<close> reads back every syntax tree: for a tree whose strings fit the lexer's limit and
  whose edge statements have at least two nodes, printing it (nested subgraphs, default statements,
  edge chains and all) and parsing the text gives exactly that tree.\<close>

theorem parse_print_roundtrip:
  assumes "graph_printable g"
  shows "parse_dot (print_graph g) = Some (Inr g)"
proof -
  let ?src = "print_graph g"
  let ?st = "init_parser ?src"
  let ?rest = "''digraph'' @ CHR '' '' # print_str (ag_id g) @ braced (print_stmts (body g))"
  have fuel: "2 * psize ?st \<le> (2 * length ?src + 1) + 1" using psize_init [of ?src] by simp
  have g: "\<lparr>strict = strict g, ag_id = ag_id g, body = body g\<rparr> = g" by simp
  show ?thesis
  proof (cases "strict g")
    case False
    then have "at ?rest ?st" using at_init [of ?src] by (simp add: print_graph_def)
    from parse_graph_print [OF assms this fuel] g False show ?thesis
      by (auto simp: parse_dot_def parse_graph_def)
  next
    case True
    then have st: "at (''strict'' @ CHR '' '' # ?rest) ?st" using at_init [of ?src] by (simp add: print_graph_def)
    have kw: "lexes (''strict'' @ CHR '' '' # ?rest) STRICT ''strict'' (CHR '' '' # ?rest)"
      using lexes_keyword [of "''strict''" "CHR '' '' # ?rest"] by (simp add: keyword_types)
    have st1: "at ?rest (advance ?st)" using advance_at [OF st kw] by (rule at_skip)
    have "2 * psize (advance ?st) \<le> (2 * length ?src + 1) + 1"
      using fuel psize_advance_le [of ?st] by linarith
    from parse_graph_print [OF assms st1 this] at_cur [OF st kw] g True show ?thesis
      by (auto simp: parse_dot_def parse_graph_def)
  qed
qed

theorem parse_print_roundtrip_witness:
  "parse_dot (print_graph \<lparr>strict = True, ag_id = ''p'', body =
     \<lparr>nodes = [\<lparr>an_id = ''a'', an_attrs = [(''shape'', ''Mdiamond'')]\<rparr>],
      edges = [\<lparr>node_chain = [''a'', ''b'', ''c''], ae_attrs = []\<rparr>],
      defaults = [\<lparr>target = ''node'', ad_attrs = []\<rparr>],
      subgraphs = [AstSubgraph ''s'' [] [] [] []]\<rparr>\<rparr>) =
   Some (Inr \<lparr>strict = True, ag_id = ''p'', body =
     \<lparr>nodes = [\<lparr>an_id = ''a'', an_attrs = [(''shape'', ''Mdiamond'')]\<rparr>],
      edges = [\<lparr>node_chain = [''a'', ''b'', ''c''], ae_attrs = []\<rparr>],
      defaults = [\<lparr>target = ''node'', ad_attrs = []\<rparr>],
      subgraphs = [AstSubgraph ''s'' [] [] [] []]\<rparr>\<rparr>)"
  by (rule parse_print_roundtrip)
    (simp add: graph_printable_def stmts_printable_def node_printable_def edge_printable_def
      default_printable_def attrs_printable_def str_ok_def MAX_STRING_LENGTH_def)

end
