(* ===== verification/Spec2Isabelle.thy ===== *)
theory Spec2Isabelle
  imports Stage_Status Troubleshooter Fan_In Manager_Loop Needle_Config Interactive_Handler Cli_Commands Run_Registry
    Run_View Validation Dot_Print Stylesheet
begin

text \<open>
  A verification library of needle, a runner for pipelines that are written as DOT graphs.

  \<^bold>\<open>The program.\<close> A pipeline file is parsed (\<open>src/parser\<close>) into a graph of stages (\<open>src/model\<close>), checked by the
  validator (\<open>src/validation\<close>) and executed by \<open>PipelineEngine\<close> (\<open>src/engine/pipeline_engine.cpp\<close>). The engine
  calls the handler of each node (\<open>src/handlers\<close>), stores what the handler reports in the context, counts
  retries and failures, saves a checkpoint, and leaves the node by the edge the selector chooses
  (\<open>src/engine/edge_selector.cpp\<close>). Forks and manager loops run parts of the graph through \<open>execute_subgraph\<close>,
  forks in git worktrees of their own (\<open>src/worktree\<close>). A failed stage may be handed to the troubleshooter
  (\<open>src/troubleshoot\<close>, \<open>src/engine/auto_troubleshoot.cpp\<close>): it diagnoses the stage from the files of the run, backs
  the working tree up, starts an agent, audits what the agent wrote, and tells the engine to retry, to go on or
  to give up.

  \<^bold>\<open>How the model reads.\<close> A class is a \<open>record\<close>, an enumeration a \<open>datatype\<close>, \<open>Result<T>\<close> the sum \<open>string + 'a\<close>,
  \<open>Maybe<T>\<close> an option, \<open>std::map\<close> an association list sorted by its keys (\<open>omap\<close>), \<open>std::string\<close> a list of
  bytes. Methods pass their state explicitly and return it updated. The world outside the program (files, git,
  processes, the clock) is a type variable \<open>'w\<close>; the functions of the operating system, of the JSON library
  and of handlers the engine does not know are arguments of the definitions that use them, gathered in records
  (\<open>config\<close>, \<open>cli_env\<close>, \<open>ts_env\<close>, \<open>view_io\<close> and others). Hypotheses about them are named predicates, and every
  property that has one comes with a witness on a concrete instance.

  \<^bold>\<open>The theories, bottom up.\<close>

  \<^item> \<open>Needle_Prelude\<close>: results, strings, ordered maps, the search and JSON helpers, the locales of keyed stores.
    \<open>Attribute_Map\<close> and \<open>Needle_Context\<close>: \<open>src/model/attribute_map.cpp\<close>, \<open>context.cpp\<close>, \<open>outcome.cpp\<close>, \<open>util/utf8.h\<close>;
    both maps are instances of \<open>sized_store\<close>.
  \<^item> \<open>Dot_Lexer\<close>, \<open>Dot_Parser\<close>, \<open>Dot_Print\<close>, \<open>Graph_Builder\<close>: \<open>src/parser\<close>. The parser returns on every source (two
    steps of fuel per character suffice) and reads printed syntax trees back; the builder gives well-formed graphs.
    \<open>Graph_Model\<close>, \<open>Graph_Search\<close>, \<open>Topology\<close>: \<open>src/model/graph.cpp\<close> and \<open>src/engine/subgraph_topology.cpp\<close>; the
    searches satisfy one contract, the locale \<open>search\<close>.
  \<^item> \<open>Condition\<close>, \<open>Stylesheet\<close>, \<open>Variable_Expansion\<close>, \<open>Edge_Selector\<close>: the small languages inside attributes, and
    the choice of the next edge.
  \<^item> \<open>Retry\<close>, \<open>Checkpoint\<close>, \<open>Resume_Validator\<close>, \<open>Validation\<close>: retry counters, checkpoints with their JSON form and
    both writers (the locale \<open>checkpoint_store\<close>), fingerprints on 64-bit words, and the error rules.
  \<^item> \<open>Engine_State\<close>, \<open>Pipeline_Engine\<close>: the state of the engine and one step of its loop, branch by branch.
    \<open>Engine_Loop\<close> turns the step into a relation with reachable sessions and states the locale \<open>engine_invariant\<close>,
    \<open>Engine_Books\<close> proves the bookkeeping invariant by it, \<open>Pipeline_Run\<close> treats \<open>run\<close> and \<open>resume\<close>,
    \<open>Engine_Termination\<close> the pipelines that always finish, and \<open>Subgraph\<close> the function \<open>execute_subgraph\<close> together
    with the contract \<open>subgraph_executor\<close> that its callers rely on.
  \<^item> \<open>Interviewer\<close>, \<open>Handlers\<close>, \<open>Process_Handlers\<close>, \<open>Interactive_Handler\<close>, \<open>Manager_Loop\<close>, \<open>Worktree\<close>, \<open>Parallel\<close>, \<open>Fan_In\<close>:
    the stage handlers. The branches of a fork are threads: a schedule says which of them moves next, and the
    properties hold for every schedule, or for every fair one where the claim is that the fork returns.
  \<^item> \<open>Cli_Backend\<close>, \<open>Git_State\<close>, \<open>Stage_Status\<close>: \<open>src/backend/cli_backend.cpp\<close>, \<open>src/util/git_state.cpp\<close> and the stage
    directory the engine writes; what is written there is what the diagnosis reads.
  \<^item> \<open>Diagnose\<close>, \<open>Troubleshoot_Types\<close>, \<open>Recovery_Report\<close>, \<open>Write_Hook\<close>, \<open>Troubleshoot_Backup\<close>, \<open>Stream_Parser\<close>,
    \<open>Troubleshooter\<close>: the troubleshooter, in the order in which a session uses them.
  \<^item> \<open>Cli_Args\<close>, \<open>Cli_Commands\<close>, \<open>Needle_Config\<close>: the arguments of the command line with the context they fill, the
    commands \<open>resume\<close>, \<open>retry\<close>, \<open>stage\<close> and \<open>troubleshoot\<close> of \<open>src/cli/router.cpp\<close>, and the configuration file.
  \<^item> \<open>Run_Registry\<close>, \<open>Server_View\<close>, \<open>Run_View\<close>: \<open>src/util/run_registry.cpp\<close> and what \<open>src/server/http_server.cpp\<close> computes
    for its clients: the guards of file requests, the summary of a troubleshooting report, the view of a live run
    from its events and of an old one from its files.

  \<^bold>\<open>What the lemmas show.\<close> The engine keeps its books: the completed nodes are distinct nodes of the graph,
  every checkpoint it saves agrees with them, success means that the exit ran and every goal gate holds, a
  resumed run continues where the saved one went on, and forks, branches, process handlers and the
  troubleshooter keep all of this. Runs and branches end on pipelines whose edges descend, parsers and searches
  end always. What one part writes another reads back: syntax trees, conditions, stylesheets, checkpoints,
  backups, branch results, stage status, git state, reports, the run registry, the views of the server. The guards hold: a blocked resume runs nothing, a changed
  pipeline is not resumed silently, a retry starts again at its stage, the write
  hook and the audit know exactly the files outside the boundary, a rollback touches only recorded files, keys
  are masked, attempts are capped, oversized prompts start no process. The optimised searches agree with path
  specifications.

  \<^bold>\<open>Bounds and fuel.\<close> \<open>execute_loop\<close>, \<open>sub_loop\<close> and the drivers of forks and manager loops take fuel and return
  \<open>None\<close> when it runs out, because retry targets, restart edges and retrying handlers can keep a run going for
  ever. \<open>Engine_Loop\<close> shows that the fuel only cuts runs off: enough of it computes exactly the runs that end.
  \<open>run_terminates\<close>, \<open>branch_terminates\<close> and \<open>parallel_returns\<close> give the amounts for graphs whose edges descend.
  Safety properties are about every amount of fuel. Durations and retry counts are checked against 32-bit
  bounds where the code computes in \<open>int\<close>, hashes are 64-bit words, sizes of texts are unbounded naturals.

  \<^bold>\<open>Not modelled.\<close> The routes and threads of the HTTP server, its dashboard page and the embedded rule texts, \<open>curl\<close>
  clients and the handlers \<open>web_search\<close> and \<open>doc_fetch\<close> are requests and texts around the engine. Process runners and the platform
  layer are system calls: their results are arguments. The other commands of \<open>src/cli/router.cpp\<close> print, edit the
  configuration or start the engine. The linter matches files against regular
  expressions of the standard library. Floating point is left out: \<open>get_double\<close>, the growth of retry delays
  the cost in reports, which is a text here; the seconds of a run view are integers. Log lines, time stamps inside events and the prompt of the
  troubleshooting agent are parameters or absent. Mutexes are not modelled as such: a thread moves in the
  atomic steps its critical sections give.
\<close>

end
